(* ===== verification/DD_Prelude.thy ===== *)
theory DD_Prelude
  imports Main "HOL-Library.Word" "HOL-Library.Sublist"
begin

text \<open>
  Shared vocabulary of the development: machine integers and byte strings, the faults by
  which the C code leaves its defined behaviour, the result type that carries them, the
  little-endian reads and writes the code makes through casted pointers, and the functions
  of the C library (\<open>strchr\<close>, \<open>strncmp\<close>, \<open>strtok_r\<close>, \<open>snprintf\<close>) the sources call on
  strings.

  A C string and the payload of a \<open>zframe_t\<close> are both byte lists. The terminating NUL of a
  C string is not part of the list; \<open>c_string\<close> is the string a terminated buffer denotes.
\<close>

unbundle bit_operations_syntax

section \<open>Types\<close>

type_synonym u8 = "8 word"
type_synonym u16 = "16 word"
type_synonym u32 = "32 word"
type_synonym u64 = "64 word"
type_synonym bytes = "u8 list"

text \<open>How an execution can leave the defined behaviour of the C code, or end the process or its event loop.\<close>

datatype fault =
    Null_deref
  | Use_after_free
  | Uninit_read
  | Out_of_bounds
  | Assert_fail
  | Proc_exit
  | Loop_end
  | Signed_overflow
  | Missing_argument

type_synonym 'a res = "fault + 'a"

section \<open>Results\<close>

definition rbind :: "'a res \<Rightarrow> ('a \<Rightarrow> 'b res) \<Rightarrow> 'b res" where
  "rbind m f = (case m of Inl e \<Rightarrow> Inl e | Inr x \<Rightarrow> f x)"

definition is_ok :: "'a res \<Rightarrow> bool" where
  "is_ok r = (case r of Inl _ \<Rightarrow> False | Inr _ \<Rightarrow> True)"

lemma rbind_Inl [simp]: "rbind (Inl e) f = Inl e"
  by (simp add: rbind_def)

lemma rbind_Inr [simp]: "rbind (Inr x) f = f x"
  by (simp add: rbind_def)

lemma is_ok_simps [simp]: "is_ok (Inr x)" "\<not> is_ok (Inl e)"
  by (simp_all add: is_ok_def)

lemma is_ok_iff: "is_ok r \<longleftrightarrow> (\<exists>x. r = Inr x)"
  by (cases r) auto

lemma is_ok_projr: "is_ok r \<Longrightarrow> r = Inr (projr r)"
  by (cases r) auto

lemma rbind_eq_Inr: "rbind m f = Inr y \<longleftrightarrow> (\<exists>x. m = Inr x \<and> f x = Inr y)"
  by (cases m) auto

lemma rbind_eq_Inl: "rbind m f = Inl e \<longleftrightarrow> m = Inl e \<or> (\<exists>x. m = Inr x \<and> f x = Inl e)"
  by (cases m) auto

lemma is_ok_rbind: "is_ok (rbind m f) \<longleftrightarrow> (\<exists>x. m = Inr x \<and> is_ok (f x))"
  by (cases m) auto

lemma rbind_assoc: "rbind (rbind m f) g = rbind m (\<lambda>x. rbind (f x) g)"
  by (cases m) auto

lemma rbind_cong [fundef_cong]:
  "m = m' \<Longrightarrow> (\<And>x. m' = Inr x \<Longrightarrow> f x = g x) \<Longrightarrow> rbind m f = rbind m' g"
  by (cases m') auto

lemma rbind_elim:
  assumes "rbind m f = Inr y"
  obtains x where "m = Inr x" and "f x = Inr y"
  using assms by (auto simp: rbind_eq_Inr)

text \<open>A loop over a list whose body may fault.\<close>

fun rfold :: "('a \<Rightarrow> 's \<Rightarrow> 's res) \<Rightarrow> 'a list \<Rightarrow> 's \<Rightarrow> 's res" where
  "rfold f [] s = Inr s"
| "rfold f (x # xs) s = rbind (f x s) (rfold f xs)"

lemma rfold_append: "rfold f (xs @ ys) s = rbind (rfold f xs s) (rfold f ys)"
  by (induction xs arbitrary: s) (auto simp: rbind_def split: sum.splits)

lemma rfold_cong [fundef_cong]:
  assumes "xs = ys" "s = t" "\<And>x s. x \<in> set ys \<Longrightarrow> f x s = g x s"
  shows "rfold f xs s = rfold g ys t"
  unfolding assms(1,2) using assms(3)
  by (induction ys arbitrary: t) (auto simp: rbind_def split: sum.split)

lemma rfold_unit: "(\<And>x. x \<in> set xs \<Longrightarrow> f x () = Inr ()) \<Longrightarrow> rfold f xs () = Inr ()"
  by (induction xs) auto

lemma rfold_invariant:
  assumes "\<And>x s s'. x \<in> set xs \<Longrightarrow> I s \<Longrightarrow> f x s = Inr s' \<Longrightarrow> I s'"
    and "I s" and "rfold f xs s = Inr s'"
  shows "I s'"
  using assms
proof (induction xs arbitrary: s)
  case Nil
  then show ?case by simp
next
  case (Cons x xs)
  from Cons.prems(3) obtain t where t: "f x s = Inr t" and rest: "rfold f xs t = Inr s'"
    by (auto simp: rbind_eq_Inr)
  have "I t" using Cons.prems(1,2) t by (meson list.set_intros(1))
  with Cons.IH rest Cons.prems(1) show ?case by (meson list.set_intros(2))
qed

text \<open>What holds of the result of a computation that does not fault.\<close>

definition post :: "'a res \<Rightarrow> ('a \<Rightarrow> bool) \<Rightarrow> bool" where
  "post r P = (case r of Inl e \<Rightarrow> True | Inr x \<Rightarrow> P x)"

lemma post_simps [simp]:
  "post (Inl e) P" "post (Inr x) P \<longleftrightarrow> P x" "post (rbind m f) P \<longleftrightarrow> post m (\<lambda>x. post (f x) P)"
  by (cases m; simp add: post_def)+

lemma post_case [simp]:
  "post (case p of (a, b) \<Rightarrow> f a b) P \<longleftrightarrow> (case p of (a, b) \<Rightarrow> post (f a b) P)"
  "post (case r of None \<Rightarrow> m | Some a \<Rightarrow> g a) P \<longleftrightarrow> (case r of None \<Rightarrow> post m P | Some a \<Rightarrow> post (g a) P)"
  by (simp_all split: prod.split option.split)

lemma post_iff: "post r P \<longleftrightarrow> (\<forall>x. r = Inr x \<longrightarrow> P x)"
  by (cases r) auto

lemma postI: "(\<And>x. r = Inr x \<Longrightarrow> P x) \<Longrightarrow> post r P"
  by (simp add: post_iff)

lemma postD: "post r P \<Longrightarrow> r = Inr x \<Longrightarrow> P x"
  by simp

lemma post_mono: "post r P \<Longrightarrow> (\<And>x. P x \<Longrightarrow> Q x) \<Longrightarrow> post r Q"
  by (simp add: post_iff)

lemma post_if: "(b \<Longrightarrow> post r P) \<Longrightarrow> (\<not> b \<Longrightarrow> post r' P) \<Longrightarrow> post (if b then r else r') P"
  by simp

lemma post_rfold:
  "(\<And>x s. x \<in> set xs \<Longrightarrow> I s \<Longrightarrow> post (f x s) I) \<Longrightarrow> I s \<Longrightarrow> post (rfold f xs s) I"
  unfolding post_iff using rfold_invariant [of xs I f s] by blast

section \<open>Lists\<close>

lemma drop_eq_Cons_length [termination_simp]:
  assumes "drop n xs = y # ys"
  shows "length ys < length xs"
  using arg_cong [OF assms, of length] by simp

lemma Cons_eq_drop_length [termination_simp]: "y # ys = drop n xs \<Longrightarrow> length ys < length xs"
  by (rule drop_eq_Cons_length [OF sym])

lemma drop_eq_Cons_iff: "drop (length p) k = c # r \<and> prefix p k \<longleftrightarrow> k = p @ c # r"
  by (auto simp: prefix_def)

section \<open>Bytes read and written through casted pointers\<close>

definition read_le :: "bytes \<Rightarrow> 'a::len word" where
  "read_le bs = foldr (\<lambda>b acc. ucast b OR push_bit 8 acc) bs 0"

definition le_bytes :: "nat \<Rightarrow> 'a::len word \<Rightarrow> bytes" where
  "le_bytes n w = map (\<lambda>i. ucast (drop_bit (8 * i) w)) [0..<n]"

lemma length_le_bytes [simp]: "length (le_bytes n w) = n"
  by (simp add: le_bytes_def)

lemma bit_read_le:
  "bit (read_le bs :: 'a::len word) n \<longleftrightarrow>
     n < LENGTH('a) \<and> n div 8 < length bs \<and> bit (bs ! (n div 8)) (n mod 8)"
proof (induction bs arbitrary: n)
  case Nil
  then show ?case by (simp add: read_le_def)
next
  case (Cons b bs)
  have "read_le (b # bs) = (ucast b OR push_bit 8 (read_le bs) :: 'a word)"
    by (simp add: read_le_def)
  moreover have "n - 8 < LENGTH('a)" if "n < LENGTH('a)" using that by simp
  ultimately show ?case
    using Cons.IH [of "n - 8"]
    by (cases "n < 8") (auto simp: bit_or_iff bit_push_bit_iff bit_ucast_iff le_div_geq le_mod_geq
        dest: bit_imp_le_length)
qed

text \<open>Writing a word and reading it back gives the word: \<open>memcpy\<close> of an integer and a casted read.\<close>

lemma read_le_le_bytes:
  assumes "LENGTH('a::len) \<le> 8 * n"
  shows "read_le (le_bytes n w) = (w :: 'a word)"
proof (rule bit_word_eqI)
  fix i assume i: "i < LENGTH('a)"
  with assms have "i div 8 < n" by linarith
  with i show "bit (read_le (le_bytes n w) :: 'a word) i = bit w i"
    by (simp add: bit_read_le le_bytes_def bit_ucast_iff bit_drop_bit_eq)
qed

text \<open>
  \<open>*(uint32_t *)zframe_data(f)\<close> and its 64-bit form: a read past the end of a frame shorter
  than the integer is out of bounds; bytes after the integer are ignored.
\<close>

definition rd32 :: "bytes \<Rightarrow> u32 res" where
  "rd32 f = (if length f < 4 then Inl Out_of_bounds else Inr (read_le (take 4 f)))"

definition rd64 :: "bytes \<Rightarrow> u64 res" where
  "rd64 f = (if length f < 8 then Inl Out_of_bounds else Inr (read_le (take 8 f)))"

abbreviation le32 :: "u32 \<Rightarrow> bytes" where
  "le32 \<equiv> le_bytes 4"

abbreviation le64 :: "u64 \<Rightarrow> bytes" where
  "le64 \<equiv> le_bytes 8"

lemma rd32_le32 [simp]: "rd32 (le32 w) = Inr w"
  by (simp add: rd32_def read_le_le_bytes)

lemma rd64_le64 [simp]: "rd64 (le64 w) = Inr w"
  by (simp add: rd64_def read_le_le_bytes)

lemma rd64_Inr_length: "rd64 f = Inr w \<Longrightarrow> 8 \<le> length f"
  by (simp add: rd64_def split: if_splits)

lemma le32_inject [simp]: "le32 v = le32 w \<longleftrightarrow> v = w"
  by (metis Inr_inject rd32_le32)

lemma le64_inject [simp]: "le64 v = le64 w \<longleftrightarrow> v = w"
  by (metis Inr_inject rd64_le64)

section \<open>C strings\<close>

definition ascii :: "string \<Rightarrow> bytes" where
  "ascii s = map of_char s"

definition c_string :: "bytes \<Rightarrow> bytes" where
  "c_string f = takeWhile (\<lambda>b. b \<noteq> 0) f"

lemma c_string_id: "0 \<notin> set s \<Longrightarrow> c_string s = s"
  by (auto simp: c_string_def takeWhile_eq_all_conv)

lemma c_string_nul_free [simp]: "0 \<notin> set (c_string f)"
  by (auto simp: c_string_def dest: set_takeWhileD)

lemma length_ascii [simp]: "length (ascii s) = length s"
  by (simp add: ascii_def)

text \<open>\<open>strncmp(s, p, strlen(p)) == 0\<close>: \<open>p\<close> is a prefix of \<open>s\<close>.\<close>

definition starts_with :: "bytes \<Rightarrow> bytes \<Rightarrow> bool" where
  "starts_with p s = (take (length p) s = p)"

lemma starts_with_prefix: "starts_with p s \<longleftrightarrow> prefix p s"
  by (metis append_eq_conv_conj prefix_def starts_with_def take_is_prefix)

lemma starts_with_append [simp]: "starts_with p (p @ s)"
  by (simp add: starts_with_def)

lemma starts_with_refl [simp]: "starts_with p p"
  by (simp add: starts_with_def)

text \<open>\<open>strchr(s, c)\<close>: the rest of the string from the first \<open>c\<close> on, or NULL.\<close>

definition strchr :: "bytes \<Rightarrow> u8 \<Rightarrow> bytes option" where
  "strchr s c = (let r = dropWhile (\<lambda>b. b \<noteq> c) s in if r = [] then None else Some r)"

lemma strchr_None: "strchr s c = None \<longleftrightarrow> c \<notin> set s"
  by (auto simp: strchr_def Let_def dropWhile_eq_Nil_conv)

lemma strchr_append_first: "c \<notin> set p \<Longrightarrow> strchr (p @ c # s) c = Some (c # s)"
  by (induction p) (auto simp: strchr_def)

text \<open>\<open>strchr(s, c) + 1\<close> used as a string: with no \<open>c\<close> in \<open>s\<close> this is a pointer near NULL.\<close>

definition after_char :: "bytes \<Rightarrow> u8 \<Rightarrow> bytes res" where
  "after_char s c = (case strchr s c of None \<Rightarrow> Inl Null_deref | Some r \<Rightarrow> Inr (tl r))"

lemma after_char_append_first: "c \<notin> set p \<Longrightarrow> after_char (p @ c # s) c = Inr s"
  by (simp add: after_char_def strchr_append_first)

lemma after_char_ok: "c \<in> set s \<Longrightarrow> is_ok (after_char s c)"
  using strchr_None [of s c] by (auto simp: after_char_def split: option.splits)

text \<open>\<open>strtok\<close> with a single delimiter: the non-empty pieces between delimiters.\<close>

fun strtok_aux :: "u8 \<Rightarrow> bytes \<Rightarrow> bytes \<Rightarrow> bytes list" where
  "strtok_aux d acc [] = (if acc = [] then [] else [rev acc])"
| "strtok_aux d acc (b # bs) =
     (if b = d then (if acc = [] then [] else [rev acc]) @ strtok_aux d [] bs
      else strtok_aux d (b # acc) bs)"

definition strtok :: "u8 \<Rightarrow> bytes \<Rightarrow> bytes list" where
  "strtok d s = strtok_aux d [] s"

lemma strtok_aux_token:
  "t \<in> set (strtok_aux d acc s) \<Longrightarrow> d \<notin> set acc \<Longrightarrow> t \<noteq> [] \<and> d \<notin> set t"
  by (induction d acc s rule: strtok_aux.induct) (auto split: if_splits)

lemma strtok_token: "t \<in> set (strtok d s) \<Longrightarrow> t \<noteq> [] \<and> d \<notin> set t"
  unfolding strtok_def by (rule strtok_aux_token) auto

lemma strtok_aux_sep: "d \<notin> set t \<Longrightarrow> strtok_aux d acc (t @ s) = strtok_aux d (rev t @ acc) s"
  by (induction t arbitrary: acc) auto

lemma strtok_sep: "d \<notin> set t \<Longrightarrow> t \<noteq> [] \<Longrightarrow> strtok d (d # t @ d # s) = t # strtok d (d # s)"
  by (simp add: strtok_def strtok_aux_sep)

text \<open>\<open>snprintf(buf, n, ...)\<close> of a string that renders as \<open>s\<close>: at most \<open>n - 1\<close> bytes are kept.\<close>

definition snprintf :: "nat \<Rightarrow> bytes \<Rightarrow> bytes" where
  "snprintf n s = take (n - 1) s"

lemma snprintf_fits [simp]: "length s < n \<Longrightarrow> snprintf n s = s"
  by (simp add: snprintf_def)

lemma length_snprintf: "0 < n \<Longrightarrow> length (snprintf n s) < n"
  by (simp add: snprintf_def min_def) linarith

end
