(* ===== verification/Base64.thy ===== *)
theory Base64
  imports DD_Prelude
begin

text \<open>
  The base64 codec of \<open>src/src/lib/cencode.c\<close> and \<open>src/src/lib/cdecode.c\<close>, through which all
  key material is read and generated. Both routines are coroutines over a saved state, so that
  input may arrive in blocks; here one character of input is one step of the state machine and
  a block is the loop over its characters.

  \<open>char\<close> is signed (as on the platforms the program is built for), so the range test of
  \<open>base64_decode_value\<close> is modelled on \<open>sint\<close>. The decoder writes its output in place: the
  list returned is the finished bytes, and \<open>plainchar\<close> is the partly filled byte stored after
  them.
\<close>

section \<open>Decoder\<close>

definition decoding :: "int list" where
  "decoding =
     [62, -1, -1, -1, 63, 52, 53, 54, 55, 56, 57, 58, 59, 60, 61, -1,
      -1, -1, -2, -1, -1, -1, 0,  1,  2,  3,  4,  5,  6,  7,  8,  9,
      10, 11, 12, 13, 14, 15, 16, 17, 18, 19, 20, 21, 22, 23, 24, 25,
      -1, -1, -1, -1, -1, -1, 26, 27, 28, 29, 30, 31, 32, 33, 34, 35,
      36, 37, 38, 39, 40, 41, 42, 43, 44, 45, 46, 47, 48, 49, 50, 51]"

text \<open>
  The guard lets \<open>value_in = decoding_size\<close> through, one past the end of the table.
\<close>

definition base64_decode_value :: "u8 \<Rightarrow> int res" where
  "base64_decode_value value_in =
     (let v = sint (value_in - 43); decoding_size = int (length decoding)
      in if v < 0 \<or> v > decoding_size then Inr (-1)
         else if nat v < length decoding then Inr (decoding ! nat v)
         else Inl Out_of_bounds)"

datatype base64_decodestep = step_a | step_b | step_c | step_d

record base64_decodestate =
  dstep :: base64_decodestep
  plainchar :: u8

definition base64_init_decodestate :: base64_decodestate where
  "base64_init_decodestate = \<lparr>dstep = step_a, plainchar = 0\<rparr>"

text \<open>
  One iteration of the \<open>do ... while (fragment < 0)\<close> loops, with the assignments that follow
  when the loop is left: the bytes finished by this character and the next state.
\<close>

definition base64_decode_char :: "base64_decodestate \<Rightarrow> u8 \<Rightarrow> (bytes \<times> base64_decodestate) res" where
  "base64_decode_char st codechar =
     rbind (base64_decode_value codechar) (\<lambda>v.
       if v < 0 then Inr ([], st)
       else (let fragment = (word_of_int v :: u8) in
         case dstep st of
           step_a \<Rightarrow> Inr ([], \<lparr>dstep = step_b, plainchar = push_bit 2 (fragment AND 0x3f)\<rparr>)
         | step_b \<Rightarrow> Inr ([plainchar st OR drop_bit 4 (fragment AND 0x30)],
                         \<lparr>dstep = step_c, plainchar = push_bit 4 (fragment AND 0x0f)\<rparr>)
         | step_c \<Rightarrow> Inr ([plainchar st OR drop_bit 2 (fragment AND 0x3c)],
                         \<lparr>dstep = step_d, plainchar = push_bit 6 (fragment AND 0x03)\<rparr>)
         | step_d \<Rightarrow> Inr ([plainchar st OR (fragment AND 0x3f)],
                         \<lparr>dstep = step_a, plainchar = plainchar st OR (fragment AND 0x3f)\<rparr>)))"

fun base64_decode_block :: "bytes \<Rightarrow> base64_decodestate \<Rightarrow> (bytes \<times> base64_decodestate) res" where
  "base64_decode_block [] st = Inr ([], st)"
| "base64_decode_block (c # cs) st =
     rbind (base64_decode_char st c) (\<lambda>(out, st).
     rbind (base64_decode_block cs st) (\<lambda>(out', st). Inr (out @ out', st)))"

section \<open>Encoder\<close>

definition CHARS_PER_LINE :: nat where "CHARS_PER_LINE = 72"

datatype base64_encodestep = step_A | step_B | step_C

record base64_encodestate =
  estep :: base64_encodestep
  eresult :: u8
  stepcount :: nat

definition base64_init_encodestate :: base64_encodestate where
  "base64_init_encodestate = \<lparr>estep = step_A, eresult = 0, stepcount = 0\<rparr>"

definition encoding :: bytes where
  "encoding = ascii ''ABCDEFGHIJKLMNOPQRSTUVWXYZabcdefghijklmnopqrstuvwxyz0123456789+/''"

text \<open>The argument is a signed \<open>char\<close>; the callers only pass values of six bits.\<close>

definition base64_encode_value :: "u8 \<Rightarrow> u8 res" where
  "base64_encode_value value_in =
     (if sint value_in > 63 then Inr (of_char CHR ''='')
      else if sint value_in < 0 then Inl Out_of_bounds
      else Inr (encoding ! nat (sint value_in)))"

definition base64_encode_char :: "base64_encodestate \<Rightarrow> u8 \<Rightarrow> (bytes \<times> base64_encodestate) res" where
  "base64_encode_char st fragment =
     (case estep st of
        step_A \<Rightarrow>
          rbind (base64_encode_value (drop_bit 2 (fragment AND 0xfc))) (\<lambda>c.
          Inr ([c], st\<lparr>estep := step_B, eresult := push_bit 4 (fragment AND 0x03)\<rparr>))
      | step_B \<Rightarrow>
          rbind (base64_encode_value (eresult st OR drop_bit 4 (fragment AND 0xf0))) (\<lambda>c.
          Inr ([c], st\<lparr>estep := step_C, eresult := push_bit 2 (fragment AND 0x0f)\<rparr>))
      | step_C \<Rightarrow>
          rbind (base64_encode_value (eresult st OR drop_bit 6 (fragment AND 0xc0))) (\<lambda>c.
          rbind (base64_encode_value (fragment AND 0x3f)) (\<lambda>d.
          let n = stepcount st + 1 in
            if n = CHARS_PER_LINE div 4
            then Inr ([c, d, 10], st\<lparr>estep := step_A, eresult := fragment AND 0x3f, stepcount := 0\<rparr>)
            else Inr ([c, d], st\<lparr>estep := step_A, eresult := fragment AND 0x3f, stepcount := n\<rparr>))))"

fun base64_encode_block :: "bytes \<Rightarrow> base64_encodestate \<Rightarrow> (bytes \<times> base64_encodestate) res" where
  "base64_encode_block [] st = Inr ([], st)"
| "base64_encode_block (b # bs) st =
     rbind (base64_encode_char st b) (\<lambda>(out, st).
     rbind (base64_encode_block bs st) (\<lambda>(out', st). Inr (out @ out', st)))"

definition base64_encode_blockend :: "base64_encodestate \<Rightarrow> bytes res" where
  "base64_encode_blockend st =
     (case estep st of
        step_B \<Rightarrow> rbind (base64_encode_value (eresult st)) (\<lambda>c. Inr [c, of_char CHR ''='', of_char CHR ''='', 10])
      | step_C \<Rightarrow> rbind (base64_encode_value (eresult st)) (\<lambda>c. Inr [c, of_char CHR ''='', 10])
      | step_A \<Rightarrow> Inr [10])"

text \<open>A whole encoding: one block and its end, as the key generator calls them.\<close>

definition base64_encode :: "bytes \<Rightarrow> bytes res" where
  "base64_encode bs =
     rbind (base64_encode_block bs base64_init_encodestate) (\<lambda>(out, st).
     rbind (base64_encode_blockend st) (\<lambda>fin. Inr (out @ fin)))"

section \<open>The alphabet\<close>

lemma all_nat_less_code: "(\<forall>n < k. P n) \<longleftrightarrow> list_all P [0..<k]"
  by (auto simp: list_all_iff)

lemma encoding_code [code]:
  "encoding =
     [
      65, 66, 67, 68, 69, 70, 71, 72, 73, 74, 75, 76, 77, 78, 79, 80, 81, 82, 83, 84, 85, 86,
      87, 88, 89, 90, 97, 98, 99, 100, 101, 102, 103, 104, 105, 106, 107, 108, 109, 110, 111,
      112, 113, 114, 115, 116, 117, 118, 119, 120, 121, 122, 48, 49, 50, 51, 52, 53, 54, 55,
      56, 57, 43, 47]"
  by (simp add: encoding_def ascii_def)

lemma encode_alphabet: "map (\<lambda>n. base64_encode_value (of_nat n)) [0..<64] = map Inr encoding"
  by code_simp

lemma decode_alphabet: "map base64_decode_value encoding = map (\<lambda>n. Inr (int n)) [0..<64]"
  by code_simp

lemma length_encoding: "length encoding = 64"
  by code_simp

lemma decode_encode_nat:
  assumes "n < 64"
  shows "base64_encode_value (of_nat n) = Inr (encoding ! n)"
    and "base64_decode_value (encoding ! n) = Inr (int n)"
  using arg_cong [OF encode_alphabet, of "\<lambda>xs. xs ! n"] arg_cong [OF decode_alphabet, of "\<lambda>xs. xs ! n"]
    assms by (simp_all add: length_encoding del: upt_conv_Cons)

lemma encode_value_six_bits:
  assumes "unat v < 64"
  obtains c where "base64_encode_value v = Inr c" and "base64_decode_value c = Inr (uint v)"
proof -
  have "base64_encode_value (of_nat (unat v)) = Inr (encoding ! unat v)"
    and "base64_decode_value (encoding ! unat v) = Inr (int (unat v))"
    using decode_encode_nat assms by blast+
  then show thesis using that by simp
qed

lemma decode_value_skips:
  "base64_decode_value 61 = Inr (-2)" "base64_decode_value 10 = Inr (-1)"
  by code_simp+

text \<open>Words of six bits arise from masks and shifts; the identities are checked bit by bit.\<close>

lemma word8_eqI: "(\<And>n. n < 8 \<Longrightarrow> bit (v :: u8) n = bit w n) \<Longrightarrow> v = w"
  by (rule bit_word_eqI) simp

lemma less8_cases:
  "(n::nat) < 8 \<Longrightarrow> n = 0 \<or> n = 1 \<or> n = 2 \<or> n = 3 \<or> n = 4 \<or> n = 5 \<or> n = 6 \<or> n = 7"
  by linarith

definition six_bits :: "u8 \<Rightarrow> bool" where
  "six_bits v \<longleftrightarrow> v AND 0x3f = v"

lemma six_bits_less: "six_bits v \<Longrightarrow> unat v < 64"
proof -
  assume "six_bits v"
  then have "v \<le> 0x3f" using word_and_le1 [of v "0x3f"] by (simp add: six_bits_def)
  then show ?thesis by (simp add: word_le_nat_alt)
qed

lemma six_bits_intros:
  "six_bits (drop_bit 2 (b AND 0xfc))"
  "six_bits (push_bit 4 (a AND 0x03) OR drop_bit 4 (b AND 0xf0))"
  "six_bits (push_bit 2 (a AND 0x0f) OR drop_bit 6 (b AND 0xc0))"
  "six_bits (b AND 0x3f)" "six_bits (push_bit 4 (b AND 0x03))" "six_bits (push_bit 2 (b AND 0x0f))"
  unfolding six_bits_def
  by (rule word8_eqI; drule less8_cases; elim disjE; simp add: bit_simps)+

lemma regroup_bits:
  "push_bit 2 (drop_bit 2 (b AND 0xfc) AND 0x3f) = (b AND 0xfc :: u8)"
  "(a AND 0xfc) OR drop_bit 4 ((push_bit 4 (a AND 0x03) OR drop_bit 4 (b AND 0xf0)) AND 0x30) = (a :: u8)"
  "push_bit 4 ((push_bit 4 (a AND 0x03) OR drop_bit 4 (b AND 0xf0)) AND 0x0f) = (b AND 0xf0 :: u8)"
  "(a AND 0xf0) OR drop_bit 2 ((push_bit 2 (a AND 0x0f) OR drop_bit 6 (b AND 0xc0)) AND 0x3c) = (a :: u8)"
  "push_bit 6 ((push_bit 2 (a AND 0x0f) OR drop_bit 6 (b AND 0xc0)) AND 0x03) = (b AND 0xc0 :: u8)"
  "(b AND 0xc0) OR ((b AND 0x3f) AND 0x3f) = (b :: u8)"
  "(a AND 0xfc) OR drop_bit 4 (push_bit 4 (a AND 0x03) AND 0x30) = (a :: u8)"
  "(a AND 0xf0) OR drop_bit 2 (push_bit 2 (a AND 0x0f) AND 0x3c) = (a :: u8)"
  by (rule word8_eqI; drule less8_cases; elim disjE; simp add: bit_simps)+

section \<open>Steps of the two machines\<close>

lemma decode_block_append:
  "base64_decode_block (xs @ ys) st =
     rbind (base64_decode_block xs st) (\<lambda>(out, st).
     rbind (base64_decode_block ys st) (\<lambda>(out', st). Inr (out @ out', st)))"
  by (induction xs arbitrary: st) (auto simp: rbind_def split: sum.splits prod.splits)

lemma encode_six:
  assumes "six_bits v"
  obtains c where "base64_encode_value v = Inr c"
    and "\<And>d. base64_decode_char d c = (case dstep d of
           step_a \<Rightarrow> Inr ([], \<lparr>dstep = step_b, plainchar = push_bit 2 (v AND 0x3f)\<rparr>)
         | step_b \<Rightarrow> Inr ([plainchar d OR drop_bit 4 (v AND 0x30)],
                         \<lparr>dstep = step_c, plainchar = push_bit 4 (v AND 0x0f)\<rparr>)
         | step_c \<Rightarrow> Inr ([plainchar d OR drop_bit 2 (v AND 0x3c)],
                         \<lparr>dstep = step_d, plainchar = push_bit 6 (v AND 0x03)\<rparr>)
         | step_d \<Rightarrow> Inr ([plainchar d OR (v AND 0x3f)],
                         \<lparr>dstep = step_a, plainchar = plainchar d OR (v AND 0x3f)\<rparr>))"
proof -
  obtain c where "base64_encode_value v = Inr c" and "base64_decode_value c = Inr (uint v)"
    using encode_value_six_bits six_bits_less [OF assms] by blast
  then show thesis
    by (intro that [of c]) (simp_all add: base64_decode_char_def Let_def)
qed

lemma decode_char_skip [simp]:
  "base64_decode_char d 61 = Inr ([], d)" "base64_decode_char d 10 = Inr ([], d)"
  by (simp_all only: base64_decode_char_def decode_value_skips) simp_all

text \<open>
  The states of encoder and decoder after the same input: they are in the same step, and the
  byte the encoder has split (\<open>pend\<close>) is partly with the decoder and partly in \<open>eresult\<close>.
\<close>

definition coupled :: "base64_encodestate \<Rightarrow> base64_decodestate \<Rightarrow> bytes \<Rightarrow> bool" where
  "coupled e d pend =
     (case estep e of
        step_A \<Rightarrow> dstep d = step_a \<and> pend = []
      | step_B \<Rightarrow> (\<exists>b. dstep d = step_b \<and> pend = [b] \<and> plainchar d = b AND 0xfc \<and>
                    eresult e = push_bit 4 (b AND 0x03))
      | step_C \<Rightarrow> (\<exists>b. dstep d = step_c \<and> pend = [b] \<and> plainchar d = b AND 0xf0 \<and>
                    eresult e = push_bit 2 (b AND 0x0f)))"

lemma coupled_char:
  assumes "coupled e d pend"
  shows "\<exists>cs e' out d' pend'. base64_encode_char e b = Inr (cs, e') \<and>
     base64_decode_block cs d = Inr (out, d') \<and> coupled e' d' pend' \<and> out @ pend' = pend @ [b]"
proof (cases "estep e")
  case step_A
  then have a: "dstep d = step_a" "pend = []" using assms by (auto simp: coupled_def)
  obtain c where c: "base64_encode_value (drop_bit 2 (b AND 0xfc)) = Inr c"
    and "base64_decode_char d c = Inr ([], \<lparr>dstep = step_b, plainchar = b AND 0xfc\<rparr>)"
    using a(1) by (rule_tac encode_six [OF six_bits_intros(1) [of b]]) (simp only: regroup_bits base64_decodestep.case)
  with step_A a show ?thesis
    by (simp add: base64_encode_char_def coupled_def)
next
  case step_B
  then obtain a where a: "dstep d = step_b" "pend = [a]" "plainchar d = a AND 0xfc"
      "eresult e = push_bit 4 (a AND 0x03)"
    using assms by (auto simp: coupled_def)
  obtain c where "base64_encode_value (push_bit 4 (a AND 0x03) OR drop_bit 4 (b AND 0xf0)) = Inr c"
    and "base64_decode_char d c = Inr ([a], \<lparr>dstep = step_c, plainchar = b AND 0xf0\<rparr>)"
    by (rule encode_six [OF six_bits_intros(2) [of a b]])
      (simp only: a regroup_bits base64_decodestep.case)
  with step_B a show ?thesis
    by (simp add: base64_encode_char_def coupled_def)
next
  case step_C
  then obtain a where a: "dstep d = step_c" "pend = [a]" "plainchar d = a AND 0xf0"
      "eresult e = push_bit 2 (a AND 0x0f)"
    using assms by (auto simp: coupled_def)
  obtain c where c: "base64_encode_value (push_bit 2 (a AND 0x0f) OR drop_bit 6 (b AND 0xc0)) = Inr c"
    "base64_decode_char d c = Inr ([a], \<lparr>dstep = step_d, plainchar = b AND 0xc0\<rparr>)"
    by (rule encode_six [OF six_bits_intros(3) [of a b]])
      (simp only: a regroup_bits base64_decodestep.case)
  obtain c' where "base64_encode_value (b AND 0x3f) = Inr c'"
    "base64_decode_char \<lparr>dstep = step_d, plainchar = b AND 0xc0\<rparr> c' =
       Inr ([b], \<lparr>dstep = step_a, plainchar = b\<rparr>)"
    by (rule encode_six [OF six_bits_intros(4) [of b]])
      (simp only: regroup_bits base64_decodestep.case base64_decodestate.simps)
  with c step_C a show ?thesis
    by (simp add: base64_encode_char_def coupled_def Let_def)
qed

lemma coupled_block:
  "coupled e d pend \<Longrightarrow>
     \<exists>cs e' out d' pend'. base64_encode_block bs e = Inr (cs, e') \<and>
       base64_decode_block cs d = Inr (out, d') \<and> coupled e' d' pend' \<and> out @ pend' = pend @ bs"
proof (induction bs arbitrary: e d pend)
  case Nil
  then show ?case by auto
next
  case (Cons b bs)
  obtain cs e1 out1 d1 pend1 where 1: "base64_encode_char e b = Inr (cs, e1)"
    "base64_decode_block cs d = Inr (out1, d1)" "coupled e1 d1 pend1" "out1 @ pend1 = pend @ [b]"
    using coupled_char [OF Cons.prems] by metis
  obtain cs2 e2 out2 d2 pend2 where 2: "base64_encode_block bs e1 = Inr (cs2, e2)"
    "base64_decode_block cs2 d1 = Inr (out2, d2)" "coupled e2 d2 pend2" "out2 @ pend2 = pend1 @ bs"
    using Cons.IH [OF 1(3)] by metis
  have "(out1 @ out2) @ pend2 = pend @ b # bs"
    using 1(4) 2(4) by (metis append.assoc append_Cons append_Nil)
  with 1 2 show ?case by (fastforce simp: decode_block_append)
qed

lemma coupled_end:
  assumes "coupled e d pend"
  shows "\<exists>fin d'. base64_encode_blockend e = Inr fin \<and> base64_decode_block fin d = Inr (pend, d')"
proof (cases "estep e")
  case step_A
  with assms show ?thesis by (simp add: base64_encode_blockend_def coupled_def)
next
  case step_B
  then obtain a where a: "dstep d = step_b" "pend = [a]" "plainchar d = a AND 0xfc"
      "eresult e = push_bit 4 (a AND 0x03)"
    using assms by (auto simp: coupled_def)
  obtain c d' where "base64_encode_value (push_bit 4 (a AND 0x03)) = Inr c"
    and "base64_decode_char d c = Inr ([a], d')"
    by (rule encode_six [OF six_bits_intros(5) [of a]])
      (simp only: a regroup_bits base64_decodestep.case)
  with step_B a show ?thesis by (simp add: base64_encode_blockend_def)
next
  case step_C
  then obtain a where a: "dstep d = step_c" "pend = [a]" "plainchar d = a AND 0xf0"
      "eresult e = push_bit 2 (a AND 0x0f)"
    using assms by (auto simp: coupled_def)
  obtain c d' where "base64_encode_value (push_bit 2 (a AND 0x0f)) = Inr c"
    and "base64_decode_char d c = Inr ([a], d')"
    by (rule encode_six [OF six_bits_intros(6) [of a]])
      (simp only: a regroup_bits base64_decodestep.case)
  with step_C a show ?thesis by (simp add: base64_encode_blockend_def)
qed

lemma encode_decode_ex:
  "\<exists>cs d. base64_encode bs = Inr cs \<and> base64_decode_block cs base64_init_decodestate = Inr (bs, d)"
proof -
  have "coupled base64_init_encodestate base64_init_decodestate []"
    by (simp add: coupled_def base64_init_encodestate_def base64_init_decodestate_def)
  then obtain cs e out d pend where 1: "base64_encode_block bs base64_init_encodestate = Inr (cs, e)"
    "base64_decode_block cs base64_init_decodestate = Inr (out, d)" "coupled e d pend" "out @ pend = bs"
    using coupled_block [of base64_init_encodestate base64_init_decodestate "[]" bs] by auto
  obtain fin d' where "base64_encode_blockend e = Inr fin" "base64_decode_block fin d = Inr (pend, d')"
    using coupled_end [OF 1(3)] by blast
  with 1 show ?thesis by (auto simp: base64_encode_def decode_block_append)
qed

section \<open>Ranges\<close>

text \<open>Every value but one is decoded without leaving the table.\<close>

lemma decode_value_fault_nat:
  "\<forall>n < 256. (case base64_decode_value (of_nat n) of
      Inl f \<Rightarrow> n = 123 \<and> f = Out_of_bounds
    | Inr v \<Rightarrow> n \<noteq> 123 \<and> -2 \<le> v \<and> v \<le> 63)"
  unfolding all_nat_less_code by code_simp

lemma unat_less_256: "unat (c :: u8) < 256"
  using unsigned_less [of c] by simp

lemma decode_value_range:
  "case base64_decode_value c of Inl f \<Rightarrow> c = 123 \<and> f = Out_of_bounds
     | Inr v \<Rightarrow> c \<noteq> 123 \<and> -2 \<le> v \<and> v \<le> 63"
proof -
  have "unat c < 256" by (rule unat_less_256)
  with decode_value_fault_nat
  have "case base64_decode_value (of_nat (unat c)) of
      Inl f \<Rightarrow> unat c = 123 \<and> f = Out_of_bounds
    | Inr v \<Rightarrow> unat c \<noteq> 123 \<and> -2 \<le> v \<and> v \<le> 63" by blast
  moreover have "unat c = 123 \<longleftrightarrow> c = 123"
    by (simp add: word_unat_eq_iff)
  ultimately show ?thesis by (simp split: sum.splits)
qed

lemma decode_char_ok_iff: "is_ok (base64_decode_char st c) \<longleftrightarrow> c \<noteq> 123"
proof (cases "base64_decode_value c")
  case (Inl f)
  then show ?thesis using decode_value_range [of c] by (simp add: base64_decode_char_def)
next
  case (Inr v)
  then show ?thesis using decode_value_range [of c]
    by (simp add: base64_decode_char_def Let_def split: base64_decodestep.splits)
qed

lemma decode_block_ok_iff: "is_ok (base64_decode_block cs st) \<longleftrightarrow> 123 \<notin> set cs"
proof (induction cs arbitrary: st)
  case Nil
  then show ?case by simp
next
  case (Cons c cs)
  then show ?case using decode_char_ok_iff [of st c]
    by (cases "base64_decode_char st c")
      (fastforce simp: is_ok_iff rbind_eq_Inr split: prod.splits)+
qed

lemma base64_decode_in_bounds: "base64_decode_block cs st = Inl f \<Longrightarrow> f = Out_of_bounds"
proof (induction cs arbitrary: st)
  case (Cons c cs)
  have "base64_decode_char st c = Inl f \<Longrightarrow> f = Out_of_bounds"
    using decode_value_range [of c]
    by (auto simp: base64_decode_char_def Let_def rbind_eq_Inl split: if_splits base64_decodestep.splits)
  then show ?case using Cons by (fastforce simp: rbind_eq_Inl split: prod.splits)
qed simp

section \<open>Properties\<close>

text \<open>
  C40. Encoding any byte string succeeds, and decoding the text gives the string back, however the
  text is cut in two blocks: the decoder goes on from the state in which it left the first.
\<close>

theorem base64_roundtrip:
  "\<exists>cs. base64_encode bs = Inr cs \<and>
     (\<forall>n. \<exists>out1 st out2 st'. base64_decode_block (take n cs) base64_init_decodestate = Inr (out1, st) \<and>
        base64_decode_block (drop n cs) st = Inr (out2, st') \<and> out1 @ out2 = bs)"
proof -
  obtain cs d where cs: "base64_encode bs = Inr cs" "base64_decode_block cs base64_init_decodestate = Inr (bs, d)"
    using encode_decode_ex by blast
  have "\<exists>out1 st out2 st'. base64_decode_block (take n cs) base64_init_decodestate = Inr (out1, st) \<and>
      base64_decode_block (drop n cs) st = Inr (out2, st') \<and> out1 @ out2 = bs" for n
    using decode_block_append [of "take n cs" "drop n cs" base64_init_decodestate, symmetric]
    by (auto simp: cs(2) rbind_eq_Inr split: prod.splits)
  with cs(1) show ?thesis by blast
qed

text \<open>
  The decoder stays inside its table exactly as long as the input has no opening brace: the
  range test of \<open>base64_decode_value\<close> lets through one value too many, the one of that character.
\<close>

theorem base64_decode_in_bounds_iff:
  "base64_decode_block cs st = Inl Out_of_bounds \<longleftrightarrow> of_char (CHR ''{'') \<in> set cs"
  using base64_decode_in_bounds [of cs st] decode_block_ok_iff [of cs st]
  by (cases "base64_decode_block cs st") auto

end
