(* ===== verification/Stripes.thy ===== *)
theory Stripes
  imports DD_Prelude
begin

text \<open>
  What the two hashes of \<open>src/src/hash/xxhash.c\<close> have in common: a loop over stripes of a fixed size, a buffer for
  the bytes of an unfinished stripe, and the argument that feeding data in pieces consumes the same stripes as feeding
  it at once. The locale \<open>striped\<close> is what a hash has to show of its stripe, and \<open>stream_hash\<close> is the contract of a
  streaming hash.
\<close>

section \<open>The loop over stripes\<close>

text \<open>It leaves the lanes and the bytes not yet consumed.\<close>

function stripes :: "nat \<Rightarrow> ('v \<Rightarrow> bytes \<Rightarrow> 'v) \<Rightarrow> 'v \<Rightarrow> bytes \<Rightarrow> 'v \<times> bytes" where
  "stripes S f vs p = (if 0 < S \<and> S \<le> length p then stripes S f (f vs p) (drop S p) else (vs, p))"
  by pat_completeness auto
termination
  by (relation "measure (\<lambda>(S, f, vs, p). length p)") auto

declare stripes.simps [simp del]

lemma stripes_short: "length p < S \<Longrightarrow> stripes S f vs p = (vs, p)"
  by (subst stripes.simps) simp

lemma stripes_long: "0 < S \<Longrightarrow> S \<le> length p \<Longrightarrow> stripes S f vs p = stripes S f (f vs p) (drop S p)"
  by (subst stripes.simps) simp

lemma stripes_rest_short: "0 < S \<Longrightarrow> length (snd (stripes S f vs p)) < S"
  by (induction S f vs p rule: stripes.induct) (subst stripes.simps, auto)

section \<open>The buffer\<close>

text \<open>\<open>memcpy\<close> into the buffer at an offset.\<close>

definition buf_write :: "bytes \<Rightarrow> nat \<Rightarrow> bytes \<Rightarrow> bytes" where
  "buf_write buf off src = take off buf @ src @ drop (off + length src) buf"

lemma length_buf_write: "off + length src \<le> length buf \<Longrightarrow> length (buf_write buf off src) = length buf"
  by (simp add: buf_write_def)

lemma take_buf_write: "off \<le> length buf \<Longrightarrow> take (off + length src) (buf_write buf off src) = take off buf @ src"
  by (simp add: buf_write_def)

lemma buffer_filled:
  assumes "length buf = S" "off < S" "\<not> off + length y < S"
  shows "buf_write buf off (take (S - off) y) = take off buf @ take (S - off) y" "length (take off buf @ take (S - off) y) = S"
  using assms by (simp_all add: buf_write_def)

text \<open>An update on lanes, buffer and number of bytes in the buffer.\<close>

definition absorb :: "nat \<Rightarrow> ('v \<Rightarrow> bytes \<Rightarrow> 'v) \<Rightarrow> 'v \<times> bytes \<times> nat \<Rightarrow> bytes \<Rightarrow> 'v \<times> bytes \<times> nat" where
  "absorb S f st y = (case st of (vs, mem, ms) \<Rightarrow>
     if ms + length y < S then (vs, buf_write mem ms y, ms + length y)
     else
       let m = (if ms \<noteq> 0 then buf_write mem ms (take (S - ms) y) else mem);
           (ws, q) = stripes S f (if ms \<noteq> 0 then f vs m else vs) (if ms \<noteq> 0 then drop (S - ms) y else y)
       in (ws, if q \<noteq> [] then buf_write m 0 q else m, length q))"

text \<open>The state after the bytes \<open>x\<close>: the lanes after every whole stripe, and the rest at the start of the buffer.\<close>

definition absorbed :: "nat \<Rightarrow> ('v \<Rightarrow> bytes \<Rightarrow> 'v) \<Rightarrow> 'v \<Rightarrow> 'v \<times> bytes \<times> nat \<Rightarrow> bytes \<Rightarrow> bool" where
  "absorbed S f v0 st x \<longleftrightarrow> (case st of (vs, mem, ms) \<Rightarrow>
     length mem = S \<and> ms < S \<and> stripes S f v0 x = (vs, take ms mem))"

locale striped =
  fixes S :: nat and f :: "'v \<Rightarrow> bytes \<Rightarrow> 'v"
  assumes size_pos: "0 < S" and stripe_append: "S \<le> length p \<Longrightarrow> f vs (p @ q) = f vs p"
begin

lemma stripes_append: "stripes S f vs (p @ q) = (case stripes S f vs p of (vs', r) \<Rightarrow> stripes S f vs' (r @ q))"
proof (induction "length p" arbitrary: vs p rule: less_induct)
  case less
  show ?case
  proof (cases "S \<le> length p")
    case True
    then show ?thesis using less [of "drop S p" "f vs p"] size_pos by (simp add: stripes_long stripe_append)
  next
    case False
    then show ?thesis by (simp add: stripes_short)
  qed
qed

lemma stripes_once:
  assumes "length m = S"
  shows "stripes S f vs (m @ p) = stripes S f (f vs m) p"
  using assms size_pos by (simp add: stripes_long stripe_append)

lemma absorbed_start: "length mem = S \<Longrightarrow> absorbed S f v0 (v0, mem, 0) []"
  using size_pos by (simp add: absorbed_def stripes_short)

lemma absorbed_short:
  assumes "length mem = S" "stripes S f v0 x = (vs, take ms mem)" "ms + length y < S"
  shows "absorbed S f v0 (vs, buf_write mem ms y, ms + length y) (x @ y)"
proof -
  have "stripes S f v0 (x @ y) = (vs, take ms mem @ y)"
    using assms by (simp add: stripes_append [of v0 x y] stripes_short)
  then show ?thesis using assms by (simp add: absorbed_def length_buf_write take_buf_write)
qed

lemma absorbed_rest:
  assumes "length m = S" "length q < S" "stripes S f v0 x = (ws, q)"
  shows "absorbed S f v0 (ws, if q \<noteq> [] then buf_write m 0 q else m, length q) x"
proof -
  have "length (if q \<noteq> [] then buf_write m 0 q else m) = S" "take (length q) (if q \<noteq> [] then buf_write m 0 q else m) = q"
    using assms(1,2) by (simp_all add: buf_write_def)
  then show ?thesis using assms(2,3) by (simp add: absorbed_def)
qed

lemma absorbed_long:
  assumes mem: "length mem = S" "ms < S" "stripes S f v0 x = (vs, take ms mem)" "\<not> ms + length y < S"
    and m: "m = (if ms \<noteq> 0 then buf_write mem ms (take (S - ms) y) else mem)"
    and wq: "stripes S f (if ms \<noteq> 0 then f vs m else vs) (if ms \<noteq> 0 then drop (S - ms) y else y) = (ws, q)"
  shows "absorbed S f v0 (ws, if q \<noteq> [] then buf_write m 0 q else m, length q) (x @ y)"
proof (rule absorbed_rest)
  show "length m = S" using mem(1,2) buffer_filled [OF mem(1,2,4)] by (simp add: m)
  show "length q < S" using stripes_rest_short [OF size_pos, of f] wq by (metis snd_conv)
  have "stripes S f v0 (x @ y) = stripes S f vs (take ms mem @ y)" by (simp add: stripes_append [of v0 x y] mem(3))
  also have "\<dots> = (ws, q)"
  proof (cases "ms = 0")
    case False
    then have m': "m = take ms mem @ take (S - ms) y" using buffer_filled(1) [OF mem(1,2,4)] by (simp add: m)
    have "take ms mem @ y = m @ drop (S - ms) y" unfolding m' by simp
    then show ?thesis using wq False stripes_once [OF \<open>length m = S\<close>, of vs "drop (S - ms) y"] by simp
  qed (use wq in simp)
  finally show "stripes S f v0 (x @ y) = (ws, q)" .
qed

lemma absorbed_step:
  assumes "absorbed S f v0 st x"
  shows "absorbed S f v0 (absorb S f st y) (x @ y)"
proof -
  obtain vs mem ms where st: "st = (vs, mem, ms)" by (cases st)
  from assms have mem: "length mem = S" "ms < S" "stripes S f v0 x = (vs, take ms mem)"
    by (simp_all add: absorbed_def st)
  show ?thesis
  proof (cases "ms + length y < S")
    case True
    then show ?thesis using absorbed_short [OF mem(1,3) True] by (simp add: absorb_def st)
  next
    case False
    let ?m = "if ms \<noteq> 0 then buf_write mem ms (take (S - ms) y) else mem"
    obtain ws q where wq: "stripes S f (if ms \<noteq> 0 then f vs ?m else vs) (if ms \<noteq> 0 then drop (S - ms) y else y) = (ws, q)"
      by (cases "stripes S f (if ms \<noteq> 0 then f vs ?m else vs) (if ms \<noteq> 0 then drop (S - ms) y else y)")
    have "absorb S f st y = (ws, if q \<noteq> [] then buf_write ?m 0 q else ?m, length q)"
      unfolding absorb_def st prod.case if_not_P [OF False] Let_def wq ..
    then show ?thesis using absorbed_long [OF mem False refl wq] by (simp only:)
  qed
qed

end

section \<open>The contract of a streaming hash\<close>

text \<open>
  \<open>rep st x\<close>: the state has absorbed \<open>x\<close>. \<open>limit\<close> bounds what the length counter can count.
\<close>

locale stream_hash =
  fixes update :: "'s \<Rightarrow> bytes \<Rightarrow> 's"
    and digest :: "'s \<Rightarrow> 'h"
    and oneshot :: "bytes \<Rightarrow> 'h"
    and rep :: "'s \<Rightarrow> bytes \<Rightarrow> bool"
    and limit :: nat
  assumes rep_update: "rep st x \<Longrightarrow> rep (update st y) (x @ y)"
    and rep_digest: "rep st x \<Longrightarrow> length x < limit \<Longrightarrow> digest st = oneshot x"
begin

lemma rep_fold: "rep st x \<Longrightarrow> rep (fold (\<lambda>c s. update s c) cs st) (x @ concat cs)"
  by (induction cs arbitrary: st x) (auto dest: rep_update simp flip: append_assoc)

lemma digest_fold:
  assumes "rep st []" and "length (concat cs) < limit"
  shows "digest (fold (\<lambda>c s. update s c) cs st) = oneshot (concat cs)"
  using rep_fold [OF assms(1)] assms(2) by (auto intro: rep_digest)

lemma digest_two:
  assumes "rep st []" and "length (a @ b) < limit"
  shows "digest (update (update st a) b) = oneshot (a @ b)"
  using digest_fold [OF assms(1), of "[a, b]"] assms(2) by simp

end

end
