(* ===== verification/XXHash.thy ===== *)
theory XXHash
  imports Stripes
begin

text \<open>
  The 32-bit hash of \<open>src/src/hash/xxhash.c\<close>, which keys every table of the broker: the
  one-shot \<open>XXH32\<close> (topic, name and socket-id keys) and the streaming
  \<open>XXH32_reset\<close> / \<open>XXH32_update\<close> / \<open>XXH32_digest\<close> (socket id followed by cookie). Both are
  modelled on 32-bit words as compiled for a little-endian CPU; the interpretations of the locales
  \<open>striped\<close> and \<open>stream_hash\<close> prove that feeding data in pieces hashes the concatenation.
\<close>

section \<open>Arithmetic\<close>

definition XXH_rotl32 :: "u32 \<Rightarrow> nat \<Rightarrow> u32" where
  "XXH_rotl32 x r = (push_bit r x OR drop_bit (32 - r) x)"

definition PRIME32_1 :: u32 where "PRIME32_1 = 2654435761"
definition PRIME32_2 :: u32 where "PRIME32_2 = 2246822519"
definition PRIME32_3 :: u32 where "PRIME32_3 = 3266489917"
definition PRIME32_4 :: u32 where "PRIME32_4 = 668265263"
definition PRIME32_5 :: u32 where "PRIME32_5 = 374761393"

definition XXH_readLE32 :: "bytes \<Rightarrow> u32" where
  "XXH_readLE32 p = read_le (take 4 p)"

type_synonym lanes = "u32 \<times> u32 \<times> u32 \<times> u32"

definition xxh32_init :: "u32 \<Rightarrow> lanes" where
  "xxh32_init seed = (seed + PRIME32_1 + PRIME32_2, seed + PRIME32_2, seed + 0, seed - PRIME32_1)"

definition xxh32_round :: "u32 \<Rightarrow> bytes \<Rightarrow> u32" where
  "xxh32_round v p = XXH_rotl32 (v + XXH_readLE32 p * PRIME32_2) 13 * PRIME32_1"

fun xxh32_stripe :: "lanes \<Rightarrow> bytes \<Rightarrow> lanes" where
  "xxh32_stripe (v1, v2, v3, v4) p =
     (xxh32_round v1 p, xxh32_round v2 (drop 4 p), xxh32_round v3 (drop 8 p), xxh32_round v4 (drop 12 p))"

text \<open>The loop over 16-byte stripes; it leaves the lanes and the bytes not yet consumed.\<close>

definition xxh32_stripes :: "lanes \<Rightarrow> bytes \<Rightarrow> lanes \<times> bytes" where
  "xxh32_stripes = stripes 16 xxh32_stripe"

fun xxh32_merge :: "lanes \<Rightarrow> u32" where
  "xxh32_merge (v1, v2, v3, v4) =
     XXH_rotl32 v1 1 + XXH_rotl32 v2 7 + XXH_rotl32 v3 12 + XXH_rotl32 v4 18"

text \<open>The two tail loops: whole 32-bit words first, then single bytes.\<close>

function xxh32_tail4 :: "u32 \<Rightarrow> bytes \<Rightarrow> u32 \<times> bytes" where
  "xxh32_tail4 h p =
     (if 4 \<le> length p
      then xxh32_tail4 (XXH_rotl32 (h + XXH_readLE32 p * PRIME32_3) 17 * PRIME32_4) (drop 4 p)
      else (h, p))"
  by pat_completeness auto
termination
  by (relation "measure (\<lambda>(h, p). length p)") auto

declare xxh32_tail4.simps [simp del]

fun xxh32_tail1 :: "u32 \<Rightarrow> bytes \<Rightarrow> u32" where
  "xxh32_tail1 h [] = h"
| "xxh32_tail1 h (b # p) = xxh32_tail1 (XXH_rotl32 (h + ucast b * PRIME32_5) 11 * PRIME32_1) p"

definition xxh32_avalanche :: "u32 \<Rightarrow> u32" where
  "xxh32_avalanche h =
     (let h = h XOR drop_bit 15 h; h = h * PRIME32_2;
          h = h XOR drop_bit 13 h; h = h * PRIME32_3
      in h XOR drop_bit 16 h)"

definition xxh32_finish :: "u32 \<Rightarrow> bytes \<Rightarrow> u32" where
  "xxh32_finish h p = (case xxh32_tail4 h p of (h, p) \<Rightarrow> xxh32_avalanche (xxh32_tail1 h p))"

section \<open>One-shot hash\<close>

definition XXH32 :: "bytes \<Rightarrow> u32 \<Rightarrow> u32" where
  "XXH32 input seed =
     (let (vs, p) = (if 16 \<le> length input then xxh32_stripes (xxh32_init seed) input
                     else (xxh32_init seed, input));
          h = (if 16 \<le> length input then xxh32_merge vs else seed + PRIME32_5)
      in xxh32_finish (h + of_nat (length input)) p)"

text \<open>The published hash of the empty input.\<close>

lemma XXH32_empty: "XXH32 [] 0 = 0x02CC5D05"
  by code_simp

section \<open>Streaming hash\<close>

record xxh32_state =
  total_len :: u64
  xseed :: u32
  lanes :: lanes
  mem32 :: bytes
  memsize :: u32

definition XXH32_reset :: "xxh32_state \<Rightarrow> u32 \<Rightarrow> xxh32_state" where
  "XXH32_reset st seed =
     st\<lparr>xseed := seed, lanes := xxh32_init seed, total_len := 0, memsize := 0\<rparr>"

definition XXH32_update :: "xxh32_state \<Rightarrow> bytes \<Rightarrow> xxh32_state" where
  "XXH32_update st input =
     (let len = length input;
          ms = unat (memsize st);
          st = st\<lparr>total_len := total_len st + of_nat len\<rparr>
      in if ms + len < 16 then
           st\<lparr>mem32 := buf_write (mem32 st) ms input, memsize := memsize st + of_nat len\<rparr>
         else
           let (st, p) =
                 (if memsize st \<noteq> 0 then
                    (let mem = buf_write (mem32 st) ms (take (16 - ms) input)
                     in (st\<lparr>mem32 := mem, lanes := xxh32_stripe (lanes st) mem, memsize := 0\<rparr>,
                         drop (16 - ms) input))
                  else (st, input));
               (st, p) =
                 (if 16 \<le> length p then
                    (let (vs, p') = xxh32_stripes (lanes st) p in (st\<lparr>lanes := vs\<rparr>, p'))
                  else (st, p))
           in if p \<noteq> [] then
                st\<lparr>mem32 := buf_write (mem32 st) 0 p, memsize := of_nat (length p)\<rparr>
              else st)"

definition XXH32_digest :: "xxh32_state \<Rightarrow> u32" where
  "XXH32_digest st =
     (let h = (if 16 \<le> total_len st then xxh32_merge (lanes st) else xseed st + PRIME32_5)
      in xxh32_finish (h + ucast (total_len st)) (take (unat (memsize st)) (mem32 st)))"

section \<open>Streaming in pieces\<close>

lemma xxh32_stripe_append: "16 \<le> length p \<Longrightarrow> xxh32_stripe vs (p @ q) = xxh32_stripe vs p"
proof -
  assume "16 \<le> length p"
  then have "xxh32_round v (drop n p @ q) = xxh32_round v (drop n p)" if "n \<le> 12" for v n
    using that by (simp add: xxh32_round_def XXH_readLE32_def)
  from this [of 0] this [of 4] this [of 8] this [of 12] \<open>16 \<le> length p\<close> show ?thesis
    by (cases vs) simp
qed

interpretation xxh32_blocks: striped 16 xxh32_stripe
  by unfold_locales (simp_all add: xxh32_stripe_append)

text \<open>An update is the update of lanes and buffer of the theory Stripes.\<close>

lemma XXH32_update_stripes:
  fixes st y
  defines "ms \<equiv> unat (memsize st)"
  defines "m \<equiv> (if memsize st \<noteq> 0 then buf_write (mem32 st) ms (take (16 - ms) y) else mem32 st)"
  defines "vs \<equiv> (if memsize st \<noteq> 0 then xxh32_stripe (lanes st) m else lanes st)"
    and "p \<equiv> (if memsize st \<noteq> 0 then drop (16 - ms) y else y)"
  assumes "\<not> ms + length y < 16" and "xxh32_stripes vs p = (ws, q)" and "\<not> 16 \<le> length p \<Longrightarrow> ws = vs \<and> q = p"
  shows "XXH32_update st y =
    st\<lparr>total_len := total_len st + of_nat (length y), lanes := ws, mem32 := (if q \<noteq> [] then buf_write m 0 q else m),
       memsize := of_nat (length q)\<rparr>"
proof (cases "16 \<le> length p")
  case True
  then show ?thesis
    using assms(1-6) by (cases "memsize st = 0"; cases "q = []") (simp_all add: XXH32_update_def Let_def)
next
  case False
  then have "ws = vs" "q = p" using assms(7) by simp_all
  with False show ?thesis
    using assms(1-5) by (cases "memsize st = 0"; cases "p = []") (simp_all add: XXH32_update_def Let_def)
qed

lemma XXH32_update_absorb:
  "XXH32_update st y = (case absorb 16 xxh32_stripe (lanes st, mem32 st, unat (memsize st)) y of (vs, m, n) \<Rightarrow>
     st\<lparr>total_len := total_len st + of_nat (length y), lanes := vs, mem32 := m, memsize := of_nat n\<rparr>)"
proof (cases "unat (memsize st) + length y < 16")
  case True
  then show ?thesis by (simp add: XXH32_update_def absorb_def Let_def)
next
  case False
  let ?z = "memsize st \<noteq> 0"
  define m where "m = (if ?z then buf_write (mem32 st) (unat (memsize st)) (take (16 - unat (memsize st)) y) else mem32 st)"
  define p where "p = (if ?z then drop (16 - unat (memsize st)) y else y)"
  define vs where "vs = (if ?z then xxh32_stripe (lanes st) m else lanes st)"
  obtain ws q where wq: "xxh32_stripes vs p = (ws, q)" by (cases "xxh32_stripes vs p")
  have short: "ws = vs \<and> q = p" if "\<not> 16 \<le> length p"
    using wq that by (simp add: xxh32_stripes_def stripes_short)
  have nz: "unat (memsize st) \<noteq> 0 \<longleftrightarrow> ?z" by (simp add: unat_eq_0)
  have a: "absorb 16 xxh32_stripe (lanes st, mem32 st, unat (memsize st)) y = (ws, if q \<noteq> [] then buf_write m 0 q else m, length q)"
    unfolding absorb_def prod.case if_not_P [OF False] nz Let_def m_def [symmetric] p_def [symmetric] vs_def [symmetric]
      wq [unfolded xxh32_stripes_def] ..
  show ?thesis unfolding a prod.case
    using XXH32_update_stripes [of st y ws q] False wq short unfolding m_def p_def vs_def by blast
qed

definition xxh32_rep :: "u32 \<Rightarrow> xxh32_state \<Rightarrow> bytes \<Rightarrow> bool" where
  "xxh32_rep seed st x \<longleftrightarrow> xseed st = seed \<and> total_len st = of_nat (length x) \<and>
     absorbed 16 xxh32_stripe (xxh32_init seed) (lanes st, mem32 st, unat (memsize st)) x"

lemma xxh32_rep_reset: "length (mem32 st) = 16 \<Longrightarrow> xxh32_rep seed (XXH32_reset st seed) []"
  by (simp add: xxh32_rep_def XXH32_reset_def xxh32_blocks.absorbed_start)

lemma xxh32_rep_update:
  assumes "xxh32_rep seed st x"
  shows "xxh32_rep seed (XXH32_update st y) (x @ y)"
proof -
  obtain vs m n where a: "absorb 16 xxh32_stripe (lanes st, mem32 st, unat (memsize st)) y = (vs, m, n)"
    by (cases "absorb 16 xxh32_stripe (lanes st, mem32 st, unat (memsize st)) y")
  have "absorbed 16 xxh32_stripe (xxh32_init seed) (lanes st, mem32 st, unat (memsize st)) x" using assms by (simp only: xxh32_rep_def)
  from xxh32_blocks.absorbed_step [OF this, of y] have ab: "absorbed 16 xxh32_stripe (xxh32_init seed) (vs, m, n) (x @ y)"
    unfolding a .
  then have "unat (of_nat n :: u32) = n" by (simp add: absorbed_def unat_of_nat take_bit_nat_eq_self)
  then show ?thesis using assms a ab by (simp add: xxh32_rep_def XXH32_update_absorb)
qed

lemma xxh32_digest_rep:
  assumes rep: "xxh32_rep seed st x" and len: "length x < 2 ^ 64"
  shows "XXH32_digest st = XXH32 x seed"
proof -
  from rep have tl: "total_len st = of_nat (length x)" and sd: "xseed st = seed"
    and strip: "xxh32_stripes (xxh32_init seed) x = (lanes st, take (unat (memsize st)) (mem32 st))"
    by (simp_all add: xxh32_rep_def absorbed_def xxh32_stripes_def)
  have le: "16 \<le> total_len st \<longleftrightarrow> 16 \<le> length x"
    using len by (simp add: tl word_le_nat_alt unat_of_nat take_bit_nat_eq_self)
  have u: "(ucast (total_len st) :: u32) = of_nat (length x)"
    using len by (simp add: tl unsigned_of_nat take_bit_nat_eq_self)
  have short: "xxh32_stripes (xxh32_init seed) x = (xxh32_init seed, x)" if "\<not> 16 \<le> length x"
    using that by (simp add: xxh32_stripes_def stripes_short)
  show ?thesis
    using strip short by (cases "16 \<le> length x") (auto simp: XXH32_digest_def XXH32_def le u sd Let_def)
qed

interpretation xxh32: stream_hash XXH32_update XXH32_digest "\<lambda>x. XXH32 x seed" "xxh32_rep seed"
  "2 ^ 64" for seed
  by unfold_locales (simp_all add: xxh32_rep_update xxh32_digest_rep)

section \<open>Property\<close>

text \<open>
  C39. A streaming state that is reset and then fed any sequence of chunks digests to the one-shot
  hash of their concatenation, whatever its buffer held before, up to the 2^64 bytes that the
  length counter counts.
\<close>

theorem XXH32_stream_eq_oneshot:
  assumes "length (mem32 st) = 16" and "length (concat chunks) < 2 ^ 64"
  shows "XXH32_digest (fold (\<lambda>c st. XXH32_update st c) chunks (XXH32_reset st seed)) = XXH32 (concat chunks) seed"
  by (rule xxh32.digest_fold [OF xxh32_rep_reset [OF assms(1)] assms(2)])

lemma XXH32_stream_eq_oneshot_witness:
  "XXH32_digest (fold (\<lambda>c st. XXH32_update st c) [ascii ''0123456789'', ascii ''abcdefghij'', [], replicate 40 7]
       (XXH32_reset \<lparr>total_len = 3, xseed = 1, lanes = (1, 2, 3, 4), mem32 = replicate 16 9, memsize = 5\<rparr> 1234)) =
     XXH32 (concat [ascii ''0123456789'', ascii ''abcdefghij'', [], replicate 40 7]) 1234"
  by (rule XXH32_stream_eq_oneshot) simp_all

end
