(* ===== verification/Protocol.thy ===== *)
theory Protocol
  imports XXHash
begin

text \<open>
  The wire protocol of \<open>src/include/protocol.h\<close> and \<open>src/src/lib/protocol.c\<close> and the parts of
  the CZMQ interface that the broker and the client see: multipart messages as lists of frames,
  with the pointers that \<open>zmsg_pop\<close> and \<open>zmsg_popstr\<close> may return as NULL.
\<close>

section \<open>Commands, errors, states\<close>

definition DD_VERSION :: u32 where "DD_VERSION = 0x0d0d0003"
definition DD_CMD_SEND :: u32 where "DD_CMD_SEND = 0"
definition DD_CMD_FORWARD :: u32 where "DD_CMD_FORWARD = 1"
definition DD_CMD_PING :: u32 where "DD_CMD_PING = 2"
definition DD_CMD_ADDLCL :: u32 where "DD_CMD_ADDLCL = 3"
definition DD_CMD_ADDDCL :: u32 where "DD_CMD_ADDDCL = 4"
definition DD_CMD_ADDBR :: u32 where "DD_CMD_ADDBR = 5"
definition DD_CMD_UNREG :: u32 where "DD_CMD_UNREG = 6"
definition DD_CMD_UNREGDCLI :: u32 where "DD_CMD_UNREGDCLI = 7"
definition DD_CMD_UNREGBR :: u32 where "DD_CMD_UNREGBR = 8"
definition DD_CMD_DATA :: u32 where "DD_CMD_DATA = 9"
definition DD_CMD_ERROR :: u32 where "DD_CMD_ERROR = 10"
definition DD_CMD_REGOK :: u32 where "DD_CMD_REGOK = 11"
definition DD_CMD_PONG :: u32 where "DD_CMD_PONG = 12"
definition DD_CMD_CHALL :: u32 where "DD_CMD_CHALL = 13"
definition DD_CMD_CHALLOK :: u32 where "DD_CMD_CHALLOK = 14"
definition DD_CMD_PUB :: u32 where "DD_CMD_PUB = 15"
definition DD_CMD_SUB :: u32 where "DD_CMD_SUB = 16"
definition DD_CMD_UNSUB :: u32 where "DD_CMD_UNSUB = 17"
definition DD_CMD_SUBOK :: u32 where "DD_CMD_SUBOK = 23"

lemmas cmd_defs = DD_CMD_SEND_def DD_CMD_FORWARD_def DD_CMD_PING_def DD_CMD_ADDLCL_def
  DD_CMD_ADDDCL_def DD_CMD_ADDBR_def DD_CMD_UNREG_def DD_CMD_UNREGDCLI_def DD_CMD_UNREGBR_def
  DD_CMD_DATA_def DD_CMD_ERROR_def DD_CMD_REGOK_def DD_CMD_PONG_def DD_CMD_CHALL_def
  DD_CMD_CHALLOK_def DD_CMD_PUB_def DD_CMD_SUB_def DD_CMD_UNSUB_def DD_CMD_SUBOK_def

definition DD_ERROR_REGFAIL :: u32 where "DD_ERROR_REGFAIL = 1"
definition DD_ERROR_NODST :: u32 where "DD_ERROR_NODST = 2"
definition DD_ERROR_VERSION :: u32 where "DD_ERROR_VERSION = 3"

lemmas error_defs = DD_ERROR_REGFAIL_def DD_ERROR_NODST_def DD_ERROR_VERSION_def

datatype dd_state = DD_STATE_UNREG | DD_STATE_ROOT | DD_STATE_EXIT | DD_STATE_CHALLENGED | DD_STATE_REGISTERED

section \<open>Messages\<close>

type_synonym zmsg = "bytes list"

definition zmsg_pop :: "zmsg \<Rightarrow> bytes option \<times> zmsg" where
  "zmsg_pop m = (case m of [] \<Rightarrow> (None, []) | f # fs \<Rightarrow> (Some f, fs))"

definition zmsg_popstr :: "zmsg \<Rightarrow> bytes option \<times> zmsg" where
  "zmsg_popstr m = (case m of [] \<Rightarrow> (None, []) | f # fs \<Rightarrow> (Some (c_string f), fs))"

lemma zmsg_pop_simps [simp]:
  "zmsg_pop [] = (None, [])" "zmsg_pop (f # fs) = (Some f, fs)"
  "zmsg_popstr [] = (None, [])" "zmsg_popstr (f # fs) = (Some (c_string f), fs)"
  by (simp_all add: zmsg_pop_def zmsg_popstr_def)

text \<open>\<open>zframe_data\<close> asserts that its frame is one.\<close>

definition zframe_data :: "bytes option \<Rightarrow> bytes res" where
  "zframe_data f = (case f of None \<Rightarrow> Inl Assert_fail | Some d \<Rightarrow> Inr d)"

text \<open>A string pointer that a library function dereferences.\<close>

definition deref_str :: "bytes option \<Rightarrow> bytes res" where
  "deref_str s = (case s of None \<Rightarrow> Inl Null_deref | Some d \<Rightarrow> Inr d)"

lemma deref_simps [simp]:
  "zframe_data None = Inl Assert_fail" "zframe_data (Some f) = Inr f"
  "deref_str None = Inl Null_deref" "deref_str (Some f) = Inr f"
  by (simp_all add: zframe_data_def deref_str_def)

text \<open>\<open>zframe_eq\<close>: a NULL frame equals nothing.\<close>

definition zframe_eq :: "bytes option \<Rightarrow> bytes option \<Rightarrow> bool" where
  "zframe_eq a b \<longleftrightarrow> a \<noteq> None \<and> a = b"

section \<open>Sockets, timers, observable events\<close>

datatype sock = Rsock | Dsock | PubN | SubN | PubS | SubS

datatype timer = Register | Heartbeat | Check_cli | Check_br

datatype event =
    Send sock "bytes list"
  | Connect sock bytes
  | Attach sock bytes
  | Reader sock
  | Reader_end sock
  | Destroy sock

end
