(* ===== verification/Trie.thy ===== *)
theory Trie
  imports DD_Prelude
begin

text \<open>
  The patricia trie of \<open>src/src/lib/trie.c\<close> and \<open>src/include/trie.h\<close>: a node holds up to five
  characters of the key (\<open>tprefix\<close>), the socket ids subscribed to the key it spells, their
  count, and its children, kept sparse (up to eight labelled pointers) or dense (an array
  indexed by the characters from \<open>min\<close> to \<open>max\<close>, with NULL entries).

  Every node is owned by the one slot that points to it, so the loops and recursions that walk
  a pointer to a slot and write through it are functions that rebuild the path. A slot is a
  \<open>trie_node option\<close>, \<open>None\<close> being NULL. Where \<open>nn_node_next\<close> returns a pointer to a slot, the
  result is a \<open>trie_node option option\<close>: no slot, or a slot and what it holds. The field \<open>type\<close>
  is the constructor \<open>Dense\<close>, or \<open>Sparse\<close> with the length of its list.

  The field \<open>sockids\<close> is NULL, a list, or the indeterminate value that \<open>malloc\<close> leaves in it
  where the code does not set it.
\<close>

section \<open>Data\<close>

type_synonym sockid = bytes

datatype sockids = Sock_null | Sock_list "sockid list" | Sock_uninit

datatype trie_node =
    Trie_node (refcount: u32) (tprefix: bytes) (socks: sockids) (kids: trie_kids)
and trie_kids =
    Sparse "(u8 \<times> trie_node) list"
  | Dense u8 u8 u16 "trie_node option list"

type_synonym slot = "trie_node option"

definition NN_TRIE_PREFIX_MAX :: nat where "NN_TRIE_PREFIX_MAX = 5"
definition NN_TRIE_SPARSE_MAX :: nat where "NN_TRIE_SPARSE_MAX = 8"
definition EINVAL :: int where "EINVAL = 22"

definition nn_node_has_subscribers :: "trie_node \<Rightarrow> bool" where
  "nn_node_has_subscribers n \<longleftrightarrow> refcount n \<noteq> 0"

section \<open>Reading a node\<close>

fun check_prefix :: "bytes \<Rightarrow> bytes \<Rightarrow> nat" where
  "check_prefix (p # ps) (d # ds) = (if p = d then Suc (check_prefix ps ds) else 0)"
| "check_prefix _ _ = 0"

text \<open>How many characters from the data match the prefix.\<close>

definition nn_node_check_prefix :: "trie_node \<Rightarrow> bytes \<Rightarrow> nat" where
  "nn_node_check_prefix n data = check_prefix (tprefix n) data"

definition nn_node_next :: "trie_node \<Rightarrow> u8 \<Rightarrow> slot option" where
  "nn_node_next n c =
     (case kids n of
        Sparse cs \<Rightarrow> map_option Some (map_of cs c)
      | Dense mn mx nbr arr \<Rightarrow> if c < mn \<or> c > mx then None else Some (arr ! unat (c - mn)))"

definition nn_trie_init :: slot where
  "nn_trie_init = None"

text \<open>
  Releasing a whole trie: the children first, then the list of the node, so a node whose list was
  never set is read.
\<close>

definition nn_children :: "trie_kids \<Rightarrow> slot list" where
  "nn_children ks = (case ks of Sparse cs \<Rightarrow> map (\<lambda>(c, ch). Some ch) cs | Dense mn mx nbr arr \<Rightarrow> arr)"

lemma size_nn_children [termination_simp]:
  assumes "Some ch \<in> set (nn_children ks)" shows "size ch < size ks"
proof (cases ks)
  case (Sparse cs)
  with assms obtain c where "(c, ch) \<in> set cs" by (auto simp: nn_children_def)
  then show ?thesis using Sparse by (induction cs arbitrary: ks) auto
next
  case (Dense mn mx nbr arr)
  with assms have "Some ch \<in> set arr" by (simp add: nn_children_def)
  then have "size ch < size_list (size_option size) arr" by (induction arr) auto
  then show ?thesis using Dense by simp
qed

fun nn_node_term :: "trie_node \<Rightarrow> unit res" where
  "nn_node_term (Trie_node rc p sk ks) =
     rbind (rfold (\<lambda>sl u. case sl of None \<Rightarrow> Inr () | Some ch \<Rightarrow> nn_node_term ch) (nn_children ks) ()) (\<lambda>u.
     if sk = Sock_uninit then Inl Uninit_read else Inr ())"

definition nn_trie_term :: "slot \<Rightarrow> unit res" where
  "nn_trie_term root = (case root of None \<Rightarrow> Inr () | Some n \<Rightarrow> nn_node_term n)"

section \<open>Compaction\<close>

text \<open>Merge a node without subscribers with its only child, where the prefixes fit.\<close>

definition nn_node_compact :: "trie_node \<Rightarrow> trie_node" where
  "nn_node_compact n =
     (if nn_node_has_subscribers n then n
      else case kids n of
        Sparse [(c, ch)] \<Rightarrow>
          if length (tprefix n) + length (tprefix ch) + 1 > NN_TRIE_PREFIX_MAX then n
          else Trie_node (refcount ch) (tprefix n @ c # tprefix ch) (socks ch) (kids ch)
      | _ \<Rightarrow> n)"

section \<open>Subscribing\<close>

definition zlist_append_unique :: "sockid list \<Rightarrow> sockid \<Rightarrow> sockid list \<times> bool" where
  "zlist_append_unique l x = (if x \<in> set l then (l, False) else (l @ [x], True))"

text \<open>Step 5: create the subscription on a node; the return value says what was new.\<close>

definition nn_add_sockid :: "trie_node \<Rightarrow> sockid \<Rightarrow> (trie_node \<times> int) res" where
  "nn_add_sockid n s =
     (case socks n of
        Sock_uninit \<Rightarrow> Inl Uninit_read
      | sk \<Rightarrow>
          let l = (case sk of Sock_list l \<Rightarrow> l | _ \<Rightarrow> []) in
          (case zlist_append_unique l s of
             (l', True) \<Rightarrow> Inr (Trie_node (refcount n + 1) (tprefix n) (Sock_list l') (kids n), 2)
           | (l', False) \<Rightarrow>
               Inr (Trie_node (refcount n) (tprefix n) (Sock_list l') (kids n),
                    if refcount n = 1 then 1 else 0)))"

text \<open>Step 4: new nodes for the rest of the key, then step 5 on the last of them.\<close>

function nn_new_nodes :: "bytes \<Rightarrow> sockid \<Rightarrow> (trie_node \<times> int) res" where
  "nn_new_nodes data s =
     (if length data > NN_TRIE_PREFIX_MAX then
        rbind (nn_new_nodes (drop (NN_TRIE_PREFIX_MAX + 1) data) s) (\<lambda>(ch, r).
          Inr (Trie_node 0 (take NN_TRIE_PREFIX_MAX data) Sock_null
                 (Sparse [(data ! NN_TRIE_PREFIX_MAX, ch)]), r))
      else nn_add_sockid (Trie_node 0 data Sock_null (Sparse [])) s)"
  by pat_completeness auto
termination
  by (relation "measure (\<lambda>(data, s). length data)") (auto simp: NN_TRIE_PREFIX_MAX_def)

declare nn_new_nodes.simps [simp del]

text \<open>
  Step 2: split the prefix of \<open>ch\<close> at \<open>pos\<close>; the lower part is compacted with its child where
  that is possible.
\<close>

definition nn_split :: "trie_node \<Rightarrow> nat \<Rightarrow> trie_node" where
  "nn_split ch pos =
     Trie_node 0 (take pos (tprefix ch)) Sock_null
       (Sparse [(tprefix ch ! pos,
                 nn_node_compact
                   (Trie_node (refcount ch) (drop (pos + 1) (tprefix ch)) (socks ch) (kids ch)))])"

text \<open>The conversion of a full sparse array to a dense one that has room for \<open>c\<close>.\<close>

definition dense_array :: "u8 \<Rightarrow> nat \<Rightarrow> (u8 \<times> trie_node) list \<Rightarrow> trie_node option list" where
  "dense_array mn len cs =
     fold (\<lambda>(c, ch) arr. arr[unat (c - mn) := Some ch]) cs (replicate len None)"

text \<open>Widening the range of a dense array to \<open>new_min .. new_max\<close>.\<close>

definition dense_widen ::
    "u8 \<Rightarrow> u8 \<Rightarrow> trie_node option list \<Rightarrow> u8 \<Rightarrow> u8 \<times> u8 \<times> trie_node option list" where
  "dense_widen mn mx arr c =
     (if c < mn \<or> c > mx then
        let new_min = (if mn < c then mn else c);
            new_max = (if mx > c then mx else c);
            old_children = unat mx - unat mn + 1;
            new_children = unat new_max - unat new_min + 1
        in (new_min, new_max,
            if mn \<noteq> new_min then replicate (unat mn - unat new_min) None @ arr
            else arr @ replicate (new_children - old_children) None)
      else (mn, mx, arr))"

text \<open>Step 3: make room in the child array for the next character, then steps 4 and 5 below it.\<close>

definition nn_add_child :: "trie_node \<Rightarrow> bytes \<Rightarrow> sockid \<Rightarrow> (trie_node \<times> int) res" where
  "nn_add_child n data s =
     (if data = [] then nn_add_sockid n s
      else
        let c = hd data in
        case kids n of
          Sparse cs \<Rightarrow>
            if length cs < NN_TRIE_SPARSE_MAX then
              rbind (nn_new_nodes (tl data) s) (\<lambda>(ch, r).
                Inr (Trie_node (refcount n) (tprefix n) (socks n) (Sparse (cs @ [(c, ch)])), r))
            else
              let new_min = fold (\<lambda>(c2, _) m. if m < c2 then m else c2) cs 255;
                  new_max = fold (\<lambda>(c2, _) m. if m > c2 then m else c2) cs 0;
                  new_min = (if new_min < c then new_min else c);
                  new_max = (if new_max > c then new_max else c);
                  arr = dense_array new_min (unat new_max - unat new_min + 1) cs
              in rbind (nn_new_nodes (tl data) s) (\<lambda>(ch, r).
                   Inr (Trie_node 0 (tprefix n) Sock_null
                          (Dense new_min new_max (of_nat (length cs + 1))
                             (arr[unat (c - new_min) := Some ch])), r))
        | Dense mn mx nbr arr \<Rightarrow>
            (case dense_widen mn mx arr c of (mn', mx', arr') \<Rightarrow>
              rbind (nn_new_nodes (tl data) s) (\<lambda>(ch, r).
                Inr (Trie_node (refcount n) (tprefix n) (socks n)
                       (Dense mn' mx' (nbr + 1) (arr'[unat (c - mn') := Some ch])), r))))"

text \<open>Writing through the slot that \<open>nn_node_next\<close> found.\<close>

fun slot_put :: "u8 \<Rightarrow> trie_node \<Rightarrow> (u8 \<times> trie_node) list \<Rightarrow> (u8 \<times> trie_node) list" where
  "slot_put c m [] = []"
| "slot_put c m ((d, x) # cs) = (if d = c then (d, m) # cs else (d, x) # slot_put c m cs)"

definition nn_put_child :: "trie_node \<Rightarrow> u8 \<Rightarrow> trie_node \<Rightarrow> trie_node" where
  "nn_put_child n c m =
     Trie_node (refcount n) (tprefix n) (socks n)
       (case kids n of
          Sparse cs \<Rightarrow> Sparse (slot_put c m cs)
        | Dense mn mx nbr arr \<Rightarrow> Dense mn mx nbr (arr[unat (c - mn) := Some m]))"

text \<open>
  \<open>nn_trie_subscribe\<close>, from the slot that \<open>node\<close> points to (step 1, with the jumps to steps
  2 to 5).
\<close>

function nn_node_subscribe :: "slot \<Rightarrow> bytes \<Rightarrow> sockid \<Rightarrow> (trie_node \<times> int) res" where
  "nn_node_subscribe None data s = nn_new_nodes data s"
| "nn_node_subscribe (Some n) data s =
     (let pos = nn_node_check_prefix n data; rest = drop pos data in
      if pos < length (tprefix n) then nn_add_child (nn_split n pos) rest s
      else if rest = [] then nn_add_sockid n s
      else case nn_node_next n (hd rest) of
          Some (Some ch) \<Rightarrow>
            rbind (nn_node_subscribe (Some ch) (tl rest) s) (\<lambda>(ch', r).
              Inr (nn_put_child n (hd rest) ch', r))
        | _ \<Rightarrow> nn_add_child n rest s)"
  by pat_completeness auto
termination
  by (relation "measure (\<lambda>(n, data, s). length data)") auto

declare nn_node_subscribe.simps [simp del]

definition nn_trie_subscribe :: "slot \<Rightarrow> bytes \<Rightarrow> sockid \<Rightarrow> (slot \<times> int) res" where
  "nn_trie_subscribe root data s = rbind (nn_node_subscribe root data s) (\<lambda>(n, r). Inr (Some n, r))"

section \<open>Matching\<close>

text \<open>
  The callers pass a NUL-terminated string and its \<open>strlen\<close>. Past the end of the data the code
  still reads \<open>*data\<close>, which is the terminator; were there a child labelled NUL, the walk would
  go on past the end of the buffer.
\<close>

definition nn_append_all :: "sockid list option \<Rightarrow> sockid list \<Rightarrow> sockid list" where
  "nn_append_all pub l =
     fold (\<lambda>t acc. fst (zlist_append_unique acc t)) l (case pub of None \<Rightarrow> [] | Some acc \<Rightarrow> acc)"

function nn_tree_from :: "slot \<Rightarrow> bytes \<Rightarrow> sockid list option \<Rightarrow> sockid list option res" where
  "nn_tree_from None data pub = Inr pub"
| "nn_tree_from (Some n) data pub =
     (if nn_node_check_prefix n data \<noteq> length (tprefix n) then Inr pub
      else
        let rest = drop (length (tprefix n)) data in
        rbind (if nn_node_has_subscribers n
               then (case socks n of
                       Sock_list l \<Rightarrow> Inr (Some (nn_append_all pub l))
                     | Sock_null \<Rightarrow> Inl Assert_fail
                     | Sock_uninit \<Rightarrow> Inl Uninit_read)
               else Inr pub) (\<lambda>pub.
        case rest of
          [] \<Rightarrow> (case nn_node_next n 0 of Some (Some ch) \<Rightarrow> Inl Out_of_bounds | _ \<Rightarrow> Inr pub)
        | c # rest' \<Rightarrow>
            (case nn_node_next n c of
               None \<Rightarrow> Inr pub
             | Some ch \<Rightarrow> nn_tree_from ch rest' pub)))"
  by pat_completeness auto
termination
  by (relation "measure (\<lambda>(n, data, pub). length data)") (auto simp: drop_eq_Cons_length Cons_eq_drop_length)

declare nn_tree_from.simps [simp del]

definition nn_trie_tree :: "slot \<Rightarrow> bytes \<Rightarrow> sockid list option res" where
  "nn_trie_tree root data = nn_tree_from root data None"

text \<open>\<open>nn_trie_match\<close>: 1 when some prefix of the data has a subscriber.\<close>

function nn_match_from :: "slot \<Rightarrow> bytes \<Rightarrow> int res" where
  "nn_match_from None data = Inr 0"
| "nn_match_from (Some n) data =
     (if nn_node_check_prefix n data \<noteq> length (tprefix n) then Inr 0
      else if nn_node_has_subscribers n then Inr 1
      else
        (case drop (length (tprefix n)) data of
          [] \<Rightarrow> (case nn_node_next n 0 of Some (Some ch) \<Rightarrow> Inl Out_of_bounds | _ \<Rightarrow> Inr 0)
        | c # rest \<Rightarrow>
            (case nn_node_next n c of
               None \<Rightarrow> Inr 0
             | Some ch \<Rightarrow> nn_match_from ch rest)))"
  by pat_completeness auto
termination
  by (relation "measure (\<lambda>(n, data). length data)") (auto simp: drop_eq_Cons_length Cons_eq_drop_length)

declare nn_match_from.simps [simp del]

definition nn_trie_match :: "slot \<Rightarrow> bytes \<Rightarrow> int res" where
  "nn_trie_match root data = nn_match_from root data"

section \<open>Unsubscribing\<close>

text \<open>Releasing a node: its list of socket ids is drained, so it must be NULL or a list.\<close>

definition nn_free_node :: "trie_node \<Rightarrow> (slot \<times> int) res" where
  "nn_free_node n = (if socks n = Sock_uninit then Inl Uninit_read else Inr (None, 1))"

text \<open>The label \<open>found\<close>: the slot holds the node of the subscription.\<close>

definition nn_found :: "slot \<Rightarrow> sockid \<Rightarrow> (slot \<times> int) res" where
  "nn_found sl s =
     (case sl of
        None \<Rightarrow> Inr (None, - EINVAL)
      | Some n \<Rightarrow>
          if \<not> nn_node_has_subscribers n then Inr (Some n, - EINVAL)
          else (case socks n of
              Sock_null \<Rightarrow> Inl Assert_fail
            | Sock_uninit \<Rightarrow> Inl Uninit_read
            | Sock_list l \<Rightarrow>
                let n' = Trie_node (refcount n - 1) (tprefix n) (Sock_list (remove1 s l)) (kids n) in
                if refcount n' = 0 then
                  (if kids n' = Sparse [] then nn_free_node n'
                   else Inr (Some (nn_node_compact n'), 1))
                else Inr (Some n', 0)))"

fun slot_remove :: "u8 \<Rightarrow> (u8 \<times> trie_node) list \<Rightarrow> (u8 \<times> trie_node) list" where
  "slot_remove c [] = []"
| "slot_remove c ((d, x) # cs) = (if d = c then cs else (d, x) # slot_remove c cs)"

text \<open>The index of the first non-NULL entry.\<close>

fun first_used :: "'a option list \<Rightarrow> nat" where
  "first_used [] = 0"
| "first_used (None # xs) = Suc (first_used xs)"
| "first_used (Some x # xs) = 0"

text \<open>The loop that collects the non-NULL children of a dense array, with their characters.\<close>

fun dense_collect :: "nat \<Rightarrow> trie_node option list \<Rightarrow> (u8 \<times> trie_node) list" where
  "dense_collect i [] = []"
| "dense_collect i (None # xs) = dense_collect (Suc i) xs"
| "dense_collect i (Some ch # xs) = (of_nat i, ch) # dense_collect (Suc i) xs"

text \<open>Pruning after the child at \<open>c\<close> is gone.\<close>

definition nn_remove_child :: "trie_node \<Rightarrow> u8 \<Rightarrow> (slot \<times> int) res" where
  "nn_remove_child n c =
     (case kids n of
        Sparse cs \<Rightarrow>
          if c \<notin> fst ` set cs then Inl Assert_fail
          else
            let n' = Trie_node (refcount n) (tprefix n) (socks n) (Sparse (slot_remove c cs)) in
            if slot_remove c cs = [] \<and> \<not> nn_node_has_subscribers n' then nn_free_node n'
            else Inr (Some (nn_node_compact n'), 1)
      | Dense mn mx nbr arr0 \<Rightarrow>
          let arr = arr0[unat (c - mn) := None] in
          if unat nbr > NN_TRIE_SPARSE_MAX + 1 then
            if c = mn then
              let i = first_used arr in
              Inr (Some (Trie_node (refcount n) (tprefix n) (socks n)
                     (Dense (of_nat (i + unat mn)) mx (nbr - 1) (drop i arr))), 1)
            else if c = mx then
              let i = length arr - 1 - first_used (rev (tl arr)) in
              Inr (Some (Trie_node (refcount n) (tprefix n) (socks n)
                     (Dense mn (of_nat (i + unat mn)) (nbr - 1) (take (i + 1) arr))), 1)
            else
              Inr (Some (Trie_node (refcount n) (tprefix n) (socks n)
                     (Dense mn mx (nbr - 1) arr)), 1)
          else
            let cs = dense_collect (unat mn) arr in
            if length cs \<noteq> NN_TRIE_SPARSE_MAX then Inl Assert_fail
            else Inr (Some (Trie_node 0 (tprefix n) Sock_uninit (Sparse cs)), 1))"

function nn_node_unsubscribe :: "slot \<Rightarrow> bytes \<Rightarrow> sockid \<Rightarrow> (slot \<times> int) res" where
  "nn_node_unsubscribe sl data s =
     (if data = [] then nn_found sl s
      else case sl of
        None \<Rightarrow> Inl Null_deref
      | Some n \<Rightarrow>
          if nn_node_check_prefix n data \<noteq> length (tprefix n) then Inr (sl, 0)
          else (case drop (length (tprefix n)) data of
              [] \<Rightarrow> nn_found sl s
            | c # rest \<Rightarrow>
                (case nn_node_next n c of
                   None \<Rightarrow> Inr (sl, 0)
                 | Some ch \<Rightarrow>
                     rbind (nn_node_unsubscribe ch rest s) (\<lambda>(ch', r).
                       case ch' of
                         Some m \<Rightarrow> Inr (Some (nn_put_child n c m), if r = 0 then 0 else 1)
                       | None \<Rightarrow> if r = 0 then Inr (sl, 0) else nn_remove_child n c))))"
  by pat_completeness auto
termination
  by (relation "measure (\<lambda>(n, data, s). length data)") (auto simp: drop_eq_Cons_length Cons_eq_drop_length)

declare nn_node_unsubscribe.simps [simp del]

definition nn_trie_unsubscribe :: "slot \<Rightarrow> bytes \<Rightarrow> sockid \<Rightarrow> (slot \<times> int) res" where
  "nn_trie_unsubscribe root data s = nn_node_unsubscribe root data s"

end
