(* ===== verification/TrieSpec.thy ===== *)
theory TrieSpec
  imports Trie
begin

text \<open>
  What a node of the trie denotes (\<open>subs_at\<close>: the socket ids subscribed at a key), the
  representation invariant of \<open>trie.c\<close> (\<open>node_ok\<close>), and the effect of the local steps of
  subscribing on both: creating nodes, adding a socket id, compacting a node, splitting a prefix, and
  the arithmetic of the dense child array.
\<close>

section \<open>Denotation and representation invariant\<close>

definition sock_list :: "trie_node \<Rightarrow> sockid list" where
  "sock_list n = (case socks n of Sock_list l \<Rightarrow> l | _ \<Rightarrow> [])"

definition child :: "trie_node \<Rightarrow> u8 \<Rightarrow> slot" where
  "child n c = (case nn_node_next n c of Some sl \<Rightarrow> sl | None \<Rightarrow> None)"

function subs_at :: "trie_node \<Rightarrow> bytes \<Rightarrow> sockid list" where
  "subs_at n k =
     (if prefix (tprefix n) k then
        (case drop (length (tprefix n)) k of
           [] \<Rightarrow> sock_list n
         | c # r \<Rightarrow> (case child n c of None \<Rightarrow> [] | Some ch \<Rightarrow> subs_at ch r))
      else [])"
  by pat_completeness auto
termination
  by (relation "measure (\<lambda>(n, k). length k)") (auto simp: drop_eq_Cons_length Cons_eq_drop_length)

declare subs_at.simps [simp del]

fun node_ok :: "trie_node \<Rightarrow> bool" and kids_ok :: "trie_kids \<Rightarrow> bool" where
  "node_ok (Trie_node rc p sk ks) \<longleftrightarrow>
     length p \<le> NN_TRIE_PREFIX_MAX \<and> 0 \<notin> set p \<and> sk \<noteq> Sock_uninit \<and>
     (let l = (case sk of Sock_list l \<Rightarrow> l | _ \<Rightarrow> []) in
        distinct l \<and> length l < 2 ^ 32 \<and> rc = of_nat (length l)) \<and>
     kids_ok ks"
| "kids_ok (Sparse cs) \<longleftrightarrow>
     length cs \<le> NN_TRIE_SPARSE_MAX \<and> distinct (map fst cs) \<and> 0 \<notin> fst ` set cs \<and>
     (\<forall>x\<in>set cs. node_ok (snd x))"
| "kids_ok (Dense mn mx nbr arr) \<longleftrightarrow>
     0 < mn \<and> mn \<le> mx \<and> length arr = unat mx - unat mn + 1 \<and>
     unat nbr = length (filter (\<lambda>x. x \<noteq> None) arr) \<and> NN_TRIE_SPARSE_MAX < unat nbr \<and>
     (\<forall>x\<in>set arr. (case x of None \<Rightarrow> True | Some ch \<Rightarrow> node_ok ch))"

definition subs_slot :: "slot \<Rightarrow> bytes \<Rightarrow> sockid list" where
  "subs_slot sl k = (case sl of None \<Rightarrow> [] | Some n \<Rightarrow> subs_at n k)"

definition slot_ok :: "slot \<Rightarrow> bool" where
  "slot_ok sl = (case sl of None \<Rightarrow> True | Some n \<Rightarrow> node_ok n)"

lemma subs_slot_simps [simp]: "subs_slot None k = []" "subs_slot (Some n) k = subs_at n k"
  by (simp_all add: subs_slot_def)

lemma slot_ok_simps [simp]: "slot_ok None" "slot_ok (Some n) = node_ok n"
  by (simp_all add: slot_ok_def)

lemma subs_at_not_prefix: "\<not> prefix (tprefix n) k \<Longrightarrow> subs_at n k = []"
  by (subst subs_at.simps) simp

lemma subs_at_here [simp]: "subs_at n (tprefix n) = sock_list n"
  by (subst subs_at.simps) simp

lemma subs_at_below [simp]: "subs_at n (tprefix n @ c # r) = subs_slot (child n c) r"
  by (subst subs_at.simps) (simp add: subs_slot_def)

lemma subs_at_cases:
  assumes "\<not> prefix p k \<Longrightarrow> P" and "k = p \<Longrightarrow> P" and "\<And>c r. k = p @ c # r \<Longrightarrow> P"
  shows P
  using assms by (metis neq_Nil_conv prefix_def append_Nil2)

text \<open>Two nodes with the same prefix, list and children agree on every key.\<close>

lemma subs_at_eqI:
  assumes "tprefix n = tprefix m" and "sock_list n = sock_list m"
    and "\<And>c r. subs_slot (child n c) r = subs_slot (child m c) r"
  shows "subs_at n k = subs_at m k"
proof (cases rule: subs_at_cases [of "tprefix n" k])
  case 1
  then show ?thesis using assms(1) by (simp add: subs_at_not_prefix)
next
  case 2
  then show ?thesis using assms(1,2) by (metis subs_at_here)
next
  case (3 c r)
  then show ?thesis using assms(1,3) by (metis subs_at_below)
qed

lemma child_Sparse: "child (Trie_node rc p sk (Sparse cs)) c = map_of cs c"
  by (simp add: child_def nn_node_next_def split: option.split)

lemma child_Dense:
  "child (Trie_node rc p sk (Dense mn mx nbr arr)) c =
     (if mn \<le> c \<and> c \<le> mx then arr ! unat (c - mn) else None)"
  by (auto simp: child_def nn_node_next_def)

lemma node_okD:
  assumes "node_ok n"
  shows "length (tprefix n) \<le> NN_TRIE_PREFIX_MAX" "0 \<notin> set (tprefix n)" "socks n \<noteq> Sock_uninit"
    "distinct (sock_list n)" "length (sock_list n) < 2 ^ 32" "refcount n = of_nat (length (sock_list n))"
    "kids_ok (kids n)"
  using assms by (cases n; auto simp: sock_list_def Let_def split: sockids.splits)+

lemma node_okI:
  assumes "length (tprefix n) \<le> NN_TRIE_PREFIX_MAX" "0 \<notin> set (tprefix n)" "socks n \<noteq> Sock_uninit"
    "distinct (sock_list n)" "length (sock_list n) < 2 ^ 32" "refcount n = of_nat (length (sock_list n))"
    "kids_ok (kids n)"
  shows "node_ok n"
  using assms by (cases n) (auto simp: sock_list_def Let_def split: sockids.splits)

lemma has_subscribers_iff: "node_ok n \<Longrightarrow> nn_node_has_subscribers n \<longleftrightarrow> sock_list n \<noteq> []"
  using node_okD(5,6) [of n]
  by (auto simp: nn_node_has_subscribers_def word_unat_eq_iff unat_of_nat)

lemma unat_diff_le: "mn \<le> (c :: u8) \<Longrightarrow> unat (c - mn) = unat c - unat mn"
  by (simp add: unat_sub)

lemma dense_index:
  assumes "mn \<le> (c::u8)" "c \<le> mx"
  shows "unat (c - mn) < unat mx - unat mn + 1"
  using assms by (simp add: unat_sub word_le_nat_alt) 

lemma child_ok: "node_ok n \<Longrightarrow> child n c = Some ch \<Longrightarrow> node_ok ch"
proof (cases n)
  case (Trie_node rc p sk ks)
  assume ok: "node_ok n" and ch: "child n c = Some ch"
  show ?thesis
  proof (cases ks)
    case (Sparse cs)
    with ch Trie_node have "(c, ch) \<in> set cs" by (simp add: child_Sparse map_of_SomeD)
    with ok Trie_node Sparse show ?thesis by force
  next
    case (Dense mn mx nbr arr)
    with ch Trie_node have "mn \<le> c" "c \<le> mx" "arr ! unat (c - mn) = Some ch"
      by (auto simp: child_Dense split: if_splits)
    moreover from ok Trie_node Dense have "length arr = unat mx - unat mn + 1" by simp
    ultimately have "Some ch \<in> set arr"
      by (metis dense_index nth_mem)
    with ok Trie_node Dense show ?thesis by fastforce
  qed
qed

lemma child_0: "node_ok n \<Longrightarrow> child n 0 = None"
  apply (cases n; rename_tac rc p sk ks; case_tac ks)
   apply (auto simp: child_Sparse child_Dense map_of_eq_None_iff)
  done

section \<open>Adding a socket id, new nodes and compaction\<close>

definition add_sock :: "sockid list \<Rightarrow> sockid \<Rightarrow> sockid list" where
  "add_sock l s = fst (zlist_append_unique l s)"

lemma add_sock_simp: "add_sock l s = (if s \<in> set l then l else l @ [s])"
  by (simp add: add_sock_def zlist_append_unique_def)

lemma add_sock_simps [simp]:
  "set (add_sock l s) = insert s (set l)" "distinct l \<Longrightarrow> distinct (add_sock l s)" "add_sock [] s = [s]"
  by (auto simp: add_sock_simp)

definition sub_code :: "sockid list \<Rightarrow> sockid \<Rightarrow> int" where
  "sub_code l s = (if s \<notin> set l then 2 else if length l = 1 then 1 else 0)"

lemma child_socks_irrelevant:
  "child (Trie_node rc p sk ks) = child (Trie_node rc' p' sk' ks)"
  by (rule ext) (simp add: child_def nn_node_next_def)

lemma add_sockid_ok:
  assumes ok: "node_ok n" and room: "length (sock_list n) + 1 < 2 ^ 32"
  obtains n' where "nn_add_sockid n s = Inr (n', sub_code (sock_list n) s)" "node_ok n'"
    "tprefix n' = tprefix n" "child n' = child n" "sock_list n' = add_sock (sock_list n) s"
proof -
  let ?l = "sock_list n"
  define n' where "n' = Trie_node (if s \<in> set ?l then refcount n else refcount n + 1) (tprefix n)
    (Sock_list (add_sock ?l s)) (kids n)"
  have one: "refcount n = 1 \<longleftrightarrow> length ?l = 1"
    using node_okD(5,6) [OF ok] by (simp add: word_unat_eq_iff unat_of_nat)
  have "nn_add_sockid n s = Inr (n', sub_code ?l s)"
    using node_okD(3) [OF ok] one
    by (auto simp: nn_add_sockid_def sock_list_def n'_def add_sock_def zlist_append_unique_def
        sub_code_def split: sockids.split)
  moreover have "node_ok n'"
    by (rule node_okI)
      (use node_okD [OF ok] room in \<open>auto simp: n'_def sock_list_def [of "Trie_node _ _ _ _"] add_sock_simp\<close>)
  moreover have "child n' = child n"
    unfolding n'_def by (cases n) (simp add: child_socks_irrelevant)
  ultimately show thesis
    by (intro that [of n']) (simp_all add: n'_def sock_list_def)
qed

lemma new_nodes_ok:
  "0 \<notin> set data \<Longrightarrow>
     \<exists>n. nn_new_nodes data s = Inr (n, 2) \<and> node_ok n \<and>
         (\<forall>k. subs_at n k = (if k = data then [s] else []))"
proof (induction data s rule: nn_new_nodes.induct)
  case (1 data s)
  show ?case
  proof (cases "length data > NN_TRIE_PREFIX_MAX")
    case long: True
    let ?p = "take NN_TRIE_PREFIX_MAX data" and ?c = "data ! NN_TRIE_PREFIX_MAX"
    let ?rest = "drop (NN_TRIE_PREFIX_MAX + 1) data"
    have split: "data = ?p @ ?c # ?rest" using long by (simp add: id_take_nth_drop)
    with "1.prems" have nul: "?c \<noteq> 0" "0 \<notin> set ?rest" "0 \<notin> set ?p"
      by (metis in_set_conv_decomp, metis in_set_dropD, metis in_set_takeD)
    obtain ch where ch: "nn_new_nodes ?rest s = Inr (ch, 2)" "node_ok ch"
      "\<And>k. subs_at ch k = (if k = ?rest then [s] else [])"
      using "1.IH" long nul by blast
    define n where "n = Trie_node 0 ?p Sock_null (Sparse [(?c, ch)])"
    have "nn_new_nodes data s = Inr (n, 2)"
      using long ch(1) by (subst nn_new_nodes.simps) (simp add: n_def)
    moreover have "node_ok n"
      using ch(2) nul by (simp add: n_def NN_TRIE_SPARSE_MAX_def)
    moreover have "subs_at n k = (if k = data then [s] else [])" for k
    proof (cases rule: subs_at_cases [of ?p k])
      case 1
      then show ?thesis using split by (subst subs_at.simps) (auto simp: n_def prefix_def)
    next
      case 2
      moreover have "?p \<noteq> data" using long by auto
      ultimately show ?thesis by (subst subs_at.simps) (simp add: n_def sock_list_def)
    next
      case (3 c r)
      then have "subs_at n k = subs_slot (child n c) r"
        using subs_at_below [of n c r] by (simp add: n_def)
      moreover have "k = data \<longleftrightarrow> c = ?c \<and> r = ?rest"
        by (subst split, subst 3) auto
      ultimately show ?thesis using ch(3) by (auto simp: n_def child_Sparse)
    qed
    ultimately show ?thesis by blast
  next
    case short: False
    define n0 where "n0 = Trie_node 0 data Sock_null (Sparse [])"
    have "node_ok n0" and l0: "sock_list n0 = []"
      using short "1.prems" by (simp_all add: n0_def sock_list_def)
    then obtain n where n: "nn_add_sockid n0 s = Inr (n, sub_code [] s)" "node_ok n"
      "tprefix n = tprefix n0" "child n = child n0" "sock_list n = [s]"
      using add_sockid_ok [of n0 s] by (metis add_sock_simps(3) list.size(3) add_0 one_less_numeral_iff one_less_power zero_less_numeral semiring_norm(76))
    have "nn_new_nodes data s = Inr (n, 2)"
      using n(1) short by (subst nn_new_nodes.simps) (simp add: n0_def sub_code_def)
    moreover have "subs_at n k = (if k = data then [s] else [])" for k
    proof (cases rule: subs_at_cases [of data k])
      case 1
      then show ?thesis using n(3) by (auto simp: n0_def subs_at_not_prefix)
    next
      case 2
      then show ?thesis using n(3,5) subs_at_here [of n] by (simp add: n0_def)
    next
      case (3 c r)
      then show ?thesis using n(3,4) subs_at_below [of n c r] by (simp add: n0_def child_Sparse)
    qed
    ultimately show ?thesis using n(2) by blast
  qed
qed

lemma compact_cases:
  obtains (same) "nn_node_compact n = n"
  | (merged) c ch where "refcount n = 0" "kids n = Sparse [(c, ch)]"
      "length (tprefix n) + length (tprefix ch) + 1 \<le> NN_TRIE_PREFIX_MAX"
      "nn_node_compact n = Trie_node (refcount ch) (tprefix n @ c # tprefix ch) (socks ch) (kids ch)"
  unfolding nn_node_compact_def nn_node_has_subscribers_def
  by (cases "kids n"; force split: list.splits if_splits)

lemma compact_ok: "node_ok n \<Longrightarrow> node_ok (nn_node_compact n)"
proof (cases rule: compact_cases [of n])
  case (merged c ch)
  assume ok: "node_ok n"
  then have "child n c = Some ch"
    using merged(2) by (cases n) (simp add: child_Sparse)
  then have "node_ok ch" and "c \<noteq> 0" using child_ok [OF ok] child_0 [OF ok] by auto
  then show ?thesis
    using merged node_okD(2) [OF ok] by (cases ch) auto
qed simp

lemma subs_at_compact: "node_ok n \<Longrightarrow> subs_at (nn_node_compact n) k = subs_at n k"
proof (cases rule: compact_cases [of n])
  case (merged c ch)
  assume ok: "node_ok n"
  have empty: "sock_list n = []"
    using merged(1) ok has_subscribers_iff [OF ok] by (simp add: nn_node_has_subscribers_def)
  have ch: "child n d = (if d = c then Some ch else None)" for d
    using merged(2) by (cases n) (simp add: child_Sparse)
  let ?m = "nn_node_compact n"
  have m: "tprefix ?m = tprefix n @ c # tprefix ch" "sock_list ?m = sock_list ch" "child ?m = child ch"
    using merged(4) by (cases ch; simp add: sock_list_def child_socks_irrelevant)+
  show ?thesis
  proof (cases rule: subs_at_cases [of "tprefix n" k])
    case 1
    then have "\<not> prefix (tprefix ?m) k" using m(1) by (auto simp: prefix_def)
    with 1 show ?thesis by (simp add: subs_at_not_prefix)
  next
    case 2
    then have "\<not> prefix (tprefix ?m) k" using m(1) by (auto simp: prefix_def)
    with 2 show ?thesis using empty by (simp add: subs_at_not_prefix)
  next
    case (3 d r)
    have "subs_at ?m k = (if d = c then subs_at ch r else [])"
    proof (cases "d = c")
      case False
      then have "\<not> prefix (tprefix ?m) k" using m(1) 3 by (auto simp: prefix_def)
      with False show ?thesis by (simp add: subs_at_not_prefix)
    next
      case True
      show ?thesis
      proof (cases rule: subs_at_cases [of "tprefix ch" r])
        case 1
        then have "\<not> prefix (tprefix ?m) k" using m(1) 3 True by (auto simp: prefix_def)
        with 1 True show ?thesis by (simp add: subs_at_not_prefix)
      next
        case 2
        then have "k = tprefix ?m" using m(1) 3 True by simp
        with 2 True m(2) show ?thesis by (metis subs_at_here)
      next
        case (3 e q)
        then have "k = tprefix ?m @ e # q" using m(1) \<open>k = tprefix n @ d # r\<close> True by simp
        then have "subs_at ?m k = subs_slot (child ch e) q" using m(3) by (metis subs_at_below)
        with 3 True show ?thesis by simp
      qed
    qed
    moreover have "subs_at n k = (if d = c then subs_at ch r else [])"
      using 3 ch by simp
    ultimately show ?thesis by simp
  qed
qed simp

section \<open>Splitting a prefix\<close>

lemma split_ok:
  assumes ok: "node_ok n" and pos: "pos < length (tprefix n)"
  shows "node_ok (nn_split n pos)" and "subs_at (nn_split n pos) k = subs_at n k"
proof -
  let ?p = "tprefix n" and ?m = "nn_split n pos"
  define low where "low = Trie_node (refcount n) (drop (pos + 1) ?p) (socks n) (kids n)"
  have low: "tprefix low = drop (pos + 1) ?p" "sock_list low = sock_list n" "child low = child n"
    by (cases n; simp add: low_def sock_list_def child_socks_irrelevant)+
  have p: "?p = take pos ?p @ ?p ! pos # drop (pos + 1) ?p"
    using pos by (simp add: id_take_nth_drop)
  have nul: "?p ! pos \<noteq> 0" "0 \<notin> set (take pos ?p)" "0 \<notin> set (drop (pos + 1) ?p)"
    using node_okD(2) [OF ok] pos by (metis nth_mem, metis in_set_takeD, metis in_set_dropD)
  have "node_ok low"
    using node_okD [OF ok] nul(3)
    by (intro node_okI) (auto simp: low_def sock_list_def [of "Trie_node _ _ _ _"] sock_list_def [of n])
  then have ok': "node_ok (nn_node_compact low)"
    and subs': "subs_at (nn_node_compact low) k = subs_at low k" for k
    by (simp_all add: compact_ok subs_at_compact)
  have m: "?m = Trie_node 0 (take pos ?p) Sock_null (Sparse [(?p ! pos, nn_node_compact low)])"
    by (simp add: nn_split_def low_def)
  show "node_ok ?m"
    using ok' nul node_okD(1) [OF ok] by (simp add: m NN_TRIE_SPARSE_MAX_def)
  have mc: "child ?m c = (if c = ?p ! pos then Some (nn_node_compact low) else None)" for c
    by (simp add: m child_Sparse)
  show "subs_at ?m k = subs_at n k"
  proof (cases rule: subs_at_cases [of "take pos ?p" k])
    case 1
    then have "\<not> prefix ?p k" by (metis prefix_order.trans take_is_prefix)
    with 1 show ?thesis by (simp add: subs_at_not_prefix m)
  next
    case 2
    then have "\<not> prefix ?p k" using pos by (auto dest: prefix_length_le)
    moreover have "subs_at ?m k = []" using 2 subs_at_here [of ?m] by (simp add: m sock_list_def)
    ultimately show ?thesis by (simp add: subs_at_not_prefix)
  next
    case (3 c r)
    then have lhs: "subs_at ?m k = (if c = ?p ! pos then subs_at low r else [])"
      using subs_at_below [of ?m c r] mc subs' by (simp add: m)
    show ?thesis
    proof (cases "c = ?p ! pos")
      case False
      have "\<not> prefix ?p k" using False p 3 by (metis append_prefixD list.inject same_prefix_prefix prefix_Cons Cons_prefix_Cons)
      with False lhs show ?thesis by (simp add: subs_at_not_prefix)
    next
      case True
      have k: "k = take pos ?p @ ?p ! pos # r" using 3 True by simp
      have "subs_at low r = subs_at n k"
      proof (cases rule: subs_at_cases [of "tprefix low" r])
        case 1
        then have "\<not> prefix ?p k" using low(1) k p by (metis Cons_prefix_Cons same_prefix_prefix)
        with 1 show ?thesis by (simp add: subs_at_not_prefix)
      next
        case 2
        then have "k = ?p" using low(1) k p by simp
        with 2 low(2) show ?thesis by (metis subs_at_here)
      next
        case (3 e q)
        then have "k = ?p @ e # q" using low(1) k p by (metis append.assoc append_Cons)
        with 3 low(3) show ?thesis by (metis subs_at_below)
      qed
      with True lhs show ?thesis by simp
    qed
  qed
qed

subsection \<open>The child array\<close>

lemma unat_diff_inj:
  assumes "mn \<le> (c::u8)" "mn \<le> d" "unat (c - mn) = unat (d - mn)"
  shows "c = d"
proof -
  have "c - mn = d - mn" using assms(3) by (simp add: word_unat_eq_iff)
  then show ?thesis by simp
qed

lemma dense_char:
  assumes i: "i < unat mx - unat mn + 1" and le: "mn \<le> (mx :: u8)"
  obtains c where "mn \<le> c" "c \<le> mx" "unat (c - mn) = i"
proof -
  have mx: "unat mn \<le> unat mx" using le by (simp add: word_le_nat_alt)
  have m256: "unat mx < 256" using unsigned_less [of mx] by simp
  then have u: "unat (mn + of_nat i) = unat mn + i"
    using i mx by (simp add: unat_word_ariths unat_of_nat)
  then have "mn \<le> mn + of_nat i" "mn + of_nat i \<le> mx" using i mx by (simp_all add: word_le_nat_alt)
  moreover have "unat (mn + of_nat i - mn) = i" using i m256 by (simp add: unat_of_nat)
  ultimately show thesis by (rule that)
qed

lemma dense_count:
  assumes len: "length arr = unat mx - unat mn + 1" and "mn \<le> mx"
  shows "length (filter (\<lambda>x. x \<noteq> None) arr) =
    card {c. child (Trie_node rc p sk (Dense mn mx nbr arr)) c \<noteq> None}"
proof -
  let ?C = "{c. child (Trie_node rc p sk (Dense mn mx nbr arr)) c \<noteq> None}"
  let ?I = "{i. i < length arr \<and> arr ! i \<noteq> None}"
  have "bij_betw (\<lambda>c. unat (c - mn)) ?C ?I"
  proof (rule bij_betwI')
    fix c d assume "c \<in> ?C" "d \<in> ?C"
    then show "(unat (c - mn) = unat (d - mn)) = (c = d)"
      by (auto simp: child_Dense split: if_splits intro: unat_diff_inj)
  next
    fix c assume "c \<in> ?C"
    then show "unat (c - mn) \<in> ?I"
      using dense_index [of mn c mx] len by (auto simp: child_Dense split: if_splits)
  next
    fix i assume i: "i \<in> ?I"
    then obtain c where c: "mn \<le> c" "c \<le> mx" "unat (c - mn) = i"
      using dense_char len \<open>mn \<le> mx\<close> by (metis (lifting) mem_Collect_eq)
    then show "\<exists>c\<in>?C. i = unat (c - mn)"
      using i by (auto simp: child_Dense intro!: exI [of _ c])
  qed
  then show ?thesis
    by (simp add: length_filter_conv_card bij_betw_same_card)
qed

lemma child_finite [simp]: "finite {c. child n c \<noteq> None}"
  by (rule finite_subset [of _ UNIV]) auto

lemma kids_ok_Dense_iff:
  "node_ok (Trie_node rc p sk (Dense mn mx nbr arr)) \<longleftrightarrow>
     length p \<le> NN_TRIE_PREFIX_MAX \<and> 0 \<notin> set p \<and> sk \<noteq> Sock_uninit \<and>
     (let l = (case sk of Sock_list l \<Rightarrow> l | _ \<Rightarrow> []) in
        distinct l \<and> length l < 2 ^ 32 \<and> rc = of_nat (length l)) \<and>
     0 < mn \<and> mn \<le> mx \<and> length arr = unat mx - unat mn + 1 \<and>
     unat nbr = card {c. child (Trie_node rc p sk (Dense mn mx nbr arr)) c \<noteq> None} \<and>
     NN_TRIE_SPARSE_MAX < unat nbr \<and>
     (\<forall>c ch. child (Trie_node rc p sk (Dense mn mx nbr arr)) c = Some ch \<longrightarrow> node_ok ch)"
  (is "?l \<longleftrightarrow> ?r")
proof
  assume ?l
  then show ?r
    using dense_count [of arr mx mn rc p sk nbr] child_ok [of "Trie_node rc p sk (Dense mn mx nbr arr)"]
    by simp
next
  assume r: ?r
  have "node_ok ch" if "Some ch \<in> set arr" for ch
  proof -
    from that obtain i where i: "i < length arr" "arr ! i = Some ch" by (metis in_set_conv_nth)
    obtain c where "mn \<le> c" "c \<le> mx" "unat (c - mn) = i"
      using dense_char [of i mx mn] i r by metis
    then have "child (Trie_node rc p sk (Dense mn mx nbr arr)) c = Some ch"
      using i by (simp add: child_Dense)
    with r show "node_ok ch" by blast
  qed
  with r show ?l
    using dense_count [of arr mx mn rc p sk nbr] by (auto split: option.splits)
qed

subsection \<open>The dense array as a finite map\<close>

definition dense_child :: "u8 \<Rightarrow> u8 \<Rightarrow> trie_node option list \<Rightarrow> u8 \<Rightarrow> slot" where
  "dense_child mn mx arr c = (if mn \<le> c \<and> c \<le> mx then arr ! unat (c - mn) else None)"

lemma child_dense_child: "child (Trie_node rc p sk (Dense mn mx nbr arr)) = dense_child mn mx arr"
  by (rule ext) (simp add: child_Dense dense_child_def)

lemma dense_child_update:
  assumes "mn \<le> c" "c \<le> mx" "length arr = unat mx - unat mn + 1"
  shows "dense_child mn mx (arr[unat (c - mn) := v]) = (dense_child mn mx arr)(c := v)"
proof (rule ext)
  fix d
  have "unat (c - mn) < length arr" using dense_index assms by simp
  then show "dense_child mn mx (arr[unat (c - mn) := v]) d = ((dense_child mn mx arr)(c := v)) d"
    using assms unat_diff_inj [of mn c d] by (auto simp: dense_child_def nth_list_update)
qed

lemma dense_widen_ok:
  assumes w: "dense_widen mn mx arr c = (mn', mx', arr')"
    and le: "mn \<le> mx" and len: "length arr = unat mx - unat mn + 1" and pos: "0 < mn" "c \<noteq> 0"
  shows "mn' \<le> c" "c \<le> mx'" "mn' \<le> mx'" "0 < mn'" "length arr' = unat mx' - unat mn' + 1"
    "dense_child mn' mx' arr' = dense_child mn mx arr"
proof -
  have c0: "0 < c" using pos(2) by (simp add: word_neq_0_conv)
  consider (inside) "mn \<le> c" "c \<le> mx" | (lo) "c < mn" | (hi) "mn \<le> c" "mx < c" by force
  then have "mn' \<le> c \<and> c \<le> mx' \<and> mn' \<le> mx' \<and> 0 < mn' \<and> length arr' = unat mx' - unat mn' + 1 \<and>
    dense_child mn' mx' arr' = dense_child mn mx arr"
  proof cases
    case inside
    then have "\<not> (c < mn \<or> c > mx)" by (simp add: not_less)
    then have "mn' = mn" "mx' = mx" "arr' = arr" using w by (simp_all add: dense_widen_def)
    then show ?thesis using inside assms by simp
  next
    case lo
    then have e: "mn' = c" "mx' = mx" "arr' = replicate (unat mn - unat c) None @ arr"
      using w le by (auto simp: dense_widen_def Let_def)
    have n: "unat c < unat mn" "unat mn \<le> unat mx"
      using lo le by (simp_all add: word_less_nat_alt word_le_nat_alt)
    have "dense_child c mx arr' d = dense_child mn mx arr d" for d
    proof (cases "c \<le> d \<and> d \<le> mx")
      case True
      then have "unat c \<le> unat d" "unat (d - c) = unat d - unat c" by (simp_all add: word_le_nat_alt unat_diff_le)
      then show ?thesis
        using True e(3) n by (auto simp: dense_child_def nth_append word_le_nat_alt unat_diff_le)
    next
      case False
      then show ?thesis using lo by (auto simp: dense_child_def)
    qed
    then show ?thesis using e n lo le c0 len by (auto simp: word_le_nat_alt)
  next
    case hi
    then have e: "mn' = mn" "mx' = c" "arr' = arr @ replicate (unat c - unat mx) None"
      using w le by (auto simp: dense_widen_def Let_def word_le_nat_alt word_less_nat_alt)
    have n: "unat mx < unat c" "unat mn \<le> unat mx"
      using hi le by (simp_all add: word_less_nat_alt word_le_nat_alt)
    have "dense_child mn c arr' d = dense_child mn mx arr d" for d
    proof (cases "mn \<le> d \<and> d \<le> c")
      case True
      then have "unat mn \<le> unat d" "unat (d - mn) = unat d - unat mn" by (simp_all add: word_le_nat_alt unat_diff_le)
      then show ?thesis
        using True e(3) n len by (auto simp: dense_child_def nth_append word_le_nat_alt)
    next
      case False
      then show ?thesis using hi by (auto simp: dense_child_def)
    qed
    then show ?thesis using e n hi le pos len by (auto simp: word_le_nat_alt)
  qed
  then show "mn' \<le> c" "c \<le> mx'" "mn' \<le> mx'" "0 < mn'" "length arr' = unat mx' - unat mn' + 1"
    "dense_child mn' mx' arr' = dense_child mn mx arr" by blast+
qed

lemma fold_min_le:
  fixes cs :: "(u8 \<times> 'a) list" and m0 :: u8
  shows "fold (\<lambda>(c2, _) m. if m < c2 then m else c2) cs m0 \<le> m0 \<and>
   (\<forall>x\<in>set cs. fold (\<lambda>(c2, _) m. if m < c2 then m else c2) cs m0 \<le> fst x) \<and>
   fold (\<lambda>(c2, _) m. if m < c2 then m else c2) cs m0 \<in> insert m0 (fst ` set cs)"
proof (induction cs arbitrary: m0)
  case (Cons x cs)
  obtain c ch where x: "x = (c, ch)" by (cases x)
  show ?case
    using Cons.IH [of "if m0 < c then m0 else c"] unfolding x
    by (auto split: if_splits)
qed simp

lemma fold_max_ge:
  fixes cs :: "(u8 \<times> 'a) list" and m0 :: u8
  shows "m0 \<le> fold (\<lambda>(c2, _) m. if m > c2 then m else c2) cs m0 \<and>
   (\<forall>x\<in>set cs. fst x \<le> fold (\<lambda>(c2, _) m. if m > c2 then m else c2) cs m0)"
proof (induction cs arbitrary: m0)
  case (Cons x cs)
  obtain c ch where x: "x = (c, ch)" by (cases x)
  show ?case
    using Cons.IH [of "if m0 > c then m0 else c"] unfolding x
    by (auto split: if_splits)
qed simp

lemma dense_array_fold:
  assumes "distinct (map fst cs)" "\<forall>x\<in>set cs. mn \<le> fst x \<and> fst x \<le> mx"
    and "length arr = unat mx - unat mn + 1"
  shows "length (fold (\<lambda>(c, ch) arr. arr[unat (c - mn) := Some ch]) cs arr) = length arr \<and>
    dense_child mn mx (fold (\<lambda>(c, ch) arr. arr[unat (c - mn) := Some ch]) cs arr) =
    (\<lambda>d. case map_of cs d of None \<Rightarrow> dense_child mn mx arr d | Some ch \<Rightarrow> Some ch)"
  using assms
proof (induction cs arbitrary: arr)
  case (Cons x cs)
  obtain c ch where x: "x = (c, ch)" by (cases x)
  have c: "mn \<le> c" "c \<le> mx" using Cons.prems(2) x by auto
  have "map_of cs c = None" using Cons.prems(1) x by (auto simp: map_of_eq_None_iff)
  then show ?case
    using Cons.IH [of "arr[unat (c - mn) := Some ch]"] Cons.prems x
    by (auto simp: dense_child_update [OF c] fun_eq_iff split: option.split)
qed simp

lemma dense_array_ok:
  assumes "distinct (map fst cs)" "\<forall>x\<in>set cs. mn \<le> fst x \<and> fst x \<le> mx"
  shows "length (dense_array mn (unat mx - unat mn + 1) cs) = unat mx - unat mn + 1"
    and "dense_child mn mx (dense_array mn (unat mx - unat mn + 1) cs) = map_of cs"
proof -
  have "dense_child mn mx (replicate (unat mx - unat mn + 1) None) d = None" for d
    using dense_index [of mn d mx] by (simp add: dense_child_def del: replicate.simps add_Suc_right)
  then show "length (dense_array mn (unat mx - unat mn + 1) cs) = unat mx - unat mn + 1"
    and "dense_child mn mx (dense_array mn (unat mx - unat mn + 1) cs) = map_of cs"
    using dense_array_fold [OF assms, of "replicate (unat mx - unat mn + 1) None"]
    by (simp_all add: dense_array_def fun_eq_iff del: replicate.simps split: option.split)
qed

lemma card_dom_upd: "f c = None \<Longrightarrow> finite {d. f d \<noteq> None} \<Longrightarrow>
  card {d. (f(c := Some (m::'a))) d \<noteq> None} = Suc (card {d. f d \<noteq> None})"
proof -
  assume "f c = None" and fin: "finite {d. f d \<noteq> None}"
  then have "{d. (f(c := Some m)) d \<noteq> None} = insert c {d. f d \<noteq> None}" "c \<notin> {d. f d \<noteq> None}" by auto
  with fin show ?thesis by simp
qed

lemma card_dom_sparse: "distinct (map fst cs) \<Longrightarrow> card {c. map_of cs c \<noteq> None} = length cs"
proof -
  assume d: "distinct (map fst cs)"
  have "{c. map_of cs c \<noteq> None} = set (map fst cs)" by (auto simp: map_of_eq_None_iff)
  also have "card \<dots> = length cs" using d distinct_card by fastforce
  finally show ?thesis .
qed

end
