(* ===== verification/TrieOps.thy ===== *)
theory TrieOps
  imports TrieSpec
begin

text \<open>
  The operations of \<open>trie.c\<close> against their denotation: subscribing adds one socket id at one key
  and changes nothing else, unsubscribing removes it and prunes, the lookup and the match return
  what is subscribed at the prefixes of the data, and the teardown meets no unset list. The
  conditions \<open>sub_safe\<close> and \<open>unsub_safe\<close> exclude the two conversions of the child array that
  lose the subscriptions of the converted node.
\<close>

section \<open>Adding a child\<close>

lemma child_card_le: "node_ok (Trie_node rc p sk (Dense mn mx nbr arr)) \<Longrightarrow> unat nbr \<le> 256"
proof -
  assume "node_ok (Trie_node rc p sk (Dense mn mx nbr arr))"
  then have "unat nbr = length (filter (\<lambda>x. x \<noteq> None) arr)" "length arr = unat mx - unat mn + 1" by auto
  moreover have "length (filter (\<lambda>x. x \<noteq> None) arr) \<le> length arr" by (rule length_filter_le)
  moreover have "unat mx < 256" using unsigned_less [of mx] by simp
  ultimately show ?thesis by simp
qed

lemma sparse_add_ok:
  assumes ok: "node_ok (Trie_node rc p sk (Sparse cs))" and "length cs < NN_TRIE_SPARSE_MAX"
    and "map_of cs c = None" and "c \<noteq> 0" and "node_ok m"
  shows "node_ok (Trie_node rc p sk (Sparse (cs @ [(c, m)])))"
    and "child (Trie_node rc p sk (Sparse (cs @ [(c, m)]))) =
      (child (Trie_node rc p sk (Sparse cs)))(c := Some m)"
proof -
  show "node_ok (Trie_node rc p sk (Sparse (cs @ [(c, m)])))"
    using assms by (auto simp: map_of_eq_None_iff)
  show "child (Trie_node rc p sk (Sparse (cs @ [(c, m)]))) = (child (Trie_node rc p sk (Sparse cs)))(c := Some m)"
  proof (rule ext)
    fix d
    show "child (Trie_node rc p sk (Sparse (cs @ [(c, m)]))) d = ((child (Trie_node rc p sk (Sparse cs)))(c := Some m)) d"
      using assms(3) by (cases "map_of cs d") (auto simp: child_Sparse map_add_def)
  qed
qed

lemma sparse_to_dense_ok:
  assumes ok: "node_ok (Trie_node rc p sk (Sparse cs))" and full: "length cs = NN_TRIE_SPARSE_MAX"
    and none: "map_of cs c = None" and c0: "c \<noteq> 0" and m: "node_ok m"
    and mn: "0 < mn" "mn \<le> c" "\<forall>x\<in>set cs. mn \<le> fst x"
    and mx: "c \<le> mx" "\<forall>x\<in>set cs. fst x \<le> mx"
  defines "n' \<equiv> Trie_node 0 p Sock_null (Dense mn mx (of_nat (length cs + 1))
      ((dense_array mn (unat mx - unat mn + 1) cs)[unat (c - mn) := Some m]))"
  shows "node_ok n'" and "child n' = (child (Trie_node rc p sk (Sparse cs)))(c := Some m)"
proof -
  let ?arr = "dense_array mn (unat mx - unat mn + 1) cs"
  have d: "distinct (map fst cs)" and p: "length p \<le> NN_TRIE_PREFIX_MAX" "0 \<notin> set p"
    using ok by auto
  have arr: "length ?arr = unat mx - unat mn + 1" "dense_child mn mx ?arr = map_of cs"
    using dense_array_ok [OF d] mn mx by blast+
  have ch: "child n' = (map_of cs)(c := Some m)"
    unfolding n'_def child_dense_child
    using dense_child_update [OF mn(2) mx(1) arr(1), of "Some m"] arr(2) by simp
  then show "child n' = (child (Trie_node rc p sk (Sparse cs)))(c := Some m)"
    by (simp add: fun_eq_iff child_Sparse)
  have card: "card {d. child n' d \<noteq> None} = length cs + 1"
    unfolding ch using card_dom_upd [where f = "map_of cs" and c = c and m = m, OF none finite_subset [OF subset_UNIV finite]] card_dom_sparse [OF d]
    by simp
  have kid: "node_ok x" if "map_of cs d = Some x" for d x
    using child_ok [OF ok, of d x] that by (simp add: child_Sparse)
  show "node_ok n'"
    using card ch kid mn mx m p arr(1) full none
    unfolding n'_def kids_ok_Dense_iff
    by (auto simp: NN_TRIE_SPARSE_MAX_def unat_of_nat)
qed

lemma dense_add_ok:
  assumes ok: "node_ok (Trie_node rc p sk (Dense mn mx nbr arr))"
    and none: "child (Trie_node rc p sk (Dense mn mx nbr arr)) c = None" and c0: "c \<noteq> 0" and m: "node_ok m"
    and w: "dense_widen mn mx arr c = (mn', mx', arr')"
  defines "n' \<equiv> Trie_node rc p sk (Dense mn' mx' (nbr + 1) (arr'[unat (c - mn') := Some m]))"
  shows "node_ok n'" and "child n' = (child (Trie_node rc p sk (Dense mn mx nbr arr)))(c := Some m)"
proof -
  let ?n = "Trie_node rc p sk (Dense mn mx nbr arr)"
  have old: "0 < mn" "mn \<le> mx" "length arr = unat mx - unat mn + 1" using ok by auto
  note w' = dense_widen_ok [OF w old(2,3,1) c0]
  have ch: "child n' = (child ?n)(c := Some m)"
    unfolding n'_def child_dense_child
    using dense_child_update [OF w'(1,2,5), of "Some m"] w'(6) by simp
  show "child n' = (child ?n)(c := Some m)" by (rule ch)
  have "unat (nbr + 1) = unat nbr + 1"
    using child_card_le [OF ok] by (simp add: unat_word_ariths)
  moreover have "card {d. child n' d \<noteq> None} = Suc (card {d. child ?n d \<noteq> None})"
    unfolding ch by (rule card_dom_upd [OF none child_finite])
  ultimately show "node_ok n'"
    using ok ch w' m unfolding n'_def kids_ok_Dense_iff by (auto split: if_splits)
qed

lemma add_child_ok:
  assumes ok: "node_ok n" and nul: "c \<noteq> 0" "0 \<notin> set rest" and none: "child n c = None"
    and safe: "\<And>cs. kids n = Sparse cs \<Longrightarrow> length cs = NN_TRIE_SPARSE_MAX \<Longrightarrow> sock_list n = []"
  shows "\<exists>n' m. nn_add_child n (c # rest) s = Inr (n', 2) \<and> node_ok n' \<and> tprefix n' = tprefix n \<and>
    sock_list n' = sock_list n \<and> child n' = (child n)(c := Some m) \<and>
    (\<forall>k. subs_at m k = (if k = rest then [s] else []))"
proof -
  obtain m where m: "nn_new_nodes rest s = Inr (m, 2)" "node_ok m"
      "\<forall>k. subs_at m k = (if k = rest then [s] else [])"
    using new_nodes_ok [OF nul(2)] by blast
  obtain rc p sk ks where n: "n = Trie_node rc p sk ks" by (cases n)
  have fin: ?thesis if "nn_add_child n (c # rest) s = Inr (n', 2)" "node_ok n'" "tprefix n' = tprefix n"
    "sock_list n' = sock_list n" "child n' = (child n)(c := Some m)" for n'
    using that m(3) by blast
  show ?thesis
  proof (cases ks)
    case (Dense mn mx nbr arr)
    obtain mn' mx' arr' where w: "dense_widen mn mx arr c = (mn', mx', arr')"
      by (cases "dense_widen mn mx arr c")
    note d = dense_add_ok [OF ok [unfolded n Dense] none [unfolded n Dense] nul(1) m(2) w]
    show ?thesis
      by (rule fin [OF _ d(1)]) (use d(2) m(1) w in \<open>simp_all add: n Dense nn_add_child_def sock_list_def\<close>)
  next
    case (Sparse cs)
    have none': "map_of cs c = None" using none by (simp add: n Sparse child_Sparse)
    show ?thesis
    proof (cases "length cs < NN_TRIE_SPARSE_MAX")
      case True
      note d = sparse_add_ok [OF ok [unfolded n Sparse] True none' nul(1) m(2)]
      show ?thesis
        by (rule fin [OF _ d(1)]) (use d(2) m(1) True in \<open>simp_all add: n Sparse nn_add_child_def sock_list_def\<close>)
    next
      case False
      then have full: "length cs = NN_TRIE_SPARSE_MAX" using ok by (simp add: n Sparse)
      then have empty: "sock_list n = []" using safe n Sparse by simp
      define mn0 :: u8 where "mn0 = fold (\<lambda>(c2, _) m. if m < c2 then m else c2) cs 255"
      define mx0 :: u8 where "mx0 = fold (\<lambda>(c2, _) m. if m > c2 then m else c2) cs 0"
      define mn where "mn = (if mn0 < c then mn0 else c)"
      define mx where "mx = (if mx0 > c then mx0 else c)"
      have "\<forall>x\<in>set cs. fst x \<noteq> 0" using ok by (force simp: n Sparse)
      then have "mn0 \<noteq> 0" using fold_min_le [of cs 255] unfolding mn0_def [symmetric] by auto
      then have mn: "0 < mn" "mn \<le> c" "\<forall>x\<in>set cs. mn \<le> fst x"
        using fold_min_le [of cs 255] nul(1) unfolding mn0_def [symmetric]
        by (auto simp: mn_def word_neq_0_conv not_less intro: order_trans)
      have mx: "c \<le> mx" "\<forall>x\<in>set cs. fst x \<le> mx"
        using fold_max_ge [of 0 cs] unfolding mx0_def [symmetric]
        by (auto simp: mx_def not_less intro: order_trans)
      note d = sparse_to_dense_ok [OF ok [unfolded n Sparse] full none' nul(1) m(2) mn mx]
      have "nn_add_child n (c # rest) s = Inr (Trie_node 0 p Sock_null
          (Dense mn mx (of_nat (length cs + 1))
            ((dense_array mn (unat mx - unat mn + 1) cs)[unat (c - mn) := Some m])), 2)"
        using False m(1) by (simp add: n Sparse nn_add_child_def Let_def mn_def mx_def mn0_def mx0_def)
      then show ?thesis
        by (rule fin [OF _ d(1)]) (use d(2) empty in \<open>simp_all add: n Sparse sock_list_def\<close>)
    qed
  qed
qed

section \<open>Replacing a child\<close>

lemma map_of_slot_put:
  "map_of cs c \<noteq> None \<Longrightarrow> map_of (slot_put c m cs) = (map_of cs)(c := Some m)"
  by (induction cs) (auto simp: fun_eq_iff)

lemma slot_put_simps: "map fst (slot_put c m cs) = map fst cs" "length (slot_put c m cs) = length cs"
  "x \<in> set (slot_put c m cs) \<Longrightarrow> snd x = m \<or> x \<in> set cs"
  by (induction cs) (auto split: if_splits)

lemma put_child_ok:
  assumes ok: "node_ok n" and old: "child n c = Some old" and m: "node_ok m"
  shows "node_ok (nn_put_child n c m)" "tprefix (nn_put_child n c m) = tprefix n"
    "sock_list (nn_put_child n c m) = sock_list n" "child (nn_put_child n c m) = (child n)(c := Some m)"
proof -
  obtain rc p sk ks where n: "n = Trie_node rc p sk ks" by (cases n)
  show "tprefix (nn_put_child n c m) = tprefix n" "sock_list (nn_put_child n c m) = sock_list n"
    by (simp_all add: nn_put_child_def sock_list_def n)
  have "child (nn_put_child n c m) = (child n)(c := Some m) \<and> node_ok (nn_put_child n c m)"
  proof (cases ks)
    case (Sparse cs)
    have some: "map_of cs c \<noteq> None" using old by (simp add: n Sparse child_Sparse)
    have set: "fst ` set (slot_put c m cs) = fst ` set cs"
      by (metis list.set_map slot_put_simps(1))
    have "node_ok (nn_put_child n c m)"
      using ok m slot_put_simps [where cs = cs and c = c and m = m]
      by (auto simp: n Sparse nn_put_child_def set)
    then show ?thesis using map_of_slot_put [OF some]
      by (simp add: n Sparse nn_put_child_def child_Sparse fun_eq_iff)
  next
    case (Dense mn mx nbr arr)
    have c: "mn \<le> c" "c \<le> mx" "length arr = unat mx - unat mn + 1"
      using old ok by (auto simp: n Dense child_Dense split: if_splits)
    have ch: "child (nn_put_child n c m) = (child n)(c := Some m)"
      by (simp add: n Dense nn_put_child_def child_dense_child dense_child_update [OF c])
    moreover have "{d. ((child n)(c := Some m)) d \<noteq> None} = {d. child n d \<noteq> None}"
      using old by auto
    ultimately have "node_ok (nn_put_child n c m)"
      using ok m ch unfolding n Dense nn_put_child_def kids_ok_Dense_iff
      by (auto simp: kids_ok_Dense_iff simp del: node_ok.simps split: if_splits)
    with ch show ?thesis by simp
  qed
  then show "node_ok (nn_put_child n c m)" "child (nn_put_child n c m) = (child n)(c := Some m)" by auto
qed

text \<open>What changing one child does to the denotation.\<close>

lemma subs_at_child_update:
  assumes "tprefix n' = tprefix n" "sock_list n' = sock_list n" "child n' = (child n)(c := v)"
  shows "subs_at n' k =
    (if prefix (tprefix n @ [c]) k then subs_slot v (drop (length (tprefix n) + 1) k) else subs_at n k)"
proof (cases rule: subs_at_cases [of "tprefix n" k])
  case 1
  then have "\<not> prefix (tprefix n @ [c]) k" by (auto simp: prefix_def)
  with 1 assms(1) show ?thesis by (simp add: subs_at_not_prefix)
next
  case 2
  then show ?thesis using assms subs_at_here [of n'] by (simp add: prefix_def)
next
  case (3 d r)
  then show ?thesis using assms subs_at_below [of n' d r] by simp
qed

lemma subs_at_put:
  assumes "tprefix n' = tprefix n" "sock_list n' = sock_list n" "child n' = (child n)(c := Some m)"
    and "\<And>k. subs_at m k = (if k = rest then v else subs_slot (child n c) k)"
  shows "subs_at n' k = (if k = tprefix n @ c # rest then v else subs_at n k)"
proof (cases "prefix (tprefix n @ [c]) k")
  case True
  then obtain r where "k = tprefix n @ c # r" by (auto simp: prefix_def)
  then show ?thesis
    using subs_at_child_update [OF assms(1-3), of k] assms(4) by simp
next
  case False
  then show ?thesis using subs_at_child_update [OF assms(1-3), of k] by (auto simp: prefix_def)
qed

section \<open>Subscribing\<close>

lemma check_prefix_le: "check_prefix p d \<le> length p" "check_prefix p d \<le> length d"
  by (induction p d rule: check_prefix.induct) auto

lemma check_prefix_take: "take (check_prefix p d) d = take (check_prefix p d) p"
  by (induction p d rule: check_prefix.induct) auto

lemma check_prefix_full: "check_prefix p d = length p \<longleftrightarrow> prefix p d"
  by (induction p d rule: check_prefix.induct) auto

lemma check_prefix_stop:
  "check_prefix p d < length p \<Longrightarrow> drop (check_prefix p d) d = c # r \<Longrightarrow> p ! check_prefix p d \<noteq> c"
  by (induction p d rule: check_prefix.induct) (auto split: if_splits)

lemma child_next:
  "child n c = (case nn_node_next n c of Some (Some ch) \<Rightarrow> Some ch | _ \<Rightarrow> None)"
  by (auto simp: child_def split: option.splits)

text \<open>
  Where a child has to be added below a full sparse node, the code replaces the node by a dense
  one with no subscribers: \<open>sub_safe\<close> excludes that there are any.
\<close>

function sub_safe :: "slot \<Rightarrow> bytes \<Rightarrow> bool" where
  "sub_safe None data = True"
| "sub_safe (Some n) data =
     (if \<not> prefix (tprefix n) data then True
      else (case drop (length (tprefix n)) data of
          [] \<Rightarrow> True
        | c # rest \<Rightarrow>
            (case child n c of
               Some ch \<Rightarrow> sub_safe (Some ch) rest
             | None \<Rightarrow> (case kids n of
                   Sparse cs \<Rightarrow> length cs < NN_TRIE_SPARSE_MAX \<or> sock_list n = []
                 | Dense _ _ _ _ \<Rightarrow> True))))"
  by pat_completeness auto
termination
  by (relation "measure (\<lambda>(n, data). length data)") (auto simp: drop_eq_Cons_length Cons_eq_drop_length)

declare sub_safe.simps [simp del]

lemma nn_add_child_Nil: "nn_add_child n [] s = nn_add_sockid n s"
  by (simp add: nn_add_child_def)

lemma node_subscribe_ok:
  assumes "slot_ok sl" "0 \<notin> set data" "sub_safe sl data" "length (subs_slot sl data) + 1 < 2 ^ 32"
  shows "\<exists>n'. nn_node_subscribe sl data s = Inr (n', sub_code (subs_slot sl data) s) \<and> node_ok n' \<and>
    (\<forall>k. subs_at n' k = (if k = data then add_sock (subs_slot sl data) s else subs_slot sl k))"
  using assms
proof (induction sl data s rule: nn_node_subscribe.induct)
  case (1 data s)
  then show ?case
    using new_nodes_ok [of data s] by (auto simp: nn_node_subscribe.simps sub_code_def)
next
  case (2 n data s)
  let ?p = "tprefix n" and ?pos = "nn_node_check_prefix n data"
  have ok: "node_ok n" and room: "length (subs_at n data) + 1 < 2 ^ 32" using "2.prems" by simp_all
  have le: "?pos \<le> length ?p" unfolding nn_node_check_prefix_def by (rule check_prefix_le)
  have data: "data = take ?pos ?p @ drop ?pos data"
    using check_prefix_take [of ?p data] unfolding nn_node_check_prefix_def
    by (metis append_take_drop_id)
  have add_sockid: ?case
    if n': "node_ok m" "tprefix m = data" "\<And>k. subs_at m k = subs_at n k"
      and eq: "nn_node_subscribe (Some n) data s = nn_add_sockid m s" for m
  proof -
    have l: "sock_list m = subs_at n data" using n'(2,3) by (metis subs_at_here)
    then obtain n2 where n2: "nn_add_sockid m s = Inr (n2, sub_code (sock_list m) s)" "node_ok n2"
      "tprefix n2 = tprefix m" "child n2 = child m" "sock_list n2 = add_sock (sock_list m) s"
      using add_sockid_ok [OF n'(1), of s] room by metis
    have "subs_at n2 k = (if k = data then add_sock (subs_at n data) s else subs_at n k)" for k
    proof (cases rule: subs_at_cases [of "tprefix n2" k])
      case 1
      then show ?thesis using n2(3) n'(2,3) by (metis subs_at_not_prefix prefix_order.refl)
    next
      case 2
      then show ?thesis using n2(3,5) n'(2) l by (metis subs_at_here)
    next
      case (3 c r)
      then have "subs_at n2 k = subs_at m k" using n2(3,4) by (metis subs_at_below)
      with 3 show ?thesis using n'(2,3) n2(3) by auto
    qed
    then show ?thesis using eq n2(1,2) l by auto
  qed
  have add_child: ?case
    if n': "node_ok m" "tprefix m @ c # rest = data" "\<And>k. subs_at m k = subs_at n k" "child m c = None"
      and safe: "\<And>cs. kids m = Sparse cs \<Longrightarrow> length cs = NN_TRIE_SPARSE_MAX \<Longrightarrow> sock_list m = []"
      and eq: "nn_node_subscribe (Some n) data s = nn_add_child m (c # rest) s" for m c rest
  proof -
    have nul: "c \<noteq> 0" "0 \<notin> set rest" using n'(2) "2.prems"(2) by auto
    have "\<exists>n' x. nn_add_child m (c # rest) s = Inr (n', 2) \<and> node_ok n' \<and> tprefix n' = tprefix m \<and>
        sock_list n' = sock_list m \<and> child n' = (child m)(c := Some x) \<and>
        (\<forall>k. subs_at x k = (if k = rest then [s] else []))"
      by (rule add_child_ok [OF n'(1) nul n'(4)]) (rule safe)
    then obtain n2 x where n2: "nn_add_child m (c # rest) s = Inr (n2, 2)" "node_ok n2"
      "tprefix n2 = tprefix m" "sock_list n2 = sock_list m" "child n2 = (child m)(c := Some x)"
      "\<And>k. subs_at x k = (if k = rest then [s] else [])"
      by blast
    have e: "subs_at n data = []" using n'(2-4) by (metis subs_at_below subs_slot_simps(1))
    have "subs_at n2 k = (if k = data then [s] else subs_at n k)" for k
      using subs_at_put [OF n2(3-5), of rest "[s]" k] n2(6) n'(2-4) by simp
    then show ?thesis using eq n2(1,2) e by (simp add: sub_code_def)
  qed
  show ?case
  proof (cases "?pos < length ?p")
    case True
    note sp = split_ok [OF ok True]
    have eq: "nn_node_subscribe (Some n) data s = nn_add_child (nn_split n ?pos) (drop ?pos data) s"
      using True by (subst nn_node_subscribe.simps) (simp add: Let_def)
    have tp: "tprefix (nn_split n ?pos) = take ?pos ?p" by (simp add: nn_split_def)
    show ?thesis
    proof (cases "drop ?pos data")
      case Nil
      then show ?thesis
        by (intro add_sockid [of "nn_split n ?pos"])
          (use sp data tp eq in \<open>simp_all add: nn_add_child_Nil\<close>)
    next
      case (Cons c rest)
      have "?p ! ?pos \<noteq> c"
        using check_prefix_stop [of ?p data c rest] True Cons unfolding nn_node_check_prefix_def by blast
      then have "child (nn_split n ?pos) c = None" by (simp add: nn_split_def child_Sparse)
      moreover have "sock_list (nn_split n ?pos) = []" by (simp add: nn_split_def sock_list_def)
      ultimately show ?thesis
        by (intro add_child [of "nn_split n ?pos" c rest]) (use sp data tp eq Cons in simp_all)
    qed
  next
    case False
    then have pos: "?pos = length ?p" using le by simp
    have dp: "data = ?p @ drop (length ?p) data" using data unfolding pos by simp
    show ?thesis
    proof (cases "drop (length ?p) data")
      case Nil
      then show ?thesis
        by (intro add_sockid [of n])
          (use ok dp pos in \<open>simp_all add: nn_node_subscribe.simps Let_def\<close>)
    next
      case (Cons c rest)
      have dt: "data = ?p @ c # rest" using dp Cons by simp
      show ?thesis
      proof (cases "child n c")
        case None
        then have eq: "nn_node_subscribe (Some n) data s = nn_add_child n (c # rest) s"
          using pos Cons by (subst nn_node_subscribe.simps)
            (auto simp: Let_def child_def split: option.splits)
        have "sock_list n = []" if "kids n = Sparse cs" "length cs = NN_TRIE_SPARSE_MAX" for cs
          using "2.prems"(3) that None dt by (subst (asm) sub_safe.simps) simp
        then show ?thesis
          by (intro add_child [of n c rest]) (use ok dt None eq in simp_all)
      next
        case (Some ch)
        then have nx: "nn_node_next n c = Some (Some ch)"
          by (auto simp: child_def split: option.splits)
        have chok: "node_ok ch" using child_ok [OF ok Some] .
        have sub: "subs_at ch rest = subs_at n data" using dt Some by simp
        have safe: "sub_safe (Some ch) rest"
          using "2.prems"(3) Some dt by (subst (asm) sub_safe.simps) simp
        have nulr: "0 \<notin> set rest" using "2.prems"(2) dt by auto
        have "\<exists>n'. nn_node_subscribe (Some ch) rest s = Inr (n', sub_code (subs_slot (Some ch) rest) s) \<and>
          node_ok n' \<and> (\<forall>k. subs_at n' k =
            (if k = rest then add_sock (subs_slot (Some ch) rest) s else subs_slot (Some ch) k))"
          using "2.IH" [of ?pos "c # rest" "Some ch" ch] pos Cons nx chok nulr safe sub room
          by (auto cong: conj_cong)
        then obtain m where m: "nn_node_subscribe (Some ch) rest s = Inr (m, sub_code (subs_at ch rest) s)"
          "node_ok m" "\<And>k. subs_at m k = (if k = rest then add_sock (subs_at ch rest) s else subs_at ch k)"
          by auto
        have eq: "nn_node_subscribe (Some n) data s = Inr (nn_put_child n c m, sub_code (subs_at n data) s)"
          using pos Cons nx m(1) sub by (subst nn_node_subscribe.simps) (simp add: Let_def)
        note pc = put_child_ok [OF ok Some m(2)]
        have "subs_at (nn_put_child n c m) k =
            (if k = data then add_sock (subs_at n data) s else subs_at n k)" for k
          using subs_at_put [OF pc(2-4), of rest "add_sock (subs_at n data) s" k] m(3) Some dt sub by simp
        then show ?thesis using eq pc(1) by simp
      qed
    qed
  qed
qed

section \<open>Trimming a dense array\<close>

lemma first_used_ok:
  assumes "\<exists>x\<in>set xs. x \<noteq> None"
  shows "first_used xs < length xs" "xs ! first_used xs \<noteq> None" "j < first_used xs \<Longrightarrow> xs ! j = None"
proof -
  have "first_used xs < length xs \<and> xs ! first_used xs \<noteq> None \<and> (\<forall>j < first_used xs. xs ! j = None)"
    using assms by (induction xs rule: first_used.induct) (auto simp: nth_Cons split: nat.split)
  then show "first_used xs < length xs" "xs ! first_used xs \<noteq> None" "j < first_used xs \<Longrightarrow> xs ! j = None"
    by blast+
qed

lemma of_nat_plus_unat:
  assumes "mn \<le> (mx :: u8)" "i \<le> unat mx - unat mn"
  shows "unat (of_nat (i + unat mn) :: u8) = i + unat mn"
proof -
  have "unat mn \<le> unat mx" "unat mx < 256" using assms(1) unsigned_less [of mx] by (simp_all add: word_le_nat_alt)
  then show ?thesis using assms(2) by (simp add: unat_of_nat del: of_nat_add)
qed

lemma dense_drop_ok:
  assumes le: "mn \<le> mx" and len: "length arr = unat mx - unat mn + 1"
    and used: "\<exists>x\<in>set arr. x \<noteq> None" and pos: "0 < mn"
  defines "i \<equiv> first_used arr"
  shows "dense_child (of_nat (i + unat mn)) mx (drop i arr) = dense_child mn mx arr"
    "(of_nat (i + unat mn) :: u8) \<le> mx" "0 < (of_nat (i + unat mn) :: u8)"
    "length (drop i arr) = unat mx - unat (of_nat (i + unat mn) :: u8) + 1"
proof -
  note fu = first_used_ok [OF used, folded i_def]
  have i: "i \<le> unat mx - unat mn" using fu(1) len by simp
  let ?mn = "of_nat (i + unat mn) :: u8"
  have u: "unat ?mn = i + unat mn" by (rule of_nat_plus_unat [OF le i])
  have mm: "unat mn \<le> unat mx" using le by (simp add: word_le_nat_alt)
  have p: "0 < unat mn" using pos by (simp add: word_less_nat_alt)
  show "?mn \<le> mx" "0 < ?mn" using u i mm p by (simp_all add: word_le_nat_alt word_less_nat_alt)
  show "length (drop i arr) = unat mx - unat ?mn + 1" using u len fu(1) mm by simp
  show "dense_child ?mn mx (drop i arr) = dense_child mn mx arr"
  proof (rule ext)
    fix d
    consider "\<not> (mn \<le> d \<and> d \<le> mx)" | "?mn \<le> d" "d \<le> mx" | "mn \<le> d" "d < ?mn" "d \<le> mx" by fastforce
    then show "dense_child ?mn mx (drop i arr) d = dense_child mn mx arr d"
    proof cases
      case 1
      then show ?thesis using u by (auto simp: dense_child_def word_le_nat_alt simp del: of_nat_add)
    next
      case 2
      then have "unat (d - ?mn) = unat d - (i + unat mn)" "i + unat mn \<le> unat d"
        using u unat_diff_le [OF 2(1)] by (simp_all add: word_le_nat_alt del: of_nat_add)
      moreover have "mn \<le> d" using calculation(2) by (simp add: word_le_nat_alt)
      moreover have "unat (d - mn) = unat d - unat mn" by (rule unat_diff_le [OF \<open>mn \<le> d\<close>])
      ultimately show ?thesis
        using 2 fu(1) by (simp add: dense_child_def del: of_nat_add)
    next
      case 3
      then have "unat (d - mn) < i" using u unat_diff_le [OF 3(1)]
        by (simp add: word_less_nat_alt word_le_nat_alt less_diff_conv del: of_nat_add)
      moreover have "\<not> ?mn \<le> d" using 3(2) by (simp only: not_le)
      ultimately show ?thesis using 3 fu(3) by (simp add: dense_child_def del: of_nat_add)
    qed
  qed
qed

lemma dense_take_ok:
  assumes le: "mn \<le> mx" and len: "length arr = unat mx - unat mn + 1"
    and used: "\<exists>x\<in>set (tl arr). x \<noteq> None"
  defines "i \<equiv> length arr - 1 - first_used (rev (tl arr))"
  shows "dense_child mn (of_nat (i + unat mn)) (take (i + 1) arr) = dense_child mn mx arr"
    "mn \<le> (of_nat (i + unat mn) :: u8)"
    "length (take (i + 1) arr) = unat (of_nat (i + unat mn) :: u8) - unat mn + 1"
proof -
  have used': "\<exists>x\<in>set (rev (tl arr)). x \<noteq> None" using used by simp
  note fu = first_used_ok [OF used']
  have i: "i \<le> unat mx - unat mn" "i < length arr" "0 < i" using fu(1) len by (auto simp: i_def)
  let ?mx = "of_nat (i + unat mn) :: u8"
  have u: "unat ?mx = i + unat mn" by (rule of_nat_plus_unat [OF le i(1)])
  have none: "arr ! j = None" if "i < j" "j < length arr" for j
  proof -
    have "length arr - 1 - j < first_used (rev (tl arr))" using that fu(1) by (auto simp: i_def)
    then have "rev (tl arr) ! (length arr - 1 - j) = None" by (rule fu(3))
    moreover have "length (tl arr) - Suc (length arr - 1 - j) = j - 1" using that i by auto
    ultimately have "tl arr ! (j - 1) = None" using that i by (simp add: rev_nth del: length_tl)
    then show ?thesis using that i by (simp add: nth_tl)
  qed
  show "mn \<le> ?mx" using u by (simp add: word_le_nat_alt)
  show "length (take (i + 1) arr) = unat ?mx - unat mn + 1" using u i by simp
  show "dense_child mn ?mx (take (i + 1) arr) = dense_child mn mx arr"
  proof (rule ext)
    fix d
    show "dense_child mn ?mx (take (i + 1) arr) d = dense_child mn mx arr d"
    proof (cases "mn \<le> d")
      case False
      then show ?thesis by (simp add: dense_child_def)
    next
      case True
      have ud: "unat (d - mn) = unat d - unat mn" "unat mn \<le> unat d"
        using unat_diff_le [OF True] True by (simp_all add: word_le_nat_alt)
      have "unat (d - mn) < length arr" if "d \<le> mx" using dense_index [OF True that] len by simp
      moreover have "d \<le> ?mx \<longleftrightarrow> unat (d - mn) \<le> i" using u ud by (simp add: word_le_nat_alt del: of_nat_add) linarith
      moreover have "d \<le> mx" if "d \<le> ?mx"
        using that u i(1) le by (simp add: word_le_nat_alt del: of_nat_add)
      ultimately show ?thesis
        using True none [of "unat (d - mn)"] by (auto simp: dense_child_def not_le simp del: of_nat_add)
    qed
  qed
qed

lemma card_dom_del: "f c \<noteq> None \<Longrightarrow> finite {d. f d \<noteq> None} \<Longrightarrow>
  Suc (card {d. (f(c := None)) d \<noteq> None}) = card {d. f d \<noteq> None}"
proof -
  assume some: "f c \<noteq> None" and fin: "finite {d. f d \<noteq> None}"
  have "{d. (f(c := None)) d \<noteq> None} = {d. f d \<noteq> None} - {c}" by auto
  then show ?thesis
    by (simp only: card_Suc_Diff1 [OF fin, of c] mem_Collect_eq some not_False_eq_True)
qed

lemma dense_used:
  assumes "card {d. dense_child mn mx arr d \<noteq> None} > 0" "length arr = unat mx - unat mn + 1"
  shows "\<exists>x\<in>set arr. x \<noteq> None"
proof -
  obtain d where "dense_child mn mx arr d \<noteq> None" using assms(1) by (metis (mono_tags, lifting) card_gt_0_iff mem_Collect_eq ex_in_conv)
  then have "mn \<le> d" "d \<le> mx" "arr ! unat (d - mn) \<noteq> None" by (auto simp: dense_child_def split: if_splits)
  then show ?thesis using dense_index [of mn d mx] assms(2) by (metis nth_mem)
qed

lemma dense_used_tl:
  assumes card: "card {d. dense_child mn mx arr d \<noteq> None} > 1" and len: "length arr = unat mx - unat mn + 1"
  shows "\<exists>x\<in>set (tl arr). x \<noteq> None"
proof (rule ccontr)
  assume no: "\<not> ?thesis"
  have "d = mn" if "dense_child mn mx arr d \<noteq> None" for d
  proof (rule ccontr)
    assume "d \<noteq> mn"
    from that have d: "mn \<le> d" "d \<le> mx" "arr ! unat (d - mn) \<noteq> None" by (auto simp: dense_child_def split: if_splits)
    moreover have "0 < unat (d - mn)" using \<open>d \<noteq> mn\<close> by (simp add: word_unat_eq_iff [symmetric] unat_gt_0)
    ultimately have "arr ! unat (d - mn) \<in> set (tl arr)"
      using dense_index [OF d(1,2)] len
      by (metis (no_types, lifting) Suc_eq_plus1 Suc_pred length_tl nth_mem nth_tl add_diff_cancel_right' Suc_less_eq diff_Suc_1)
    with d(3) no show False by auto
  qed
  then have "{d. dense_child mn mx arr d \<noteq> None} \<subseteq> {mn}" by auto
  then have "card {d. dense_child mn mx arr d \<noteq> None} \<le> 1" by (metis card_mono card.empty card_insert_le_m1 finite.simps is_singletonI is_singleton_altdef one_eq_numeral_iff)
  with card show False by simp
qed

section \<open>Unsubscribing\<close>

lemma slot_remove_ok:
  "distinct (map fst cs) \<Longrightarrow> map_of (slot_remove c cs) = (map_of cs)(c := None)"
  "set (slot_remove c cs) \<subseteq> set cs" "length (slot_remove c cs) \<le> length cs"
  "distinct (map fst cs) \<Longrightarrow> distinct (map fst (slot_remove c cs))"
proof -
  show sub: "set (slot_remove c cs) \<subseteq> set cs" for cs :: "(u8 \<times> trie_node) list"
    by (induction cs) (auto split: if_splits)
  show "length (slot_remove c cs) \<le> length cs" by (induction cs) auto
  show "distinct (map fst cs) \<Longrightarrow> map_of (slot_remove c cs) = (map_of cs)(c := None)"
    by (induction cs) (auto simp: fun_eq_iff simp flip: map_of_eq_None_iff)
  show "distinct (map fst cs) \<Longrightarrow> distinct (map fst (slot_remove c cs))"
    by (induction cs) (use sub in force)+
qed

lemma remove_sparse_ok:
  assumes ok: "node_ok (Trie_node rc p sk (Sparse cs))"
  shows "node_ok (Trie_node rc p sk (Sparse (slot_remove c cs)))"
    and "child (Trie_node rc p sk (Sparse (slot_remove c cs))) =
      (child (Trie_node rc p sk (Sparse cs)))(c := None)"
proof -
  have d: "distinct (map fst cs)" using ok by simp
  note sr = slot_remove_ok [where c = c and cs = cs]
  show "node_ok (Trie_node rc p sk (Sparse (slot_remove c cs)))"
    using ok sr(3) sr(4) [OF d] subsetD [OF sr(2)] by (auto simp: image_iff)
  show "child (Trie_node rc p sk (Sparse (slot_remove c cs))) =
      (child (Trie_node rc p sk (Sparse cs)))(c := None)"
    using sr(1) [OF d] by (simp add: child_Sparse fun_eq_iff)
qed

text \<open>Removing a child from a dense node that stays dense.\<close>

lemma remove_dense_ok:
  assumes ok: "node_ok (Trie_node rc p sk (Dense mn mx nbr arr0))"
    and old: "child (Trie_node rc p sk (Dense mn mx nbr arr0)) c \<noteq> None" and big: "unat nbr > NN_TRIE_SPARSE_MAX + 1"
  shows "\<exists>n'. nn_remove_child (Trie_node rc p sk (Dense mn mx nbr arr0)) c = Inr (Some n', 1) \<and> node_ok n' \<and> tprefix n' = p \<and>
    sock_list n' = sock_list (Trie_node rc p sk (Dense mn mx nbr arr0)) \<and> child n' = (child (Trie_node rc p sk (Dense mn mx nbr arr0)))(c := None)"
proof -
  let ?n = "Trie_node rc p sk (Dense mn mx nbr arr0)"
  define arr where "arr = arr0[unat (c - mn) := None]"
  have c: "mn \<le> c" "c \<le> mx" and len0: "length arr0 = unat mx - unat mn + 1" and le: "mn \<le> mx" and pos: "0 < mn"
    using old ok by (auto simp: child_Dense split: if_splits)
  have len: "length arr = unat mx - unat mn + 1" by (simp add: arr_def len0)
  have dc: "dense_child mn mx arr = (child ?n)(c := None)"
    unfolding arr_def child_dense_child by (rule dense_child_update [OF c len0])
  have nbr: "unat nbr = card {d. child ?n d \<noteq> None}" using ok unfolding kids_ok_Dense_iff by blast
  have fin: "finite {d. child ?n d \<noteq> None}" by simp
  have card: "Suc (card {d. dense_child mn mx arr d \<noteq> None}) = unat nbr"
    unfolding dc nbr by (rule card_dom_del [OF old fin])
  have nbr': "unat (nbr - 1) = unat nbr - 1"
    using card by (metis Suc_neq_Zero Suc_pred' unat_1 unat_gt_0 unat_minus_one unsigned_0 gr0I diff_Suc_1)
  have used: "\<exists>x\<in>set arr. x \<noteq> None" "\<exists>x\<in>set (tl arr). x \<noteq> None"
    using dense_used [OF _ len] dense_used_tl [OF _ len] card big
    by (simp_all add: NN_TRIE_SPARSE_MAX_def)
  have fin: ?thesis
    if res: "nn_remove_child ?n c = Inr (Some (Trie_node rc p sk (Dense mn' mx' (nbr - 1) arr')), 1)"
      and r: "0 < mn'" "mn' \<le> mx'" "length arr' = unat mx' - unat mn' + 1"
        "dense_child mn' mx' arr' = dense_child mn mx arr" for mn' mx' arr'
  proof -
    let ?n' = "Trie_node rc p sk (Dense mn' mx' (nbr - 1) arr')"
    have ch: "child ?n' = (child ?n)(c := None)"
      unfolding child_dense_child [of rc p sk mn' mx'] r(4) dc ..
    have "card {d. child ?n' d \<noteq> None} = unat (nbr - 1)"
      unfolding child_dense_child r(4) nbr' using card by simp
    then have "node_ok ?n'"
      using ok r ch nbr' big child_ok [OF ok] unfolding kids_ok_Dense_iff
      by (auto split: if_splits)
    with ch res show ?thesis by (auto simp: sock_list_def)
  qed
  consider (lo) "c = mn" | (hi) "c \<noteq> mn" "c = mx" | (mid) "c \<noteq> mn" "c \<noteq> mx" by blast
  then show ?thesis
  proof cases
    case lo
    note d = dense_drop_ok [OF le len used(1) pos]
    show ?thesis
      by (rule fin [OF _ d(3,2,4,1)])
        (use big lo in \<open>simp add: nn_remove_child_def arr_def Let_def del: of_nat_add\<close>)
  next
    case hi
    note d = dense_take_ok [OF le len used(2)]
    show ?thesis
      by (rule fin [OF _ pos d(2,3,1)])
        (use big hi in \<open>simp add: nn_remove_child_def arr_def Let_def del: of_nat_add\<close>)
  next
    case mid
    show ?thesis
      by (rule fin [OF _ pos le len refl])
        (use big mid in \<open>simp add: nn_remove_child_def arr_def Let_def\<close>)
  qed
qed

lemma subs_at_empty_node:
  assumes "sock_list n = []" "\<And>c. child n c = None" shows "subs_at n k = []"
  by (cases rule: subs_at_cases [of "tprefix n" k])
    (use assms subs_at_here [of n] subs_at_below [of n] in \<open>auto simp: subs_at_not_prefix\<close>)

lemma remove_child_ok:
  assumes ok: "node_ok n" and old: "child n c \<noteq> None"
    and safe: "\<And>mn mx nbr arr. kids n = Dense mn mx nbr arr \<Longrightarrow> unat nbr > NN_TRIE_SPARSE_MAX + 1"
  shows "\<exists>sl'. nn_remove_child n c = Inr (sl', 1) \<and> slot_ok sl' \<and>
    (\<forall>k. subs_slot sl' k = (if prefix (tprefix n @ [c]) k then [] else subs_at n k))"
proof -
  obtain rc p sk ks where n: "n = Trie_node rc p sk ks" by (cases n)
  show ?thesis
  proof (cases ks)
    case (Dense mn mx nbr arr)
    then obtain n' where n': "nn_remove_child n c = Inr (Some n', 1)" "node_ok n'"
      "tprefix n' = tprefix n" "sock_list n' = sock_list n" "child n' = (child n)(c := None)"
      using remove_dense_ok [of rc p sk mn mx nbr arr c] ok old safe n
      by (metis trie_node.sel(2) trie_node.sel(4))
    then show ?thesis using subs_at_child_update [OF n'(3-5)] by auto
  next
    case (Sparse cs)
    define n' where "n' = Trie_node rc p sk (Sparse (slot_remove c cs))"
    have n': "node_ok n'" "tprefix n' = tprefix n" "sock_list n' = sock_list n"
      "child n' = (child n)(c := None)"
      using remove_sparse_ok [OF ok [unfolded n Sparse]]
      by (simp_all add: n'_def n Sparse sock_list_def)
    note sub = subs_at_child_update [OF n'(2-4)]
    have mem: "c \<in> fst ` set cs"
      using old by (simp add: n Sparse child_Sparse map_of_eq_None_iff)
    show ?thesis
    proof (cases "slot_remove c cs = [] \<and> \<not> nn_node_has_subscribers n'")
      case True
      then have "sock_list n' = []" using has_subscribers_iff [OF n'(1)] by simp
      moreover have "child n' d = None" for d using True by (simp add: n'_def child_Sparse)
      ultimately have "subs_at n' k = []" for k by (rule subs_at_empty_node)
      then have "(if prefix (tprefix n @ [c]) k then [] else subs_at n k) = []" for k
        using sub [of k] by (auto split: if_splits)
      moreover have "socks n' \<noteq> Sock_uninit" by (rule node_okD(3) [OF n'(1)])
      then have "nn_remove_child n c = Inr (None, 1)"
        using True mem by (auto simp: nn_remove_child_def n Sparse n'_def nn_free_node_def Let_def)
      ultimately show ?thesis by simp
    next
      case False
      then have "nn_remove_child n c = Inr (Some (nn_node_compact n'), 1)"
        using mem by (auto simp: nn_remove_child_def n Sparse n'_def Let_def)
      then show ?thesis
        using sub compact_ok [OF n'(1)] subs_at_compact [OF n'(1)] by simp
    qed
  qed
qed

text \<open>
  The conversion of a dense node back to a sparse one drops its subscriptions and leaves its list
  uninitialised: \<open>unsub_safe\<close> says that no dense node on the path has only nine children left
  when one of them goes.
\<close>

function unsub_safe :: "slot \<Rightarrow> bytes \<Rightarrow> bool" where
  "unsub_safe None data = True"
| "unsub_safe (Some n) data =
     (case drop (length (tprefix n)) data of
        [] \<Rightarrow> True
      | c # rest \<Rightarrow>
          (case kids n of Sparse _ \<Rightarrow> True | Dense _ _ nbr _ \<Rightarrow> unat nbr > NN_TRIE_SPARSE_MAX + 1) \<and>
          unsub_safe (child n c) rest)"
  by pat_completeness auto
termination
  by (relation "measure (\<lambda>(n, data). length data)") (auto simp: drop_eq_Cons_length Cons_eq_drop_length)

declare unsub_safe.simps [simp del]

lemma remove1_set_distinct: "distinct l \<Longrightarrow> s \<in> set l \<Longrightarrow> length (remove1 s l) = length l - 1"
  by (simp add: length_remove1)

lemma found_ok:
  assumes ok: "node_ok n" and mem: "s \<in> set (sock_list n)"
  shows "\<exists>sl'. nn_found (Some n) s = Inr (sl', if length (sock_list n) = 1 then 1 else 0) \<and> slot_ok sl' \<and>
    (\<forall>k. subs_slot sl' k = (if k = tprefix n then remove1 s (sock_list n) else subs_at n k)) \<and>
    (sl' = None \<longrightarrow> length (sock_list n) = 1)"
proof -
  let ?l = "sock_list n"
  define n' where "n' = Trie_node (refcount n - 1) (tprefix n) (Sock_list (remove1 s ?l)) (kids n)"
  have l: "socks n = Sock_list ?l" using mem by (auto simp: sock_list_def split: sockids.splits)
  have len: "length ?l < 2 ^ 32" "0 < length ?l" using node_okD(5) [OF ok] mem by (auto intro: length_pos_if_in_set)
  then have rc: "refcount n - 1 = of_nat (length ?l - 1)"
    using node_okD(6) [OF ok] by (cases "length ?l") simp_all
  have hs: "nn_node_has_subscribers n" using has_subscribers_iff [OF ok] mem by auto
  have rc0: "refcount n - 1 = 0 \<longleftrightarrow> length ?l = 1"
    using len unfolding rc by (auto simp: word_unat_eq_iff unat_of_nat le_Suc_eq)
  have n': "node_ok n'"
    by (rule node_okI) (use node_okD [OF ok] rc mem in \<open>auto simp: n'_def sock_list_def [of "Trie_node _ _ _ _"] length_remove1\<close>)
  have nt: "tprefix n' = tprefix n" "sock_list n' = remove1 s ?l" "child n' = child n"
    by (cases n; simp add: n'_def sock_list_def child_socks_irrelevant)+
  have sub: "subs_at n' k = (if k = tprefix n then remove1 s ?l else subs_at n k)" for k
  proof (cases rule: subs_at_cases [of "tprefix n" k])
    case 1
    then show ?thesis using nt by (auto simp: subs_at_not_prefix)
  next
    case 2
    then show ?thesis using nt by (metis subs_at_here)
  next
    case (3 c r)
    then show ?thesis using nt subs_at_below [of n' c r] by simp
  qed
  have eq: "nn_found (Some n) s = (if length ?l = 1 then (if kids n = Sparse [] then nn_free_node n'
      else Inr (Some (nn_node_compact n'), 1)) else Inr (Some n', 0))"
    using rc0 hs l by (simp add: nn_found_def n'_def Let_def)
  consider "length ?l \<noteq> 1" | "length ?l = 1" "kids n = Sparse []" | "length ?l = 1" "kids n \<noteq> Sparse []"
    by blast
  then show ?thesis
  proof cases
    case 1
    then show ?thesis using eq n' sub by auto
  next
    case 2
    have "remove1 s ?l = []" using 2 mem by (cases ?l) auto
    moreover have "child n' d = None" for d using 2 by (simp add: n'_def child_Sparse)
    ultimately have "subs_at n' k = []" for k using subs_at_empty_node [of n'] nt(2) by simp
    then show ?thesis using 2 eq sub by (auto simp: nn_free_node_def n'_def split: if_splits)
  next
    case 3
    then show ?thesis using eq sub compact_ok [OF n'] subs_at_compact [OF n'] by auto
  qed
qed

lemma node_unsubscribe_ok:
  assumes "slot_ok sl" "s \<in> set (subs_slot sl data)" "unsub_safe sl data"
  shows "\<exists>sl'. nn_node_unsubscribe sl data s = Inr (sl', if length (subs_slot sl data) = 1 then 1 else 0) \<and>
    slot_ok sl' \<and> (\<forall>k. subs_slot sl' k = (if k = data then remove1 s (subs_slot sl data) else subs_slot sl k)) \<and>
    (sl' = None \<longrightarrow> length (subs_slot sl data) = 1)"
  using assms
proof (induction sl data s rule: nn_node_unsubscribe.induct)
  case (1 sl data s)
  obtain n where sl: "sl = Some n" using "1.prems"(2) by (cases sl) auto
  have ok: "node_ok n" and mem: "s \<in> set (subs_at n data)" using "1.prems" sl by simp_all
  have pre: "prefix (tprefix n) data" using mem by (cases "prefix (tprefix n) data") (simp_all add: subs_at_not_prefix)
  then have full: "nn_node_check_prefix n data = length (tprefix n)"
    unfolding nn_node_check_prefix_def check_prefix_full .
  show ?case
  proof (cases "drop (length (tprefix n)) data")
    case Nil
    then have data: "data = tprefix n" using pre by (auto simp: prefix_def)
    have "nn_node_unsubscribe sl data s = nn_found sl s"
      using Nil full sl by (subst nn_node_unsubscribe.simps) auto
    then show ?thesis using found_ok [OF ok, of s] mem unfolding sl data by (simp only: subs_slot_simps subs_at_here)
  next
    case (Cons c rest)
    then have dt: "data = tprefix n @ c # rest" using pre by (auto simp: prefix_def)
    obtain ch where ch: "child n c = Some ch" using mem dt by (cases "child n c") auto
    then have nx: "nn_node_next n c = Some (Some ch)" by (auto simp: child_def split: option.splits)
    have sub: "subs_at ch rest = subs_at n data" using dt ch by simp
    have safe: "unsub_safe (Some ch) rest"
      "\<And>mn mx nbr arr. kids n = Dense mn mx nbr arr \<Longrightarrow> unat nbr > NN_TRIE_SPARSE_MAX + 1"
      using "1.prems"(3) unfolding sl unsub_safe.simps(2) [of n data] Cons
      by (simp_all add: ch split: trie_kids.splits)
    obtain ch' where ch': "nn_node_unsubscribe (Some ch) rest s = Inr (ch', if length (subs_at ch rest) = 1 then 1 else 0)"
      "slot_ok ch'" "\<And>k. subs_slot ch' k = (if k = rest then remove1 s (subs_at ch rest) else subs_at ch k)"
      "ch' = None \<Longrightarrow> length (subs_at ch rest) = 1"
      using "1.IH" [of n c rest "Some ch"] sl Cons nx full child_ok [OF ok ch] mem sub safe(1) dt by auto
    have eq: "nn_node_unsubscribe sl data s =
        (case ch' of Some m \<Rightarrow> Inr (Some (nn_put_child n c m), if length (subs_at n data) = 1 then 1 else 0)
         | None \<Rightarrow> nn_remove_child n c)"
      using ch'(1,4) full sl Cons nx sub dt by (subst nn_node_unsubscribe.simps) (auto split: option.split)
    show ?thesis
    proof (cases ch')
      case (Some m)
      have m: "node_ok m" using ch'(2) Some by simp
      note pc = put_child_ok [OF ok ch m]
      have "subs_at (nn_put_child n c m) k =
          (if k = data then remove1 s (subs_at n data) else subs_at n k)" for k
        using subs_at_put [OF pc(2-4), of rest "remove1 s (subs_at n data)" k] ch'(3) Some dt ch sub by simp
      then show ?thesis using eq Some pc(1) sl by simp
    next
      case None
      then have one: "length (subs_at n data) = 1" using ch'(4) sub by simp
      have gone: "remove1 s (subs_at n data) = []" using one mem by (cases "subs_at n data") auto
      have "\<exists>sl'. nn_remove_child n c = Inr (sl', 1) \<and> slot_ok sl' \<and>
          (\<forall>k. subs_slot sl' k = (if prefix (tprefix n @ [c]) k then [] else subs_at n k))"
        by (rule remove_child_ok [OF ok]) (simp add: ch, rule safe(2))
      then obtain sl' where r: "nn_remove_child n c = Inr (sl', 1)" "slot_ok sl'"
        "\<And>k. subs_slot sl' k = (if prefix (tprefix n @ [c]) k then [] else subs_at n k)"
        by blast
      have "subs_slot sl' k = (if k = data then [] else subs_at n k)" for k
      proof (cases "prefix (tprefix n @ [c]) k")
        case True
        then obtain q where k: "k = tprefix n @ c # q" by (auto simp: prefix_def)
        show ?thesis
        proof (cases "q = rest")
          case True
          then have "k = data" by (simp only: k dt)
          then show ?thesis using r(3) [of k] \<open>prefix _ k\<close> by simp
        next
          case False
          then have "subs_at ch q = []" using ch'(3) [of q] None by simp
          then have "subs_at n k = []" using ch k by simp
          then show ?thesis using r(3) [of k] \<open>prefix _ k\<close> by simp
        qed
      next
        case False
        then have "k \<noteq> data" using dt by (auto simp: prefix_def)
        then show ?thesis using r(3) False by simp
      qed
      then show ?thesis using eq None r(1,2) one gone sl by simp
    qed
  qed
qed

section \<open>Lookup\<close>

definition pub_list :: "sockid list option \<Rightarrow> sockid list" where
  "pub_list pub = (case pub of None \<Rightarrow> [] | Some l \<Rightarrow> l)"

lemma pub_list_simps [simp]: "pub_list None = []" "pub_list (Some l) = l"
  by (simp_all add: pub_list_def)

lemma append_all_ok:
  "set (nn_append_all pub l) = set (pub_list pub) \<union> set l"
  "distinct (pub_list pub) \<Longrightarrow> distinct (nn_append_all pub l)"
proof -
  have "set (fold (\<lambda>t acc. add_sock acc t) l acc) = set acc \<union> set l" for acc
    by (induction l arbitrary: acc) auto
  moreover have "distinct acc \<Longrightarrow> distinct (fold (\<lambda>t acc. add_sock acc t) l acc)" for acc
    by (induction l arbitrary: acc) auto
  ultimately show "set (nn_append_all pub l) = set (pub_list pub) \<union> set l"
    "distinct (pub_list pub) \<Longrightarrow> distinct (nn_append_all pub l)"
    unfolding nn_append_all_def pub_list_def add_sock_def by auto
qed

text \<open>The socket ids subscribed at some prefix of the data.\<close>

definition matching :: "slot \<Rightarrow> bytes \<Rightarrow> sockid set" where
  "matching sl data = {s. \<exists>p. prefix p data \<and> s \<in> set (subs_slot sl p)}"

lemma matching_None [simp]: "matching None data = {}"
  by (simp add: matching_def)

lemma matching_no_prefix: "\<not> prefix (tprefix n) data \<Longrightarrow> matching (Some n) data = {}"
proof -
  assume no: "\<not> prefix (tprefix n) data"
  have "subs_at n p = []" if "prefix p data" for p
    using no that by (metis prefix_order.trans subs_at_not_prefix)
  then show ?thesis by (simp add: matching_def)
qed

lemma matching_here: "matching (Some n) (tprefix n) = set (sock_list n)"
proof -
  have "subs_at n p = []" if "prefix p (tprefix n)" "p \<noteq> tprefix n" for p
    using that by (metis prefix_order.antisym subs_at_not_prefix)
  then show ?thesis unfolding matching_def
    by (auto simp del: subs_at_here) (metis empty_iff empty_set subs_at_here, metis prefix_order.refl subs_at_here)
qed

lemma matching_below:
  "matching (Some n) (tprefix n @ c # r) = set (sock_list n) \<union> matching (child n c) r"
proof
  show "matching (Some n) (tprefix n @ c # r) \<subseteq> set (sock_list n) \<union> matching (child n c) r"
  proof
    fix s assume "s \<in> matching (Some n) (tprefix n @ c # r)"
    then obtain p where p: "prefix p (tprefix n @ c # r)" "s \<in> set (subs_at n p)" by (auto simp: matching_def)
    show "s \<in> set (sock_list n) \<union> matching (child n c) r"
    proof (cases rule: subs_at_cases [of "tprefix n" p])
      case 1
      then show ?thesis using p(2) by (simp add: subs_at_not_prefix)
    next
      case 2
      then show ?thesis using p(2) by simp
    next
      case (3 d q)
      then have "d = c" "prefix q r" using p(1) by auto
      then show ?thesis using p(2) 3 by (auto simp: matching_def)
    qed
  qed
next
  have "prefix (tprefix n) (tprefix n @ c # r)" by simp
  then have "set (sock_list n) \<subseteq> matching (Some n) (tprefix n @ c # r)"
    unfolding matching_def by (metis (mono_tags, lifting) mem_Collect_eq subs_at_here subs_slot_simps(2) subsetI)
  moreover have "matching (child n c) r \<subseteq> matching (Some n) (tprefix n @ c # r)"
  proof
    fix s assume "s \<in> matching (child n c) r"
    then obtain q where "prefix q r" "s \<in> set (subs_slot (child n c) q)" by (auto simp: matching_def)
    then have "prefix (tprefix n @ c # q) (tprefix n @ c # r) \<and> s \<in> set (subs_at n (tprefix n @ c # q))" by simp
    then show "s \<in> matching (Some n) (tprefix n @ c # r)" unfolding matching_def by (metis (mono_tags) mem_Collect_eq subs_slot_simps(2))
  qed
  ultimately show "set (sock_list n) \<union> matching (child n c) r \<subseteq> matching (Some n) (tprefix n @ c # r)" by blast
qed

lemma child_step:
  "child n c = (case nn_node_next n c of None \<Rightarrow> None | Some sl \<Rightarrow> sl)"
  by (auto simp: child_def split: option.splits)

lemma slot_ok_child: "node_ok n \<Longrightarrow> slot_ok (child n c)"
  using child_ok [of n c] by (cases "child n c") auto

lemma tree_from_ok:
  assumes "slot_ok sl" "0 \<notin> set data" "distinct (pub_list pub)"
  shows "\<exists>pub'. nn_tree_from sl data pub = Inr pub' \<and> distinct (pub_list pub') \<and>
    set (pub_list pub') = set (pub_list pub) \<union> matching sl data"
  using assms
proof (induction sl data pub rule: nn_tree_from.induct)
  case (1 data pub)
  then show ?case by (simp add: nn_tree_from.simps)
next
  case (2 n data pub)
  have ok: "node_ok n" using "2.prems"(1) by simp
  have full: "nn_node_check_prefix n data = length (tprefix n) \<longleftrightarrow> prefix (tprefix n) data"
    unfolding nn_node_check_prefix_def check_prefix_full ..
  define step where "step = (if nn_node_has_subscribers n
               then (case socks n of
                       Sock_list l \<Rightarrow> Inr (Some (nn_append_all pub l))
                     | Sock_null \<Rightarrow> Inl Assert_fail
                     | Sock_uninit \<Rightarrow> Inl Uninit_read)
               else Inr pub)"
  obtain pub1 where pub1: "step = Inr pub1" "distinct (pub_list pub1)"
    "set (pub_list pub1) = set (pub_list pub) \<union> set (sock_list n)"
  proof (cases "nn_node_has_subscribers n")
    case True
    then have "socks n = Sock_list (sock_list n)"
      using has_subscribers_iff [OF ok] by (auto simp: sock_list_def split: sockids.splits)
    then show thesis
      using True that [of "Some (nn_append_all pub (sock_list n))"] append_all_ok "2.prems"(3) by (simp add: step_def)
  next
    case False
    then show thesis using that [of pub] has_subscribers_iff [OF ok] "2.prems"(3) by (simp add: step_def)
  qed
  show ?case
  proof (cases "prefix (tprefix n) data")
    case False
    then show ?thesis using "2.prems"(3) full by (simp add: nn_tree_from.simps matching_no_prefix)
  next
    case True
    then obtain r where r: "data = tprefix n @ r" by (auto simp: prefix_def)
    have eq: "nn_tree_from (Some n) data pub = (case r of
          [] \<Rightarrow> (case nn_node_next n 0 of Some (Some ch) \<Rightarrow> Inl Out_of_bounds | _ \<Rightarrow> Inr pub1)
        | c # rest' \<Rightarrow> (case nn_node_next n c of None \<Rightarrow> Inr pub1 | Some ch \<Rightarrow> nn_tree_from ch rest' pub1))"
      using True full r pub1(1) unfolding step_def by (simp add: nn_tree_from.simps(2) Let_def)
    show ?thesis
    proof (cases r)
      case Nil
      then show ?thesis using eq pub1 r child_0 [OF ok]
        by (auto simp: matching_here child_def split: option.splits)
    next
      case (Cons c q)
      have nul: "0 \<notin> set q" using "2.prems"(2) r Cons by simp
      have m: "matching (Some n) data = set (sock_list n) \<union> matching (child n c) q"
        using matching_below [of n c q] r Cons by simp
      show ?thesis
      proof (cases "nn_node_next n c")
        case None
        then show ?thesis using eq pub1 m Cons by (auto simp: child_step)
      next
        case (Some sl)
        then have sl: "child n c = sl" by (simp add: child_step)
        have "slot_ok sl" using slot_ok_child [OF ok, of c] sl by simp
        then have "\<exists>pub'. nn_tree_from sl q pub1 = Inr pub' \<and> distinct (pub_list pub') \<and>
            set (pub_list pub') = set (pub_list pub1) \<union> matching sl q"
          using "2.IH" [OF _ refl _ _ Some] True full r Cons nul pub1(1,2) by (simp add: step_def)
        then show ?thesis using eq Cons Some m sl pub1(3) by auto
      qed
    qed
  qed
qed

lemma match_from_ok:
  assumes "slot_ok sl" "0 \<notin> set data"
  shows "nn_match_from sl data = Inr (if matching sl data = {} then 0 else 1)"
  using assms
proof (induction sl data rule: nn_match_from.induct)
  case (1 data)
  then show ?case by (simp add: nn_match_from.simps)
next
  case (2 n data)
  have ok: "node_ok n" using "2.prems"(1) by simp
  note hs = has_subscribers_iff [OF ok]
  have full: "nn_node_check_prefix n data = length (tprefix n) \<longleftrightarrow> prefix (tprefix n) data"
    unfolding nn_node_check_prefix_def check_prefix_full ..
  show ?case
  proof (cases rule: subs_at_cases [of "tprefix n" data])
    case 1
    then show ?thesis using full by (simp add: nn_match_from.simps matching_no_prefix)
  next
    case 2
    then show ?thesis using full hs child_0 [OF ok] matching_here [of n]
      by (auto simp: nn_match_from.simps(2) child_def split: option.splits)
  next
    case (3 c r)
    show ?thesis
    proof (cases "sock_list n = []")
      case False
      then have "matching (Some n) data \<noteq> {}" using 3 by (simp add: matching_below)
      then show ?thesis using 3 full hs False by (simp add: nn_match_from.simps(2))
    next
      case True
      then have m: "matching (Some n) data = matching (child n c) r" using 3 by (simp add: matching_below)
      have eq: "nn_match_from (Some n) data =
          (case nn_node_next n c of None \<Rightarrow> Inr 0 | Some ch \<Rightarrow> nn_match_from ch r)"
        using 3 full hs True by (simp add: nn_match_from.simps(2))
      show ?thesis
      proof (cases "nn_node_next n c")
        case None
        then show ?thesis using eq m by (simp add: child_step)
      next
        case (Some sl)
        have "slot_ok sl" using slot_ok_child [OF ok, of c] Some by (simp add: child_step)
        then show ?thesis
          using "2.IH" [of c r sl] full 3 hs True Some eq m "2.prems"(2) by (simp add: child_step)
      qed
    qed
  qed
qed

lemma node_term_ok: "node_ok n \<Longrightarrow> nn_node_term n = Inr ()"
proof (induction n rule: nn_node_term.induct)
  case (1 rc p sk ks)
  have "node_ok ch" if "Some ch \<in> set (nn_children ks)" for ch
    using that "1.prems" by (cases ks) (fastforce simp: nn_children_def)+
  then have "(case sl of None \<Rightarrow> Inr () | Some ch \<Rightarrow> nn_node_term ch) = Inr ()" if "sl \<in> set (nn_children ks)" for sl
    using "1.IH" that by (cases sl) auto
  then have "rfold (\<lambda>sl u. case sl of None \<Rightarrow> Inr () | Some ch \<Rightarrow> nn_node_term ch) (nn_children ks) () = Inr ()"
    by (rule rfold_unit)
  then show ?case using "1.prems" by simp
qed

end
