(* ===== verification/TopicIndex.thy ===== *)
theory TopicIndex
  imports TrieOps
begin

text \<open>
  The trie behind its interface: \<open>topic_index\<close> states what the broker relies on when it adds, removes
  and looks up subscriptions, a history of operations is compared with the set of pairs it leaves
  subscribed, and the trie of \<open>trie.c\<close> is shown to be such an index. The properties of the component
  and the two conversions that break its contract close the theory.
\<close>

section \<open>The interface of a topic index\<close>

datatype topic_op = Topic_sub bytes sockid | Topic_unsub bytes sockid

text \<open>What a history of operations leaves subscribed.\<close>

fun abs_step :: "topic_op \<Rightarrow> (bytes \<times> sockid) set \<Rightarrow> (bytes \<times> sockid) set" where
  "abs_step (Topic_sub k s) R = insert (k, s) R"
| "abs_step (Topic_unsub k s) R = R - {(k, s)}"

definition abs_run :: "topic_op list \<Rightarrow> (bytes \<times> sockid) set" where
  "abs_run ops = fold abs_step ops {}"

definition topic_step ::
    "('ix \<Rightarrow> bytes \<Rightarrow> sockid \<Rightarrow> ('ix \<times> int) res) \<Rightarrow> ('ix \<Rightarrow> bytes \<Rightarrow> sockid \<Rightarrow> ('ix \<times> int) res) \<Rightarrow>
     topic_op \<Rightarrow> 'ix \<Rightarrow> 'ix res" where
  "topic_step add del oper x =
     (case oper of
        Topic_sub k s \<Rightarrow> rbind (add x k s) (\<lambda>(y, r). Inr y)
      | Topic_unsub k s \<Rightarrow> rbind (del x k s) (\<lambda>(y, r). Inr y))"

definition topic_op_ok ::
    "('ix \<Rightarrow> bytes \<Rightarrow> sockid list) \<Rightarrow> ('ix \<Rightarrow> bytes \<Rightarrow> bool) \<Rightarrow> ('ix \<Rightarrow> bytes \<Rightarrow> bool) \<Rightarrow>
     topic_op \<Rightarrow> 'ix \<Rightarrow> bool" where
  "topic_op_ok subs add_safe del_safe oper x \<longleftrightarrow>
     (case oper of
        Topic_sub k s \<Rightarrow> 0 \<notin> set k \<and> add_safe x k \<and> int (length (subs x k)) + 1 < 2 ^ 32
      | Topic_unsub k s \<Rightarrow> s \<in> set (subs x k) \<and> del_safe x k)"

text \<open>Every operation of a history meets its condition in the state where it runs.\<close>

fun history_ok :: "('op \<Rightarrow> 's \<Rightarrow> bool) \<Rightarrow> ('op \<Rightarrow> 's \<Rightarrow> 's res) \<Rightarrow> 's \<Rightarrow> 'op list \<Rightarrow> bool" where
  "history_ok P step x [] = True"
| "history_ok P step x (oper # ops) \<longleftrightarrow> P oper x \<and>
     (case step oper x of Inr y \<Rightarrow> history_ok P step y ops | Inl _ \<Rightarrow> True)"

locale topic_index =
  fixes inv :: "'ix \<Rightarrow> bool"
    and subs :: "'ix \<Rightarrow> bytes \<Rightarrow> sockid list"
    and emp :: 'ix
    and add :: "'ix \<Rightarrow> bytes \<Rightarrow> sockid \<Rightarrow> ('ix \<times> int) res"
    and del :: "'ix \<Rightarrow> bytes \<Rightarrow> sockid \<Rightarrow> ('ix \<times> int) res"
    and find :: "'ix \<Rightarrow> bytes \<Rightarrow> sockid list option res"
    and add_safe :: "'ix \<Rightarrow> bytes \<Rightarrow> bool"
    and del_safe :: "'ix \<Rightarrow> bytes \<Rightarrow> bool"
  assumes emp: "inv emp" "subs emp k = []"
    and distinct_subs: "inv x \<Longrightarrow> distinct (subs x k)"
    and add: "inv x \<Longrightarrow> 0 \<notin> set k \<Longrightarrow> add_safe x k \<Longrightarrow> int (length (subs x k)) + 1 < 2 ^ 32 \<Longrightarrow>
      \<exists>y. add x k s = Inr (y, sub_code (subs x k) s) \<and> inv y \<and> subs y = (subs x)(k := add_sock (subs x k) s)"
    and del: "inv x \<Longrightarrow> s \<in> set (subs x k) \<Longrightarrow> del_safe x k \<Longrightarrow>
      \<exists>y. del x k s = Inr (y, if length (subs x k) = 1 then 1 else 0) \<and> inv y \<and>
        subs y = (subs x)(k := remove1 s (subs x k))"
    and find: "inv x \<Longrightarrow> 0 \<notin> set data \<Longrightarrow>
      \<exists>pub. find x data = Inr pub \<and> distinct (pub_list pub) \<and>
        set (pub_list pub) = {s. \<exists>p. prefix p data \<and> s \<in> set (subs x p)}"
begin

lemma step_ok:
  assumes "inv x" and "topic_op_ok subs add_safe del_safe oper x"
  shows "\<exists>y. topic_step add del oper x = Inr y \<and> inv y \<and>
    {(k, s). s \<in> set (subs y k)} = abs_step oper {(k, s). s \<in> set (subs x k)}"
proof (cases oper)
  case (Topic_sub k s)
  then obtain y where y: "add x k s = Inr (y, sub_code (subs x k) s)" "inv y"
    "subs y = (subs x)(k := add_sock (subs x k) s)"
    using add [OF assms(1), of k s] assms(2) by (auto simp: topic_op_ok_def)
  then have "{(k, s). s \<in> set (subs y k)} = abs_step oper {(k, s). s \<in> set (subs x k)}"
    using Topic_sub by (auto split: if_splits)
  then show ?thesis using y Topic_sub by (simp add: topic_step_def)
next
  case (Topic_unsub k s)
  then obtain y where y: "del x k s = Inr (y, if length (subs x k) = 1 then 1 else 0)" "inv y"
    "subs y = (subs x)(k := remove1 s (subs x k))"
    using del [OF assms(1), of s k] assms(2) by (auto simp: topic_op_ok_def)
  then have "{(k, s). s \<in> set (subs y k)} = abs_step oper {(k, s). s \<in> set (subs x k)}"
    using Topic_unsub distinct_subs [OF assms(1), of k] by (auto split: if_splits)
  then show ?thesis using y Topic_unsub by (simp add: topic_step_def)
qed

lemma run_ok:
  assumes "inv x" and "history_ok (topic_op_ok subs add_safe del_safe) (topic_step add del) x ops"
  shows "\<exists>y. rfold (topic_step add del) ops x = Inr y \<and> inv y \<and>
    {(k, s). s \<in> set (subs y k)} = fold abs_step ops {(k, s). s \<in> set (subs x k)}"
  using assms
proof (induction ops arbitrary: x)
  case Nil
  then show ?case by simp
next
  case (Cons oper ops)
  obtain y where y: "topic_step add del oper x = Inr y" "inv y"
    "{(k, s). s \<in> set (subs y k)} = abs_step oper {(k, s). s \<in> set (subs x k)}"
    using step_ok Cons.prems by force
  then show ?case using Cons.IH [of y] Cons.prems(2) by simp
qed

lemma find_after_run:
  assumes "history_ok (topic_op_ok subs add_safe del_safe) (topic_step add del) emp ops" and "0 \<notin> set data"
  shows "\<exists>y pub. rfold (topic_step add del) ops emp = Inr y \<and> find y data = Inr pub \<and> distinct (pub_list pub) \<and>
    set (pub_list pub) = {s. \<exists>p. prefix p data \<and> (p, s) \<in> abs_run ops}"
proof -
  obtain y where y: "rfold (topic_step add del) ops emp = Inr y" "inv y"
    "{(k, s). s \<in> set (subs y k)} = abs_run ops"
    using run_ok [OF emp(1) assms(1)] by (auto simp: abs_run_def emp(2))
  then have mem: "s \<in> set (subs y p) \<longleftrightarrow> (p, s) \<in> abs_run ops" for p s by blast
  show ?thesis using find [OF y(2) assms(2)] y(1) unfolding mem by blast
qed

end

text \<open>The trie of the code is such an index.\<close>

interpretation nn_trie: topic_index slot_ok subs_slot nn_trie_init nn_trie_subscribe
    nn_trie_unsubscribe nn_trie_tree sub_safe unsub_safe
proof unfold_locales
  show "slot_ok nn_trie_init" "subs_slot nn_trie_init k = []" for k
    by (simp_all add: nn_trie_init_def)
  show "distinct (subs_slot x k)" if "slot_ok x" for x k
  proof (cases x)
    case (Some n)
    have "node_ok n \<Longrightarrow> distinct (subs_at n k)" for n
      by (induction n k rule: subs_at.induct)
        (subst subs_at.simps, auto split: list.split option.split intro: node_okD(4) dest: child_ok)
    then show ?thesis using that Some by simp
  qed simp
  show "\<exists>y. nn_trie_subscribe x k s = Inr (y, sub_code (subs_slot x k) s) \<and> slot_ok y \<and>
      subs_slot y = (subs_slot x)(k := add_sock (subs_slot x k) s)"
    if "slot_ok x" "0 \<notin> set k" "sub_safe x k" "int (length (subs_slot x k)) + 1 < 2 ^ 32" for x k s
  proof -
    have "length (subs_slot x k) + 1 < 2 ^ 32" using that(4) by simp
    note ok = node_subscribe_ok [OF that(1-3) this]
    then obtain n where "nn_node_subscribe x k s = Inr (n, sub_code (subs_slot x k) s)" "node_ok n"
      "\<And>j. subs_at n j = (if j = k then add_sock (subs_slot x k) s else subs_slot x j)"
      by blast
    then show ?thesis
      by (intro exI [of _ "Some n"]) (simp add: nn_trie_subscribe_def fun_eq_iff)
  qed
  show "\<exists>y. nn_trie_unsubscribe x k s = Inr (y, if length (subs_slot x k) = 1 then 1 else 0) \<and> slot_ok y \<and>
      subs_slot y = (subs_slot x)(k := remove1 s (subs_slot x k))"
    if "slot_ok x" "s \<in> set (subs_slot x k)" "unsub_safe x k" for x s k
  proof -
    note ok = node_unsubscribe_ok [OF that]
    then obtain y where y: "nn_node_unsubscribe x k s = Inr (y, if length (subs_slot x k) = 1 then 1 else 0)" "slot_ok y"
      "\<And>j. subs_slot y j = (if j = k then remove1 s (subs_slot x k) else subs_slot x j)"
      by blast
    from y(3) have "subs_slot y = (subs_slot x)(k := remove1 s (subs_slot x k))" by (simp add: fun_eq_iff)
    with y(1,2) show ?thesis unfolding nn_trie_unsubscribe_def by blast
  qed
  show "\<exists>pub. nn_trie_tree x data = Inr pub \<and> distinct (pub_list pub) \<and>
      set (pub_list pub) = {s. \<exists>p. prefix p data \<and> s \<in> set (subs_slot x p)}"
    if "slot_ok x" "0 \<notin> set data" for x data
    using tree_from_ok [OF that, of None] by (simp add: nn_trie_tree_def matching_def)
qed

lemma dense_collect_length: "length (dense_collect i xs) = length (filter (\<lambda>x. x \<noteq> None) xs)"
  by (induction i xs rule: dense_collect.induct) auto

lemma filter_update_None:
  assumes "i < length xs" "xs ! i \<noteq> None"
  shows "Suc (length (filter (\<lambda>x. x \<noteq> None) (xs[i := None]))) = length (filter (\<lambda>x. x \<noteq> None) xs)"
proof -
  obtain ys y zs where xs: "xs = ys @ y # zs" and i: "length ys = i"
    using id_take_nth_drop [OF assms(1)] assms(1) by (metis length_take min.absorb4)
  then show ?thesis using assms(2) by (simp add: nth_append list_update_append flip: i)
qed

section \<open>Properties\<close>

text \<open>
  C3. As long as every operation of a history meets its condition, the trie never faults, and looking up the topic of a
  publication returns, without duplicates, exactly the sockets subscribed to a prefix of that topic. The conditions: a
  subscription is to a topic without NUL bytes with fewer than 2^32 - 1 subscribers and does not make a full node with
  subscribers dense; an unsubscription is of a socket that is subscribed to the topic and makes no dense node sparse.
\<close>

theorem topic_history_exact:
  assumes "history_ok (topic_op_ok subs_slot sub_safe unsub_safe)
      (topic_step nn_trie_subscribe nn_trie_unsubscribe) nn_trie_init ops"
    and "0 \<notin> set data"
  shows "\<exists>t pub. rfold (topic_step nn_trie_subscribe nn_trie_unsubscribe) ops nn_trie_init = Inr t \<and>
    nn_trie_tree t data = Inr pub \<and> distinct (pub_list pub) \<and>
    set (pub_list pub) = {s. \<exists>p. prefix p data \<and> (p, s) \<in> abs_run ops}"
  by (rule nn_trie.find_after_run [OF assms])

lemma topic_history_exact_witness:
  "\<exists>t pub. rfold (topic_step nn_trie_subscribe nn_trie_unsubscribe)
      [Topic_sub (ascii ''ab/'') [1], Topic_sub (ascii ''ab/cdefgh/'') [2], Topic_sub (ascii ''ab/x'') [1],
       Topic_sub (ascii ''ab/'') [3], Topic_unsub (ascii ''ab/'') [1]] nn_trie_init = Inr t \<and>
    nn_trie_tree t (ascii ''ab/cdefgh/i'') = Inr pub \<and> distinct (pub_list pub) \<and>
    set (pub_list pub) = {s. \<exists>p. prefix p (ascii ''ab/cdefgh/i'') \<and> (p, s) \<in> abs_run
      [Topic_sub (ascii ''ab/'') [1], Topic_sub (ascii ''ab/cdefgh/'') [2], Topic_sub (ascii ''ab/x'') [1],
       Topic_sub (ascii ''ab/'') [3], Topic_unsub (ascii ''ab/'') [1]]}"
  by (rule topic_history_exact) code_simp+

text \<open>
  After such a history \<open>nn_trie_match\<close> says whether anybody is subscribed to a prefix of the
  data, and the whole trie can be released.
\<close>

theorem topic_history_match:
  assumes "history_ok (topic_op_ok subs_slot sub_safe unsub_safe)
      (topic_step nn_trie_subscribe nn_trie_unsubscribe) nn_trie_init ops"
    and "0 \<notin> set data"
  shows "\<exists>t. rfold (topic_step nn_trie_subscribe nn_trie_unsubscribe) ops nn_trie_init = Inr t \<and>
    nn_trie_match t data = Inr (if \<exists>p s. prefix p data \<and> (p, s) \<in> abs_run ops then 1 else 0) \<and>
    nn_trie_term t = Inr ()"
proof -
  obtain t where t: "rfold (topic_step nn_trie_subscribe nn_trie_unsubscribe) ops nn_trie_init = Inr t" "slot_ok t"
    "{(k, s). s \<in> set (subs_slot t k)} = abs_run ops"
    using nn_trie.run_ok [OF nn_trie.emp(1) assms(1)] by (auto simp: abs_run_def nn_trie.emp(2))
  have "(\<exists>p s. prefix p data \<and> (p, s) \<in> abs_run ops) \<longleftrightarrow> matching t data \<noteq> {}"
    unfolding t(3) [symmetric] matching_def by blast
  moreover have "nn_trie_term t = Inr ()"
    using t(2) by (cases t) (simp_all add: nn_trie_term_def node_term_ok)
  ultimately show ?thesis
    using t(1) match_from_ok [OF t(2) assms(2)] by (auto simp: nn_trie_match_def)
qed

lemma topic_history_match_witness:
  "\<exists>t. rfold (topic_step nn_trie_subscribe nn_trie_unsubscribe)
      [Topic_sub (ascii ''ab/'') [1], Topic_sub (ascii ''ab/cdefgh/'') [2], Topic_unsub (ascii ''ab/'') [1]] nn_trie_init = Inr t \<and>
    nn_trie_match t (ascii ''ab/cd'') = Inr (if \<exists>p s. prefix p (ascii ''ab/cd'') \<and> (p, s) \<in> abs_run
      [Topic_sub (ascii ''ab/'') [1], Topic_sub (ascii ''ab/cdefgh/'') [2], Topic_unsub (ascii ''ab/'') [1]] then 1 else 0) \<and>
    nn_trie_term t = Inr ()"
  by (rule topic_history_match) code_simp+

text \<open>
  C35. A subscription that needs a ninth child in a node makes its child array dense, and the node
  that the code builds for that starts without subscribers: every subscription at the node itself is
  lost.
\<close>

theorem trie_subscribe_drops:
  assumes "node_ok n" "kids n = Sparse cs" "length cs = NN_TRIE_SPARSE_MAX" "sock_list n \<noteq> []"
    and "child n c = None" "c \<noteq> 0" "0 \<notin> set rest"
  shows "\<exists>t. nn_trie_subscribe (Some n) (tprefix n @ c # rest) s = Inr (Some t, 2) \<and>
    subs_at t (tprefix n) = []"
proof -
  obtain rc p sk where n: "n = Trie_node rc p sk (Sparse cs)" using assms(2) by (cases n) auto
  have pos: "nn_node_check_prefix n (tprefix n @ c # rest) = length (tprefix n)"
    unfolding nn_node_check_prefix_def check_prefix_full by simp
  obtain m where m: "nn_new_nodes rest s = Inr (m, 2)" using new_nodes_ok [OF assms(7)] by blast
  have nx: "nn_node_next n c = None" using assms(5) n by (simp add: child_Sparse nn_node_next_def)
  have "nn_trie_subscribe (Some n) (tprefix n @ c # rest) s = rbind (nn_add_child n (c # rest) s) (\<lambda>(n, r). Inr (Some n, r))"
    using pos nx by (simp add: nn_trie_subscribe_def nn_node_subscribe.simps(2) Let_def)
  also have "\<exists>t. \<dots> = Inr (Some t, 2) \<and> tprefix t = tprefix n \<and> socks t = Sock_null"
    using assms(3) m by (simp add: n nn_add_child_def Let_def)
  finally show ?thesis by (metis subs_at_here sock_list_def sockids.case(1))
qed

definition ex_full :: trie_node where
  "ex_full = Trie_node 2 (ascii ''a/'') (Sock_list [[1], [2]])
     (Sparse (map (\<lambda>i. (of_nat (97 + i), Trie_node 1 (ascii ''/'') (Sock_list [[1]]) (Sparse []))) [0..<8]))"

lemma ex_full_kids:
  "kids ex_full = Sparse (map (\<lambda>i. (of_nat (97 + i), Trie_node 1 (ascii ''/'') (Sock_list [[1]]) (Sparse []))) [0..<8])"
  by (simp add: ex_full_def)

lemma trie_subscribe_drops_witness:
  "\<exists>t. nn_trie_subscribe (Some ex_full) (tprefix ex_full @ 122 # ascii ''/'') [3] = Inr (Some t, 2) \<and>
    subs_at t (tprefix ex_full) = []"
proof (rule trie_subscribe_drops [OF _ ex_full_kids])
  show "node_ok ex_full"
    by (simp add: ex_full_def NN_TRIE_PREFIX_MAX_def NN_TRIE_SPARSE_MAX_def ascii_def upt_rec)
qed (simp_all add: NN_TRIE_SPARSE_MAX_def ex_full_def sock_list_def child_Sparse ascii_def upt_rec)

text \<open>
  Removing the last subscription below one of the nine children of a dense node turns its array
  sparse, and the node that the code allocates for that has an indeterminate list of sockets: a
  subscription at the node, and the release of the trie, then use it.
\<close>

theorem trie_unsubscribe_uninit:
  assumes "node_ok n" "kids n = Dense mn mx 9 arr" "child n c = Some (Trie_node 1 rest (Sock_list [s]) (Sparse []))"
  shows "\<exists>t. nn_trie_unsubscribe (Some n) (tprefix n @ c # rest) s = Inr (Some t, 1) \<and>
    refcount t = 0 \<and> nn_trie_subscribe (Some t) (tprefix n) s' = Inl Uninit_read \<and>
    \<not> is_ok (nn_trie_term (Some t))"
proof -
  obtain rc p sk where n: "n = Trie_node rc p sk (Dense mn mx 9 arr)" using assms(2) by (cases n) auto
  have pos: "nn_node_check_prefix n (tprefix n @ c # rest) = length (tprefix n)"
    unfolding nn_node_check_prefix_def check_prefix_full by simp
  let ?ch = "Trie_node 1 rest (Sock_list [s]) (Sparse [])"
  have nx: "nn_node_next n c = Some (Some ?ch)" using assms(3) by (auto simp: child_def split: option.splits)
  have ch: "nn_node_unsubscribe (Some ?ch) rest s = Inr (None, 1)"
    by (subst nn_node_unsubscribe.simps)
      (simp add: nn_node_check_prefix_def check_prefix_full nn_found_def nn_node_has_subscribers_def nn_free_node_def)
  have c: "mn \<le> c" "c \<le> mx" "arr ! unat (c - mn) \<noteq> None" "length arr = unat mx - unat mn + 1"
    "length (filter (\<lambda>x. x \<noteq> None) arr) = 9"
    using assms(1,3) by (auto simp: n child_Dense split: if_splits)
  have "length (dense_collect (unat mn) (arr[unat (c - mn) := None])) = 8"
    using filter_update_None [of "unat (c - mn)" arr] dense_index [OF c(1,2)] c(3-5)
    by (simp add: dense_collect_length)
  then obtain cs where "nn_remove_child n c = Inr (Some (Trie_node 0 p Sock_uninit (Sparse cs)), 1)"
    by (simp add: n nn_remove_child_def Let_def NN_TRIE_SPARSE_MAX_def)
  then have "nn_trie_unsubscribe (Some n) (tprefix n @ c # rest) s = Inr (Some (Trie_node 0 p Sock_uninit (Sparse cs)), 1)"
    using pos nx ch by (simp add: nn_trie_unsubscribe_def nn_node_unsubscribe.simps [of "Some n"])
  moreover have "nn_trie_subscribe (Some (Trie_node 0 p Sock_uninit (Sparse cs))) (tprefix n) s' = Inl Uninit_read"
    by (simp add: nn_trie_subscribe_def nn_node_subscribe.simps(2) n nn_node_check_prefix_def check_prefix_full [THEN iffD2]
        Let_def nn_add_sockid_def)
  moreover have "\<not> is_ok (nn_trie_term (Some (Trie_node 0 p Sock_uninit (Sparse cs))))"
    by (auto simp: nn_trie_term_def is_ok_rbind simp del: rfold.simps)
  ultimately show ?thesis by (intro exI [of _ "Trie_node 0 p Sock_uninit (Sparse cs)"]) simp
qed

definition ex_dense :: trie_node where
  "ex_dense = Trie_node 1 (ascii ''a/'') (Sock_list [[1]])
     (Dense 97 106 9 (map (\<lambda>i. if i = 1 then None
        else Some (Trie_node 1 (ascii ''/'') (Sock_list [[1]]) (Sparse []))) [0..<10]))"

lemma ex_dense_kids:
  "kids ex_dense = Dense 97 106 9 (map (\<lambda>i. if i = 1 then None
     else Some (Trie_node 1 (ascii ''/'') (Sock_list [[1]]) (Sparse []))) [0..<10])"
  by (simp add: ex_dense_def)

lemma trie_unsubscribe_uninit_witness:
  "\<exists>t. nn_trie_unsubscribe (Some ex_dense) (tprefix ex_dense @ 99 # ascii ''/'') [1] = Inr (Some t, 1) \<and>
    refcount t = 0 \<and> nn_trie_subscribe (Some t) (tprefix ex_dense) [2] = Inl Uninit_read \<and>
    \<not> is_ok (nn_trie_term (Some t))"
proof (rule trie_unsubscribe_uninit [OF _ ex_dense_kids])
  show "node_ok ex_dense"
    by (simp add: ex_dense_def NN_TRIE_PREFIX_MAX_def NN_TRIE_SPARSE_MAX_def ascii_def upt_rec)
qed (simp_all add: ex_dense_def child_Dense ascii_def upt_rec)

end
