(* ===== verification/Tables.thy ===== *)
theory Tables
  imports Protocol TopicIndex
begin

text \<open>
  The broker's state (\<open>struct _dd_broker_t\<close> of \<open>src/include/broker.h\<close>) and the operations of
  \<open>src/src/lib/htable.c\<close> on its tables.

  A \<open>cds_lfht\<close> hash table is the list of its nodes in the order in which a traversal meets them,
  each with the hash under which it was added; a lookup returns the first node of the given hash
  that the match function accepts, as \<open>cds_lfht_lookup\<close> does. Where an added node is placed is
  decided by the library and is the parameter \<open>place\<close>. The nodes of the client tables are
  pointers into \<open>clients\<close>, the heap of \<open>local_client\<close> structures that both tables share, so that
  a node left behind after its structure was freed shows as a use after free; the nodes of the
  other tables belong to one table only and are held by value.
\<close>

section \<open>State\<close>

text \<open>What the code relies on outside this repository: CZMQ, libsodium and liburcu.\<close>

record ext =
  place :: "u32 list \<Rightarrow> u32 \<Rightarrow> nat"
  box_easy :: "bytes \<Rightarrow> bytes \<Rightarrow> bytes \<Rightarrow> bytes"
  box_open :: "bytes \<Rightarrow> bytes \<Rightarrow> bytes \<Rightarrow> bytes option"
  zsock_endpoint :: "sock \<Rightarrow> bytes"
  timer_id :: "nat \<Rightarrow> int"
  match_ipc :: "bytes \<Rightarrow> bytes option"
  match_tcp :: "bytes \<Rightarrow> (bytes \<times> bytes) option"
  match_scope :: "bytes \<Rightarrow> bytes list option"
  connect_ok :: "sock \<Rightarrow> bytes \<Rightarrow> bool"
  attach_ok :: "sock \<Rightarrow> bytes \<Rightarrow> bool"
  file_exists :: "bytes \<Rightarrow> bool"
  chmod_ok :: "bytes \<Rightarrow> bool"

record ddtenant =
  ten_name :: bytes
  ten_cookie :: u64
  ten_boxk :: bytes

record ddbrokerkeys =
  tenants :: "bytes list"
  ddboxk :: bytes
  tenantkeys :: "(bytes \<times> ddtenant) list"
  br_hash :: bytes
  br_cookie :: u64

record local_client =
  lc_name :: bytes
  lc_prefix_name :: bytes
  lc_tenant :: bytes
  lc_cookie :: u64
  lc_sockid :: bytes
  lc_timeout :: int

record dist_client =
  dc_name :: bytes
  dc_broker :: bytes
  dc_distance :: u32

record local_broker =
  lb_sockid :: bytes
  lb_cookie :: u64
  lb_distance :: u32
  lb_timeout :: int

record subscribe_node =
  sn_topics :: "bytes list"
  sn_sockid :: bytes

type_synonym 'a ht = "(u32 \<times> 'a) list"

record dd_broker =
  broker_scope :: "bytes option"
  dealer_connect :: "bytes option"
  state :: dd_state
  timeout :: int
  heartbeat_loop :: int
  reg_loop :: int
  topics_trie :: slot
  broker_id :: "bytes option"
  scope :: "bytes list"
  pubN :: bool
  subN :: bool
  pubS :: bool
  subS :: bool
  rsock :: bool
  dsock :: bool
  pub_connect :: "bytes option"
  sub_connect :: "bytes option"
  clients :: "nat \<Rightarrow> local_client option"
  next_client :: nat
  lcl_cli_ht :: "nat ht"
  rev_lcl_cli_ht :: "nat ht"
  dist_cli_ht :: "dist_client ht"
  lcl_br_ht :: "local_broker ht"
  subscribe_ht :: "subscribe_node ht"
  nonce :: bytes
  keys :: ddbrokerkeys
  timers :: "(int \<times> nat \<times> timer) list"
  timer_count :: nat
  sent :: "event list"

section \<open>Sockets\<close>

definition sock_open :: "dd_broker \<Rightarrow> sock \<Rightarrow> bool" where
  "sock_open self s = (case s of Rsock \<Rightarrow> rsock self | Dsock \<Rightarrow> dsock self | PubN \<Rightarrow> pubN self
     | SubN \<Rightarrow> subN self | PubS \<Rightarrow> pubS self | SubS \<Rightarrow> subS self)"

definition emit :: "event \<Rightarrow> dd_broker \<Rightarrow> dd_broker" where
  "emit e self = self\<lparr>sent := sent self @ [e]\<rparr>"

text \<open>\<open>zsock_send\<close> on a NULL socket fails an assertion of the library.\<close>

definition zsock_send :: "sock \<Rightarrow> bytes list \<Rightarrow> dd_broker \<Rightarrow> dd_broker res" where
  "zsock_send s fs self = (if sock_open self s then Inr (emit (Send s fs) self) else Inl Assert_fail)"

section \<open>The hash table library\<close>

definition ht_add :: "ext \<Rightarrow> u32 \<Rightarrow> 'a \<Rightarrow> 'a ht \<Rightarrow> 'a ht" where
  "ht_add X h x t = (let n = place X (map fst t) h in take n t @ (h, x) # drop n t)"

fun ht_lookup :: "('a \<Rightarrow> bool res) \<Rightarrow> u32 \<Rightarrow> 'a ht \<Rightarrow> 'a option res" where
  "ht_lookup m h [] = Inr None"
| "ht_lookup m h ((g, x) # t) =
     (if g = h then rbind (m x) (\<lambda>b. if b then Inr (Some x) else ht_lookup m h t)
      else ht_lookup m h t)"

text \<open>Deleting or overwriting the node that a lookup returned: the first entry equal to it.\<close>

definition ht_del :: "u32 \<Rightarrow> 'a \<Rightarrow> 'a ht \<Rightarrow> 'a ht" where
  "ht_del h x t = remove1 (h, x) t"

fun ht_replace :: "u32 \<Rightarrow> 'a \<Rightarrow> 'a \<Rightarrow> 'a ht \<Rightarrow> 'a ht" where
  "ht_replace h x y [] = []"
| "ht_replace h x y (z # t) = (if z = (h, x) then (h, y) # t else z # ht_replace h x y t)"

section \<open>Hashing and matching\<close>

definition XXHSEED :: u32 where "XXHSEED = 1234"
definition MAXTENANTNAME :: nat where "MAXTENANTNAME = 256"

definition xxh32_raw :: xxh32_state where
  "xxh32_raw = \<lparr>total_len = 0, xseed = 0, lanes = (0, 0, 0, 0), mem32 = replicate 16 0, memsize = 0\<rparr>"

definition sockid_cookie_hash :: "bytes \<Rightarrow> bytes \<Rightarrow> u32" where
  "sockid_cookie_hash sockid cookie =
     XXH32_digest (XXH32_update (XXH32_update (XXH32_reset xxh32_raw XXHSEED) sockid) cookie)"

text \<open>The name is hashed with its terminator.\<close>

definition prename_hash :: "bytes \<Rightarrow> u32" where
  "prename_hash name = XXH32_digest (XXH32_update (XXH32_reset xxh32_raw XXHSEED) (name @ [0]))"

definition name_hash :: "bytes \<Rightarrow> u32" where
  "name_hash name = XXH32 name XXHSEED"

text \<open>
  \<open>memcmp\<close> over the size of the key: it leaves the stored frame when that is a proper prefix of
  the key.
\<close>

definition memcmp_eq :: "bytes \<Rightarrow> bytes \<Rightarrow> bool res" where
  "memcmp_eq data key =
     (if length data < length key \<and> starts_with data key then Inl Out_of_bounds
      else Inr (take (length key) data = key))"

definition get_client :: "dd_broker \<Rightarrow> nat \<Rightarrow> local_client res" where
  "get_client self a = (case clients self a of None \<Rightarrow> Inl Use_after_free | Some lc \<Rightarrow> Inr lc)"

definition match_lcl_node_prename :: "dd_broker \<Rightarrow> bytes \<Rightarrow> nat \<Rightarrow> bool res" where
  "match_lcl_node_prename self key a =
     rbind (get_client self a) (\<lambda>lc. Inr (starts_with key (lc_prefix_name lc)))"

definition match_lcl_node_sockid :: "dd_broker \<Rightarrow> bytes \<Rightarrow> nat \<Rightarrow> bool res" where
  "match_lcl_node_sockid self key a = rbind (get_client self a) (\<lambda>lc. memcmp_eq (lc_sockid lc) key)"

definition match_lcl_broker :: "bytes \<Rightarrow> local_broker \<Rightarrow> bool res" where
  "match_lcl_broker key lb = memcmp_eq (lb_sockid lb) key"

definition match_dist_node :: "bytes \<Rightarrow> dist_client \<Rightarrow> bool res" where
  "match_dist_node key dc = Inr (starts_with key (dc_name dc))"

definition match_subscribe_node :: "bytes \<Rightarrow> subscribe_node \<Rightarrow> bool res" where
  "match_subscribe_node key sn = memcmp_eq (sn_sockid sn) key"

section \<open>Distant clients\<close>

definition hashtable_has_dist_node :: "dd_broker \<Rightarrow> bytes \<Rightarrow> dist_client option res" where
  "hashtable_has_dist_node self name =
     ht_lookup (match_dist_node name) (name_hash name) (dist_cli_ht self)"

definition hashtable_insert_dist_node :: "ext \<Rightarrow> dd_broker \<Rightarrow> bytes \<Rightarrow> bytes \<Rightarrow> u32 \<Rightarrow> dd_broker" where
  "hashtable_insert_dist_node X self name sockid dist =
     self\<lparr>dist_cli_ht := ht_add X (name_hash name)
       \<lparr>dc_name = name, dc_broker = sockid, dc_distance = dist\<rparr> (dist_cli_ht self)\<rparr>"

definition hashtable_remove_dist_node :: "dd_broker \<Rightarrow> bytes \<Rightarrow> dd_broker res" where
  "hashtable_remove_dist_node self name =
     rbind (hashtable_has_dist_node self name) (\<lambda>r. case r of
       None \<Rightarrow> Inr self
     | Some dc \<Rightarrow> Inr (self\<lparr>dist_cli_ht := ht_del (name_hash name) dc (dist_cli_ht self)\<rparr>))"

section \<open>Brokers\<close>

definition hashtable_has_local_broker ::
    "dd_broker \<Rightarrow> bytes \<Rightarrow> u64 \<Rightarrow> bool \<Rightarrow> (local_broker option \<times> dd_broker) res" where
  "hashtable_has_local_broker self sockid cookie update =
     (let h = sockid_cookie_hash sockid (le64 cookie) in
      rbind (ht_lookup (match_lcl_broker sockid) h (lcl_br_ht self)) (\<lambda>r. case r of
        None \<Rightarrow> Inr (None, self)
      | Some lb \<Rightarrow>
          Inr (Some lb, if update
            then self\<lparr>lcl_br_ht := ht_replace h lb (lb\<lparr>lb_timeout := 0\<rparr>) (lcl_br_ht self)\<rparr>
            else self)))"

definition hashtable_insert_local_broker :: "ext \<Rightarrow> dd_broker \<Rightarrow> bytes \<Rightarrow> u64 \<Rightarrow> dd_broker" where
  "hashtable_insert_local_broker X self sockid cookie =
     self\<lparr>lcl_br_ht := ht_add X (sockid_cookie_hash sockid (le64 cookie))
       \<lparr>lb_sockid = sockid, lb_cookie = cookie, lb_distance = 0, lb_timeout = 0\<rparr> (lcl_br_ht self)\<rparr>"

section \<open>Local clients\<close>

definition touch_client :: "dd_broker \<Rightarrow> nat \<Rightarrow> dd_broker" where
  "touch_client self a =
     self\<lparr>clients := (clients self)(a := map_option (\<lambda>lc. lc\<lparr>lc_timeout := 0\<rparr>) (clients self a))\<rparr>"

definition hashtable_has_rev_local_node ::
    "dd_broker \<Rightarrow> bytes \<Rightarrow> bool \<Rightarrow> (nat option \<times> dd_broker) res" where
  "hashtable_has_rev_local_node self name update =
     rbind (ht_lookup (match_lcl_node_prename self name) (prename_hash name) (rev_lcl_cli_ht self))
       (\<lambda>r. case r of None \<Rightarrow> Inr (None, self)
        | Some a \<Rightarrow> Inr (Some a, if update then touch_client self a else self))"

definition hashtable_has_local_node ::
    "dd_broker \<Rightarrow> bytes \<Rightarrow> bytes \<Rightarrow> bool \<Rightarrow> (nat option \<times> dd_broker) res" where
  "hashtable_has_local_node self sockid cookie update =
     rbind (ht_lookup (match_lcl_node_sockid self sockid) (sockid_cookie_hash sockid cookie) (lcl_cli_ht self))
       (\<lambda>r. case r of None \<Rightarrow> Inr (None, self)
        | Some a \<Rightarrow> Inr (Some a, if update then touch_client self a else self))"

definition hashtable_unlink_rev_local_node :: "dd_broker \<Rightarrow> bytes \<Rightarrow> dd_broker res" where
  "hashtable_unlink_rev_local_node self name =
     rbind (ht_lookup (match_lcl_node_prename self name) (prename_hash name) (rev_lcl_cli_ht self))
       (\<lambda>r. case r of None \<Rightarrow> Inr self
        | Some a \<Rightarrow> Inr (self\<lparr>rev_lcl_cli_ht := ht_del (prename_hash name) a (rev_lcl_cli_ht self)\<rparr>))"

definition hashtable_unlink_local_node :: "dd_broker \<Rightarrow> bytes \<Rightarrow> u64 \<Rightarrow> dd_broker res" where
  "hashtable_unlink_local_node self sockid cookie =
     (let h = sockid_cookie_hash sockid (le64 cookie) in
      rbind (ht_lookup (match_lcl_node_sockid self sockid) h (lcl_cli_ht self))
       (\<lambda>r. case r of None \<Rightarrow> Inr self
        | Some a \<Rightarrow> Inr (self\<lparr>lcl_cli_ht := ht_del h a (lcl_cli_ht self)\<rparr>)))"

text \<open>\<open>tenant.name\<close>, as \<open>snprintf\<close> writes it into a buffer.\<close>

definition dot_join :: "bytes \<Rightarrow> bytes \<Rightarrow> bytes" where
  "dot_join a b = a @ ascii ''.'' @ b"

text \<open>
  The result is 1, or -1 when the name or the socket is taken. The hash runs over the length that
  \<open>snprintf\<close> returns, which may exceed the buffer.
\<close>

definition insert_local_client ::
    "ext \<Rightarrow> dd_broker \<Rightarrow> bytes \<Rightarrow> ddtenant \<Rightarrow> bytes \<Rightarrow> (int \<times> dd_broker) res" where
  "insert_local_client X self sockid ten client_name =
     (let full = dot_join (ten_name ten) client_name;
          prefix_name = snprintf MAXTENANTNAME full;
          a = next_client self;
          np = \<lparr>lc_name = client_name, lc_prefix_name = prefix_name, lc_tenant = ten_name ten,
                lc_cookie = ten_cookie ten, lc_sockid = sockid, lc_timeout = 0\<rparr>;
          sockid_cookie = sockid_cookie_hash sockid (le64 (ten_cookie ten));
          prename = prename_hash prefix_name in
      if length full + 1 > MAXTENANTNAME then Inl Out_of_bounds
      else
        rbind (hashtable_has_dist_node self prefix_name) (\<lambda>dn.
        if dn \<noteq> None then Inr (- 1, self)
        else
          rbind (ht_lookup (match_lcl_node_sockid self sockid) sockid_cookie (lcl_cli_ht self)) (\<lambda>r.
          if r \<noteq> None then Inr (- 1, self)
          else
            rbind (ht_lookup (match_lcl_node_prename self prefix_name) prename (rev_lcl_cli_ht self)) (\<lambda>r.
            if r \<noteq> None then Inr (- 1, self)
            else
              Inr (1, self\<lparr>clients := (clients self)(a \<mapsto> np), next_client := Suc a,
                           lcl_cli_ht := ht_add X sockid_cookie a (lcl_cli_ht self),
                           rev_lcl_cli_ht := ht_add X prename a (rev_lcl_cli_ht self)\<rparr>)))))"

section \<open>Subscriptions\<close>

definition lookup_subscribe_node :: "dd_broker \<Rightarrow> bytes \<Rightarrow> subscribe_node option res" where
  "lookup_subscribe_node self sockid =
     ht_lookup (match_subscribe_node sockid) (name_hash sockid) (subscribe_ht self)"

text \<open>Remove every subscription of a socket; the result is how many there were.\<close>

definition remove_subscriptions :: "dd_broker \<Rightarrow> bytes \<Rightarrow> (nat \<times> dd_broker) res" where
  "remove_subscriptions self sockid =
     rbind (lookup_subscribe_node self sockid) (\<lambda>r. case r of
       None \<Rightarrow> Inr (0, self)
     | Some sn \<Rightarrow>
         rbind (rfold (\<lambda>topic trie. rbind (nn_trie_unsubscribe trie topic sockid) (\<lambda>(trie, r). Inr trie))
                  (sn_topics sn) (topics_trie self)) (\<lambda>trie.
         Inr (length (sn_topics sn),
              self\<lparr>topics_trie := trie,
                   subscribe_ht := ht_del (name_hash sockid) sn (subscribe_ht self)\<rparr>)))"

text \<open>
  Remove one subscription: the topic goes from the trie if the socket has it, and the whole entry
  of the socket goes from the table. The result is how many topics the entry had.
\<close>

definition remove_subscription :: "dd_broker \<Rightarrow> bytes \<Rightarrow> bytes \<Rightarrow> (nat \<times> dd_broker) res" where
  "remove_subscription self sockid topic =
     rbind (lookup_subscribe_node self sockid) (\<lambda>r. case r of
       None \<Rightarrow> Inr (0, self)
     | Some sn \<Rightarrow>
         rbind (if topic \<in> set (sn_topics sn)
                then rbind (nn_trie_unsubscribe (topics_trie self) topic sockid) (\<lambda>(trie, r). Inr trie)
                else Inr (topics_trie self)) (\<lambda>trie.
         Inr (length (sn_topics sn),
              self\<lparr>topics_trie := trie,
                   subscribe_ht := ht_del (name_hash sockid) sn (subscribe_ht self)\<rparr>)))"

definition insert_subscription :: "ext \<Rightarrow> dd_broker \<Rightarrow> bytes \<Rightarrow> bytes \<Rightarrow> (int \<times> dd_broker) res" where
  "insert_subscription X self sockid topic =
     rbind (lookup_subscribe_node self sockid) (\<lambda>r. case r of
       Some sn \<Rightarrow>
         if topic \<in> set (sn_topics sn) then Inr (0, self)
         else Inr (1, self\<lparr>subscribe_ht :=
                ht_replace (name_hash sockid) sn (sn\<lparr>sn_topics := sn_topics sn @ [topic]\<rparr>) (subscribe_ht self)\<rparr>)
     | None \<Rightarrow>
         Inr (2, self\<lparr>subscribe_ht := ht_add X (name_hash sockid)
                \<lparr>sn_topics = [topic], sn_sockid = sockid\<rparr> (subscribe_ht self)\<rparr>))"

end
