(* ===== verification/Broker.thy ===== *)
theory Broker
  imports Tables
begin

text \<open>
  The broker of \<open>src/src/lib/broker.c\<close>: one definition per message handler (\<open>s_cb_*\<close>), per
  socket callback (\<open>s_on_*\<close>) and per timer, composed as the code composes them. A handler takes
  the state and the frames that are left of the message and returns the state after it, or the
  fault by which it leaves defined behaviour; what it sends, connects and reads is appended to
  \<open>sent\<close>. Logging is not modelled.
\<close>

section \<open>Sending\<close>

definition remote_reg_failed :: "dd_broker \<Rightarrow> bytes \<Rightarrow> bytes \<Rightarrow> dd_broker res" where
  "remote_reg_failed self sockid cli_name =
     zsock_send Rsock [sockid, le32 DD_VERSION, le32 DD_CMD_ERROR, le32 DD_ERROR_REGFAIL, cli_name] self"

definition add_cli_up :: "dd_broker \<Rightarrow> bytes \<Rightarrow> u32 \<Rightarrow> dd_broker res" where
  "add_cli_up self prefix_name distance =
     (if state self \<noteq> DD_STATE_REGISTERED then Inr self
      else zsock_send Dsock [le32 DD_VERSION, le32 DD_CMD_ADDDCL, le64 (br_cookie (keys self)),
             prefix_name, le32 distance] self)"

definition del_cli_up :: "dd_broker \<Rightarrow> bytes \<Rightarrow> dd_broker res" where
  "del_cli_up self prefix_name =
     (if state self \<noteq> DD_STATE_ROOT
      then zsock_send Dsock [le32 DD_VERSION, le32 DD_CMD_UNREGDCLI, le64 (br_cookie (keys self)),
             prefix_name] self
      else Inr self)"

definition forward_locally :: "dd_broker \<Rightarrow> bytes \<Rightarrow> bytes \<Rightarrow> zmsg \<Rightarrow> dd_broker res" where
  "forward_locally self dest_sockid src_string msg =
     zsock_send Rsock ([dest_sockid, le32 DD_VERSION, le32 DD_CMD_DATA, src_string] @ msg) self"

definition forward_down :: "dd_broker \<Rightarrow> bytes \<Rightarrow> bytes \<Rightarrow> bytes \<Rightarrow> zmsg \<Rightarrow> dd_broker res" where
  "forward_down self src_string dst_string br_sockid msg =
     zsock_send Rsock ([br_sockid, le32 DD_VERSION, le32 DD_CMD_FORWARD, src_string, dst_string] @ msg) self"

definition forward_up :: "dd_broker \<Rightarrow> bytes \<Rightarrow> bytes \<Rightarrow> zmsg \<Rightarrow> dd_broker res" where
  "forward_up self src_string dst_string msg =
     (if state self = DD_STATE_REGISTERED
      then zsock_send Dsock ([le32 DD_VERSION, le32 DD_CMD_FORWARD, le64 (br_cookie (keys self)),
             src_string, dst_string] @ msg) self
      else Inr self)"

definition dest_invalid_rsock :: "dd_broker \<Rightarrow> bytes \<Rightarrow> bytes \<Rightarrow> bytes \<Rightarrow> dd_broker res" where
  "dest_invalid_rsock self sockid src_string dst_string =
     zsock_send Rsock [sockid, le32 DD_VERSION, le32 DD_CMD_ERROR, le32 DD_ERROR_NODST,
       dst_string, src_string] self"

definition dest_invalid_dsock :: "dd_broker \<Rightarrow> bytes \<Rightarrow> bytes \<Rightarrow> dd_broker res" where
  "dest_invalid_dsock self src_string dst_string =
     zsock_send Dsock [le32 DD_VERSION, le32 DD_CMD_ERROR, le32 DD_ERROR_NODST, dst_string, src_string] self"

text \<open>\<open>zloop_timer\<close> and \<open>zloop_timer_end\<close>.\<close>

definition zloop_timer :: "ext \<Rightarrow> nat \<Rightarrow> timer \<Rightarrow> dd_broker \<Rightarrow> int \<times> dd_broker" where
  "zloop_timer X delay t self =
     (let i = timer_id X (timer_count self) in
      (i, self\<lparr>timers := timers self @ [(i, delay, t)], timer_count := Suc (timer_count self)\<rparr>))"

definition zloop_timer_end :: "int \<Rightarrow> dd_broker \<Rightarrow> dd_broker" where
  "zloop_timer_end i self = self\<lparr>timers := filter (\<lambda>(j, d, t). j \<noteq> i) (timers self)\<rparr>"

section \<open>Removing clients\<close>

text \<open>The structure of a client is freed once it is out of the tables.\<close>

definition free_client :: "dd_broker \<Rightarrow> nat \<Rightarrow> dd_broker" where
  "free_client self a = self\<lparr>clients := (clients self)(a := None)\<rparr>"

definition s_cb_unreg_cli :: "dd_broker \<Rightarrow> bytes \<Rightarrow> bytes \<Rightarrow> dd_broker res" where
  "s_cb_unreg_cli self sockid cookie =
     rbind (hashtable_has_local_node self sockid cookie False) (\<lambda>(r, self). case r of
       None \<Rightarrow> Inr self
     | Some a \<Rightarrow>
         rbind (get_client self a) (\<lambda>ln.
         rbind (del_cli_up self (lc_prefix_name ln)) (\<lambda>self.
         rbind (remove_subscriptions self sockid) (\<lambda>(n, self).
         rbind (hashtable_unlink_local_node self (lc_sockid ln) (lc_cookie ln)) (\<lambda>self.
         rbind (hashtable_unlink_rev_local_node self (lc_prefix_name ln)) (\<lambda>self.
         Inr (free_client self a)))))))"

definition unreg_cli :: "dd_broker \<Rightarrow> bytes \<Rightarrow> u64 \<Rightarrow> dd_broker res" where
  "unreg_cli self sockid cookie = s_cb_unreg_cli self sockid (le64 cookie)"

text \<open>\<open>delete_dist_clients\<close> of htable.c.\<close>

definition delete_dist_clients :: "dd_broker \<Rightarrow> local_broker \<Rightarrow> dd_broker res" where
  "delete_dist_clients self br =
     rfold (\<lambda>(h, dc) self.
       if dc_broker dc = lb_sockid br then
         rbind (del_cli_up self (dc_name dc)) (\<lambda>self.
           Inr (self\<lparr>dist_cli_ht := ht_del h dc (dist_cli_ht self)\<rparr>))
       else Inr self) (dist_cli_ht self) self"

section \<open>Errors from the higher broker\<close>

definition high_error_nodst :: "dd_broker \<Rightarrow> zmsg \<Rightarrow> dd_broker res" where
  "high_error_nodst self msg =
     (case zmsg_popstr msg of (dst, msg) \<Rightarrow>
      case zmsg_popstr msg of (src, msg) \<Rightarrow>
      rbind (deref_str src) (\<lambda>src_string.
      rbind (hashtable_has_rev_local_node self src_string False) (\<lambda>(r, self). case r of
        Some a \<Rightarrow>
          rbind (get_client self a) (\<lambda>ln.
          rbind (deref_str dst) (\<lambda>dst_string.
          rbind (after_char dst_string (of_char (CHR ''.''))) (\<lambda>rest.
          dest_invalid_rsock self (lc_sockid ln) src_string rest)))
      | None \<Rightarrow>
          rbind (hashtable_has_dist_node self src_string) (\<lambda>dn. case dn of
            Some dc \<Rightarrow> rbind (deref_str dst) (\<lambda>dst_string.
              dest_invalid_rsock self (dc_broker dc) src_string dst_string)
          | None \<Rightarrow> Inr self))))"

definition high_error_regfail :: "dd_broker \<Rightarrow> zmsg \<Rightarrow> dd_broker res" where
  "high_error_regfail self msg =
     (case zmsg_popstr msg of (name, msg) \<Rightarrow>
      rbind (deref_str name) (\<lambda>cli_name.
      rbind (hashtable_has_dist_node self cli_name) (\<lambda>dn.
      rbind (hashtable_has_rev_local_node self cli_name False) (\<lambda>(r, self). case r of
        Some a \<Rightarrow>
          rbind (get_client self a) (\<lambda>ln.
          rbind (remove_subscriptions self (lc_sockid ln)) (\<lambda>(n, self).
          rbind (hashtable_unlink_local_node self (lc_sockid ln) (lc_cookie ln)) (\<lambda>self.
          rbind (hashtable_unlink_rev_local_node self (lc_prefix_name ln)) (\<lambda>self.
          rbind (remote_reg_failed self (lc_sockid ln) (ascii ''remote'')) (\<lambda>self.
          Inr (free_client self a))))))
      | None \<Rightarrow>
          (case dn of
            Some dc \<Rightarrow>
              rbind (remote_reg_failed self (dc_broker dc) cli_name) (\<lambda>self.
              hashtable_remove_dist_node self cli_name)
          | None \<Rightarrow> Inr self)))))"

definition s_cb_high_error :: "dd_broker \<Rightarrow> zmsg \<Rightarrow> dd_broker res" where
  "s_cb_high_error self msg =
     (case zmsg_pop msg of
       (None, msg) \<Rightarrow> Inr self
     | (Some code_frame, msg) \<Rightarrow>
         rbind (rd32 code_frame) (\<lambda>error_code.
         if error_code = DD_ERROR_NODST then high_error_nodst self msg
         else if error_code = DD_ERROR_REGFAIL then high_error_regfail self msg
         else Inr self))"

section \<open>Authentication\<close>

definition NONCEBYTES :: nat where "NONCEBYTES = 24"
definition MACBYTES :: nat where "MACBYTES = 16"

text \<open>\<open>nonce_increment\<close> of keys.c, the portable loop.\<close>

fun nonce_add :: "u32 \<Rightarrow> bytes \<Rightarrow> bytes" where
  "nonce_add c [] = []"
| "nonce_add c (b # n) =
     (let c = c + ucast b in ucast c # nonce_add (drop_bit 8 c) n)"

definition nonce_increment :: "bytes \<Rightarrow> bytes" where
  "nonce_increment n = nonce_add 1 n"

definition s_cb_addbr :: "ext \<Rightarrow> dd_broker \<Rightarrow> bytes \<Rightarrow> zmsg \<Rightarrow> dd_broker res" where
  "s_cb_addbr X self sockid msg =
     (case zmsg_popstr msg of
       (None, msg) \<Rightarrow> Inr self
     | (Some h, msg) \<Rightarrow>
         if h \<noteq> br_hash (keys self) then Inr self
         else
           let n = nonce_increment (nonce self);
               self = self\<lparr>nonce := n\<rparr>;
               ciphertext = n @ box_easy X (ddboxk (keys self)) n (le64 (br_cookie (keys self)))
           in zsock_send Rsock [sockid, le32 DD_VERSION, le32 DD_CMD_CHALL, ciphertext, sockid] self)"

definition s_cb_addlcl :: "ext \<Rightarrow> dd_broker \<Rightarrow> bytes \<Rightarrow> zmsg \<Rightarrow> dd_broker res" where
  "s_cb_addlcl X self sockid msg =
     (case zmsg_popstr msg of
       (None, msg) \<Rightarrow> Inr self
     | (Some h, msg) \<Rightarrow>
         (case map_of (tenantkeys (keys self)) h of
           None \<Rightarrow> zsock_send Rsock [sockid, le32 DD_VERSION, le32 DD_CMD_ERROR, le32 DD_ERROR_REGFAIL,
             ascii ''Authentication failed!''] self
         | Some ten \<Rightarrow>
             let n = nonce_increment (nonce self);
                 self = self\<lparr>nonce := n\<rparr>;
                 ciphertext = n @ box_easy X (ten_boxk ten) n (le64 (ten_cookie ten))
             in zsock_send Rsock [sockid, le32 DD_VERSION, le32 DD_CMD_CHALL, ciphertext] self))"

text \<open>
  When the challenge does not decrypt, the code jumps to its cleanup, which destroys a frame
  pointer that was never set.
\<close>

definition s_cb_chall :: "ext \<Rightarrow> dd_broker \<Rightarrow> zmsg \<Rightarrow> dd_broker res" where
  "s_cb_chall X self msg =
     (case zmsg_pop msg of (encrypted, msg) \<Rightarrow>
      case zmsg_pop msg of (ident, msg) \<Rightarrow>
      let self = self\<lparr>broker_id := ident\<rparr> in
      rbind (zframe_data encrypted) (\<lambda>data.
      if length data < NONCEBYTES then Inl Out_of_bounds
      else
        (case box_open X (ddboxk (keys self)) (take NONCEBYTES data) (drop NONCEBYTES data) of
          None \<Rightarrow> Inl Uninit_read
        | Some temp_frame \<Rightarrow>
            zsock_send Dsock [le32 DD_VERSION, le32 DD_CMD_CHALLOK, temp_frame,
              br_hash (keys self), ascii ''broker''] self)))"

definition challok_broker :: "ext \<Rightarrow> dd_broker \<Rightarrow> bytes \<Rightarrow> u64 \<Rightarrow> dd_broker res" where
  "challok_broker X self sockid cookie =
     (if br_cookie (keys self) \<noteq> cookie then Inr self
      else
        rbind (hashtable_has_local_broker self sockid cookie False) (\<lambda>(r, self).
        if r \<noteq> None then Inr self
        else
          let self = hashtable_insert_local_broker X self sockid cookie in
          if \<not> pubS self \<or> \<not> subS self then Inl Assert_fail
          else zsock_send Rsock [sockid, le32 DD_VERSION, le32 DD_CMD_REGOK, le64 (br_cookie (keys self)),
                 zsock_endpoint X PubS, zsock_endpoint X SubS] self))"

definition challok_client :: "ext \<Rightarrow> dd_broker \<Rightarrow> bytes \<Rightarrow> ddtenant \<Rightarrow> u64 \<Rightarrow> bytes \<Rightarrow> dd_broker res" where
  "challok_client X self sockid ten cookie client_name =
     (if ten_cookie ten \<noteq> cookie then Inr self
      else if client_name = ascii ''public'' then Inr self
      else
        rbind (insert_local_client X self sockid ten client_name) (\<lambda>(retval, self).
        if retval = - 1 then remote_reg_failed self sockid (ascii ''local'')
        else
          rbind (zsock_send Rsock [sockid, le32 DD_VERSION, le32 DD_CMD_REGOK, le64 (ten_cookie ten)] self) (\<lambda>self.
          let prefix_name = snprintf 200 (dot_join (ten_name ten) client_name) in
          if state self \<noteq> DD_STATE_ROOT then add_cli_up self prefix_name 0 else Inr self)))"

definition s_cb_challok :: "ext \<Rightarrow> dd_broker \<Rightarrow> bytes \<Rightarrow> zmsg \<Rightarrow> dd_broker res" where
  "s_cb_challok X self sockid msg =
     (case zmsg_pop msg of (cook, msg) \<Rightarrow>
      rbind (zframe_data cook) (\<lambda>cookie.
      case zmsg_popstr msg of (h, msg) \<Rightarrow>
      case zmsg_popstr msg of (name, msg) \<Rightarrow>
      (case (h, name) of
        (Some h, Some client_name) \<Rightarrow>
          if h = br_hash (keys self) then
            rbind (rd64 cookie) (challok_broker X self sockid)
          else
            (case map_of (tenantkeys (keys self)) h of
              None \<Rightarrow> Inr self
            | Some ten \<Rightarrow>
                rbind (rd64 cookie) (\<lambda>cookie. challok_client X self sockid ten cookie client_name))
      | _ \<Rightarrow> Inr self)))"

section \<open>Distant clients\<close>

definition s_cb_adddcl :: "ext \<Rightarrow> dd_broker \<Rightarrow> bytes \<Rightarrow> bytes \<Rightarrow> zmsg \<Rightarrow> dd_broker res" where
  "s_cb_adddcl X self sockid cookie_frame msg =
     rbind (rd64 cookie_frame) (\<lambda>cookie.
     rbind (hashtable_has_local_broker self sockid cookie False) (\<lambda>(r, self).
     if r = None then Inr self
     else
       case zmsg_popstr msg of (name, msg) \<Rightarrow>
       case zmsg_pop msg of (dist_frame, msg) \<Rightarrow>
       rbind (zframe_data dist_frame) (\<lambda>dist_data.
       rbind (deref_str name) (\<lambda>name.
       rbind (hashtable_has_rev_local_node self name False) (\<lambda>(ln, self).
       if ln \<noteq> None then remote_reg_failed self sockid name
       else
         rbind (hashtable_has_dist_node self name) (\<lambda>dn.
         if dn \<noteq> None then remote_reg_failed self sockid name
         else
           rbind (rd32 dist_data) (\<lambda>dist.
           add_cli_up (hashtable_insert_dist_node X self name sockid dist) name dist)))))))"

definition s_cb_unreg_dist_cli :: "dd_broker \<Rightarrow> bytes \<Rightarrow> bytes \<Rightarrow> zmsg \<Rightarrow> dd_broker res" where
  "s_cb_unreg_dist_cli self sockid cookie_frame msg =
     rbind (rd64 cookie_frame) (\<lambda>cook.
     rbind (hashtable_has_local_broker self sockid cook False) (\<lambda>(r, self).
     if r = None then Inr self
     else
       case zmsg_popstr msg of (name, msg) \<Rightarrow>
       rbind (deref_str name) (\<lambda>name.
       rbind (hashtable_has_dist_node self name) (\<lambda>dn.
       if dn = None then Inr self
       else
         rbind (hashtable_remove_dist_node self name) (\<lambda>self.
         del_cli_up self name)))))"

end
