(* ===== verification/Routing.thy ===== *)
theory Routing
  imports Broker
begin

text \<open>
  Point-to-point messages of \<open>broker.c\<close>: \<open>SEND\<close> from a local client, \<open>FORWARD\<close> from a lower
  or from the higher broker, and the report that a destination does not exist.
\<close>

abbreviation dot :: u8 where "dot \<equiv> of_char (CHR ''.'')"

definition is_public_name :: "bytes \<Rightarrow> bool" where
  "is_public_name s = starts_with (ascii ''public.'') s"

section \<open>Forwarding\<close>

text \<open>
  The common tail of the two forward handlers: the message goes to a local client, to the broker
  below which the destination lives, is refused at the root, or goes up.
\<close>

definition s_cb_forward_dsock :: "dd_broker \<Rightarrow> zmsg \<Rightarrow> dd_broker res" where
  "s_cb_forward_dsock self msg =
     (if length msg < 2 then Inr self
      else
        case zmsg_popstr msg of (src, msg) \<Rightarrow>
        case zmsg_popstr msg of (dst, msg) \<Rightarrow>
        rbind (deref_str src) (\<lambda>src.
        rbind (deref_str dst) (\<lambda>dst.
        let srcpublic = is_public_name src; dstpublic = is_public_name dst in
        rbind (hashtable_has_rev_local_node self dst False) (\<lambda>(ln, self). case ln of
          Some a \<Rightarrow>
            rbind (get_client self a) (\<lambda>ln.
            if srcpublic \<noteq> dstpublic then forward_locally self (lc_sockid ln) src msg
            else rbind (after_char src dot) (\<lambda>src. forward_locally self (lc_sockid ln) src msg))
        | None \<Rightarrow>
            rbind (hashtable_has_dist_node self dst) (\<lambda>dn. case dn of
              Some dc \<Rightarrow> forward_down self src dst (dc_broker dc) msg
            | None \<Rightarrow>
                if state self = DD_STATE_ROOT then dest_invalid_dsock self src dst
                else forward_up self src dst msg)))))"

definition s_cb_forward_rsock :: "dd_broker \<Rightarrow> bytes \<Rightarrow> bytes \<Rightarrow> zmsg \<Rightarrow> dd_broker res" where
  "s_cb_forward_rsock self sockid cookie_frame msg =
     rbind (rd64 cookie_frame) (\<lambda>cookie.
     rbind (hashtable_has_local_broker self sockid cookie True) (\<lambda>(r, self).
     if r = None then Inr self
     else if length msg < 2 then Inr self
     else
        case zmsg_popstr msg of (src, msg) \<Rightarrow>
        case zmsg_popstr msg of (dst, msg) \<Rightarrow>
        rbind (deref_str src) (\<lambda>src_string.
        rbind (deref_str dst) (\<lambda>dst_string.
        let srcpublic = is_public_name src_string; dstpublic = is_public_name dst_string in
        rbind (hashtable_has_rev_local_node self dst_string False) (\<lambda>(ln, self). case ln of
          Some a \<Rightarrow>
            rbind (get_client self a) (\<lambda>ln.
            if srcpublic \<noteq> dstpublic then forward_locally self (lc_sockid ln) src_string msg
            else rbind (after_char src_string dot) (\<lambda>src. forward_locally self (lc_sockid ln) src msg))
        | None \<Rightarrow>
            rbind (hashtable_has_dist_node self dst_string) (\<lambda>dn. case dn of
              Some dc \<Rightarrow> forward_down self src_string dst_string (dc_broker dc) msg
            | None \<Rightarrow>
                if state self = DD_STATE_ROOT then dest_invalid_rsock self sockid src_string dst_string
                else forward_up self src_string dst_string msg))))))"

definition s_cb_nodst_dsock :: "dd_broker \<Rightarrow> zmsg \<Rightarrow> dd_broker res" where
  "s_cb_nodst_dsock self msg =
     (case zmsg_popstr msg of (dst, msg) \<Rightarrow>
      case zmsg_popstr msg of (src, msg) \<Rightarrow>
      rbind (deref_str src) (\<lambda>src_string.
      rbind (hashtable_has_rev_local_node self src_string False) (\<lambda>(ln, self). case ln of
        Some a \<Rightarrow>
          rbind (get_client self a) (\<lambda>ln.
          rbind (deref_str dst) (\<lambda>dst_string.
          zsock_send Rsock [lc_sockid ln, le32 DD_VERSION, le32 DD_CMD_ERROR, le32 DD_ERROR_NODST,
            dst_string, src_string] self))
      | None \<Rightarrow> Inr self)))"

section \<open>Sending\<close>

text \<open>
  The public client names its destination without a tenant; it is taken as it is when the part
  before the first dot starts with the name of a tenant, and is prefixed with \<open>public.\<close> otherwise.
\<close>

definition names_tenant :: "dd_broker \<Rightarrow> bytes \<Rightarrow> bool" where
  "names_tenant self dest \<longleftrightarrow>
     dot \<in> set dest \<and>
     (\<exists>k\<in>set (tenants (keys self)). starts_with k (takeWhile (\<lambda>b. b \<noteq> dot) dest))"

text \<open>
  The names under which a message goes on: the destination with its tenant, and whether the
  destination counts as public.
\<close>

definition send_names :: "dd_broker \<Rightarrow> local_client \<Rightarrow> bytes \<Rightarrow> bytes \<times> bool" where
  "send_names self ln dest =
     (let srcpublic = (lc_tenant ln = ascii ''public''); dstpublic = is_public_name dest;
          dest_buf = snprintf MAXTENANTNAME (dot_join (lc_tenant ln) dest) in
      if dstpublic then (dest, True)
      else if srcpublic then
        (if names_tenant self dest then (dest, False) else (dest_buf, True))
      else (dest_buf, False))"

definition s_cb_send :: "dd_broker \<Rightarrow> bytes \<Rightarrow> bytes \<Rightarrow> zmsg \<Rightarrow> dd_broker res" where
  "s_cb_send self sockid cookie msg =
     (case zmsg_popstr msg of (dest, msg) \<Rightarrow>
      rbind (hashtable_has_local_node self sockid cookie True) (\<lambda>(r, self). case r of
        None \<Rightarrow> Inr self
      | Some a \<Rightarrow>
        rbind (get_client self a) (\<lambda>ln.
        rbind (deref_str dest) (\<lambda>dest.
        let srcpublic = (lc_tenant ln = ascii ''public''); src_string = lc_prefix_name ln in
        case send_names self ln dest of (dst_string, dstpublic) \<Rightarrow>
        rbind (hashtable_has_rev_local_node self dst_string False) (\<lambda>(r, self). case r of
          Some a' \<Rightarrow>
            rbind (get_client self a') (\<lambda>ln'.
            if srcpublic = dstpublic
            then rbind (after_char src_string dot) (\<lambda>src. forward_locally self (lc_sockid ln') src msg)
            else forward_locally self (lc_sockid ln') src_string msg)
        | None \<Rightarrow>
            rbind (hashtable_has_dist_node self dst_string) (\<lambda>dn. case dn of
              Some dc \<Rightarrow> forward_down self src_string dst_string (dc_broker dc) msg
            | None \<Rightarrow>
                if state self = DD_STATE_ROOT then
                  (if srcpublic = dstpublic
                   then rbind (after_char src_string dot) (\<lambda>src.
                        rbind (after_char dst_string dot) (\<lambda>dst.
                        dest_invalid_rsock self sockid src dst))
                   else dest_invalid_rsock self sockid src_string dst_string)
                else forward_up self src_string dst_string msg))))))"

end
