(* ===== verification/PubSub.thy ===== *)
theory PubSub
  imports Routing
begin

text \<open>
  Publish and subscribe in \<open>broker.c\<close>: the topic of a subscription is \<open>tenant.topic/s1/s2/.../\<close>,
  where the scope is written by the client with \<open>*\<close> for the broker's own numbers; a publication
  carries the publisher's full scope, so that the subscriptions it meets are those of its prefixes.
\<close>

abbreviation slash :: u8 where "slash \<equiv> of_char (CHR ''/'')"

section \<open>Scope strings\<close>

text \<open>
  \<open>snprintf\<close> into what is left of \<open>newscope\<close>: \<open>len\<close> is reduced by the length of the text even
  where it was cut, and a negative \<open>len\<close>, taken as a \<open>size_t\<close>, no longer bounds the write.
\<close>

definition scope_put :: "bytes \<Rightarrow> bytes \<times> int \<Rightarrow> (bytes \<times> int) res" where
  "scope_put s bl =
     (case bl of (buf, len) \<Rightarrow>
      if len < 0 then Inl Out_of_bounds
      else Inr (buf @ take (nat len - 1) s, len - int (length s)))"

text \<open>
  The loop over the tokens of the scope string, with the list of the broker's scope numbers that
  are left. A token beyond that list makes the code free its strings and go on reading them.
\<close>

fun scope_loop :: "bytes list \<Rightarrow> bytes list \<Rightarrow> bytes \<times> int \<Rightarrow> (bytes \<times> int) res" where
  "scope_loop [] ts bl = Inr bl"
| "scope_loop (token # toks) [] bl = Inl Use_after_free"
| "scope_loop (token # toks) (t # ts) bl =
     rbind (scope_put (slash # (if token = ascii ''*'' then t else token)) bl) (scope_loop toks ts)"

definition new_scope :: "dd_broker \<Rightarrow> bytes \<Rightarrow> bytes res" where
  "new_scope self scopestr =
     (if scopestr = ascii ''noscope'' then Inr []
      else
        rbind (scope_loop (strtok slash scopestr) (scope self) ([], 128)) (\<lambda>bl.
        rbind (scope_put [slash] bl) (\<lambda>(buf, len). Inr buf)))"

text \<open>The topic as it enters the tables: \<open>snprintf(ntptr, 256, "%s.%s%s", ...)\<close>.\<close>

definition new_topic :: "bytes \<Rightarrow> bytes \<Rightarrow> bytes \<Rightarrow> bytes" where
  "new_topic tenant topic newscope = snprintf 256 (dot_join tenant topic @ newscope)"

section \<open>Subscribing\<close>

text \<open>
  The answer to a subscription to \<open>public\<close> is sent with the picture \<open>fbbss\<close>, which asks for two strings, and one is
  passed: the call is undefined.
\<close>

definition send_if_open :: "sock \<Rightarrow> bytes list \<Rightarrow> dd_broker \<Rightarrow> dd_broker" where
  "send_if_open s fs self = (if sock_open self s then emit (Send s fs) self else self)"

definition s_cb_sub :: "ext \<Rightarrow> dd_broker \<Rightarrow> bytes \<Rightarrow> bytes \<Rightarrow> zmsg \<Rightarrow> dd_broker res" where
  "s_cb_sub X self sockid cookie msg =
     (case zmsg_popstr msg of (topic, msg) \<Rightarrow>
      case zmsg_popstr msg of (scopestr, msg) \<Rightarrow>
      rbind (hashtable_has_local_node self sockid cookie True) (\<lambda>(r, self). case r of
        None \<Rightarrow> Inr self
      | Some a \<Rightarrow>
        rbind (get_client self a) (\<lambda>ln.
        rbind (deref_str topic) (\<lambda>topic.
        if topic = ascii ''public'' then Inl Missing_argument
        else
          rbind (deref_str scopestr) (\<lambda>scopestr.
          rbind (new_scope self scopestr) (\<lambda>newscope.
          rbind (zsock_send Rsock [sockid, le32 DD_VERSION, le32 DD_CMD_SUBOK, topic, scopestr] self) (\<lambda>self.
          let newtopic = new_topic (lc_tenant ln) topic newscope in
          rbind (insert_subscription X self sockid newtopic) (\<lambda>(r, self).
          rbind (nn_trie_subscribe (topics_trie self) newtopic sockid) (\<lambda>(trie, retval).
          let self = self\<lparr>topics_trie := trie\<rparr> in
          if retval \<noteq> 2 then Inr self
          else Inr (send_if_open SubS [1 # newtopic] (send_if_open SubN [1 # newtopic] self)))))))))))"

definition s_cb_unsub :: "dd_broker \<Rightarrow> bytes \<Rightarrow> bytes \<Rightarrow> zmsg \<Rightarrow> dd_broker res" where
  "s_cb_unsub self sockid cookie msg =
     (case zmsg_popstr msg of (topic, msg) \<Rightarrow>
      case zmsg_popstr msg of (scopestr, msg) \<Rightarrow>
      rbind (hashtable_has_local_node self sockid cookie True) (\<lambda>(r, self). case r of
        None \<Rightarrow> Inr self
      | Some a \<Rightarrow>
        rbind (get_client self a) (\<lambda>ln.
        rbind (deref_str topic) (\<lambda>topic.
        if topic = ascii ''public'' then Inl Missing_argument
        else
          rbind (deref_str scopestr) (\<lambda>scopestr.
          rbind (new_scope self scopestr) (\<lambda>newscope.
          let newtopic = new_topic (lc_tenant ln) topic newscope in
          rbind (remove_subscription self sockid newtopic) (\<lambda>(retval, self).
          if retval = 0 then Inr self
          else Inr (send_if_open SubS [0 # newtopic] (send_if_open SubN [0 # newtopic] self)))))))))"

section \<open>Publishing\<close>

text \<open>One copy of the publication to each socket of the list.\<close>

definition send_pubs :: "sockid list option \<Rightarrow> bytes \<Rightarrow> bytes \<Rightarrow> zmsg \<Rightarrow> dd_broker \<Rightarrow> dd_broker res" where
  "send_pubs pub name topic msg =
     rfold (\<lambda>s. zsock_send Rsock ([s, le32 DD_VERSION, le32 DD_CMD_PUB, name, topic] @ msg))
       (case pub of None \<Rightarrow> [] | Some l \<Rightarrow> l)"

text \<open>
  \<open>publish\<close>: a frame that is passed to \<open>zsock_send\<close> must not be NULL. A socket that is not open
  is skipped.
\<close>

definition publish :: "sock \<Rightarrow> bytes \<Rightarrow> bytes \<Rightarrow> bytes option \<Rightarrow> zmsg \<Rightarrow> dd_broker \<Rightarrow> dd_broker res" where
  "publish s pubtopic name ident msg self =
     (if sock_open self s
      then rbind (zframe_data ident) (\<lambda>ident. zsock_send s ([pubtopic, name, ident] @ msg) self)
      else Inr self)"

definition s_cb_pub :: "dd_broker \<Rightarrow> bytes \<Rightarrow> bytes \<Rightarrow> zmsg \<Rightarrow> dd_broker res" where
  "s_cb_pub self sockid cookie msg =
     (case zmsg_popstr msg of (topic, msg) \<Rightarrow>
      case zmsg_pop msg of (pathv, msg) \<Rightarrow>
      rbind (hashtable_has_local_node self sockid cookie True) (\<lambda>(r, self). case r of
        None \<Rightarrow> Inr self
      | Some a \<Rightarrow>
        rbind (get_client self a) (\<lambda>ln.
        rbind (deref_str topic) (\<lambda>topic.
        let dstpublic = is_public_name topic in
        if topic = [] then Inl Out_of_bounds
        else
          rbind (if last topic = of_char (CHR ''$'') then Inr (butlast topic, butlast topic)
                 else rbind (deref_str (broker_scope self)) (\<lambda>bscope.
                   Inr (topic, snprintf 256 (topic @ bscope)))) (\<lambda>(topic, prefix_topic).
          let pubtopic = (if dstpublic then prefix_topic
                          else snprintf 256 (dot_join (lc_tenant ln) prefix_topic));
              name = (if dstpublic then lc_prefix_name ln else lc_name ln) in
          rbind (publish PubN pubtopic name (broker_id self) msg self) (\<lambda>self.
          rbind (publish PubS pubtopic name (Some []) msg self) (\<lambda>self.
          rbind (nn_trie_tree (topics_trie self) pubtopic) (\<lambda>pub.
          send_pubs pub name topic msg self))))))))"

text \<open>
  Delivering a publication from another broker: the topic that the clients see is what lies
  between the first dot and the slash after it, and the code writes that slash back through the
  pointer whether or not there was one.
\<close>

definition deliver_pub :: "bytes \<Rightarrow> bytes option \<Rightarrow> zmsg \<Rightarrow> sockid list option \<Rightarrow> dd_broker \<Rightarrow> dd_broker res" where
  "deliver_pub pubtopic name msg pub self =
     (case pub of
        None \<Rightarrow> Inr self
      | Some l \<Rightarrow>
          rbind (after_char pubtopic dot) (\<lambda>rest.
          rbind (if l = [] then Inr self
                 else rbind (deref_str name) (\<lambda>name.
                   send_pubs pub name (takeWhile (\<lambda>b. b \<noteq> slash) rest) msg self)) (\<lambda>self.
          if slash \<in> set rest then Inr self else Inl Null_deref)))"

definition s_on_subN_msg :: "dd_broker \<Rightarrow> zmsg \<Rightarrow> dd_broker res" where
  "s_on_subN_msg self msg =
     (case zmsg_popstr msg of (pubtopic, msg) \<Rightarrow>
      case zmsg_popstr msg of (name, msg) \<Rightarrow>
      case zmsg_pop msg of (pathv, msg) \<Rightarrow>
      if zframe_eq pathv (broker_id self) then Inr self
      else
        rbind (deref_str pubtopic) (\<lambda>pubtopic.
        rbind (nn_trie_tree (topics_trie self) pubtopic) (\<lambda>pub.
        rbind (deliver_pub pubtopic name msg pub self) (\<lambda>self.
        if pubS self
        then rbind (deref_str name) (\<lambda>name. publish PubS pubtopic name (Some []) msg self)
        else Inr self))))"

definition s_on_subS_msg :: "dd_broker \<Rightarrow> zmsg \<Rightarrow> dd_broker res" where
  "s_on_subS_msg self msg =
     (case zmsg_popstr msg of (pubtopic, msg) \<Rightarrow>
      case zmsg_popstr msg of (name, msg) \<Rightarrow>
      case zmsg_pop msg of (pathv, msg) \<Rightarrow>
        rbind (deref_str pubtopic) (\<lambda>pubtopic.
        rbind (nn_trie_tree (topics_trie self) pubtopic) (\<lambda>pub.
        rbind (deliver_pub pubtopic name msg pub self) (\<lambda>self.
        rbind (if pubN self
               then rbind (deref_str name) (\<lambda>name. publish PubN pubtopic name (broker_id self) msg self)
               else Inr self) (\<lambda>self.
        if pubS self
        then rbind (deref_str name) (\<lambda>name. publish PubS pubtopic name pathv msg self)
        else Inr self)))))"

text \<open>Subscriptions announced by the other brokers pass through.\<close>

definition s_on_pubN_msg :: "dd_broker \<Rightarrow> zmsg \<Rightarrow> dd_broker res" where
  "s_on_pubN_msg self msg =
     (case zmsg_pop msg of (topic_frame, msg) \<Rightarrow>
      rbind (zframe_data topic_frame) (\<lambda>topic.
      if topic = [] then Inl Out_of_bounds
      else Inr (send_if_open SubS [topic] self)))"

definition s_on_pubS_msg :: "dd_broker \<Rightarrow> zmsg \<Rightarrow> dd_broker res" where
  "s_on_pubS_msg self msg =
     (case zmsg_pop msg of (topic_frame, msg) \<Rightarrow>
      rbind (zframe_data topic_frame) (\<lambda>topic.
      if topic = [] then Inl Out_of_bounds
      else Inr (send_if_open SubN [topic] (send_if_open SubS [topic] self))))"

end
