(* ===== verification/BrokerLoop.thy ===== *)
theory BrokerLoop
  imports PubSub
begin

text \<open>
  The event loop of \<open>broker.c\<close>: registration with the higher broker, heartbeats and timeouts, the
  dispatch of the messages of the router and the dealer socket, and the step relation of a running
  broker that they make up.
\<close>

section \<open>Registration with the higher broker\<close>

fun decimal :: "nat \<Rightarrow> bytes" where
  "decimal n = (if n < 10 then [of_nat (48 + n)] else decimal (n div 10) @ [of_nat (48 + n mod 10)])"

declare decimal.simps [simp del]

definition atoi :: "bytes \<Rightarrow> nat" where
  "atoi s = foldl (\<lambda>n d. 10 * n + (unat d - 48)) 0 (takeWhile (\<lambda>d. 48 \<le> d \<and> d \<le> 57) s)"

text \<open>
  The addresses of the higher broker's publish and subscribe sockets, derived from the address of
  its router: suffixes for a local socket, the next two ports otherwise.
\<close>

definition pubsub_addresses :: "ext \<Rightarrow> bytes \<Rightarrow> (bytes \<times> bytes) res" where
  "pubsub_addresses X addr =
     (if match_ipc X addr \<noteq> None then Inr (addr @ ascii ''.sub'', addr @ ascii ''.pub'')
      else (case match_tcp X addr of
          Some (base, port) \<Rightarrow> Inr (base @ decimal (atoi port + 2), base @ decimal (atoi port + 1))
        | None \<Rightarrow> Inl Proc_exit))"

definition connect_pubsubN :: "ext \<Rightarrow> dd_broker \<Rightarrow> dd_broker res" where
  "connect_pubsubN X self =
     rbind (deref_str (dealer_connect self)) (\<lambda>addr.
     rbind (pubsub_addresses X addr) (\<lambda>(pub_addr, sub_addr).
     let self = self\<lparr>pub_connect := Some pub_addr, sub_connect := Some sub_addr, pubN := True, subN := True\<rparr> in
     if \<not> connect_ok X PubN pub_addr then Inl Proc_exit
     else if \<not> connect_ok X SubN sub_addr then Inl Proc_exit
     else Inr (emit (Reader SubN) (emit (Reader PubN)
                 (emit (Connect SubN sub_addr) (emit (Connect PubN pub_addr) self))))))"

definition announce_clients :: "dd_broker \<Rightarrow> dd_broker res" where
  "announce_clients self =
     rbind (rfold (\<lambda>(h, a) self. rbind (get_client self a) (\<lambda>np. add_cli_up self (lc_prefix_name np) 0))
              (lcl_cli_ht self) self) (\<lambda>self.
     rfold (\<lambda>(h, nd) self. add_cli_up self (dc_name nd) (dc_distance nd)) (dist_cli_ht self) self)"

definition s_cb_regok :: "ext \<Rightarrow> dd_broker \<Rightarrow> zmsg \<Rightarrow> dd_broker res" where
  "s_cb_regok X self msg =
     (let self = zloop_timer_end (reg_loop self) (self\<lparr>state := DD_STATE_REGISTERED\<rparr>) in
      case zloop_timer X 1000 Heartbeat self of (i, self) \<Rightarrow>
      rbind (announce_clients (self\<lparr>heartbeat_loop := i\<rparr>)) (\<lambda>self.
      if length msg = 3 then connect_pubsubN X self else Inr self))"

definition s_cb_ping :: "dd_broker \<Rightarrow> bytes \<Rightarrow> bytes \<Rightarrow> dd_broker res" where
  "s_cb_ping self sockid cookie =
     rbind (hashtable_has_local_node self sockid cookie True) (\<lambda>(r, self).
     if r \<noteq> None then zsock_send Rsock [sockid, le32 DD_VERSION, le32 DD_CMD_PONG] self
     else
       rbind (rd64 cookie) (\<lambda>cook.
       rbind (hashtable_has_local_broker self sockid cook True) (\<lambda>(r, self).
       if r \<noteq> None then zsock_send Rsock [sockid, le32 DD_VERSION, le32 DD_CMD_PONG] self
       else Inr self)))"

section \<open>Dispatch\<close>

text \<open>The commands that carry a cookie: without one the message is dropped.\<close>

definition with_cookie :: "dd_broker \<Rightarrow> zmsg \<Rightarrow> (bytes \<Rightarrow> zmsg \<Rightarrow> dd_broker res) \<Rightarrow> dd_broker res" where
  "with_cookie self msg f =
     (case zmsg_pop msg of
        (None, msg) \<Rightarrow> Inr self
      | (Some cookie_frame, msg) \<Rightarrow> f cookie_frame msg)"

definition router_cmd :: "ext \<Rightarrow> dd_broker \<Rightarrow> bytes \<Rightarrow> u32 \<Rightarrow> zmsg \<Rightarrow> dd_broker res" where
  "router_cmd X self source cmd msg =
     (if cmd = DD_CMD_SEND then with_cookie self msg (s_cb_send self source)
      else if cmd = DD_CMD_FORWARD then with_cookie self msg (s_cb_forward_rsock self source)
      else if cmd = DD_CMD_PING then with_cookie self msg (\<lambda>cookie msg. s_cb_ping self source cookie)
      else if cmd = DD_CMD_SUB then with_cookie self msg (s_cb_sub X self source)
      else if cmd = DD_CMD_UNSUB then with_cookie self msg (s_cb_unsub self source)
      else if cmd = DD_CMD_PUB then with_cookie self msg (s_cb_pub self source)
      else if cmd = DD_CMD_ADDLCL then s_cb_addlcl X self source msg
      else if cmd = DD_CMD_ADDDCL then with_cookie self msg (s_cb_adddcl X self source)
      else if cmd = DD_CMD_ADDBR then s_cb_addbr X self source msg
      else if cmd = DD_CMD_UNREG then with_cookie self msg (\<lambda>cookie msg. s_cb_unreg_cli self source cookie)
      else if cmd = DD_CMD_UNREGDCLI then with_cookie self msg (s_cb_unreg_dist_cli self source)
      else if cmd = DD_CMD_CHALLOK then s_cb_challok X self source msg
      else Inr self)"

definition s_on_router_msg :: "ext \<Rightarrow> dd_broker \<Rightarrow> zmsg option \<Rightarrow> dd_broker res" where
  "s_on_router_msg X self msg =
     (case msg of
        Some (source # proto # cmd # rest) \<Rightarrow>
          rbind (rd32 proto) (\<lambda>pver.
          if pver \<noteq> DD_VERSION then
            zsock_send Rsock [source, le32 pver, le32 DD_CMD_ERROR, le32 DD_ERROR_VERSION,
              ascii ''Different versions in use''] self
          else rbind (rd32 cmd) (\<lambda>cmd. router_cmd X self source cmd rest))
      | _ \<Rightarrow> Inr self)"

definition dealer_cmd :: "ext \<Rightarrow> dd_broker \<Rightarrow> u32 \<Rightarrow> zmsg \<Rightarrow> dd_broker res" where
  "dealer_cmd X self cmd msg =
     (if cmd = DD_CMD_REGOK then s_cb_regok X self msg
      else if cmd = DD_CMD_FORWARD then s_cb_forward_dsock self msg
      else if cmd = DD_CMD_CHALL then s_cb_chall X self msg
      else if cmd = DD_CMD_PONG then Inr self
      else if cmd = DD_CMD_ERROR then s_cb_high_error self msg
      else Inr self)"

definition s_on_dealer_msg :: "ext \<Rightarrow> dd_broker \<Rightarrow> zmsg option \<Rightarrow> dd_broker res" where
  "s_on_dealer_msg X self msg =
     (let self = self\<lparr>timeout := 0\<rparr> in
      case msg of
        Some (proto # cmd # rest) \<Rightarrow>
          rbind (rd32 proto) (\<lambda>pver.
          if pver \<noteq> DD_VERSION then Inr self
          else rbind (rd32 cmd) (\<lambda>cmd. dealer_cmd X self cmd rest))
      | _ \<Rightarrow> Inr self)"

section \<open>Timers\<close>

text \<open>
  \<open>s_register\<close>, with whether \<open>zsock_new_dealer\<close> returned a socket; the result is what the loop
  gets back, -1 ending it.
\<close>

definition s_register :: "ext \<Rightarrow> bool \<Rightarrow> dd_broker \<Rightarrow> (int \<times> dd_broker) res" where
  "s_register X created self =
     (if state self = DD_STATE_UNREG \<or> state self = DD_STATE_ROOT then
        let self = (if dsock self then emit (Destroy Dsock) (emit (Reader_end Dsock) (self\<lparr>dsock := False\<rparr>))
                    else self) in
        if \<not> created then Inr (- 1, self)
        else
          let self = self\<lparr>dsock := True\<rparr> in
          rbind (deref_str (dealer_connect self)) (\<lambda>addr.
          if \<not> connect_ok X Dsock addr then Inr (- 1, self)
          else
            rbind (zsock_send Dsock [le32 DD_VERSION, le32 DD_CMD_ADDBR, br_hash (keys self)]
                     (emit (Reader Dsock) (emit (Connect Dsock addr) self))) (\<lambda>self.
            Inr (0, self)))
      else Inr (0, self))"

definition s_heartbeat :: "ext \<Rightarrow> dd_broker \<Rightarrow> dd_broker res" where
  "s_heartbeat X self =
     (let self = self\<lparr>timeout := timeout self + 1\<rparr>;
          self = (if timeout self > 3 then
                    case zloop_timer X 1000 Register
                      (zloop_timer_end (heartbeat_loop self) (self\<lparr>state := DD_STATE_ROOT\<rparr>)) of
                      (i, self) \<Rightarrow> self\<lparr>reg_loop := i\<rparr>
                  else self)
      in zsock_send Dsock [le32 DD_VERSION, le32 DD_CMD_PING, le64 (br_cookie (keys self))] self)"

text \<open>
  A walk over the client table that removes the clients it stands on. A node that has been taken
  out of the table since the walk began is passed over, through its own link.
\<close>

definition check_client :: "u32 \<times> nat \<Rightarrow> dd_broker \<Rightarrow> dd_broker res" where
  "check_client node self =
     (case node of (h, a) \<Rightarrow>
      rbind (get_client self a) (\<lambda>np.
      if (h, a) \<notin> set (lcl_cli_ht self) then Inr self
      else if lc_timeout np < 3 then
        Inr (self\<lparr>clients := (clients self)(a \<mapsto> np\<lparr>lc_timeout := lc_timeout np + 1\<rparr>)\<rparr>)
      else unreg_cli self (lc_sockid np) (lc_cookie np)))"

definition s_check_cli_timeout :: "dd_broker \<Rightarrow> dd_broker res" where
  "s_check_cli_timeout self = rfold check_client (lcl_cli_ht self) self"

definition check_broker :: "u32 \<times> local_broker \<Rightarrow> dd_broker \<Rightarrow> dd_broker res" where
  "check_broker node self =
     (case node of (h, np) \<Rightarrow>
      if lb_timeout np < 3 then
        Inr (self\<lparr>lcl_br_ht := ht_replace h np (np\<lparr>lb_timeout := lb_timeout np + 1\<rparr>) (lcl_br_ht self)\<rparr>)
      else
        rbind (delete_dist_clients self np) (\<lambda>self.
        Inr (self\<lparr>lcl_br_ht := ht_del h np (lcl_br_ht self)\<rparr>)))"

definition s_check_br_timeout :: "dd_broker \<Rightarrow> dd_broker res" where
  "s_check_br_timeout self = rfold check_broker (lcl_br_ht self) self"

section \<open>A running broker\<close>

text \<open>
  One turn of \<open>zloop_start\<close>: a message on a socket that is read, or a timer that is set. A fault
  ends the process, and a callback that returns -1 the loop: neither has a step.
\<close>

datatype input =
    On_router "zmsg option"
  | On_dealer "zmsg option"
  | On_subN zmsg
  | On_subS zmsg
  | On_pubN zmsg
  | On_pubS zmsg
  | On_timer timer bool

definition timer_set :: "dd_broker \<Rightarrow> timer \<Rightarrow> bool" where
  "timer_set self t \<longleftrightarrow> t \<in> (\<lambda>(i, d, t). t) ` set (timers self)"

definition handle :: "ext \<Rightarrow> input \<Rightarrow> dd_broker \<Rightarrow> dd_broker res" where
  "handle X inp self =
     (case inp of
        On_router m \<Rightarrow> s_on_router_msg X self m
      | On_dealer m \<Rightarrow> s_on_dealer_msg X self m
      | On_subN m \<Rightarrow> s_on_subN_msg self m
      | On_subS m \<Rightarrow> s_on_subS_msg self m
      | On_pubN m \<Rightarrow> s_on_pubN_msg self m
      | On_pubS m \<Rightarrow> s_on_pubS_msg self m
      | On_timer Register created \<Rightarrow>
          rbind (s_register X created self) (\<lambda>(rc, self). if rc = - 1 then Inl Loop_end else Inr self)
      | On_timer Heartbeat created \<Rightarrow> s_heartbeat X self
      | On_timer Check_cli created \<Rightarrow> s_check_cli_timeout self
      | On_timer Check_br created \<Rightarrow> s_check_br_timeout self)"

definition enabled :: "dd_broker \<Rightarrow> input \<Rightarrow> bool" where
  "enabled self inp =
     (case inp of
        On_router m \<Rightarrow> rsock self
      | On_dealer m \<Rightarrow> dsock self
      | On_subN m \<Rightarrow> subN self
      | On_subS m \<Rightarrow> subS self
      | On_pubN m \<Rightarrow> pubN self
      | On_pubS m \<Rightarrow> pubS self
      | On_timer t created \<Rightarrow> timer_set self t)"

inductive broker_step :: "ext \<Rightarrow> dd_broker \<Rightarrow> input \<Rightarrow> dd_broker \<Rightarrow> bool" for X where
  turn: "enabled self inp \<Longrightarrow> handle X inp self = Inr self' \<Longrightarrow> broker_step X self inp self'"

text \<open>A run whose states, but for the last, all satisfy \<open>C\<close>.\<close>

inductive broker_run :: "ext \<Rightarrow> (dd_broker \<Rightarrow> bool) \<Rightarrow> dd_broker \<Rightarrow> input list \<Rightarrow> dd_broker \<Rightarrow> bool" for X C where
  stop: "broker_run X C self [] self"
| more: "C self \<Longrightarrow> broker_step X self inp self' \<Longrightarrow> broker_run X C self' inps self'' \<Longrightarrow>
    broker_run X C self (inp # inps) self''"

inductive_cases broker_stepE [elim]: "broker_step X self inp self'"
inductive_cases broker_run_NilE [elim]: "broker_run X C self [] self'"
inductive_cases broker_run_ConsE [elim]: "broker_run X C self (inp # inps) self'"

end
