(* ===== verification/Config.thy ===== *)
theory Config
  imports BrokerLoop
begin

text \<open>
  How a broker comes up, in \<open>broker.c\<close>: the setters that fill in the configuration of
  \<open>dd_broker_new\<close>, binding the router and the southbound sockets, and \<open>broker_actor\<close> up to
  \<open>zloop_start\<close>. The fields of \<open>_dd_broker_t\<close> that are set before the broker runs are the record
  \<open>broker_setup\<close>; the REST interface is in the theory Rest.
\<close>

section \<open>Configuration\<close>

record broker_setup =
  cf_broker_scope :: "bytes option"
  cf_dealer_connect :: "bytes option"
  cf_router_bind :: "bytes option"
  cf_reststr :: "bytes option"
  cf_scope :: "bytes list"
  cf_keys :: "ddbrokerkeys option"
  cf_dsock :: bool

definition dd_broker_new :: broker_setup where
  "dd_broker_new =
     \<lparr>cf_broker_scope = None, cf_dealer_connect = None, cf_router_bind = None, cf_reststr = None,
      cf_scope = [], cf_keys = None, cf_dsock = False\<rparr>"

definition dd_broker_ready :: "broker_setup \<Rightarrow> bool" where
  "dd_broker_ready cf \<longleftrightarrow> cf_keys cf \<noteq> None \<and> cf_router_bind cf \<noteq> None \<and> cf_broker_scope cf \<noteq> None"

text \<open>\<open>created\<close>: whether \<open>zsock_new\<close> returned a socket. The result of the connect is not looked at.\<close>

definition dd_broker_set_dealer :: "bool \<Rightarrow> bytes \<Rightarrow> broker_setup \<Rightarrow> broker_setup res" where
  "dd_broker_set_dealer created dealerstr cf =
     (if \<not> created then Inl Assert_fail
      else Inr (cf\<lparr>cf_dealer_connect := Some dealerstr, cf_dsock := True\<rparr>))"

text \<open>\<open>ks\<close>: what \<open>read_ddbrokerkeys\<close> made of the file.\<close>

definition dd_broker_set_keyfile :: "ddbrokerkeys option \<Rightarrow> broker_setup \<Rightarrow> (int \<times> broker_setup) res" where
  "dd_broker_set_keyfile ks cf =
     (if cf_keys cf \<noteq> None then Inr (- 1, cf)
      else case ks of None \<Rightarrow> Inl Assert_fail | Some ks \<Rightarrow> Inr (0, cf\<lparr>cf_keys := Some ks\<rparr>))"

abbreviation comma :: u8 where "comma \<equiv> of_char (CHR '','')"

definition dd_broker_add_router :: "bytes \<Rightarrow> broker_setup \<Rightarrow> broker_setup" where
  "dd_broker_add_router routerstr cf =
     cf\<lparr>cf_router_bind := Some (case cf_router_bind cf of None \<Rightarrow> routerstr
        | Some rb \<Rightarrow> rb @ comma # routerstr)\<rparr>"

text \<open>
  The scope numbers of the string are appended to the list, and \<open>broker_scope\<close> is rebuilt from all
  of it in a buffer of 256 bytes, by the same advancing \<open>snprintf\<close> as in \<open>s_cb_sub\<close>.
\<close>

fun scope_print :: "bytes list \<Rightarrow> bytes \<times> int \<Rightarrow> (bytes \<times> int) res" where
  "scope_print [] bl = Inr bl"
| "scope_print (t # ts) bl = rbind (scope_put (t @ [slash]) bl) (scope_print ts)"

definition dd_broker_set_scope :: "ext \<Rightarrow> bytes \<Rightarrow> broker_setup \<Rightarrow> (int \<times> broker_setup) res" where
  "dd_broker_set_scope X scopestr cf =
     (case match_scope X scopestr of
        None \<Rightarrow> Inr (- 1, cf)
      | Some hits \<Rightarrow>
          let sc = cf_scope cf @ hits in
          rbind (scope_put [slash] ([], 256)) (\<lambda>bl.
          rbind (scope_print sc bl) (\<lambda>(buf, len).
          Inr (0, cf\<lparr>cf_scope := sc, cf_broker_scope := Some buf\<rparr>))))"

definition dd_broker_set_rest :: "bytes \<Rightarrow> broker_setup \<Rightarrow> broker_setup" where
  "dd_broker_set_rest reststr cf = cf\<lparr>cf_reststr := Some reststr\<rparr>"

section \<open>Binding the sockets\<close>

definition to_lower :: "u8 \<Rightarrow> u8" where
  "to_lower c = (if 65 \<le> c \<and> c \<le> 90 then c + 32 else c)"

text \<open>\<open>strcasestr(s, "ipc://")\<close> and the path that the code takes, six characters into the string.\<close>

definition names_ipc :: "bytes \<Rightarrow> bool" where
  "names_ipc s \<longleftrightarrow> (\<exists>i\<in>set [0..<length s]. starts_with (ascii ''ipc://'') (map to_lower (drop i s)))"

definition change_permissions :: "ext \<Rightarrow> bytes list \<Rightarrow> unit res" where
  "change_permissions X ts =
     (if \<exists>t\<in>set ts. names_ipc t \<and> \<not> chmod_ok X (drop 6 t) then Inl Proc_exit else Inr ())"

text \<open>\<open>bind_router\<close>: the list of addresses, once they are all bound.\<close>

definition bind_router :: "ext \<Rightarrow> broker_setup \<Rightarrow> bytes list res" where
  "bind_router X cf =
     rbind (deref_str (cf_router_bind cf)) (\<lambda>rb.
     let rstrings = strtok comma rb in
     if \<exists>t\<in>set rstrings. names_ipc t \<and> file_exists X (drop 6 t) then Inl Proc_exit
     else if \<not> attach_ok X Rsock rb then Inl Proc_exit
     else rbind (change_permissions X rstrings) (\<lambda>u. Inr rstrings))"

text \<open>The southbound addresses (publish, subscribe) that go with one address of the router.\<close>

definition south_addresses :: "ext \<Rightarrow> bytes \<Rightarrow> (bytes \<times> bytes) res" where
  "south_addresses X t =
     (case match_ipc X t of
        Some path \<Rightarrow>
          if file_exists X (path @ ascii ''.pub'') \<or> file_exists X (path @ ascii ''.sub'') then Inl Proc_exit
          else Inr (t @ ascii ''.pub'', t @ ascii ''.sub'')
      | None \<Rightarrow>
          (case match_tcp X t of
             Some (base, port) \<Rightarrow> Inr (base @ decimal (atoi port + 1), base @ decimal (atoi port + 2))
           | None \<Rightarrow> Inl Proc_exit))"

fun south_strings :: "ext \<Rightarrow> bytes list \<Rightarrow> (bytes list \<times> bytes list) res" where
  "south_strings X [] = Inr ([], [])"
| "south_strings X (t # ts) =
     rbind (south_addresses X t) (\<lambda>(pub, sub).
     rbind (south_strings X ts) (\<lambda>(pubs, subs). Inr (pub # pubs, sub # subs)))"

text \<open>
  The loop that joins a list of addresses with commas into a buffer of \<open>bufsize\<close> bytes: \<open>i\<close> counts the
  addresses, \<open>written\<close> the bytes.
\<close>

fun join_loop :: "nat \<Rightarrow> bytes \<Rightarrow> nat \<Rightarrow> nat \<Rightarrow> bytes list \<Rightarrow> bytes" where
  "join_loop bufsize buf written i [] = buf"
| "join_loop bufsize buf written i (t # ts) =
     (let s = (if i \<noteq> 0 then comma # t else t);
          buf = buf @ snprintf (bufsize - written) s;
          written = written + length s in
      if written = bufsize then buf else join_loop bufsize buf written (Suc i) ts)"

definition join_addresses :: "bytes list \<Rightarrow> bytes" where
  "join_addresses ts = join_loop (sum_list (map (\<lambda>t. length t + 1) ts)) [] 0 0 ts"

definition start_pubsub :: "ext \<Rightarrow> bytes list \<Rightarrow> dd_broker \<Rightarrow> dd_broker res" where
  "start_pubsub X rstrings self =
     rbind (south_strings X rstrings) (\<lambda>(pub_strings, sub_strings).
     if pub_strings = [] \<or> sub_strings = [] then Inl Proc_exit
     else
       let pub_bind = join_addresses pub_strings; sub_bind = join_addresses sub_strings;
           self = self\<lparr>pubS := True, subS := True\<rparr> in
       if \<not> attach_ok X PubS pub_bind then Inl Proc_exit
       else if \<not> attach_ok X SubS sub_bind then Inl Proc_exit
       else
         rbind (change_permissions X pub_strings) (\<lambda>u.
         rbind (change_permissions X sub_strings) (\<lambda>u.
         Inr (emit (Reader SubS) (emit (Reader PubS)
               (emit (Attach SubS sub_bind) (emit (Attach PubS pub_bind) self)))))))"

section \<open>Starting\<close>

text \<open>The broker's structure when its thread starts; \<open>n\<close> is what \<open>randombytes_buf\<close> put into the nonce.\<close>

definition broker_fresh :: "ddbrokerkeys \<Rightarrow> bytes \<Rightarrow> broker_setup \<Rightarrow> dd_broker" where
  "broker_fresh ks n cf =
     \<lparr>broker_scope = cf_broker_scope cf, dealer_connect = cf_dealer_connect cf,
      state = DD_STATE_UNREG, timeout = 0, heartbeat_loop = - 1, reg_loop = - 1,
      topics_trie = nn_trie_init, broker_id = Some (ascii ''root''), scope = cf_scope cf,
      pubN = False, subN = False, pubS = False, subS = False, rsock = False, dsock = cf_dsock cf,
      pub_connect = None, sub_connect = None,
      clients = (\<lambda>a. None), next_client = 0, lcl_cli_ht = [], rev_lcl_cli_ht = [],
      dist_cli_ht = [], lcl_br_ht = [], subscribe_ht = [],
      nonce = n, keys = ks, timers = [], timer_count = 0, sent = []\<rparr>"

text \<open>\<open>broker_actor\<close> up to \<open>zloop_start\<close>, for a configuration whose keys are \<open>ks\<close>.\<close>

definition broker_actor :: "ext \<Rightarrow> ddbrokerkeys \<Rightarrow> bytes \<Rightarrow> broker_setup \<Rightarrow> dd_broker res" where
  "broker_actor X ks n cf =
     rbind (bind_router X cf) (\<lambda>rstrings.
     let self = emit (Reader Rsock) ((broker_fresh ks n cf)\<lparr>rsock := True\<rparr>) in
     rbind (if dealer_connect self \<noteq> None
            then if \<not> dsock self then Inl Assert_fail
                 else case zloop_timer X 1000 Register (emit (Reader Dsock) self) of
                        (i, self) \<Rightarrow> Inr (self\<lparr>reg_loop := i\<rparr>)
            else Inr (self\<lparr>state := DD_STATE_ROOT\<rparr>)) (\<lambda>self.
     let self = snd (zloop_timer X 3000 Check_cli self);
         self = snd (zloop_timer X 1000 Check_br self)
     in start_pubsub X rstrings self))"

definition dd_broker_actor :: "ext \<Rightarrow> bytes \<Rightarrow> broker_setup \<Rightarrow> dd_broker option res" where
  "dd_broker_actor X n cf =
     (if dd_broker_ready cf
      then case cf_keys cf of None \<Rightarrow> Inr None
           | Some ks \<Rightarrow> rbind (broker_actor X ks n cf) (\<lambda>self. Inr (Some self))
      else Inr None)"

end
