(* ===== verification/TableLemmas.thy ===== *)
theory TableLemmas
  imports Config
begin

text \<open>
  The invariant of the broker's tables (\<open>reg_inv\<close>) and what the operations of \<open>htable.c\<close> do to it.
  The rules \<open>post_rules\<close> give, for an operation that returns, what the caller knows of its result.
\<close>

section \<open>The library and the lookups\<close>

lemma ht_lookup_Some: "ht_lookup m h t = Inr (Some x) \<Longrightarrow> (h, x) \<in> set t \<and> m x = Inr True"
  by (induction t) (auto simp: rbind_eq_Inr split: if_splits)

lemma ht_lookup_None: "ht_lookup m h t = Inr None \<Longrightarrow> (h, y) \<in> set t \<Longrightarrow> m y = Inr False"
  by (induction t) (auto simp: rbind_eq_Inr split: if_splits)

lemma post_ht_lookup:
  assumes "(\<And>y. (h, y) \<in> set t \<Longrightarrow> m y = Inr False) \<Longrightarrow> P None"
    and "\<And>x. (h, x) \<in> set t \<Longrightarrow> m x = Inr True \<Longrightarrow> P (Some x)"
  shows "post (ht_lookup m h t) P"
proof (rule postI)
  fix r assume r: "ht_lookup m h t = Inr r"
  then show "P r"
    using assms ht_lookup_Some [of m h t] ht_lookup_None [of m h t] by (cases r) auto
qed

lemma ht_add_split:
  obtains l r where "t = l @ r" "ht_add X h x t = l @ (h, x) # r"
  by (rule that [of "take (place X (map fst t) h) t" "drop (place X (map fst t) h) t"])
    (simp_all add: ht_add_def Let_def)

lemma set_ht_add [simp]: "set (ht_add X h x t) = insert (h, x) (set t)"
  by (rule ht_add_split [of t X h x]) auto

lemma distinct_map_ht_add:
  "distinct (map f (ht_add X h x t)) \<longleftrightarrow> f (h, x) \<notin> f ` set t \<and> distinct (map f t)"
  by (rule ht_add_split [of t X h x]) auto

lemma set_ht_del: "distinct t \<Longrightarrow> set (ht_del h x t) = set t - {(h, x)}"
  by (simp add: ht_del_def)

lemma set_ht_del_subset: "set (ht_del h x t) \<subseteq> set t"
  by (simp add: ht_del_def set_remove1_subset)

lemma distinct_map_ht_del: "distinct (map f t) \<Longrightarrow> distinct (map f (ht_del h x t))"
proof (induction t)
  case (Cons y t)
  then show ?case using set_remove1_subset [of "(h, x)" t] by (auto simp: ht_del_def)
qed (simp add: ht_del_def)

lemma set_ht_replace: "set (ht_replace h x y t) \<subseteq> insert (h, y) (set t)"
  by (induction t) auto

lemma set_ht_replace_iff:
  "distinct t \<Longrightarrow> (h, x) \<in> set t \<Longrightarrow> set (ht_replace h x y t) = insert (h, y) (set t - {(h, x)})"
  by (induction t) auto

lemma map_ht_replace: "f (h, y) = f (h, x) \<Longrightarrow> map f (ht_replace h x y t) = map f t"
  by (induction t) auto

lemma memcmp_eq_True: "memcmp_eq data key = Inr True \<longleftrightarrow> starts_with key data"
  by (auto simp: memcmp_eq_def starts_with_def split: if_splits)

lemma memcmp_eq_len: "length data = length key \<Longrightarrow> memcmp_eq data key = Inr (data = key)"
  by (auto simp: memcmp_eq_def)

lemma post_zsock_send [simp]:
  "post (zsock_send s fs self) P \<longleftrightarrow> (sock_open self s \<longrightarrow> P (emit (Send s fs) self))"
  by (simp add: zsock_send_def)

lemma post_zframe_data [simp]: "post (zframe_data f) P \<longleftrightarrow> (\<forall>d. f = Some d \<longrightarrow> P d)"
  by (cases f) auto

lemma post_deref_str [simp]: "post (deref_str f) P \<longleftrightarrow> (\<forall>d. f = Some d \<longrightarrow> P d)"
  by (cases f) auto

lemma post_get_client [simp]: "post (get_client self a) P \<longleftrightarrow> (\<forall>lc. clients self a = Some lc \<longrightarrow> P lc)"
  by (cases "clients self a") (auto simp: get_client_def)

section \<open>The registry invariant\<close>

definition client_ok :: "nat \<Rightarrow> ddbrokerkeys \<Rightarrow> local_client \<Rightarrow> bool" where
  "client_ok L ks lc \<longleftrightarrow>
     (\<exists>h ten. map_of (tenantkeys ks) h = Some ten \<and> lc_tenant lc = ten_name ten \<and> lc_cookie lc = ten_cookie ten) \<and>
     lc_prefix_name lc = dot_join (lc_tenant lc) (lc_name lc) \<and>
     length (lc_prefix_name lc) < MAXTENANTNAME \<and> lc_name lc \<noteq> ascii ''public'' \<and>
     length (lc_sockid lc) = L \<and> 0 \<le> lc_timeout lc \<and> lc_timeout lc \<le> 3"

definition client_hash :: "local_client \<Rightarrow> u32" where
  "client_hash lc = sockid_cookie_hash (lc_sockid lc) (le64 (lc_cookie lc))"

definition cli_ok :: "nat \<Rightarrow> ddbrokerkeys \<Rightarrow> (nat \<Rightarrow> local_client option) \<Rightarrow> nat \<Rightarrow> nat ht \<Rightarrow> nat ht \<Rightarrow> bool" where
  "cli_ok L ks cl nx lcl rvl \<longleftrightarrow>
     distinct (map snd lcl) \<and> distinct (map snd rvl) \<and>
     snd ` set lcl = dom cl \<and> snd ` set rvl = dom cl \<and> (\<forall>a lc. cl a = Some lc \<longrightarrow> a < nx) \<and>
     (\<forall>h a lc. (h, a) \<in> set lcl \<longrightarrow> cl a = Some lc \<longrightarrow> h = client_hash lc) \<and>
     (\<forall>h a lc. (h, a) \<in> set rvl \<longrightarrow> cl a = Some lc \<longrightarrow> h = prename_hash (lc_prefix_name lc)) \<and>
     (\<forall>a b la lb. cl a = Some la \<longrightarrow> cl b = Some lb \<longrightarrow> lc_prefix_name la = lc_prefix_name lb \<longrightarrow> a = b) \<and>
     (\<forall>a b la lb. cl a = Some la \<longrightarrow> cl b = Some lb \<longrightarrow> client_hash la = client_hash lb \<longrightarrow>
        lc_sockid la = lc_sockid lb \<longrightarrow> a = b) \<and>
     (\<forall>a lc. cl a = Some lc \<longrightarrow> client_ok L ks lc)"

definition dist_ok :: "(nat \<Rightarrow> local_client option) \<Rightarrow> dist_client ht \<Rightarrow> bool" where
  "dist_ok cl dist \<longleftrightarrow>
     distinct (map (\<lambda>(h, dc). dc_name dc) dist) \<and>
     (\<forall>h dc. (h, dc) \<in> set dist \<longrightarrow> h = name_hash (dc_name dc)) \<and>
     (\<forall>h dc a lc. (h, dc) \<in> set dist \<longrightarrow> cl a = Some lc \<longrightarrow> lc_prefix_name lc \<noteq> dc_name dc)"

definition brs_ok :: "nat \<Rightarrow> ddbrokerkeys \<Rightarrow> local_broker ht \<Rightarrow> bool" where
  "brs_ok L ks brs \<longleftrightarrow>
     distinct (map (\<lambda>(h, lb). lb_sockid lb) brs) \<and>
     (\<forall>h lb. (h, lb) \<in> set brs \<longrightarrow>
        h = sockid_cookie_hash (lb_sockid lb) (le64 (lb_cookie lb)) \<and> lb_cookie lb = br_cookie ks \<and>
        length (lb_sockid lb) = L \<and> 0 \<le> lb_timeout lb \<and> lb_timeout lb \<le> 3)"

definition subs_ok :: "nat \<Rightarrow> subscribe_node ht \<Rightarrow> bool" where
  "subs_ok L subs \<longleftrightarrow>
     distinct (map (\<lambda>(h, sn). sn_sockid sn) subs) \<and>
     (\<forall>h sn. (h, sn) \<in> set subs \<longrightarrow>
        h = name_hash (sn_sockid sn) \<and> length (sn_sockid sn) = L \<and>
        distinct (sn_topics sn) \<and> sn_topics sn \<noteq> [])"

definition reg_inv :: "nat \<Rightarrow> dd_broker \<Rightarrow> bool" where
  "reg_inv L self \<longleftrightarrow>
     cli_ok L (keys self) (clients self) (next_client self) (lcl_cli_ht self) (rev_lcl_cli_ht self) \<and>
     dist_ok (clients self) (dist_cli_ht self) \<and>
     brs_ok L (keys self) (lcl_br_ht self) \<and> subs_ok L (subscribe_ht self)"

text \<open>
  No two registered names are taken for one another: a lookup compares only as many characters as
  the key has, among the nodes of the key's hash.
\<close>

definition clash_free :: "dd_broker \<Rightarrow> bool" where
  "clash_free self \<longleftrightarrow>
     (\<forall>a b la lb. clients self a = Some la \<longrightarrow> clients self b = Some lb \<longrightarrow>
        prename_hash (lc_prefix_name la) = prename_hash (lc_prefix_name lb) \<longrightarrow>
        prefix (lc_prefix_name la) (lc_prefix_name lb) \<longrightarrow> a = b)"

lemma cli_okD:
  assumes "cli_ok L ks cl nx lcl rvl"
  shows "distinct (map snd lcl)" "distinct (map snd rvl)" "snd ` set lcl = dom cl" "snd ` set rvl = dom cl"
    "\<And>a lc. cl a = Some lc \<Longrightarrow> a < nx"
    "\<And>h a lc. (h, a) \<in> set lcl \<Longrightarrow> cl a = Some lc \<Longrightarrow> h = client_hash lc"
    "\<And>h a lc. (h, a) \<in> set rvl \<Longrightarrow> cl a = Some lc \<Longrightarrow> h = prename_hash (lc_prefix_name lc)"
    "\<And>a b la lb. cl a = Some la \<Longrightarrow> cl b = Some lb \<Longrightarrow> lc_prefix_name la = lc_prefix_name lb \<Longrightarrow> a = b"
    "\<And>a b la lb. cl a = Some la \<Longrightarrow> cl b = Some lb \<Longrightarrow> client_hash la = client_hash lb \<Longrightarrow>
      lc_sockid la = lc_sockid lb \<Longrightarrow> a = b"
    "\<And>a lc. cl a = Some lc \<Longrightarrow> client_ok L ks lc"
proof -
  note r1 = assms [unfolded cli_ok_def]
  note r2 = conjunct2 [OF r1]
  note r3 = conjunct2 [OF r2]
  note r4 = conjunct2 [OF r3]
  note r5 = conjunct2 [OF r4]
  note r6 = conjunct2 [OF r5]
  note r7 = conjunct2 [OF r6]
  note r8 = conjunct2 [OF r7]
  note r9 = conjunct2 [OF r8]
  note r10 = conjunct2 [OF r9]
  show "distinct (map snd lcl)" "distinct (map snd rvl)" "snd ` set lcl = dom cl" "snd ` set rvl = dom cl"
    by (rule conjunct1 [OF r1], rule conjunct1 [OF r2], rule conjunct1 [OF r3], rule conjunct1 [OF r4])
  show "cl a = Some lc \<Longrightarrow> a < nx" for a lc by (rule conjunct1 [OF r5, rule_format])
  show "(h, a) \<in> set lcl \<Longrightarrow> cl a = Some lc \<Longrightarrow> h = client_hash lc" for h a lc by (rule conjunct1 [OF r6, rule_format])
  show "(h, a) \<in> set rvl \<Longrightarrow> cl a = Some lc \<Longrightarrow> h = prename_hash (lc_prefix_name lc)" for h a lc by (rule conjunct1 [OF r7, rule_format])
  show "cl a = Some la \<Longrightarrow> cl b = Some lb \<Longrightarrow> lc_prefix_name la = lc_prefix_name lb \<Longrightarrow> a = b" for a b la lb by (rule conjunct1 [OF r8, rule_format])
  show "cl a = Some la \<Longrightarrow> cl b = Some lb \<Longrightarrow> client_hash la = client_hash lb \<Longrightarrow>
      lc_sockid la = lc_sockid lb \<Longrightarrow> a = b" for a b la lb by (rule conjunct1 [OF r9, rule_format])
  show "cl a = Some lc \<Longrightarrow> client_ok L ks lc" for a lc by (rule r10 [rule_format])
qed

lemma cli_ok_lcl_dom:
  assumes ok: "cli_ok L ks cl nx lcl rvl" and "(h, a) \<in> set lcl"
  shows "\<exists>lc. cl a = Some lc \<and> h = client_hash lc"
proof -
  have "a \<in> dom cl" using cli_okD(3) [OF ok] assms(2) by force
  then show ?thesis using cli_okD(6) [OF ok assms(2)] by blast
qed

lemma cli_ok_rev_dom:
  assumes ok: "cli_ok L ks cl nx lcl rvl" and "(h, a) \<in> set rvl"
  shows "\<exists>lc. cl a = Some lc \<and> h = prename_hash (lc_prefix_name lc)"
proof -
  have "a \<in> dom cl" using cli_okD(4) [OF ok] assms(2) by force
  then show ?thesis using cli_okD(7) [OF ok assms(2)] by blast
qed

lemma cli_ok_lcl:
  assumes ok: "cli_ok L ks cl nx lcl rvl" and a: "cl a = Some lc"
  shows "(client_hash lc, a) \<in> set lcl"
proof -
  obtain h where "(h, a) \<in> set lcl" using cli_okD(3) [OF ok] a by force
  then show ?thesis using cli_okD(6) [OF ok _ a] by blast
qed

lemma cli_ok_rev:
  assumes ok: "cli_ok L ks cl nx lcl rvl" and a: "cl a = Some lc"
  shows "(prename_hash (lc_prefix_name lc), a) \<in> set rvl"
proof -
  obtain h where "(h, a) \<in> set rvl" using cli_okD(4) [OF ok] a by force
  then show ?thesis using cli_okD(7) [OF ok _ a] by blast
qed

lemma clash_freeD:
  "clash_free self \<Longrightarrow> clients self a = Some la \<Longrightarrow> clients self b = Some lb \<Longrightarrow>
   prename_hash (lc_prefix_name la) = prename_hash (lc_prefix_name lb) \<Longrightarrow>
   prefix (lc_prefix_name la) (lc_prefix_name lb) \<Longrightarrow> a = b"
  unfolding clash_free_def by iprover

subsection \<open>Changing a timeout\<close>

lemma cli_ok_timeout:
  assumes ok: "cli_ok L ks cl nx lcl rvl" and a: "cl a = Some lc" and t: "0 \<le> t" "t \<le> 3"
  shows "cli_ok L ks (cl(a \<mapsto> lc\<lparr>lc_timeout := t\<rparr>)) nx lcl rvl"
proof -
  note d = cli_okD [OF ok]
  have dom: "dom (cl(a \<mapsto> lc\<lparr>lc_timeout := t\<rparr>)) = dom cl" using a by auto
  have same: "\<exists>m. cl b = Some m \<and> client_hash m = client_hash lb \<and> lc_sockid m = lc_sockid lb \<and>
      lc_prefix_name m = lc_prefix_name lb \<and> (client_ok L ks m \<longrightarrow> client_ok L ks lb)"
    if n: "(cl(a \<mapsto> lc\<lparr>lc_timeout := t\<rparr>)) b = Some lb" for b lb
  proof (cases "b = a")
    case True
    then have "lb = lc\<lparr>lc_timeout := t\<rparr>" using n by simp
    then show ?thesis using True a t by (auto simp: client_hash_def client_ok_def simp del: ex_simps)
  next
    case False
    then show ?thesis using n by simp
  qed
  show ?thesis
    unfolding cli_ok_def dom
  proof (intro conjI allI impI)
    fix h b lb assume "(h, b) \<in> set lcl" and n: "(cl(a \<mapsto> lc\<lparr>lc_timeout := t\<rparr>)) b = Some lb"
    then show "h = client_hash lb" using same [OF n] d(6) by metis
  next
    fix h b lb assume "(h, b) \<in> set rvl" and n: "(cl(a \<mapsto> lc\<lparr>lc_timeout := t\<rparr>)) b = Some lb"
    then show "h = prename_hash (lc_prefix_name lb)" using same [OF n] d(7) by metis
  next
    fix b c lb lc' assume n: "(cl(a \<mapsto> lc\<lparr>lc_timeout := t\<rparr>)) b = Some lb"
      "(cl(a \<mapsto> lc\<lparr>lc_timeout := t\<rparr>)) c = Some lc'" and "lc_prefix_name lb = lc_prefix_name lc'"
    then show "b = c" using same [OF n(1)] same [OF n(2)] d(8) by metis
  next
    fix b c lb lc' assume n: "(cl(a \<mapsto> lc\<lparr>lc_timeout := t\<rparr>)) b = Some lb"
      "(cl(a \<mapsto> lc\<lparr>lc_timeout := t\<rparr>)) c = Some lc'" and "client_hash lb = client_hash lc'" "lc_sockid lb = lc_sockid lc'"
    then show "b = c" using same [OF n(1)] same [OF n(2)] d(9) by metis
  next
    fix b lb assume n: "(cl(a \<mapsto> lc\<lparr>lc_timeout := t\<rparr>)) b = Some lb"
    then show "client_ok L ks lb" "b < nx" using same [OF n] d(10,5) by metis+
  qed (use d in blast)+
qed

lemma dist_ok_timeout:
  "dist_ok cl dist \<Longrightarrow> cl a = Some lc \<Longrightarrow> dist_ok (cl(a \<mapsto> lc\<lparr>lc_timeout := t\<rparr>)) dist"
  by (fastforce simp: dist_ok_def split: if_splits)

lemma reg_inv_timeout:
  "reg_inv L self \<Longrightarrow> clients self a = Some lc \<Longrightarrow> 0 \<le> t \<Longrightarrow> t \<le> 3 \<Longrightarrow>
   reg_inv L (self\<lparr>clients := (clients self)(a \<mapsto> lc\<lparr>lc_timeout := t\<rparr>)\<rparr>)"
  by (simp add: reg_inv_def cli_ok_timeout dist_ok_timeout)

lemma reg_inv_touch: "reg_inv L self \<Longrightarrow> reg_inv L (touch_client self a)"
proof (cases "clients self a")
  case None
  then have "touch_client self a = self" by (simp add: touch_client_def fun_upd_idem)
  then show "reg_inv L self \<Longrightarrow> reg_inv L (touch_client self a)" by simp
next
  case (Some lc)
  then show "reg_inv L self \<Longrightarrow> reg_inv L (touch_client self a)"
    using reg_inv_timeout [of L self a lc 0] by (simp add: touch_client_def)
qed

text \<open>Steps that leave the tables alone.\<close>

lemma reg_inv_same:
  assumes "reg_inv L self" "keys self' = keys self" "clients self' = clients self" "next_client self' = next_client self"
    "lcl_cli_ht self' = lcl_cli_ht self" "rev_lcl_cli_ht self' = rev_lcl_cli_ht self"
    "dist_cli_ht self' = dist_cli_ht self" "lcl_br_ht self' = lcl_br_ht self" "subscribe_ht self' = subscribe_ht self"
  shows "reg_inv L self'"
  using assms by (simp add: reg_inv_def)

lemma emit_fields [simp]:
  "keys (emit e self) = keys self" "clients (emit e self) = clients self" "next_client (emit e self) = next_client self"
  "lcl_cli_ht (emit e self) = lcl_cli_ht self" "rev_lcl_cli_ht (emit e self) = rev_lcl_cli_ht self"
  "dist_cli_ht (emit e self) = dist_cli_ht self" "lcl_br_ht (emit e self) = lcl_br_ht self"
  "subscribe_ht (emit e self) = subscribe_ht self" "state (emit e self) = state self"
  "topics_trie (emit e self) = topics_trie self" "sock_open (emit e self) = sock_open self"
  "timers (emit e self) = timers self" "reg_loop (emit e self) = reg_loop self"
  "heartbeat_loop (emit e self) = heartbeat_loop self" "timeout (emit e self) = timeout self"
  "sent (emit e self) = sent self @ [e]" "dealer_connect (emit e self) = dealer_connect self"
  "pubN (emit e self) = pubN self" "pubS (emit e self) = pubS self" "subN (emit e self) = subN self"
  "subS (emit e self) = subS self" "rsock (emit e self) = rsock self" "dsock (emit e self) = dsock self"
  "broker_id (emit e self) = broker_id self" "timer_count (emit e self) = timer_count self"
  "scope (emit e self) = scope self" "broker_scope (emit e self) = broker_scope self"
  by (simp_all add: emit_def sock_open_def fun_eq_iff split: sock.split)

lemma reg_inv_emit [simp]: "reg_inv L (emit e self) = reg_inv L self"
  by (simp add: reg_inv_def)

lemma clash_free_emit [simp]: "clash_free (emit e self) = clash_free self"
  by (simp add: clash_free_def)

subsection \<open>Adding and removing a client\<close>

lemma cli_ok_add:
  assumes ok: "cli_ok L ks cl nx lcl rvl" and new: "client_ok L ks np"
    and name: "\<And>b lb. cl b = Some lb \<Longrightarrow> lc_prefix_name lb \<noteq> lc_prefix_name np"
    and sid: "\<And>b lb. cl b = Some lb \<Longrightarrow> client_hash lb = client_hash np \<Longrightarrow> lc_sockid lb \<noteq> lc_sockid np"
  shows "cli_ok L ks (cl(nx \<mapsto> np)) (Suc nx) (ht_add X (client_hash np) nx lcl)
    (ht_add X (prename_hash (lc_prefix_name np)) nx rvl)"
proof -
  note d = cli_okD [OF ok]
  have fresh: "cl nx = None" using d(5) by (cases "cl nx") auto
  then have n: "nx \<notin> snd ` set lcl" "nx \<notin> snd ` set rvl" using d(3,4) by auto
  have dom: "dom (cl(nx \<mapsto> np)) = insert nx (dom cl)" by auto
  have old: "cl b = Some lb" if "(cl(nx \<mapsto> np)) b = Some lb" "b \<noteq> nx" for b lb using that by simp
  have new': "lb = np" if "(cl(nx \<mapsto> np)) nx = Some lb" for lb using that by simp
  show ?thesis
    unfolding cli_ok_def distinct_map_ht_add set_ht_add dom
  proof (intro conjI allI impI)
    fix h b lb assume h: "(h, b) \<in> insert (client_hash np, nx) (set lcl)" and c: "(cl(nx \<mapsto> np)) b = Some lb"
    show "h = client_hash lb"
    proof (cases "b = nx")
      case True
      then show ?thesis using h n c by (force simp: image_iff)
    next
      case False
      then show ?thesis using h d(6) old [OF c] by auto
    qed
  next
    fix h b lb assume h: "(h, b) \<in> insert (prename_hash (lc_prefix_name np), nx) (set rvl)" and c: "(cl(nx \<mapsto> np)) b = Some lb"
    show "h = prename_hash (lc_prefix_name lb)"
    proof (cases "b = nx")
      case True
      then show ?thesis using h n c by (force simp: image_iff)
    next
      case False
      then show ?thesis using h d(7) old [OF c] by auto
    qed
  next
    fix b c lb lc assume b: "(cl(nx \<mapsto> np)) b = Some lb" and c: "(cl(nx \<mapsto> np)) c = Some lc"
      and e: "lc_prefix_name lb = lc_prefix_name lc"
    show "b = c"
      using name [of b lb] name [of c lc] d(8) [OF _ _ e] b c e by (cases "b = nx"; cases "c = nx") simp_all
  next
    fix b c lb lc assume b: "(cl(nx \<mapsto> np)) b = Some lb" and c: "(cl(nx \<mapsto> np)) c = Some lc"
      and e: "client_hash lb = client_hash lc" "lc_sockid lb = lc_sockid lc"
    show "b = c"
      using sid [of b lb] sid [of c lc] d(9) [OF _ _ e] b c e by (cases "b = nx"; cases "c = nx") simp_all
  next
    fix b lb assume b: "(cl(nx \<mapsto> np)) b = Some lb"
    show "client_ok L ks lb" using d(10) new b by (cases "b = nx") auto
    show "b < Suc nx" using d(5) [of b lb] b by (cases "b = nx") auto
  qed (use n d(1-4) in auto)
qed

lemma cli_ok_remove:
  assumes ok: "cli_ok L ks cl nx lcl rvl" and a: "cl a = Some lc"
  shows "cli_ok L ks (cl(a := None)) nx (ht_del (client_hash lc) a lcl) (ht_del (prename_hash (lc_prefix_name lc)) a rvl)"
proof -
  note d = cli_okD [OF ok]
  have l: "set (ht_del (client_hash lc) a lcl) = set lcl - {(client_hash lc, a)}"
    "set (ht_del (prename_hash (lc_prefix_name lc)) a rvl) = set rvl - {(prename_hash (lc_prefix_name lc), a)}"
    using d(1,2) by (simp_all add: set_ht_del distinct_map)
  have rest: "snd ` (set lcl - {(client_hash lc, a)}) = dom cl - {a}"
    "snd ` (set rvl - {(prename_hash (lc_prefix_name lc), a)}) = dom cl - {a}"
    using inj_on_image_set_diff [of snd "set lcl" "set lcl" "{(client_hash lc, a)}"]
      inj_on_image_set_diff [of snd "set rvl" "set rvl" "{(prename_hash (lc_prefix_name lc), a)}"]
      cli_ok_lcl [OF ok a] cli_ok_rev [OF ok a] d(1-4)
    by (simp_all add: distinct_map)
  have dom: "dom (cl(a := None)) = dom cl - {a}" by auto
  have old: "cl b = Some lb" if "(cl(a := None)) b = Some lb" for b lb using that by (simp split: if_splits)
  show ?thesis
    unfolding cli_ok_def l rest dom
  proof (intro conjI allI impI)
    fix h b lb assume "(h, b) \<in> set lcl - {(client_hash lc, a)}" "(cl(a := None)) b = Some lb"
    then show "h = client_hash lb" using d(6) old by blast
  next
    fix h b lb assume "(h, b) \<in> set rvl - {(prename_hash (lc_prefix_name lc), a)}" "(cl(a := None)) b = Some lb"
    then show "h = prename_hash (lc_prefix_name lb)" using d(7) old by blast
  next
    fix b c lb lc assume "(cl(a := None)) b = Some lb" "(cl(a := None)) c = Some lc"
      and e: "lc_prefix_name lb = lc_prefix_name lc"
    then show "b = c" by (intro d(8) [OF old old e])
  next
    fix b c lb lc assume "(cl(a := None)) b = Some lb" "(cl(a := None)) c = Some lc"
      and e: "client_hash lb = client_hash lc" "lc_sockid lb = lc_sockid lc"
    then show "b = c" by (intro d(9) [OF old old e])
  next
    fix b lb assume "(cl(a := None)) b = Some lb"
    then show "client_ok L ks lb" "b < nx" using d(10,5) old by blast+
  qed (use d(1,2) in \<open>simp_all add: distinct_map_ht_del\<close>)
qed

lemma dist_ok_remove: "dist_ok cl dist \<Longrightarrow> dist_ok (cl(a := None)) dist"
  by (auto simp: dist_ok_def split: if_splits)

section \<open>The lookups on a well-formed registry\<close>

named_theorems post_rules

lemma ht_lookup_exact:
  assumes "\<And>y. (h, y) \<in> set t \<Longrightarrow> m y = Inr (y = x)" and "(h, x) \<in> set t"
  shows "ht_lookup m h t = Inr (Some x)"
  using assms by (induction t) (auto split: if_splits)

lemma post_has_local_node [post_rules]:
  assumes "P (None, self)"
    and "\<And>a lc. clients self a = Some lc \<Longrightarrow> starts_with sockid (lc_sockid lc) \<Longrightarrow>
      (sockid_cookie_hash sockid cookie, a) \<in> set (lcl_cli_ht self) \<Longrightarrow>
      P (Some a, if update then touch_client self a else self)"
  shows "post (hashtable_has_local_node self sockid cookie update) P"
  unfolding hashtable_has_local_node_def post_simps
proof (rule post_ht_lookup)
  fix a assume "match_lcl_node_sockid self sockid a = Inr True" "(sockid_cookie_hash sockid cookie, a) \<in> set (lcl_cli_ht self)"
  then show "post (case Some a of None \<Rightarrow> Inr (None, self)
      | Some a \<Rightarrow> Inr (Some a, if update then touch_client self a else self)) P"
    using assms(2) [of a] by (auto simp: match_lcl_node_sockid_def rbind_eq_Inr get_client_def memcmp_eq_True split: option.splits)
qed (use assms(1) in simp)

lemma post_has_rev_local_node [post_rules]:
  assumes "(\<And>a lc. (prename_hash name, a) \<in> set (rev_lcl_cli_ht self) \<Longrightarrow> clients self a = Some lc \<Longrightarrow>
      \<not> starts_with name (lc_prefix_name lc)) \<Longrightarrow> P (None, self)"
    and "\<And>a lc. clients self a = Some lc \<Longrightarrow> starts_with name (lc_prefix_name lc) \<Longrightarrow>
      (prename_hash name, a) \<in> set (rev_lcl_cli_ht self) \<Longrightarrow>
      P (Some a, if update then touch_client self a else self)"
  shows "post (hashtable_has_rev_local_node self name update) P"
  unfolding hashtable_has_rev_local_node_def post_simps
proof (rule post_ht_lookup)
  fix a assume "match_lcl_node_prename self name a = Inr True" "(prename_hash name, a) \<in> set (rev_lcl_cli_ht self)"
  then show "post (case Some a of None \<Rightarrow> Inr (None, self)
      | Some a \<Rightarrow> Inr (Some a, if update then touch_client self a else self)) P"
    using assms(2) [of a] by (auto simp: match_lcl_node_prename_def rbind_eq_Inr get_client_def split: option.splits)
next
  assume no: "\<And>y. (prename_hash name, y) \<in> set (rev_lcl_cli_ht self) \<Longrightarrow> match_lcl_node_prename self name y = Inr False"
  have "P (None, self)"
  proof (rule assms(1))
    fix a lc assume "(prename_hash name, a) \<in> set (rev_lcl_cli_ht self)" "clients self a = Some lc"
    then show "\<not> starts_with name (lc_prefix_name lc)"
      using no [of a] by (simp add: match_lcl_node_prename_def get_client_def)
  qed
  then show "post (case None of None \<Rightarrow> Inr (None, self)
      | Some a \<Rightarrow> Inr (Some a, if update then touch_client self a else self)) P" by simp
qed

lemma post_has_dist_node [post_rules]:
  assumes "(\<And>dc. (name_hash name, dc) \<in> set (dist_cli_ht self) \<Longrightarrow> \<not> starts_with name (dc_name dc)) \<Longrightarrow> P None"
    and "\<And>dc. (name_hash name, dc) \<in> set (dist_cli_ht self) \<Longrightarrow> starts_with name (dc_name dc) \<Longrightarrow> P (Some dc)"
  shows "post (hashtable_has_dist_node self name) P"
  unfolding hashtable_has_dist_node_def
  by (rule post_ht_lookup) (use assms in \<open>auto simp: match_dist_node_def\<close>)

lemma post_has_local_broker [post_rules]:
  assumes "(\<And>lb. (sockid_cookie_hash sockid (le64 cookie), lb) \<in> set (lcl_br_ht self) \<Longrightarrow>
      memcmp_eq (lb_sockid lb) sockid = Inr False) \<Longrightarrow> P (None, self)"
    and "\<And>lb. (sockid_cookie_hash sockid (le64 cookie), lb) \<in> set (lcl_br_ht self) \<Longrightarrow>
      starts_with sockid (lb_sockid lb) \<Longrightarrow>
      P (Some lb, if update then self\<lparr>lcl_br_ht := ht_replace (sockid_cookie_hash sockid (le64 cookie)) lb
        (lb\<lparr>lb_timeout := 0\<rparr>) (lcl_br_ht self)\<rparr> else self)"
  shows "post (hashtable_has_local_broker self sockid cookie update) P"
  unfolding hashtable_has_local_broker_def Let_def post_simps
  by (rule post_ht_lookup) (use assms in \<open>auto simp: match_lcl_broker_def memcmp_eq_True\<close>)

lemma post_lookup_subscribe_node [post_rules]:
  assumes "(\<And>sn. (name_hash sockid, sn) \<in> set (subscribe_ht self) \<Longrightarrow> memcmp_eq (sn_sockid sn) sockid = Inr False) \<Longrightarrow> P None"
    and "\<And>sn. (name_hash sockid, sn) \<in> set (subscribe_ht self) \<Longrightarrow> starts_with sockid (sn_sockid sn) \<Longrightarrow> P (Some sn)"
  shows "post (lookup_subscribe_node self sockid) P"
  unfolding lookup_subscribe_node_def
  by (rule post_ht_lookup) (use assms in \<open>auto simp: match_subscribe_node_def memcmp_eq_True\<close>)

text \<open>A registered client is found under its own keys, and nothing else is.\<close>

lemma unlink_local_exact:
  assumes inv: "reg_inv L self" and a: "clients self a = Some lc"
  shows "hashtable_unlink_local_node self (lc_sockid lc) (lc_cookie lc) =
    Inr (self\<lparr>lcl_cli_ht := ht_del (client_hash lc) a (lcl_cli_ht self)\<rparr>)"
proof -
  have ok: "cli_ok L (keys self) (clients self) (next_client self) (lcl_cli_ht self) (rev_lcl_cli_ht self)"
    using inv by (simp add: reg_inv_def)
  have len: "length (lc_sockid lb) = L" if "clients self b = Some lb" for b lb
    using cli_okD(10) [OF ok that] by (simp add: client_ok_def)
  have "match_lcl_node_sockid self (lc_sockid lc) b = Inr (b = a)"
    if h: "(client_hash lc, b) \<in> set (lcl_cli_ht self)" for b
  proof -
    obtain lb where b: "clients self b = Some lb" "client_hash lc = client_hash lb"
      using cli_ok_lcl_dom [OF ok h] by auto
    have "b = a \<longleftrightarrow> lc_sockid lb = lc_sockid lc"
      using cli_okD(9) [OF ok b(1) a] b a by auto
    then show ?thesis using b len [OF b(1)] len [OF a]
      by (simp add: match_lcl_node_sockid_def get_client_def memcmp_eq_len)
  qed
  then have "ht_lookup (match_lcl_node_sockid self (lc_sockid lc)) (client_hash lc) (lcl_cli_ht self) = Inr (Some a)"
    by (rule ht_lookup_exact [OF _ cli_ok_lcl [OF ok a]])
  then show ?thesis by (simp add: hashtable_unlink_local_node_def Let_def client_hash_def)
qed

lemma rev_lookup_exact:
  assumes inv: "reg_inv L self" and cf: "clash_free self" and a: "clients self a = Some lc"
    and s: "clients s = clients self"
  shows "ht_lookup (match_lcl_node_prename s (lc_prefix_name lc)) (prename_hash (lc_prefix_name lc))
    (rev_lcl_cli_ht self) = Inr (Some a)"
proof -
  have ok: "cli_ok L (keys self) (clients self) (next_client self) (lcl_cli_ht self) (rev_lcl_cli_ht self)"
    using inv by (simp add: reg_inv_def)
  have "match_lcl_node_prename s (lc_prefix_name lc) b = Inr (b = a)"
    if h: "(prename_hash (lc_prefix_name lc), b) \<in> set (rev_lcl_cli_ht self)" for b
  proof -
    obtain lb where b: "clients self b = Some lb" "prename_hash (lc_prefix_name lc) = prename_hash (lc_prefix_name lb)"
      using cli_ok_rev_dom [OF ok h] by auto
    have "b = a \<longleftrightarrow> starts_with (lc_prefix_name lc) (lc_prefix_name lb)"
      using clash_freeD [OF cf a b(1,2)] b(1) a unfolding starts_with_prefix by auto
    then show ?thesis using b s by (simp add: match_lcl_node_prename_def get_client_def)
  qed
  then show ?thesis by (rule ht_lookup_exact [OF _ cli_ok_rev [OF ok a]])
qed

lemma unlink_rev_exact:
  assumes "reg_inv L self" "clash_free self" "clients self a = Some lc"
    and "clients s = clients self" "rev_lcl_cli_ht s = rev_lcl_cli_ht self"
  shows "hashtable_unlink_rev_local_node s (lc_prefix_name lc) =
    Inr (s\<lparr>rev_lcl_cli_ht := ht_del (prename_hash (lc_prefix_name lc)) a (rev_lcl_cli_ht self)\<rparr>)"
  using rev_lookup_exact [OF assms(1-4)] assms(5) by (simp add: hashtable_unlink_rev_local_node_def)

text \<open>Unlinking a client from both tables and freeing it.\<close>

definition drop_client :: "dd_broker \<Rightarrow> nat \<Rightarrow> local_client \<Rightarrow> dd_broker" where
  "drop_client self a lc =
     self\<lparr>lcl_cli_ht := ht_del (client_hash lc) a (lcl_cli_ht self),
          rev_lcl_cli_ht := ht_del (prename_hash (lc_prefix_name lc)) a (rev_lcl_cli_ht self),
          clients := (clients self)(a := None)\<rparr>"

lemma reg_inv_drop_client:
  "reg_inv L self \<Longrightarrow> clients self a = Some lc \<Longrightarrow> reg_inv L (drop_client self a lc)"
  by (simp add: reg_inv_def drop_client_def cli_ok_remove dist_ok_remove)

lemma unlink_both:
  assumes "reg_inv L self" "clash_free self" "clients self a = Some lc"
  shows "rbind (hashtable_unlink_local_node self (lc_sockid lc) (lc_cookie lc)) (\<lambda>self.
      rbind (hashtable_unlink_rev_local_node self (lc_prefix_name lc)) f) =
    f (self\<lparr>lcl_cli_ht := ht_del (client_hash lc) a (lcl_cli_ht self),
            rev_lcl_cli_ht := ht_del (prename_hash (lc_prefix_name lc)) a (rev_lcl_cli_ht self)\<rparr>)"
proof -
  let ?s = "self\<lparr>lcl_cli_ht := ht_del (client_hash lc) a (lcl_cli_ht self)\<rparr>"
  have "hashtable_unlink_rev_local_node ?s (lc_prefix_name lc) =
      Inr (?s\<lparr>rev_lcl_cli_ht := ht_del (prename_hash (lc_prefix_name lc)) a (rev_lcl_cli_ht self)\<rparr>)"
    by (rule unlink_rev_exact [OF assms]) simp_all
  then show ?thesis by (simp add: unlink_local_exact [OF assms(1,3)])
qed

section \<open>The other tables\<close>

lemma dist_ok_del: "dist_ok cl dist \<Longrightarrow> dist_ok cl (ht_del h dc dist)"
  using set_ht_del_subset [of h dc dist] by (auto simp: dist_ok_def distinct_map_ht_del)

lemma dist_ok_add:
  "dist_ok cl dist \<Longrightarrow> (\<And>h dc. (h, dc) \<in> set dist \<Longrightarrow> dc_name dc \<noteq> dc_name new) \<Longrightarrow>
   (\<And>a lc. cl a = Some lc \<Longrightarrow> lc_prefix_name lc \<noteq> dc_name new) \<Longrightarrow>
   dist_ok cl (ht_add X (name_hash (dc_name new)) new dist)"
  unfolding dist_ok_def distinct_map_ht_add set_ht_add by (fastforce simp: image_iff)

lemma brs_ok_del: "brs_ok L ks brs \<Longrightarrow> brs_ok L ks (ht_del h lb brs)"
  using set_ht_del_subset [of h lb brs] by (auto simp: brs_ok_def distinct_map_ht_del)

lemma ht_replace_absent: "(h, x) \<notin> set t \<Longrightarrow> ht_replace h x y t = t"
  by (induction t) auto

lemma brs_ok_replace:
  assumes brs: "brs_ok L ks brs" and t: "0 \<le> t" "t \<le> 3"
  shows "brs_ok L ks (ht_replace h lb (lb\<lparr>lb_timeout := t\<rparr>) brs)"
proof (cases "(h, lb) \<in> set brs")
  case True
  have "map (\<lambda>(h, lb). lb_sockid lb) (ht_replace h lb (lb\<lparr>lb_timeout := t\<rparr>) brs) = map (\<lambda>(h, lb). lb_sockid lb) brs"
    by (rule map_ht_replace) simp
  moreover have "lb_cookie lb = br_cookie ks" "h = sockid_cookie_hash (lb_sockid lb) (le64 (br_cookie ks))"
      "length (lb_sockid lb) = L"
    using brs True unfolding brs_ok_def by metis+
  ultimately show ?thesis
    using brs t True set_ht_replace [of h lb "lb\<lparr>lb_timeout := t\<rparr>" brs] unfolding brs_ok_def
    by (auto dest!: subsetD)
qed (simp add: ht_replace_absent brs)

lemma subs_ok_del: "subs_ok L subs \<Longrightarrow> subs_ok L (ht_del h sn subs)"
  using set_ht_del_subset [of h sn subs] by (auto simp: subs_ok_def distinct_map_ht_del)

lemma reg_inv_subs_del:
  "reg_inv L self \<Longrightarrow> reg_inv L (self\<lparr>topics_trie := t, subscribe_ht := ht_del h sn (subscribe_ht self)\<rparr>)"
  "reg_inv L self \<Longrightarrow> reg_inv L (self\<lparr>subscribe_ht := ht_del h sn (subscribe_ht self)\<rparr>)"
  by (simp_all add: reg_inv_def subs_ok_del)

lemma post_remove_subscriptions [post_rules]:
  assumes "reg_inv L self" and "\<And>n s. reg_inv L s \<Longrightarrow> clients s = clients self \<Longrightarrow> P (n, s)"
  shows "post (remove_subscriptions self sockid) P"
  unfolding remove_subscriptions_def post_simps
  by (rule post_lookup_subscribe_node)
    (auto intro!: postI assms reg_inv_subs_del)

lemma post_remove_subscription [post_rules]:
  assumes "reg_inv L self" and "\<And>n s. reg_inv L s \<Longrightarrow> clients s = clients self \<Longrightarrow> P (n, s)"
  shows "post (remove_subscription self sockid topic) P"
  unfolding remove_subscription_def post_simps
  by (rule post_lookup_subscribe_node)
    (auto intro!: postI assms reg_inv_subs_del)

lemma reg_inv_subs_add:
  assumes inv: "reg_inv L self" and len: "length sockid = L"
    and new: "\<And>sn. (name_hash sockid, sn) \<in> set (subscribe_ht self) \<Longrightarrow> memcmp_eq (sn_sockid sn) sockid = Inr False"
  shows "reg_inv L (self\<lparr>subscribe_ht := ht_add X (name_hash sockid) \<lparr>sn_topics = [topic], sn_sockid = sockid\<rparr> (subscribe_ht self)\<rparr>)"
proof -
  have "sn_sockid sn \<noteq> sockid" if "(h, sn) \<in> set (subscribe_ht self)" for h sn
    using that inv new [of sn] len memcmp_eq_len [of "sn_sockid sn" sockid]
    by (auto simp: reg_inv_def subs_ok_def)
  then have "sockid \<notin> (\<lambda>(h, sn). sn_sockid sn) ` set (subscribe_ht self)" by auto
  then show ?thesis using inv len
    by (simp add: reg_inv_def subs_ok_def distinct_map_ht_add)
qed

lemma reg_inv_subs_append:
  assumes inv: "reg_inv L self" and sn: "(h, sn) \<in> set (subscribe_ht self)" and new: "topic \<notin> set (sn_topics sn)"
  shows "reg_inv L (self\<lparr>subscribe_ht := ht_replace h sn (sn\<lparr>sn_topics := sn_topics sn @ [topic]\<rparr>) (subscribe_ht self)\<rparr>)"
proof -
  let ?t = "ht_replace h sn (sn\<lparr>sn_topics := sn_topics sn @ [topic]\<rparr>) (subscribe_ht self)"
  have "map (\<lambda>(h, sn). sn_sockid sn) ?t = map (\<lambda>(h, sn). sn_sockid sn) (subscribe_ht self)"
    by (rule map_ht_replace) simp
  then have "subs_ok L ?t"
    using inv sn new set_ht_replace [of h sn "sn\<lparr>sn_topics := sn_topics sn @ [topic]\<rparr>" "subscribe_ht self"]
    unfolding subs_ok_def reg_inv_def by (auto dest!: subsetD)
  then show ?thesis using inv by (simp add: reg_inv_def)
qed

lemma post_insert_subscription [post_rules]:
  assumes inv: "reg_inv L self" "length sockid = L"
    and "\<And>n s. reg_inv L s \<Longrightarrow> clients s = clients self \<Longrightarrow> topics_trie s = topics_trie self \<Longrightarrow> P (n, s)"
  shows "post (insert_subscription X self sockid topic) P"
  unfolding insert_subscription_def post_simps
proof (rule post_lookup_subscribe_node)
  fix sn assume "(name_hash sockid, sn) \<in> set (subscribe_ht self)"
  then show "post (case Some sn of None \<Rightarrow> Inr (2, self\<lparr>subscribe_ht := ht_add X (name_hash sockid)
                \<lparr>sn_topics = [topic], sn_sockid = sockid\<rparr> (subscribe_ht self)\<rparr>)
    | Some sn \<Rightarrow> if topic \<in> set (sn_topics sn) then Inr (0, self)
         else Inr (1, self\<lparr>subscribe_ht :=
                ht_replace (name_hash sockid) sn (sn\<lparr>sn_topics := sn_topics sn @ [topic]\<rparr>) (subscribe_ht self)\<rparr>)) P"
    using reg_inv_subs_append [OF inv(1)] assms by auto
qed (use reg_inv_subs_add [OF inv] assms in auto)

end
