(* ===== verification/BrokerInv.thy ===== *)
theory BrokerInv
  imports TableLemmas
begin

text \<open>
  Invariants of a running broker. The locale \<open>table_invariant\<close> is what a property of the tables
  has to satisfy for every message handler and timer to keep it; the registry invariant is one, and
  registering (\<open>CHALLOK\<close>) keeps it as well, so that it holds in every state a broker reaches.
\<close>

section \<open>Invariants of the tables\<close>

text \<open>
  What the handlers need of a property of the tables to keep it: it depends on the tables only
  (\<open>registry\<close>), and the operations of \<open>htable.c\<close> keep it where the handlers call them. Every
  handler but the one for \<open>CHALLOK\<close>, which registers, then keeps it.
\<close>

definition registry :: "dd_broker \<Rightarrow> ddbrokerkeys \<times> (nat \<Rightarrow> local_client option) \<times> nat \<times> nat ht \<times> nat ht \<times>
    dist_client ht \<times> local_broker ht \<times> subscribe_node ht" where
  "registry self = (keys self, clients self, next_client self, lcl_cli_ht self, rev_lcl_cli_ht self,
     dist_cli_ht self, lcl_br_ht self, subscribe_ht self)"

lemma registry_emit [simp]: "registry (emit e self) = registry self"
  by (simp add: registry_def)

lemma registry_fields [simp]:
  "registry (self\<lparr>state := st\<rparr>) = registry self" "registry (self\<lparr>timeout := t\<rparr>) = registry self"
  "registry (self\<lparr>nonce := n\<rparr>) = registry self" "registry (self\<lparr>broker_id := bi\<rparr>) = registry self"
  "registry (self\<lparr>reg_loop := i\<rparr>) = registry self" "registry (self\<lparr>heartbeat_loop := i\<rparr>) = registry self"
  "registry (self\<lparr>topics_trie := trie\<rparr>) = registry self" "registry (self\<lparr>dsock := b\<rparr>) = registry self"
  "registry (self\<lparr>timers := ts\<rparr>) = registry self" "registry (self\<lparr>timer_count := n'\<rparr>) = registry self"
  "registry (self\<lparr>pub_connect := pc, sub_connect := sc, pubN := b1, subN := b2\<rparr>) = registry self"
  "registry (zloop_timer_end i self) = registry self" "registry (snd (zloop_timer X d t' self)) = registry self"
  by (simp_all add: registry_def zloop_timer_end_def zloop_timer_def Let_def)

lemma registry_zloop_timer: "zloop_timer X d t self = (i, s) \<Longrightarrow> registry s = registry self"
  by (metis registry_fields(13) snd_conv)

lemma registry_send_if_open [simp]: "registry (send_if_open s fs self) = registry self"
  by (simp add: send_if_open_def)

lemma free_client_emit: "free_client (emit e s) a = emit e (free_client s a)"
  by (simp add: free_client_def emit_def)

locale handler_invariant =
  fixes I :: "dd_broker \<Rightarrow> bool"
    and src_ok :: "bytes \<Rightarrow> bool"
  assumes I_emit [simp, intro]: "I self \<Longrightarrow> I (emit e self)"
    and I_nonce: "I self \<Longrightarrow> I (self\<lparr>nonce := n\<rparr>)"
    and I_broker_id: "I self \<Longrightarrow> I (self\<lparr>broker_id := bi\<rparr>)"
    and I_trie: "I self \<Longrightarrow> I (self\<lparr>topics_trie := trie\<rparr>)"
    and h_tick: "I self \<Longrightarrow> clients self a = Some lc \<Longrightarrow> lc_timeout lc < 3 \<Longrightarrow>
      I (self\<lparr>clients := (clients self)(a \<mapsto> lc\<lparr>lc_timeout := lc_timeout lc + 1\<rparr>)\<rparr>)"
    and h_touch: "I self \<Longrightarrow> src_ok sockid \<Longrightarrow> clients self a = Some lc \<Longrightarrow> starts_with sockid (lc_sockid lc) \<Longrightarrow>
      I (touch_client self a)"
    and br_tick: "I self \<Longrightarrow> lb_timeout lb < 3 \<Longrightarrow>
      I (self\<lparr>lcl_br_ht := ht_replace h lb (lb\<lparr>lb_timeout := lb_timeout lb + 1\<rparr>) (lcl_br_ht self)\<rparr>)"
    and br_touch: "I self \<Longrightarrow>
      I (self\<lparr>lcl_br_ht := ht_replace h lb (lb\<lparr>lb_timeout := 0\<rparr>) (lcl_br_ht self)\<rparr>)"
    and h_br_del: "I self \<Longrightarrow> I (self\<lparr>lcl_br_ht := ht_del h lb (lcl_br_ht self)\<rparr>)"
    and h_dist_del: "I self \<Longrightarrow> I (self\<lparr>dist_cli_ht := ht_del h dc (dist_cli_ht self)\<rparr>)"
    and h_insert_dist: "I self \<Longrightarrow>
      (\<And>a lc. (prename_hash name, a) \<in> set (rev_lcl_cli_ht self) \<Longrightarrow> clients self a = Some lc \<Longrightarrow>
        \<not> starts_with name (lc_prefix_name lc)) \<Longrightarrow>
      (\<And>dc. (name_hash name, dc) \<in> set (dist_cli_ht self) \<Longrightarrow> \<not> starts_with name (dc_name dc)) \<Longrightarrow>
      I (hashtable_insert_dist_node X self name sockid dist)"
    and h_drop: "I s \<Longrightarrow> clients s a = Some lc \<Longrightarrow>
      post (hashtable_unlink_local_node s (lc_sockid lc) (lc_cookie lc)) (\<lambda>s.
      post (hashtable_unlink_rev_local_node s (lc_prefix_name lc)) (\<lambda>s. I (free_client s a)))"
    and h_remove_subs: "I self \<Longrightarrow> post (remove_subscriptions self sockid) (\<lambda>(n, s). I s \<and> clients s = clients self)"
    and h_remove_sub: "I self \<Longrightarrow> post (remove_subscription self sockid topic) (\<lambda>(n, s). I s)"
    and h_insert_sub: "I self \<Longrightarrow> src_ok sockid \<Longrightarrow> post (insert_subscription X self sockid topic) (\<lambda>(n, s). I s)"
begin

lemma I_send_if_open: "I self \<Longrightarrow> I (send_if_open sk fs self)"
  by (simp add: send_if_open_def)

lemmas I_fields = I_nonce I_broker_id I_trie I_send_if_open

lemma I_has_local: "I self \<Longrightarrow> src_ok sockid \<Longrightarrow> P (None, self) \<Longrightarrow> (\<And>a s. I s \<Longrightarrow> P (Some a, s)) \<Longrightarrow>
  post (hashtable_has_local_node self sockid cookie True) P"
  by (rule post_has_local_node) (auto intro: h_touch)

lemma I_sends [intro]:
  "I self \<Longrightarrow> post (add_cli_up self name dist) I"
  "I self \<Longrightarrow> post (del_cli_up self name) I"
  "I self \<Longrightarrow> post (remote_reg_failed self sockid name) I"
  "I self \<Longrightarrow> post (forward_locally self sockid src msg) I"
  "I self \<Longrightarrow> post (forward_down self src dst sockid msg) I"
  "I self \<Longrightarrow> post (forward_up self src dst msg) I"
  "I self \<Longrightarrow> post (dest_invalid_rsock self sockid src dst) I"
  "I self \<Longrightarrow> post (dest_invalid_dsock self src dst) I"
  by (simp_all add: add_cli_up_def del_cli_up_def remote_reg_failed_def forward_locally_def forward_down_def
      forward_up_def dest_invalid_rsock_def dest_invalid_dsock_def)

lemma I_remove_subs: "I self \<Longrightarrow> (\<And>n s. I s \<Longrightarrow> clients s = clients self \<Longrightarrow> P (n, s)) \<Longrightarrow>
  post (remove_subscriptions self sockid) P"
  by (rule post_mono [OF h_remove_subs]) auto

lemma I_remove_sub: "I self \<Longrightarrow> (\<And>n s. I s \<Longrightarrow> P (n, s)) \<Longrightarrow> post (remove_subscription self sockid topic) P"
  by (rule post_mono [OF h_remove_sub]) auto

lemma I_insert_sub: "I self \<Longrightarrow> src_ok sockid \<Longrightarrow> (\<And>n s. I s \<Longrightarrow> P (n, s)) \<Longrightarrow>
  post (insert_subscription X self sockid topic) P"
  by (rule post_mono [OF h_insert_sub]) auto

lemma I_del_cli_up: "I self \<Longrightarrow> (\<And>s. I s \<Longrightarrow> clients s = clients self \<Longrightarrow> P s) \<Longrightarrow> post (del_cli_up self name) P"
  by (auto simp: del_cli_up_def)

lemma I_unreg_cli: "I self \<Longrightarrow> post (s_cb_unreg_cli self sockid cookie) I"
  unfolding s_cb_unreg_cli_def post_simps
  by (rule post_has_local_node) (auto intro!: I_del_cli_up I_remove_subs h_drop)

lemma I_remove_dist: "I self \<Longrightarrow> post (hashtable_remove_dist_node self name) I"
  unfolding hashtable_remove_dist_node_def post_simps
  by (rule post_has_dist_node) (auto intro: h_dist_del)

lemma I_regfail: "I self \<Longrightarrow> post (high_error_regfail self msg) I"
proof -
  assume I: "I self"
  have drop': "post (hashtable_unlink_local_node s (lc_sockid lc) (lc_cookie lc)) (\<lambda>s.
      post (hashtable_unlink_rev_local_node s (lc_prefix_name lc)) (\<lambda>s.
      sock_open s Rsock \<longrightarrow> I (free_client (emit e s) a)))" if "I s" "clients s a = Some lc" for s a lc e
    by (rule post_mono [OF h_drop [OF that]], erule post_mono) (simp add: free_client_emit)
  show ?thesis
    unfolding high_error_regfail_def
    by (auto intro!: post_has_dist_node post_has_rev_local_node I_remove_subs drop' I_remove_dist
      simp: I remote_reg_failed_def split: prod.split)
qed

lemma I_nodst: "I self \<Longrightarrow> post (high_error_nodst self msg) I"
  unfolding high_error_nodst_def
  by (auto intro!: post_has_dist_node post_has_rev_local_node
      simp: dest_invalid_rsock_def post_iff [of "after_char _ _"] split: prod.split)

lemma I_high_error: "I self \<Longrightarrow> post (s_cb_high_error self msg) I"
  unfolding s_cb_high_error_def
  by (auto intro!: I_nodst I_regfail simp: post_iff [of "rd32 _"] split: prod.split option.split)

lemma I_challenges:
  "I self \<Longrightarrow> post (s_cb_addbr X self sockid msg) I"
  "I self \<Longrightarrow> post (s_cb_addlcl X self sockid msg) I"
  "I self \<Longrightarrow> post (s_cb_chall X self msg) I"
  unfolding s_cb_addbr_def s_cb_addlcl_def s_cb_chall_def
  by (auto simp: Let_def I_fields split: prod.split option.split)

lemma I_adddcl: "I self \<Longrightarrow> post (s_cb_adddcl X self sockid cookie_frame msg) I"
  unfolding s_cb_adddcl_def
  by (auto simp: remote_reg_failed_def post_iff [of "rd64 _"] post_iff [of "rd32 _"] split: prod.split
        intro!: post_has_local_broker post_has_rev_local_node post_has_dist_node I_sends(1) h_insert_dist)

lemma I_unreg_dist_cli: "I self \<Longrightarrow> post (s_cb_unreg_dist_cli self sockid cookie_frame msg) I"
  unfolding s_cb_unreg_dist_cli_def
  by (auto simp: post_iff [of "rd64 _"] split: prod.split
      intro!: post_has_local_broker post_has_dist_node post_mono [OF I_remove_dist] I_sends(2))

lemma I_forward_dsock: "I self \<Longrightarrow> post (s_cb_forward_dsock self msg) I"
  unfolding s_cb_forward_dsock_def Let_def
  by (auto intro!: post_has_rev_local_node post_has_dist_node I_sends
      simp: post_iff [of "after_char _ _"] forward_locally_def split: prod.split)

lemma I_forward_rsock: "I self \<Longrightarrow> post (s_cb_forward_rsock self sockid cookie msg) I"
  unfolding s_cb_forward_rsock_def Let_def
  by (auto intro!: post_has_local_broker post_has_rev_local_node post_has_dist_node br_touch I_sends
      simp: post_iff [of "after_char _ _"] post_iff [of "rd64 _"] forward_locally_def split: prod.split)

lemma I_nodst_dsock: "I self \<Longrightarrow> post (s_cb_nodst_dsock self msg) I"
  unfolding s_cb_nodst_dsock_def by (auto intro!: post_has_rev_local_node split: prod.split)

lemma I_send: "I self \<Longrightarrow> src_ok sockid \<Longrightarrow> post (s_cb_send self sockid cookie msg) I"
  unfolding s_cb_send_def Let_def
  by (auto intro!: I_has_local post_has_rev_local_node post_has_dist_node I_sends
      simp: post_iff [of "after_char _ _"] split: prod.split)

lemma I_sub: "I self \<Longrightarrow> src_ok sockid \<Longrightarrow> post (s_cb_sub X self sockid cookie msg) I"
  unfolding s_cb_sub_def Let_def
  by (auto intro!: I_has_local I_insert_sub I_fields
      simp: post_iff [of "new_scope _ _"] post_iff [of "nn_trie_subscribe _ _ _"] split: prod.split)

lemma I_unsub: "I self \<Longrightarrow> src_ok sockid \<Longrightarrow> post (s_cb_unsub self sockid cookie msg) I"
  unfolding s_cb_unsub_def Let_def
  by (auto intro!: I_has_local I_remove_sub I_fields
      simp: post_iff [of "new_scope _ _"] split: prod.split)

lemma I_publish: "I self \<Longrightarrow> (\<And>s. I s \<Longrightarrow> P s) \<Longrightarrow> post (publish s pubtopic name ident msg self) P"
  by (auto simp: publish_def)

lemma I_send_pubs: "I self \<Longrightarrow> (\<And>s. I s \<Longrightarrow> P s) \<Longrightarrow> post (send_pubs pub name topic msg self) P"
  unfolding send_pubs_def by (rule post_mono [OF post_rfold [where I = I]]) auto

lemma I_pub: "I self \<Longrightarrow> src_ok sockid \<Longrightarrow> post (s_cb_pub self sockid cookie msg) I"
  unfolding s_cb_pub_def Let_def
  by (auto intro!: I_has_local I_publish I_send_pubs
      simp: post_iff [of "nn_trie_tree _ _"] split: prod.split)

lemma I_deliver_pub: "I self \<Longrightarrow> (\<And>s. I s \<Longrightarrow> P s) \<Longrightarrow> post (deliver_pub pubtopic name msg pub self) P"
  unfolding deliver_pub_def
  by (auto intro!: I_send_pubs simp: post_iff [of "after_char _ _"] split: option.split)

lemma I_subN: "I self \<Longrightarrow> post (s_on_subN_msg self msg) I"
  unfolding s_on_subN_msg_def
  by (auto intro!: I_deliver_pub I_publish simp: post_iff [of "nn_trie_tree _ _"] split: prod.split)

lemma I_subS: "I self \<Longrightarrow> post (s_on_subS_msg self msg) I"
  unfolding s_on_subS_msg_def
  by (auto intro!: I_deliver_pub I_publish simp: post_iff [of "nn_trie_tree _ _"] split: prod.split)

lemma I_pubNS:
  "I self \<Longrightarrow> post (s_on_pubN_msg self msg) I"
  "I self \<Longrightarrow> post (s_on_pubS_msg self msg) I"
  unfolding s_on_pubN_msg_def s_on_pubS_msg_def by (auto intro!: I_fields split: prod.split)

lemma I_ping: "I self \<Longrightarrow> src_ok sockid \<Longrightarrow> post (s_cb_ping self sockid cookie) I"
  unfolding s_cb_ping_def
  by (auto intro!: I_has_local post_has_local_broker br_touch simp: post_iff [of "rd64 _"])

lemma I_delete_dist: "I self \<Longrightarrow> post (delete_dist_clients self br) I"
  unfolding delete_dist_clients_def
  by (rule post_rfold) (auto intro!: post_mono [OF I_sends(2)] h_dist_del)

lemma I_announce: "I self \<Longrightarrow> (\<And>s. I s \<Longrightarrow> P s) \<Longrightarrow> post (announce_clients self) P"
  unfolding announce_clients_def post_simps
  by (rule post_mono [OF post_rfold [where I = I]])
    (auto intro!: I_sends post_mono [OF post_rfold [where I = I]])

lemma I_check_cli: "I self \<Longrightarrow> post (s_check_cli_timeout self) I"
  unfolding s_check_cli_timeout_def
  by (rule post_rfold)
    (auto simp: check_client_def unreg_cli_def intro!: h_tick I_unreg_cli)

lemma I_check_br: "I self \<Longrightarrow> post (s_check_br_timeout self) I"
  unfolding s_check_br_timeout_def
  by (rule post_rfold) (auto simp: check_broker_def intro!: br_tick post_mono [OF I_delete_dist] h_br_del)

lemma I_dealer_cmd: "I self \<Longrightarrow> cmd \<noteq> DD_CMD_REGOK \<Longrightarrow> post (dealer_cmd X self cmd msg) I"
  unfolding dealer_cmd_def by (auto intro!: I_forward_dsock I_challenges I_high_error)

lemma I_with_cookie: "I self \<Longrightarrow> (\<And>cookie m. post (f cookie m) I) \<Longrightarrow> post (with_cookie self msg f) I"
  by (auto simp: with_cookie_def split: prod.split option.split)

lemma I_router_cmd:
  "I self \<Longrightarrow> src_ok source \<Longrightarrow> cmd \<noteq> DD_CMD_CHALLOK \<Longrightarrow> post (router_cmd X self source cmd msg) I"
  unfolding router_cmd_def
  by (auto intro!: I_with_cookie I_send I_forward_rsock I_ping I_sub I_unsub I_pub I_challenges I_adddcl
      I_unreg_cli I_unreg_dist_cli)

lemma I_router:
  assumes "I self" "\<And>source proto cmd rest. msg = Some (source # proto # cmd # rest) \<Longrightarrow>
      src_ok source \<and> rd32 cmd \<noteq> Inr DD_CMD_CHALLOK"
  shows "post (s_on_router_msg X self msg) I"
  using assms by (auto simp: s_on_router_msg_def post_iff [of "rd32 _"]
      split: option.split list.split intro!: I_router_cmd)

end

text \<open>
  Properties of the tables alone. They also survive what concerns the connection to the higher broker,
  so that every message and timer but CHALLOK keeps them.
\<close>

locale table_invariant =
  fixes I :: "dd_broker \<Rightarrow> bool"
    and src_ok :: "bytes \<Rightarrow> bool"
  assumes same: "I self \<Longrightarrow> registry s = registry self \<Longrightarrow> I s"
    and tick: "I self \<Longrightarrow> clients self a = Some lc \<Longrightarrow> lc_timeout lc < 3 \<Longrightarrow>
      I (self\<lparr>clients := (clients self)(a \<mapsto> lc\<lparr>lc_timeout := lc_timeout lc + 1\<rparr>)\<rparr>)"
    and touch: "I self \<Longrightarrow> src_ok sockid \<Longrightarrow> clients self a = Some lc \<Longrightarrow> starts_with sockid (lc_sockid lc) \<Longrightarrow>
      I (touch_client self a)"
    and br_range: "I self \<Longrightarrow> (h, lb) \<in> set (lcl_br_ht self) \<Longrightarrow> 0 \<le> lb_timeout lb"
    and br_timeout: "I self \<Longrightarrow> 0 \<le> t \<Longrightarrow> t \<le> 3 \<Longrightarrow>
      I (self\<lparr>lcl_br_ht := ht_replace h lb (lb\<lparr>lb_timeout := t\<rparr>) (lcl_br_ht self)\<rparr>)"
    and br_del: "I self \<Longrightarrow> I (self\<lparr>lcl_br_ht := ht_del h lb (lcl_br_ht self)\<rparr>)"
    and dist_del: "I self \<Longrightarrow> I (self\<lparr>dist_cli_ht := ht_del h dc (dist_cli_ht self)\<rparr>)"
    and insert_dist: "I self \<Longrightarrow>
      (\<And>a lc. (prename_hash name, a) \<in> set (rev_lcl_cli_ht self) \<Longrightarrow> clients self a = Some lc \<Longrightarrow>
        \<not> starts_with name (lc_prefix_name lc)) \<Longrightarrow>
      (\<And>dc. (name_hash name, dc) \<in> set (dist_cli_ht self) \<Longrightarrow> \<not> starts_with name (dc_name dc)) \<Longrightarrow>
      I (hashtable_insert_dist_node X self name sockid dist)"
    and drop: "I s \<Longrightarrow> clients s a = Some lc \<Longrightarrow>
      post (hashtable_unlink_local_node s (lc_sockid lc) (lc_cookie lc)) (\<lambda>s.
      post (hashtable_unlink_rev_local_node s (lc_prefix_name lc)) (\<lambda>s. I (free_client s a)))"
    and remove_subs: "I self \<Longrightarrow> post (remove_subscriptions self sockid) (\<lambda>(n, s). I s \<and> clients s = clients self)"
    and remove_sub: "I self \<Longrightarrow> post (remove_subscription self sockid topic) (\<lambda>(n, s). I s)"
    and insert_sub: "I self \<Longrightarrow> src_ok sockid \<Longrightarrow> post (insert_subscription X self sockid topic) (\<lambda>(n, s). I s)"
begin

lemma same_fields:
  assumes "I self"
  shows "I (self\<lparr>state := st\<rparr>)" "I (self\<lparr>timeout := t\<rparr>)" "I (self\<lparr>nonce := n\<rparr>)" "I (self\<lparr>broker_id := bi\<rparr>)"
    "I (self\<lparr>reg_loop := i\<rparr>)" "I (self\<lparr>heartbeat_loop := i\<rparr>)" "I (self\<lparr>topics_trie := trie\<rparr>)"
    "I (self\<lparr>dsock := b\<rparr>)" "I (zloop_timer_end i self)" "I (snd (zloop_timer X d t' self))"
    "I (self\<lparr>pub_connect := pc, sub_connect := sc, pubN := b1, subN := b2\<rparr>)" "I (send_if_open sk fs self)"
  by (rule same [OF assms], simp)+

lemma I_timer: "zloop_timer X d t self = (i, s) \<Longrightarrow> I self \<Longrightarrow> I s"
  using same registry_zloop_timer by blast

end

sublocale table_invariant \<subseteq> handler_invariant I src_ok
proof unfold_locales
  show "I (emit e self)" if "I self" for self e
    by (rule same [OF that]) simp
  show "I (self\<lparr>nonce := n\<rparr>)" "I (self\<lparr>broker_id := bi\<rparr>)" "I (self\<lparr>topics_trie := trie\<rparr>)" if "I self" for self n bi trie
    by (rule same_fields [OF that])+
  show "I (self\<lparr>clients := (clients self)(a \<mapsto> lc\<lparr>lc_timeout := lc_timeout lc + 1\<rparr>)\<rparr>)"
    if "I self" "clients self a = Some lc" "lc_timeout lc < 3" for self a lc
    by (rule tick [OF that])
  show "I (touch_client self a)"
    if "I self" "src_ok sockid" "clients self a = Some lc" "starts_with sockid (lc_sockid lc)" for self sockid a lc
    by (rule touch [OF that])
  show "I (self\<lparr>lcl_br_ht := ht_replace h lb (lb\<lparr>lb_timeout := lb_timeout lb + 1\<rparr>) (lcl_br_ht self)\<rparr>)"
    if "I self" "lb_timeout lb < 3" for self h lb
  proof (cases "(h, lb) \<in> set (lcl_br_ht self)")
    case True
    show ?thesis by (rule br_timeout [OF that(1)]) (use br_range [OF that(1) True] that(2) in simp_all)
  qed (simp add: ht_replace_absent that(1))
qed (simp_all add: br_timeout br_del dist_del insert_dist drop remove_subs remove_sub insert_sub)

context table_invariant begin

lemma I_connect: "I self \<Longrightarrow> post (connect_pubsubN X self) I"
  unfolding connect_pubsubN_def Let_def
  by (auto intro!: same_fields simp: post_iff [of "pubsub_addresses _ _"])

lemma I_regok: "I self \<Longrightarrow> post (s_cb_regok X self msg) I"
  unfolding s_cb_regok_def Let_def
  by (auto intro!: I_announce I_connect same_fields elim!: I_timer split: prod.split)

lemma I_register: "I self \<Longrightarrow> post (s_register X created self) (\<lambda>(rc, s). I s)"
  unfolding s_register_def Let_def by (auto intro!: same_fields I_emit)

lemma I_heartbeat: "I self \<Longrightarrow> post (s_heartbeat X self) I"
  unfolding s_heartbeat_def Let_def by (auto intro!: same_fields elim!: I_timer split: prod.split)

lemma I_dealer_cmds: "I self \<Longrightarrow> post (dealer_cmd X self cmd msg) I"
  using I_regok [of self X msg] I_dealer_cmd [of self cmd X msg]
  by (cases "cmd = DD_CMD_REGOK") (simp_all add: dealer_cmd_def)

lemma I_dealer: "I self \<Longrightarrow> post (s_on_dealer_msg X self msg) I"
  unfolding s_on_dealer_msg_def Let_def
  by (auto intro!: I_dealer_cmds same_fields simp: post_iff [of "rd32 _"] split: option.split list.split)

lemma I_handle:
  assumes I: "I self"
    and src: "\<And>source proto cmd rest. inp = On_router (Some (source # proto # cmd # rest)) \<Longrightarrow>
      src_ok source \<and> rd32 cmd \<noteq> Inr DD_CMD_CHALLOK"
  shows "post (handle X inp self) I"
proof (cases inp)
  case (On_router m)
  then show ?thesis
    using src I by (auto simp: handle_def intro!: I_router)
next
  case (On_timer t created)
  then show ?thesis
    using I by (cases t) (auto simp: handle_def intro: post_mono [OF I_register] I_heartbeat I_check_cli I_check_br)
qed (auto simp: handle_def I intro!: I_dealer I_subN I_subS I_pubNS)

end

section \<open>The registry invariant\<close>

lemma clash_free_cong: "clients s = clients self \<Longrightarrow> clash_free s = clash_free self"
  by (simp add: clash_free_def)

lemma clash_free_subset:
  assumes "clash_free self" "\<And>a lc. clients s a = Some lc \<Longrightarrow>
    \<exists>lc'. clients self a = Some lc' \<and> lc_prefix_name lc' = lc_prefix_name lc"
  shows "clash_free s"
  unfolding clash_free_def
proof (intro allI impI)
  fix a b la lb
  assume c: "clients s a = Some la" "clients s b = Some lb" and e: "prename_hash (lc_prefix_name la) = prename_hash (lc_prefix_name lb)"
    "prefix (lc_prefix_name la) (lc_prefix_name lb)"
  obtain la' lb' where "clients self a = Some la'" "lc_prefix_name la' = lc_prefix_name la"
    "clients self b = Some lb'" "lc_prefix_name lb' = lc_prefix_name lb"
    using assms(2) c by metis
  then show "a = b" using clash_freeD [OF assms(1), of a la' b lb'] e by simp
qed

definition registry_ok :: "nat \<Rightarrow> dd_broker \<Rightarrow> bool" where
  "registry_ok L self \<longleftrightarrow> reg_inv L self \<and> clash_free self"

lemma reg_inv_registry: "reg_inv L self \<Longrightarrow> registry s = registry self \<Longrightarrow> reg_inv L s"
  by (simp add: registry_def reg_inv_def)

lemma post_conj: "post m P \<Longrightarrow> post m Q \<Longrightarrow> post m (\<lambda>x. P x \<and> Q x)"
  by (simp add: post_iff)

lemma reg_inv_insert_dist:
  assumes inv: "reg_inv L self"
    and no: "\<And>a lc. (prename_hash name, a) \<in> set (rev_lcl_cli_ht self) \<Longrightarrow> clients self a = Some lc \<Longrightarrow>
      \<not> starts_with name (lc_prefix_name lc)"
    "\<And>dc. (name_hash name, dc) \<in> set (dist_cli_ht self) \<Longrightarrow> \<not> starts_with name (dc_name dc)"
  shows "reg_inv L (hashtable_insert_dist_node X self name sockid dist)"
proof -
  have ok: "cli_ok L (keys self) (clients self) (next_client self) (lcl_cli_ht self) (rev_lcl_cli_ht self)"
    using inv by (simp add: reg_inv_def)
  let ?new = "\<lparr>dc_name = name, dc_broker = sockid, dc_distance = dist\<rparr>"
  have "lc_prefix_name lc \<noteq> dc_name ?new" if "clients self a = Some lc" for a lc
    using cli_ok_rev [OF ok that] no(1) [of a lc] that by auto
  moreover have "dc_name dc \<noteq> dc_name ?new" if "(h, dc) \<in> set (dist_cli_ht self)" for h dc
    using that no(2) [of dc] inv by (auto simp: reg_inv_def dist_ok_def)
  ultimately have "dist_ok (clients self) (ht_add X (name_hash (dc_name ?new)) ?new (dist_cli_ht self))"
    using inv by (intro dist_ok_add) (auto simp: reg_inv_def)
  then show ?thesis using inv by (simp add: reg_inv_def hashtable_insert_dist_node_def)
qed

lemma registry_ok_drop:
  assumes "registry_ok L s" "clients s a = Some lc"
  shows "post (hashtable_unlink_local_node s (lc_sockid lc) (lc_cookie lc)) (\<lambda>s.
      post (hashtable_unlink_rev_local_node s (lc_prefix_name lc)) (\<lambda>s. registry_ok L (free_client s a)))"
proof -
  have inv: "reg_inv L s" "clash_free s" using assms(1) by (simp_all add: registry_ok_def)
  let ?s = "s\<lparr>lcl_cli_ht := ht_del (client_hash lc) a (lcl_cli_ht s),
            rev_lcl_cli_ht := ht_del (prename_hash (lc_prefix_name lc)) a (rev_lcl_cli_ht s)\<rparr>"
  have f: "free_client ?s a = drop_client s a lc" by (simp add: free_client_def drop_client_def)
  have "registry_ok L (drop_client s a lc)"
    unfolding registry_ok_def
    by (intro conjI reg_inv_drop_client [OF inv(1) assms(2)] clash_free_subset [OF inv(2)])
      (simp add: drop_client_def split: if_splits)
  then have "registry_ok L (free_client ?s a)" unfolding f .
  then show ?thesis
    using unlink_both [OF inv assms(2), of Inr] by (auto simp: post_iff rbind_eq_Inr)
qed

interpretation reg: table_invariant "registry_ok L" "\<lambda>src. length src = L" for L
proof unfold_locales
  show "registry_ok L s" if "registry_ok L self" "registry s = registry self" for self s
    using that reg_inv_registry [of L self s] clash_free_cong [of s self]
    by (simp add: registry_ok_def registry_def)
  have timeout: "registry_ok L (self\<lparr>clients := (clients self)(a \<mapsto> lc\<lparr>lc_timeout := t\<rparr>)\<rparr>)"
    if "registry_ok L self" "clients self a = Some lc" "0 \<le> t" "t \<le> 3" for self a lc t
    unfolding registry_ok_def
  proof
    show "reg_inv L (self\<lparr>clients := (clients self)(a \<mapsto> lc\<lparr>lc_timeout := t\<rparr>)\<rparr>)"
      by (rule reg_inv_timeout) (use that in \<open>simp_all add: registry_ok_def\<close>)
    show "clash_free (self\<lparr>clients := (clients self)(a \<mapsto> lc\<lparr>lc_timeout := t\<rparr>)\<rparr>)"
      by (rule clash_free_subset [of self]) (use that in \<open>auto simp: registry_ok_def split: if_splits\<close>)
  qed
  show "registry_ok L (self\<lparr>clients := (clients self)(a \<mapsto> lc\<lparr>lc_timeout := lc_timeout lc + 1\<rparr>)\<rparr>)"
    if "registry_ok L self" "clients self a = Some lc" "lc_timeout lc < 3" for self a lc
  proof (rule timeout [OF that(1,2)])
    show "0 \<le> lc_timeout lc + 1"
      using that(1,2) cli_okD(10) [of L "keys self" "clients self" _ _ _ a lc]
      unfolding registry_ok_def reg_inv_def client_ok_def by fastforce
  qed (use that(3) in simp)
  show "registry_ok L (touch_client self a)"
    if "registry_ok L self" "clients self a = Some lc" for self a lc
    using timeout [OF that, of 0] that(2) by (simp add: touch_client_def)
  show "0 \<le> lb_timeout lb" if "registry_ok L self" "(h, lb) \<in> set (lcl_br_ht self)" for self h lb
    using that unfolding registry_ok_def reg_inv_def brs_ok_def by blast
  show "registry_ok L (self\<lparr>lcl_br_ht := ht_replace h lb (lb\<lparr>lb_timeout := t\<rparr>) (lcl_br_ht self)\<rparr>)"
    if "registry_ok L self" "0 \<le> t" "t \<le> 3" for self h lb t
    using that by (simp add: registry_ok_def reg_inv_def brs_ok_replace clash_free_def)
  show "registry_ok L (self\<lparr>lcl_br_ht := ht_del h lb (lcl_br_ht self)\<rparr>)" if "registry_ok L self" for self h lb
    using that by (simp add: registry_ok_def reg_inv_def brs_ok_del clash_free_def)
  show "registry_ok L (self\<lparr>dist_cli_ht := ht_del h dc (dist_cli_ht self)\<rparr>)" if "registry_ok L self" for self h dc
    using that by (simp add: registry_ok_def reg_inv_def dist_ok_del clash_free_def)
  show "registry_ok L (hashtable_insert_dist_node X self name sockid dist)"
    if "registry_ok L self"
      "\<And>a lc. (prename_hash name, a) \<in> set (rev_lcl_cli_ht self) \<Longrightarrow> clients self a = Some lc \<Longrightarrow>
        \<not> starts_with name (lc_prefix_name lc)"
      "\<And>dc. (name_hash name, dc) \<in> set (dist_cli_ht self) \<Longrightarrow> \<not> starts_with name (dc_name dc)"
    for self name X sockid dist
    using that reg_inv_insert_dist [of L self name X sockid dist]
    by (simp add: registry_ok_def clash_free_def hashtable_insert_dist_node_def)
  show "post (hashtable_unlink_local_node s (lc_sockid lc) (lc_cookie lc)) (\<lambda>s.
      post (hashtable_unlink_rev_local_node s (lc_prefix_name lc)) (\<lambda>s. registry_ok L (free_client s a)))"
    if "registry_ok L s" "clients s a = Some lc" for s a lc
    by (rule registry_ok_drop [OF that])
  show "post (remove_subscriptions self sockid) (\<lambda>(n, s). registry_ok L s \<and> clients s = clients self)"
    if "registry_ok L self" for self sockid
    using that by (auto simp: registry_ok_def clash_free_def intro!: post_remove_subscriptions [where L = L])
  show "post (remove_subscription self sockid topic) (\<lambda>(n, s). registry_ok L s)"
    if "registry_ok L self" for self sockid topic
    using that by (auto simp: registry_ok_def clash_free_def intro!: post_remove_subscription [where L = L])
  show "post (insert_subscription X self sockid topic) (\<lambda>(n, s). registry_ok L s)"
    if "registry_ok L self" "length sockid = L" for self sockid X topic
    using that by (auto simp: registry_ok_def clash_free_def intro!: post_insert_subscription [where L = L])
qed

subsection \<open>Registering\<close>

lemma reg_inv_insert_broker:
  assumes inv: "reg_inv L self" and len: "length sockid = L" and c: "cookie = br_cookie (keys self)"
    and new: "\<And>lb. (sockid_cookie_hash sockid (le64 cookie), lb) \<in> set (lcl_br_ht self) \<Longrightarrow>
      memcmp_eq (lb_sockid lb) sockid = Inr False"
  shows "reg_inv L (hashtable_insert_local_broker X self sockid cookie)"
proof -
  have brs: "brs_ok L (keys self) (lcl_br_ht self)" using inv by (simp add: reg_inv_def)
  have "lb_sockid lb \<noteq> sockid" if "(h, lb) \<in> set (lcl_br_ht self)" for h lb
  proof
    assume s: "lb_sockid lb = sockid"
    then have "h = sockid_cookie_hash sockid (le64 cookie)" using brs that c unfolding brs_ok_def by metis
    then show False using new [of lb] that s by (simp add: memcmp_eq_len)
  qed
  then have "sockid \<notin> (\<lambda>(h, lb). lb_sockid lb) ` set (lcl_br_ht self)" by auto
  then show ?thesis
    using inv brs len c by (auto simp: reg_inv_def hashtable_insert_local_broker_def brs_ok_def distinct_map_ht_add)
qed

lemma reg_inv_challok_broker:
  "reg_inv L self \<Longrightarrow> length sockid = L \<Longrightarrow> post (challok_broker X self sockid cookie) (reg_inv L)"
  unfolding challok_broker_def
  by (auto simp: Let_def intro!: post_has_local_broker reg_inv_insert_broker)

lemma post_insert_local_client:
  assumes inv: "reg_inv L self" and len: "length sockid = L"
    and ten: "map_of (tenantkeys (keys self)) h = Some ten" and name: "client_name \<noteq> ascii ''public''"
    and P: "P (- 1, self)" "\<And>s. reg_inv L s \<Longrightarrow> P (1, s)"
  shows "post (insert_local_client X self sockid ten client_name) P"
proof -
  define full where "full = dot_join (ten_name ten) client_name"
  define np where "np = \<lparr>lc_name = client_name, lc_prefix_name = full, lc_tenant = ten_name ten,
                lc_cookie = ten_cookie ten, lc_sockid = sockid, lc_timeout = 0\<rparr>"
  let ?s = "self\<lparr>clients := (clients self)(next_client self \<mapsto> np), next_client := Suc (next_client self),
      lcl_cli_ht := ht_add X (client_hash np) (next_client self) (lcl_cli_ht self),
      rev_lcl_cli_ht := ht_add X (prename_hash full) (next_client self) (rev_lcl_cli_ht self)\<rparr>"
  have ok: "cli_ok L (keys self) (clients self) (next_client self) (lcl_cli_ht self) (rev_lcl_cli_ht self)"
    using inv by (simp add: reg_inv_def)
  have ins: "reg_inv L ?s"
    if dist: "\<And>dc. (name_hash full, dc) \<in> set (dist_cli_ht self) \<Longrightarrow> \<not> starts_with full (dc_name dc)"
      and sid: "\<And>a. (client_hash np, a) \<in> set (lcl_cli_ht self) \<Longrightarrow> match_lcl_node_sockid self sockid a = Inr False"
      and nam: "\<And>a. (prename_hash full, a) \<in> set (rev_lcl_cli_ht self) \<Longrightarrow> match_lcl_node_prename self full a = Inr False"
      and fits: "length full < MAXTENANTNAME"
  proof -
    have new: "client_ok L (keys self) np"
      using ten name len fits by (auto simp: client_ok_def np_def full_def)
    have n: "lc_prefix_name lb \<noteq> lc_prefix_name np" if b: "clients self b = Some lb" for b lb
    proof
      assume e: "lc_prefix_name lb = lc_prefix_name np"
      then have "(prename_hash full, b) \<in> set (rev_lcl_cli_ht self)" using cli_ok_rev [OF ok b] by (simp add: np_def)
      then show False using nam [of b] e b by (simp add: match_lcl_node_prename_def get_client_def np_def)
    qed
    have s: "lc_sockid lb \<noteq> lc_sockid np" if b: "clients self b = Some lb" and e: "client_hash lb = client_hash np" for b lb
    proof
      assume "lc_sockid lb = lc_sockid np"
      then show False using cli_ok_lcl [OF ok b] sid [of b] e b
        by (simp add: match_lcl_node_sockid_def get_client_def np_def memcmp_eq_len)
    qed
    have "dc_name dc \<noteq> full" if "(h', dc) \<in> set (dist_cli_ht self)" for h' dc
      using that dist [of dc] inv by (auto simp: reg_inv_def dist_ok_def)
    then have "dist_ok ((clients self)(next_client self \<mapsto> np)) (dist_cli_ht self)"
      using inv by (auto simp: reg_inv_def dist_ok_def np_def split: if_splits)
    then show ?thesis
      using inv cli_ok_add [where X = X, OF ok new n s] by (simp add: reg_inv_def np_def)
  qed
  show ?thesis
  proof (cases "length full + 1 > MAXTENANTNAME")
    case True
    then show ?thesis by (simp add: insert_local_client_def Let_def full_def)
  next
    case False
    then have fits: "length full < MAXTENANTNAME" "snprintf MAXTENANTNAME full = full" by simp_all
    have "client_hash np = sockid_cookie_hash sockid (le64 (ten_cookie ten))" by (simp add: client_hash_def np_def)
    then show ?thesis
      unfolding insert_local_client_def Let_def full_def [symmetric] fits(2) np_def [symmetric]
      using False P ins fits(1)
      by (auto intro!: post_has_dist_node post_ht_lookup)
  qed
qed

lemma reg_inv_challok_client:
  "reg_inv L self \<Longrightarrow> length sockid = L \<Longrightarrow> map_of (tenantkeys (keys self)) h = Some ten \<Longrightarrow>
   post (challok_client X self sockid ten cookie client_name) (reg_inv L)"
  unfolding challok_client_def
  by (auto simp: Let_def remote_reg_failed_def add_cli_up_def intro!: post_insert_local_client)

lemma reg_inv_challok :
  "reg_inv L self \<Longrightarrow> length sockid = L \<Longrightarrow> post (s_cb_challok X self sockid msg) (reg_inv L)"
  unfolding s_cb_challok_def
  by (auto simp: post_iff [of "rd64 _"] split: prod.split option.split
      intro: reg_inv_challok_client reg_inv_challok_broker)


text \<open>The identities that the router socket gives to its peers all have one length.\<close>

definition input_ok :: "nat \<Rightarrow> input \<Rightarrow> bool" where
  "input_ok L inp = (case inp of On_router (Some (source # rest)) \<Rightarrow> length source = L | _ \<Rightarrow> True)"

lemma registry_step:
  assumes inv: "reg_inv L self" "clash_free self" and inp: "input_ok L inp"
    and h: "handle X inp self = Inr self'"
  shows "reg_inv L self'"
proof (cases "\<exists>source proto cmd rest. inp = On_router (Some (source # proto # cmd # rest)) \<and> rd32 cmd = Inr DD_CMD_CHALLOK")
  case True
  then obtain source proto cmd rest where i: "inp = On_router (Some (source # proto # cmd # rest))"
    "rd32 cmd = Inr DD_CMD_CHALLOK" by blast
  have len: "length source = L" using inp i by (simp add: input_ok_def)
  have "post (s_on_router_msg X self (Some (source # proto # cmd # rest))) (reg_inv L)"
    using i(2) inv(1) reg_inv_challok [OF inv(1) len, of X rest]
    by (auto simp: s_on_router_msg_def post_iff [of "rd32 proto"] router_cmd_def cmd_defs)
  then show ?thesis using h i by (simp add: handle_def)
next
  case False
  have "registry_ok L self" using inv by (simp add: registry_ok_def)
  then have "post (handle X inp self) (registry_ok L)"
    by (rule reg.I_handle) (use False inp in \<open>auto simp: input_ok_def\<close>)
  then show ?thesis using h by (simp add: registry_ok_def)
qed

lemma registry_run:
  "broker_run X clash_free self inps self' \<Longrightarrow> reg_inv L self \<Longrightarrow> \<forall>inp\<in>set inps. input_ok L inp \<Longrightarrow> reg_inv L self'"
  by (induction rule: broker_run.induct) (auto elim!: broker_stepE intro: registry_step)

text \<open>A broker starts with empty tables.\<close>

lemma actor_registry:
  "dd_broker_actor X n cf = Inr (Some self) \<Longrightarrow> \<exists>ks. registry self = registry (broker_fresh ks n cf)"
  by (auto simp: dd_broker_actor_def broker_actor_def start_pubsub_def zloop_timer_def emit_def Let_def rbind_eq_Inr
      registry_def split: if_splits option.splits)

lemma reg_inv_fresh:
  "registry s = registry (broker_fresh ks n cf) \<Longrightarrow> reg_inv L s"
  by (simp add: registry_def reg_inv_def broker_fresh_def cli_ok_def dist_ok_def brs_ok_def subs_ok_def)

lemma reg_inv_start: "dd_broker_actor X n cf = Inr (Some self) \<Longrightarrow> reg_inv L self"
  using actor_registry reg_inv_fresh by blast

lemma actor_empty:
  assumes "dd_broker_actor X n cf = Inr (Some self)"
  shows "clients self = (\<lambda>a. None)" "lcl_br_ht self = []" "dist_cli_ht self = []" "subscribe_ht self = []"
    "lcl_cli_ht self = []" "rev_lcl_cli_ht self = []"
  using actor_registry [OF assms] by (auto simp: registry_def broker_fresh_def)

text \<open>What is known of a broker that has just started.\<close>

lemma actor_start:
  assumes "dd_broker_actor X n cf = Inr (Some self)"
  shows "cf_keys cf = Some (keys self)" "rsock self" "pubS self" "subS self" "\<not> pubN self" "\<not> subN self"
    "dsock self = cf_dsock cf" "topics_trie self = nn_trie_init" "scope self = cf_scope cf" "nonce self = n"
    "dealer_connect self = cf_dealer_connect cf"
    "state self = (if cf_dealer_connect cf = None then DD_STATE_ROOT else DD_STATE_UNREG)"
  using assms
  by (auto simp: dd_broker_actor_def broker_actor_def broker_fresh_def start_pubsub_def zloop_timer_def emit_def Let_def
      rbind_eq_Inr split: if_splits option.splits)

end
