(* ===== verification/Examples.thy ===== *)
theory Examples
  imports BrokerInv
begin

text \<open>
  A concrete broker for the witnesses: two tenants and the public one, a library that places new
  nodes last and whose authenticated encryption appends a tag of the key, and the messages that register
  clients and a lower broker.
\<close>

definition ex_tag :: "bytes \<Rightarrow> bytes" where
  "ex_tag k = take MACBYTES (k @ replicate MACBYTES 0)"

definition ex_ext :: ext where
  "ex_ext =
     \<lparr>place = (\<lambda>hs h. length hs),
      box_easy = (\<lambda>k n m. m @ ex_tag k),
      box_open = (\<lambda>k n c. if MACBYTES \<le> length c \<and> drop (length c - MACBYTES) c = ex_tag k
        then Some (take (length c - MACBYTES) c) else None),
      zsock_endpoint = (\<lambda>s. if s = PubS then ascii ''tcp://h:2'' else ascii ''tcp://h:3''),
      timer_id = int, match_ipc = (\<lambda>a. None),
      match_tcp = (\<lambda>a. Some (take (length a - 4) a, drop (length a - 4) a)),
      match_scope = (\<lambda>s. if length (strtok slash s) = 3 then Some (strtok slash s) else None),
      connect_ok = (\<lambda>s a. True), attach_ok = (\<lambda>s a. True),
      file_exists = (\<lambda>p. False), chmod_ok = (\<lambda>p. True)\<rparr>"

definition ex_tenant :: "string \<Rightarrow> u64 \<Rightarrow> ddtenant" where
  "ex_tenant name cookie = \<lparr>ten_name = ascii name, ten_cookie = cookie, ten_boxk = [1]\<rparr>"

definition ex_keys :: ddbrokerkeys where
  "ex_keys =
     \<lparr>tenants = [ascii ''a'', ascii ''b'', ascii ''public''], ddboxk = [2],
      tenantkeys = [(ascii ''ha'', ex_tenant ''a'' 7), (ascii ''hb'', ex_tenant ''b'' 8),
        (ascii ''hp'', ex_tenant ''public'' 9)],
      br_hash = ascii ''hbr'', br_cookie = 5\<rparr>"

text \<open>The configuration of a root broker, and of one below a broker at \<open>up\<close>.\<close>

definition ex_setup :: broker_setup where
  "ex_setup =
     (let cf = dd_broker_add_router (ascii ''tcp://h:1001'') dd_broker_new;
          cf = snd (projr (dd_broker_set_scope ex_ext (ascii ''/1/2/3/'') cf))
      in snd (projr (dd_broker_set_keyfile (Some ex_keys) cf)))"

definition ex_setup_sub :: broker_setup where
  "ex_setup_sub = projr (dd_broker_set_dealer True (ascii ''tcp://up:5555'') ex_setup)"

definition ex_root :: dd_broker where
  "ex_root = the (projr (dd_broker_actor ex_ext (replicate NONCEBYTES 0) ex_setup))"

definition ex_sub :: dd_broker where
  "ex_sub = the (projr (dd_broker_actor ex_ext (replicate NONCEBYTES 0) ex_setup_sub))"

definition ex_sockid :: "u8 \<Rightarrow> bytes" where
  "ex_sockid i = [0, 0, 0, 0, i]"

definition ex_router :: "u8 \<Rightarrow> u32 \<Rightarrow> zmsg \<Rightarrow> input" where
  "ex_router i cmd m = On_router (Some (ex_sockid i # le32 DD_VERSION # le32 cmd # m))"

definition ex_join :: "u8 \<Rightarrow> u64 \<Rightarrow> string \<Rightarrow> string \<Rightarrow> input" where
  "ex_join i cookie h name = ex_router i DD_CMD_CHALLOK [le64 cookie, ascii h, ascii name]"

text \<open>Both configurations start.\<close>

lemma starts:
  "is_ok r \<Longrightarrow> projr r \<noteq> None \<Longrightarrow> r = Inr (Some (the (projr r)))"
  by (cases r) auto

lemma ex_root_starts: "dd_broker_actor ex_ext (replicate NONCEBYTES 0) ex_setup = Inr (Some ex_root)"
  unfolding ex_root_def by (rule starts) code_simp+

lemma ex_sub_starts: "dd_broker_actor ex_ext (replicate NONCEBYTES 0) ex_setup_sub = Inr (Some ex_sub)"
  unfolding ex_sub_def by (rule starts) code_simp+

lemmas ex_root_empty = actor_empty [OF ex_root_starts]
lemmas ex_sub_empty = actor_empty [OF ex_sub_starts]

lemma ex_reg_inv_root: "reg_inv L ex_root"
  by (rule reg_inv_start [OF ex_root_starts])

lemma ex_reg_inv_sub: "reg_inv L ex_sub"
  by (rule reg_inv_start [OF ex_sub_starts])

end
