(* ===== verification/BrokerAuth.thy ===== *)
theory BrokerAuth
  imports Examples
begin

text \<open>
  Who is in the broker's tables: only CHALLOK admits a client or a broker, and only with the cookie
  that belongs to the hash it names; everything else that arrives from a socket that is not in the
  tables is without effect.
\<close>

section \<open>Nobody enters the tables unasked\<close>

definition no_newcomers :: "dd_broker \<Rightarrow> dd_broker \<Rightarrow> bool" where
  "no_newcomers s0 s \<longleftrightarrow>
     (\<forall>a lc. clients s a = Some lc \<longrightarrow>
        0 \<le> lc_timeout lc \<and> (\<exists>lc'. clients s0 a = Some lc' \<and> lc'\<lparr>lc_timeout := lc_timeout lc\<rparr> = lc)) \<and>
     (\<forall>h lb. (h, lb) \<in> set (lcl_br_ht s) \<longrightarrow>
        0 \<le> lb_timeout lb \<and> (\<exists>lb'. (h, lb') \<in> set (lcl_br_ht s0) \<and> lb'\<lparr>lb_timeout := lb_timeout lb\<rparr> = lb))"

lemma no_newcomers_cong:
  "clients s = clients self \<Longrightarrow> lcl_br_ht s = lcl_br_ht self \<Longrightarrow> no_newcomers s0 s = no_newcomers s0 self"
  by (simp add: no_newcomers_def)

lemma no_newcomers_refl: "reg_inv L s \<Longrightarrow> no_newcomers s s"
proof -
  assume inv: "reg_inv L s"
  have "0 \<le> lc_timeout lc" if "clients s a = Some lc" for a lc
    using inv cli_okD(10) [of L "keys s" "clients s" _ _ _ a lc] that unfolding reg_inv_def client_ok_def by blast
  moreover have "0 \<le> lb_timeout lb" if "(h, lb) \<in> set (lcl_br_ht s)" for h lb
    using inv that unfolding reg_inv_def brs_ok_def by blast
  ultimately show ?thesis unfolding no_newcomers_def by force
qed

lemma post_unlink_clients:
  assumes "\<And>s'. clients s' = clients s \<Longrightarrow> lcl_br_ht s' = lcl_br_ht s \<Longrightarrow> P s'"
  shows "post (hashtable_unlink_local_node s sockid cookie) (\<lambda>s. post (hashtable_unlink_rev_local_node s name) P)"
  unfolding hashtable_unlink_local_node_def hashtable_unlink_rev_local_node_def Let_def post_simps
  by (rule post_ht_lookup) (auto intro!: post_ht_lookup assms)

interpretation newcomers: table_invariant "no_newcomers s0" "\<lambda>src. True" for s0
proof unfold_locales
  show "no_newcomers s0 s" if "no_newcomers s0 self" "registry s = registry self" for self s
    using that no_newcomers_cong [of s self] by (simp add: registry_def)
  have timeout: "no_newcomers s0 (self\<lparr>clients := (clients self)(a \<mapsto> lc\<lparr>lc_timeout := t\<rparr>)\<rparr>)"
    if n: "no_newcomers s0 self" and a: "clients self a = Some lc" and t: "0 \<le> t" for self a lc t
  proof -
    obtain lc' where lc': "clients s0 a = Some lc'" "lc'\<lparr>lc_timeout := lc_timeout lc\<rparr> = lc"
      using n a unfolding no_newcomers_def by blast
    have "lc'\<lparr>lc_timeout := t\<rparr> = lc\<lparr>lc_timeout := t\<rparr>" by (subst lc'(2) [symmetric]) simp
    then show ?thesis using n lc'(1) t unfolding no_newcomers_def by auto
  qed
  show "no_newcomers s0 (self\<lparr>clients := (clients self)(a \<mapsto> lc\<lparr>lc_timeout := lc_timeout lc + 1\<rparr>)\<rparr>)"
    if "no_newcomers s0 self" "clients self a = Some lc" for self a lc
    by (rule timeout [OF that]) (use that in \<open>fastforce simp: no_newcomers_def\<close>)
  show "no_newcomers s0 (touch_client self a)" if "no_newcomers s0 self" "clients self a = Some lc" for self a lc
    using timeout [OF that, of 0] that(2) by (simp add: touch_client_def)
  show "0 \<le> lb_timeout lb" if "no_newcomers s0 self" "(h, lb) \<in> set (lcl_br_ht self)" for self h lb
    using that unfolding no_newcomers_def by blast
  show "no_newcomers s0 (self\<lparr>lcl_br_ht := ht_replace h lb (lb\<lparr>lb_timeout := t\<rparr>) (lcl_br_ht self)\<rparr>)"
    if n: "no_newcomers s0 self" and t: "0 \<le> t" "t \<le> 3" for self h lb t
  proof (cases "(h, lb) \<in> set (lcl_br_ht self)")
    case True
    then obtain lb' where lb': "(h, lb') \<in> set (lcl_br_ht s0)" "lb'\<lparr>lb_timeout := lb_timeout lb\<rparr> = lb"
      using n unfolding no_newcomers_def by blast
    have "lb'\<lparr>lb_timeout := t\<rparr> = lb\<lparr>lb_timeout := t\<rparr>" by (subst lb'(2) [symmetric]) simp
    then show ?thesis
      using n t lb'(1) set_ht_replace [of h lb "lb\<lparr>lb_timeout := t\<rparr>" "lcl_br_ht self"]
      unfolding no_newcomers_def by (auto dest!: subsetD)
  next
    case False
    then show ?thesis using n by (simp add: ht_replace_absent)
  qed
  show "no_newcomers s0 (self\<lparr>lcl_br_ht := ht_del h lb (lcl_br_ht self)\<rparr>)" if "no_newcomers s0 self" for self h lb
    using that set_ht_del_subset [of h lb "lcl_br_ht self"] unfolding no_newcomers_def by auto
  show "no_newcomers s0 (self\<lparr>dist_cli_ht := ht_del h dc (dist_cli_ht self)\<rparr>)" if "no_newcomers s0 self" for self h dc
    using that by (simp add: no_newcomers_def)
  show "no_newcomers s0 (hashtable_insert_dist_node X self name sockid dist)"
    if "no_newcomers s0 self" for self X name sockid dist
    using that by (simp add: no_newcomers_def hashtable_insert_dist_node_def)
  show "post (hashtable_unlink_local_node s (lc_sockid lc) (lc_cookie lc)) (\<lambda>s.
      post (hashtable_unlink_rev_local_node s (lc_prefix_name lc)) (\<lambda>s. no_newcomers s0 (free_client s a)))"
    if "no_newcomers s0 s" "clients s a = Some lc" for s a lc
    by (rule post_unlink_clients) (use that in \<open>auto simp: no_newcomers_def free_client_def split: if_splits\<close>)
  show "post (remove_subscriptions self sockid) (\<lambda>(n, s). no_newcomers s0 s \<and> clients s = clients self)"
    if "no_newcomers s0 self" for self sockid
    unfolding remove_subscriptions_def post_simps
    by (rule post_lookup_subscribe_node)
      (use that in \<open>auto intro!: postI simp: no_newcomers_def\<close>)
  show "post (remove_subscription self sockid topic) (\<lambda>(n, s). no_newcomers s0 s)"
    if "no_newcomers s0 self" for self sockid topic
    unfolding remove_subscription_def post_simps
    by (rule post_lookup_subscribe_node)
      (use that in \<open>auto intro!: postI simp: no_newcomers_def\<close>)
  show "post (insert_subscription X self sockid topic) (\<lambda>(n, s). no_newcomers s0 s)"
    if "no_newcomers s0 self" for self sockid X topic
    unfolding insert_subscription_def post_simps
    by (rule post_lookup_subscribe_node)
      (use that in \<open>auto intro!: postI simp: no_newcomers_def\<close>)
qed

section \<open>What CHALLOK admits\<close>

lemma post_insert_local_client_raw:
  assumes "P (- 1, self)"
    and "\<And>np lcl rvl. lc_tenant np = ten_name ten \<Longrightarrow> lc_name np = client_name \<Longrightarrow> lc_cookie np = ten_cookie ten \<Longrightarrow>
      lc_sockid np = sockid \<Longrightarrow>
      P (1, self\<lparr>clients := (clients self)(next_client self \<mapsto> np), next_client := Suc (next_client self),
        lcl_cli_ht := lcl, rev_lcl_cli_ht := rvl\<rparr>)"
  shows "post (insert_local_client X self sockid ten client_name) P"
  unfolding insert_local_client_def Let_def
  by (auto intro!: assms post_has_dist_node post_ht_lookup)

definition admits_client :: "dd_broker \<Rightarrow> bytes \<Rightarrow> zmsg \<Rightarrow> local_client \<Rightarrow> bool" where
  "admits_client self source msg lc \<longleftrightarrow>
     (\<exists>cook h name rest ten. msg = cook # h # name # rest \<and>
        c_string h \<noteq> br_hash (keys self) \<and> map_of (tenantkeys (keys self)) (c_string h) = Some ten \<and>
        rd64 cook = Inr (ten_cookie ten) \<and> c_string name \<noteq> ascii ''public'' \<and>
        lc_tenant lc = ten_name ten \<and> lc_name lc = c_string name \<and> lc_cookie lc = ten_cookie ten \<and>
        lc_sockid lc = source)"

definition admits_broker :: "dd_broker \<Rightarrow> bytes \<Rightarrow> zmsg \<Rightarrow> local_broker \<Rightarrow> bool" where
  "admits_broker self source msg lb \<longleftrightarrow>
     (\<exists>cook h rest. msg = cook # h # rest \<and> c_string h = br_hash (keys self) \<and>
        rd64 cook = Inr (br_cookie (keys self)) \<and> lb_cookie lb = br_cookie (keys self) \<and> lb_sockid lb = source)"

definition admitted :: "dd_broker \<Rightarrow> bytes \<Rightarrow> zmsg \<Rightarrow> dd_broker \<Rightarrow> bool" where
  "admitted self source msg s \<longleftrightarrow>
     (\<forall>a lc. clients s a = Some lc \<longrightarrow> clients self a = Some lc \<or> admits_client self source msg lc) \<and>
     (\<forall>h lb. (h, lb) \<in> set (lcl_br_ht s) \<longrightarrow> (h, lb) \<in> set (lcl_br_ht self) \<or> admits_broker self source msg lb)"

lemma admitted_refl: "clients s = clients self \<Longrightarrow> lcl_br_ht s = lcl_br_ht self \<Longrightarrow> admitted self source msg s"
  by (simp add: admitted_def)

lemma zmsg_popstr_Some: "zmsg_popstr m = (Some s, m') \<longleftrightarrow> (\<exists>f. m = f # m' \<and> s = c_string f)"
  by (cases m) auto

lemma zmsg_pop_Some: "zmsg_pop m = (Some f, m') \<longleftrightarrow> m = f # m'"
  by (cases m) auto

lemma challok_admits: "post (s_cb_challok X self source msg) (admitted self source msg)"
proof -
  have client: "post (challok_client X self source ten cookie (c_string name)) (admitted self source (cook # h # name # rest))"
    if "c_string h \<noteq> br_hash (keys self)" "map_of (tenantkeys (keys self)) (c_string h) = Some ten" "rd64 cook = Inr cookie"
    for ten cookie h name cook rest
    unfolding challok_client_def Let_def
    using that
    by (auto simp: remote_reg_failed_def add_cli_up_def admitted_def admits_client_def
        intro!: post_insert_local_client_raw split: if_splits)
  have br: "post (challok_broker X self source cookie) (admitted self source (cook # h # rest))"
    if "c_string h = br_hash (keys self)" "rd64 cook = Inr cookie" for cookie cook h rest
    unfolding challok_broker_def Let_def
    using that
    by (auto simp: admitted_def admits_broker_def hashtable_insert_local_broker_def intro!: post_has_local_broker)
  show ?thesis
    unfolding s_cb_challok_def
    by (auto split: prod.split option.split simp: post_iff [of "rd64 _"] zmsg_popstr_Some zmsg_pop_Some
        intro: client [unfolded post_iff, rule_format] br [unfolded post_iff, rule_format] admitted_refl
        intro!: client br postI)
qed

section \<open>Sockets that have not registered\<close>

definition registered :: "dd_broker \<Rightarrow> bytes \<Rightarrow> bool" where
  "registered self source \<longleftrightarrow>
     (\<exists>a lc. clients self a = Some lc \<and> lc_sockid lc = source) \<or>
     (\<exists>h lb. (h, lb) \<in> set (lcl_br_ht self) \<and> lb_sockid lb = source)"

lemma ht_lookup_miss: "(\<And>y. (h, y) \<in> set t \<Longrightarrow> m y = Inr False) \<Longrightarrow> ht_lookup m h t = Inr None"
  by (induction t) auto

lemma unregistered_lookups:
  assumes inv: "reg_inv L self" and len: "length source = L" and un: "\<not> registered self source"
  shows "hashtable_has_local_node self source cookie update = Inr (None, self)"
    and "hashtable_has_local_broker self source c update = Inr (None, self)"
proof -
  have ok: "cli_ok L (keys self) (clients self) (next_client self) (lcl_cli_ht self) (rev_lcl_cli_ht self)"
    using inv by (simp add: reg_inv_def)
  have "match_lcl_node_sockid self source a = Inr False" if m: "(h, a) \<in> set (lcl_cli_ht self)" for h a
  proof -
    obtain lc where lc: "clients self a = Some lc" using cli_ok_lcl_dom [OF ok m] by blast
    then have "lc_sockid lc \<noteq> source" "length (lc_sockid lc) = L"
      using un cli_okD(10) [OF ok lc] unfolding registered_def client_ok_def by blast+
    then show ?thesis using lc len by (simp add: match_lcl_node_sockid_def get_client_def memcmp_eq_len)
  qed
  then show "hashtable_has_local_node self source cookie update = Inr (None, self)"
    by (simp add: hashtable_has_local_node_def ht_lookup_miss)
  have "match_lcl_broker source lb = Inr False" if "(h, lb) \<in> set (lcl_br_ht self)" for h lb
  proof -
    have "lb_sockid lb \<noteq> source" "length (lb_sockid lb) = L"
      using un that inv unfolding registered_def reg_inv_def brs_ok_def by blast+
    then show ?thesis using len by (simp add: match_lcl_broker_def memcmp_eq_len)
  qed
  then show "hashtable_has_local_broker self source c update = Inr (None, self)"
    by (simp add: hashtable_has_local_broker_def Let_def ht_lookup_miss)
qed

section \<open>Properties\<close>

definition newcomers_authenticated :: "dd_broker \<Rightarrow> input \<Rightarrow> dd_broker \<Rightarrow> bool" where
  "newcomers_authenticated self inp self' \<longleftrightarrow>
    (\<forall>a lc. clients self' a = Some lc \<and> clients self a = None \<longrightarrow>
      (\<exists>source proto cmd msg. inp = On_router (Some (source # proto # cmd # msg)) \<and>
        rd32 proto = Inr DD_VERSION \<and> rd32 cmd = Inr DD_CMD_CHALLOK \<and> admits_client self source msg lc)) \<and>
    (\<forall>h lb. (h, lb) \<in> set (lcl_br_ht self') \<and> (\<forall>lb'. (h, lb') \<in> set (lcl_br_ht self) \<longrightarrow> lb_sockid lb' \<noteq> lb_sockid lb) \<longrightarrow>
      (\<exists>source proto cmd msg. inp = On_router (Some (source # proto # cmd # msg)) \<and>
        rd32 proto = Inr DD_VERSION \<and> rd32 cmd = Inr DD_CMD_CHALLOK \<and> admits_broker self source msg lb))"

text \<open>
  C1. Whatever message arrives or timer fires, a client or a lower broker is in the tables
  afterwards that was not there before only if the message was a CHALLOK of the right protocol
  version from that very socket, naming the hash of a tenant (or the broker's own) with the cookie
  that belongs to it; the entry carries that tenant, that cookie and the name from the message.
\<close>

theorem only_authenticated_register:
  assumes inv: "reg_inv L self" and h: "handle X inp self = Inr self'"
  shows "newcomers_authenticated self inp self'"
proof (cases "\<exists>source proto cmd msg. inp = On_router (Some (source # proto # cmd # msg)) \<and> rd32 cmd = Inr DD_CMD_CHALLOK")
  case True
  then obtain source proto cmd msg where i: "inp = On_router (Some (source # proto # cmd # msg))"
    "rd32 cmd = Inr DD_CMD_CHALLOK" by blast
  obtain pver where p: "rd32 proto = Inr pver"
    using h i by (cases "rd32 proto") (auto simp: handle_def s_on_router_msg_def)
  show ?thesis
  proof (cases "pver = DD_VERSION")
    case True
    then have "s_cb_challok X self source msg = Inr self'"
      using h i p by (simp add: handle_def s_on_router_msg_def router_cmd_def cmd_defs)
    then have "admitted self source msg self'" using challok_admits [of X self source msg] by (simp add: post_iff)
    then show ?thesis using i p True unfolding admitted_def newcomers_authenticated_def by fastforce
  next
    case False
    then have "clients self' = clients self \<and> lcl_br_ht self' = lcl_br_ht self"
      using h i p by (auto simp: handle_def s_on_router_msg_def zsock_send_def split: if_splits)
    then show ?thesis by (auto simp: newcomers_authenticated_def)
  qed
next
  case False
  have "post (handle X inp self) (no_newcomers self)"
    by (rule newcomers.I_handle [OF no_newcomers_refl [OF inv]]) (use False in auto)
  then have n: "no_newcomers self self'" using h by simp
  have "\<exists>lc'. clients self a = Some lc'" if "clients self' a = Some lc" for a lc
    using n that unfolding no_newcomers_def by blast
  moreover have "\<exists>lb'. (h, lb') \<in> set (lcl_br_ht self) \<and> lb_sockid lb' = lb_sockid lb"
    if m: "(h, lb) \<in> set (lcl_br_ht self')" for h lb
  proof -
    obtain lb' where lb': "(h, lb') \<in> set (lcl_br_ht self)" "lb'\<lparr>lb_timeout := lb_timeout lb\<rparr> = lb"
      using n m unfolding no_newcomers_def by blast
    have "lb_sockid lb = lb_sockid (lb'\<lparr>lb_timeout := lb_timeout lb\<rparr>)" by (simp only: lb'(2))
    then show ?thesis using lb'(1) by auto
  qed
  ultimately show ?thesis unfolding newcomers_authenticated_def by (metis not_None_eq)
qed

lemma only_authenticated_register_witness:
  "newcomers_authenticated ex_root (ex_join 1 7 ''ha'' ''x'') (projr (handle ex_ext (ex_join 1 7 ''ha'' ''x'') ex_root))"
  by (rule only_authenticated_register [OF ex_reg_inv_root [where L = 5] is_ok_projr]) code_simp

lemma unregistered_exact:
  assumes "reg_inv L self" "length source = L" "\<not> registered self source"
    and "cmd \<notin> {DD_CMD_ADDLCL, DD_CMD_ADDBR, DD_CMD_CHALLOK}" "msg = [] \<or> 8 \<le> length (hd msg)"
  shows "router_cmd X self source cmd msg = Inr self"
proof (cases msg)
  case Nil
  then show ?thesis using assms(4) by (simp add: router_cmd_def with_cookie_def zmsg_pop_def)
next
  case (Cons cookie rest)
  then obtain c where "rd64 cookie = Inr c" using assms(5) by (auto simp: rd64_def)
  then show ?thesis using assms(4) unfolding router_cmd_def with_cookie_def Cons
    by (simp add: s_cb_send_def s_cb_forward_rsock_def s_cb_ping_def s_cb_sub_def s_cb_unsub_def s_cb_pub_def
        s_cb_adddcl_def s_cb_unreg_cli_def s_cb_unreg_dist_cli_def unregistered_lookups [OF assms(1-3)] split: prod.split)
qed

text \<open>
  C4. A socket that has not registered as a client or as a broker can change nothing: a message of the right version that
  is not one of the handshake, and whose cookie, if it has one, has its eight bytes, is dropped, with nothing sent and the
  broker in the same state as before; a message of another version is answered with the error for it and changes nothing
  else.
\<close>

theorem unregistered_socket_no_effect:
  assumes inv: "reg_inv L self" and src: "length source = L" "\<not> registered self source" and ready: "rsock self"
    and p: "rd32 proto = Inr v" and c: "rd32 cmd = Inr c" "c \<notin> {DD_CMD_ADDLCL, DD_CMD_ADDBR, DD_CMD_CHALLOK}"
    and f: "msg = [] \<or> 8 \<le> length (hd msg)"
  shows "s_on_router_msg X self (Some (source # proto # cmd # msg)) =
    (if v = DD_VERSION then Inr self
     else Inr (emit (Send Rsock [source, le32 v, le32 DD_CMD_ERROR, le32 DD_ERROR_VERSION, ascii ''Different versions in use'']) self))"
  using unregistered_exact [OF inv src c(2) f] p c(1) ready
  by (simp add: s_on_router_msg_def zsock_send_def sock_open_def)

lemma unregistered_socket_no_effect_witness:
  "s_on_router_msg ex_ext ex_root (Some (ex_sockid 1 # le32 DD_VERSION # le32 DD_CMD_SEND # [le64 7, ascii ''y'', ascii ''hi''])) = Inr ex_root"
proof -
  have u: "\<not> registered ex_root (ex_sockid 1)" by (simp add: registered_def ex_root_empty)
  have r: "length (ex_sockid 1) = 5" "rsock ex_root" by code_simp+
  have c: "rd32 (le32 DD_VERSION) = Inr DD_VERSION" "rd32 (le32 DD_CMD_SEND) = Inr DD_CMD_SEND"
    "DD_CMD_SEND \<notin> {DD_CMD_ADDLCL, DD_CMD_ADDBR, DD_CMD_CHALLOK}"
    "[le64 7, ascii ''y'', ascii ''hi''] = [] \<or> 8 \<le> length (hd [le64 7, ascii ''y'', ascii ''hi''])"
    by (simp_all add: cmd_defs)
  show ?thesis using unregistered_socket_no_effect [OF ex_reg_inv_root r(1) u r(2) c, of ex_ext] by simp
qed

text \<open>
  C2. The tables of a broker stay well formed for as long as no two registered names collide in the
  hash table: every client is in both client tables, under the hashes of its socket and cookie and
  of its name, no address in them dangles, names are unique among the local clients, among the
  distant clients and between them, sockets are unique among the brokers and among the
  subscribers, and every client belongs to a tenant of the key file with its cookie.
\<close>

theorem registry_invariant:
  assumes "dd_broker_actor X n cf = Inr (Some start)" and "broker_run X clash_free start inps self"
    and "\<forall>inp\<in>set inps. input_ok L inp"
  shows "reg_inv L self"
  by (rule registry_run [OF assms(2) reg_inv_start [OF assms(1)] assms(3)])

lemma registry_invariant_witness:
  "\<exists>self. broker_run ex_ext clash_free ex_root [ex_join 1 7 ''ha'' ''x''] self \<and> reg_inv 5 self"
proof -
  let ?s = "projr (handle ex_ext (ex_join 1 7 ''ha'' ''x'') ex_root)"
  have "is_ok (handle ex_ext (ex_join 1 7 ''ha'' ''x'') ex_root)" "enabled ex_root (ex_join 1 7 ''ha'' ''x'')" by code_simp+
  then have "broker_step ex_ext ex_root (ex_join 1 7 ''ha'' ''x'') ?s"
    by (intro broker_step.intros is_ok_projr)
  moreover have "clash_free ex_root"
    by (simp add: clash_free_def ex_root_empty)
  ultimately have run: "broker_run ex_ext clash_free ex_root [ex_join 1 7 ''ha'' ''x''] ?s"
    using broker_run.more [OF _ _ broker_run.stop] by blast
  then have "reg_inv 5 ?s"
    by (rule registry_invariant [OF ex_root_starts]) (simp add: ex_join_def ex_router_def input_ok_def ex_sockid_def)
  with run show ?thesis by blast
qed

end
