(* ===== verification/Lookups.thy ===== *)
theory Lookups
  imports BrokerAuth
begin

text \<open>
  The lookups of \<open>htable.c\<close> as equations: what is in a well-formed registry is found under its own
  keys, and what is not there is not found. With them the handlers can be computed on states of
  which only the invariant is known.
\<close>

section \<open>Clients\<close>

lemma touch_fields [simp]:
  "keys (touch_client self a) = keys self" "next_client (touch_client self a) = next_client self"
  "lcl_cli_ht (touch_client self a) = lcl_cli_ht self" "rev_lcl_cli_ht (touch_client self a) = rev_lcl_cli_ht self"
  "dist_cli_ht (touch_client self a) = dist_cli_ht self" "lcl_br_ht (touch_client self a) = lcl_br_ht self"
  "subscribe_ht (touch_client self a) = subscribe_ht self" "state (touch_client self a) = state self"
  "topics_trie (touch_client self a) = topics_trie self" "sock_open (touch_client self a) = sock_open self"
  "sent (touch_client self a) = sent self" "rsock (touch_client self a) = rsock self"
  "dsock (touch_client self a) = dsock self" "pubN (touch_client self a) = pubN self"
  "pubS (touch_client self a) = pubS self" "subN (touch_client self a) = subN self"
  "subS (touch_client self a) = subS self" "broker_id (touch_client self a) = broker_id self"
  "broker_scope (touch_client self a) = broker_scope self" "scope (touch_client self a) = scope self"
  by (simp_all add: touch_client_def sock_open_def fun_eq_iff split: sock.split)

lemma touch_clients:
  "clients (touch_client self a) b = (if a = b then map_option (\<lambda>lc. lc\<lparr>lc_timeout := 0\<rparr>) (clients self b) else clients self b)"
  by (simp add: touch_client_def)

lemma touch_client_Some:
  "clients self b = Some lc \<Longrightarrow> \<exists>t. clients (touch_client self a) b = Some (lc\<lparr>lc_timeout := t\<rparr>)"
  by (cases "a = b") (auto simp: touch_clients intro: exI [of _ "lc_timeout lc"])

lemma clash_free_names:
  "clash_free self \<longleftrightarrow> (\<forall>a b n m. map_option lc_prefix_name (clients self a) = Some n \<longrightarrow>
     map_option lc_prefix_name (clients self b) = Some m \<longrightarrow> prename_hash n = prename_hash m \<longrightarrow> prefix n m \<longrightarrow> a = b)"
  unfolding clash_free_def map_option_eq_Some by blast

lemma touch_names: "map_option lc_prefix_name (clients (touch_client self a) b) = map_option lc_prefix_name (clients self b)"
  by (cases "clients self b") (auto simp: touch_clients)

lemma clash_free_touch [simp]: "clash_free (touch_client self a) = clash_free self"
  unfolding clash_free_names touch_names ..

lemma has_local_node_exact:
  assumes inv: "reg_inv L self" and a: "clients self a = Some lc"
  shows "hashtable_has_local_node self (lc_sockid lc) (le64 (lc_cookie lc)) update =
    Inr (Some a, if update then touch_client self a else self)"
proof -
  have ok: "cli_ok L (keys self) (clients self) (next_client self) (lcl_cli_ht self) (rev_lcl_cli_ht self)"
    using inv by (simp add: reg_inv_def)
  have len: "length (lc_sockid lb) = L" if "clients self b = Some lb" for b lb
    using cli_okD(10) [OF ok that] by (simp add: client_ok_def)
  have "match_lcl_node_sockid self (lc_sockid lc) b = Inr (b = a)"
    if h: "(client_hash lc, b) \<in> set (lcl_cli_ht self)" for b
  proof -
    obtain lb where b: "clients self b = Some lb" "client_hash lc = client_hash lb"
      using cli_ok_lcl_dom [OF ok h] by auto
    have "b = a \<longleftrightarrow> lc_sockid lb = lc_sockid lc"
      using cli_okD(9) [OF ok b(1) a] b a by auto
    then show ?thesis using b len [OF b(1)] len [OF a]
      by (simp add: match_lcl_node_sockid_def get_client_def memcmp_eq_len)
  qed
  then have "ht_lookup (match_lcl_node_sockid self (lc_sockid lc)) (client_hash lc) (lcl_cli_ht self) = Inr (Some a)"
    by (rule ht_lookup_exact [OF _ cli_ok_lcl [OF ok a]])
  then show ?thesis by (simp add: hashtable_has_local_node_def client_hash_def)
qed

lemma has_rev_exact:
  assumes "reg_inv L self" "clash_free self" "clients self a = Some lc"
  shows "hashtable_has_rev_local_node self (lc_prefix_name lc) update =
    Inr (Some a, if update then touch_client self a else self)"
  using rev_lookup_exact [OF assms refl] by (simp add: hashtable_has_rev_local_node_def)

text \<open>Nothing in the tables is taken for the name.\<close>

definition unknown_here :: "dd_broker \<Rightarrow> bytes \<Rightarrow> bool" where
  "unknown_here self name \<longleftrightarrow>
     (\<forall>b lb. clients self b = Some lb \<longrightarrow> prename_hash (lc_prefix_name lb) = prename_hash name \<longrightarrow>
        \<not> prefix name (lc_prefix_name lb))"

definition unknown_below :: "dd_broker \<Rightarrow> bytes \<Rightarrow> bool" where
  "unknown_below self name \<longleftrightarrow>
     (\<forall>h dc. (h, dc) \<in> set (dist_cli_ht self) \<longrightarrow> name_hash (dc_name dc) = name_hash name \<longrightarrow>
        \<not> prefix name (dc_name dc))"

lemma unknown_touch [simp]: "unknown_here (touch_client self a) name = unknown_here self name"
  by (auto simp: unknown_here_def touch_clients split: if_splits)

lemma unknown_below_touch [simp]: "unknown_below (touch_client self a) name = unknown_below self name"
  by (simp add: unknown_below_def)

lemma has_rev_none:
  assumes inv: "reg_inv L self" and no: "unknown_here self name"
  shows "hashtable_has_rev_local_node self name update = Inr (None, self)"
proof -
  have ok: "cli_ok L (keys self) (clients self) (next_client self) (lcl_cli_ht self) (rev_lcl_cli_ht self)"
    using inv by (simp add: reg_inv_def)
  have "match_lcl_node_prename self name b = Inr False" if h: "(prename_hash name, b) \<in> set (rev_lcl_cli_ht self)" for b
  proof -
    obtain lb where b: "clients self b = Some lb" "prename_hash name = prename_hash (lc_prefix_name lb)"
      using cli_ok_rev_dom [OF ok h] by auto
    then have "\<not> prefix name (lc_prefix_name lb)" using no by (simp add: unknown_here_def)
    then show ?thesis using b by (simp add: match_lcl_node_prename_def get_client_def starts_with_prefix)
  qed
  then show ?thesis by (simp add: hashtable_has_rev_local_node_def ht_lookup_miss)
qed

section \<open>Distant clients and brokers\<close>

text \<open>The names of distant clients that are in no confusion with another.\<close>

definition dist_clear :: "dd_broker \<Rightarrow> dist_client \<Rightarrow> bool" where
  "dist_clear self dc \<longleftrightarrow>
     (\<forall>h dc'. (h, dc') \<in> set (dist_cli_ht self) \<longrightarrow> name_hash (dc_name dc') = name_hash (dc_name dc) \<longrightarrow>
        prefix (dc_name dc) (dc_name dc') \<longrightarrow> dc' = dc)"

lemma dist_hash: "reg_inv L self \<Longrightarrow> (h, dc) \<in> set (dist_cli_ht self) \<Longrightarrow> h = name_hash (dc_name dc)"
  unfolding reg_inv_def dist_ok_def by blast

lemma has_dist_exact:
  assumes inv: "reg_inv L self" and dc: "(h, dc) \<in> set (dist_cli_ht self)" and cl: "dist_clear self dc"
  shows "hashtable_has_dist_node self (dc_name dc) = Inr (Some dc)"
  unfolding hashtable_has_dist_node_def
proof (rule ht_lookup_exact)
  show "match_dist_node (dc_name dc) y = Inr (y = dc)" if "(name_hash (dc_name dc), y) \<in> set (dist_cli_ht self)" for y
    using cl that dist_hash [OF inv that] by (auto simp: match_dist_node_def starts_with_prefix dist_clear_def)
  show "(name_hash (dc_name dc), dc) \<in> set (dist_cli_ht self)"
    using dc dist_hash [OF inv dc] by simp
qed

lemma has_dist_none:
  assumes inv: "reg_inv L self" and no: "unknown_below self name"
  shows "hashtable_has_dist_node self name = Inr None"
  unfolding hashtable_has_dist_node_def
  by (rule ht_lookup_miss) (use no dist_hash [OF inv] in \<open>auto simp: match_dist_node_def starts_with_prefix unknown_below_def\<close>)

lemma has_local_broker_exact:
  assumes inv: "reg_inv L self" and lb: "(h, lb) \<in> set (lcl_br_ht self)"
  shows "hashtable_has_local_broker self (lb_sockid lb) (lb_cookie lb) update =
    Inr (Some lb, if update then self\<lparr>lcl_br_ht := ht_replace h lb (lb\<lparr>lb_timeout := 0\<rparr>) (lcl_br_ht self)\<rparr> else self)"
proof -
  have ok: "brs_ok L (keys self) (lcl_br_ht self)" using inv by (simp add: reg_inv_def)
  have h: "h = sockid_cookie_hash (lb_sockid lb) (le64 (lb_cookie lb))" and len: "length (lb_sockid lb) = L"
    using ok lb unfolding brs_ok_def by blast+
  have "ht_lookup (match_lcl_broker (lb_sockid lb)) h (lcl_br_ht self) = Inr (Some lb)"
  proof (rule ht_lookup_exact [OF _ lb])
    fix y assume y: "(h, y) \<in> set (lcl_br_ht self)"
    then have "length (lb_sockid y) = L" using ok unfolding brs_ok_def by blast
    moreover have "lb_sockid y = lb_sockid lb \<longleftrightarrow> y = lb"
      using ok y lb unfolding brs_ok_def distinct_map inj_on_def by (metis case_prod_conv snd_conv)
    ultimately show "match_lcl_broker (lb_sockid lb) y = Inr (y = lb)"
      using len by (simp add: match_lcl_broker_def memcmp_eq_len)
  qed
  then show ?thesis by (simp add: hashtable_has_local_broker_def h)
qed

section \<open>Names\<close>

text \<open>The tenant names of the key file: no dot, by which they are cut off a qualified name, and no NUL.\<close>

definition names_wf :: "ddbrokerkeys \<Rightarrow> bool" where
  "names_wf ks \<longleftrightarrow>
     (\<forall>(h, ten)\<in>set (tenantkeys ks). dot \<notin> set (ten_name ten) \<and> 0 \<notin> set (ten_name ten))"

lemma client_tenant_wf:
  assumes inv: "reg_inv L self" and wf: "names_wf (keys self)" and a: "clients self a = Some lc"
  shows "dot \<notin> set (lc_tenant lc)" "0 \<notin> set (lc_tenant lc)"
    "lc_prefix_name lc = lc_tenant lc @ dot # lc_name lc" "length (lc_prefix_name lc) < MAXTENANTNAME"
proof -
  have ok: "client_ok L (keys self) lc"
    using inv a unfolding reg_inv_def by (blast intro: cli_okD(10))
  then obtain h ten where "map_of (tenantkeys (keys self)) h = Some ten" "lc_tenant lc = ten_name ten"
    by (auto simp: client_ok_def)
  then show "dot \<notin> set (lc_tenant lc)" "0 \<notin> set (lc_tenant lc)"
    using wf by (auto simp: names_wf_def dest!: map_of_SomeD)
  show "lc_prefix_name lc = lc_tenant lc @ dot # lc_name lc"
    using ok by (simp add: client_ok_def dot_join_def ascii_def)
  show "length (lc_prefix_name lc) < MAXTENANTNAME"
    using ok unfolding client_ok_def by blast
qed

lemma dot_prefix_eq:
  assumes "dot \<notin> set p" "dot \<notin> set q"
  shows "prefix (p @ dot # s) (q @ dot # t) \<longleftrightarrow> p = q \<and> prefix s t"
  using assms
proof (induction p arbitrary: q)
  case Nil
  then show ?case by (cases q) auto
next
  case (Cons x p)
  then show ?case by (cases q) auto
qed

lemma is_public_name_dot:
  assumes "dot \<notin> set t"
  shows "is_public_name (t @ dot # n) \<longleftrightarrow> t = ascii ''public''"
proof -
  have "ascii ''public.'' = ascii ''public'' @ dot # []" "dot \<notin> set (ascii ''public'')"
    by (simp_all add: ascii_def)
  then show ?thesis using dot_prefix_eq [of "ascii ''public''" t "[]" n] assms
    by (auto simp: is_public_name_def starts_with_prefix)
qed

end
