(* ===== verification/Scenario.thy ===== *)
theory Scenario
  imports Lookups Examples
begin

text \<open>
  A busy root broker for the witnesses: two clients of a tenant and a public one, a broker below and a
  client that is registered there.
\<close>

definition ex_client :: "string \<Rightarrow> string \<Rightarrow> u64 \<Rightarrow> u8 \<Rightarrow> local_client" where
  "ex_client ten name cookie i =
     \<lparr>lc_name = ascii name, lc_prefix_name = dot_join (ascii ten) (ascii name), lc_tenant = ascii ten,
      lc_cookie = cookie, lc_sockid = ex_sockid i, lc_timeout = 1\<rparr>"

definition ex_broker :: local_broker where
  "ex_broker = \<lparr>lb_sockid = ex_sockid 9, lb_cookie = 5, lb_distance = 0, lb_timeout = 0\<rparr>"

definition ex_dist :: dist_client where
  "ex_dist = \<lparr>dc_name = ascii ''a.z'', dc_broker = ex_sockid 9, dc_distance = 0\<rparr>"

definition ex_clients :: "nat \<Rightarrow> local_client option" where
  "ex_clients = [0 \<mapsto> ex_client ''a'' ''x'' 7 1, 1 \<mapsto> ex_client ''a'' ''y'' 7 2, 2 \<mapsto> ex_client ''public'' ''p'' 9 3]"

definition ex_populate :: "dd_broker \<Rightarrow> dd_broker" where
  "ex_populate self = self
     \<lparr>clients := ex_clients, next_client := 3,
      lcl_cli_ht := map (\<lambda>a. (client_hash (the (ex_clients a)), a)) [0, 1, 2],
      rev_lcl_cli_ht := map (\<lambda>a. (prename_hash (lc_prefix_name (the (ex_clients a))), a)) [2, 0, 1],
      dist_cli_ht := [(name_hash (dc_name ex_dist), ex_dist)],
      lcl_br_ht := [(sockid_cookie_hash (lb_sockid ex_broker) (le64 (lb_cookie ex_broker)), ex_broker)]\<rparr>"

definition ex_busy :: dd_broker where "ex_busy = ex_populate ex_root"
lemma ex_clients_simps [simp]:
  "ex_clients 0 = Some (ex_client ''a'' ''x'' 7 1)" "ex_clients (Suc 0) = Some (ex_client ''a'' ''y'' 7 2)"
  "ex_clients 2 = Some (ex_client ''public'' ''p'' 9 3)"
  by (simp_all add: ex_clients_def)

lemma ex_clientsE:
  assumes "ex_clients a = Some lc"
  obtains "a = 0" "lc = ex_client ''a'' ''x'' 7 1" | "a = 1" "lc = ex_client ''a'' ''y'' 7 2"
    | "a = 2" "lc = ex_client ''public'' ''p'' 9 3"
  using assms by (auto simp: ex_clients_def split: if_splits)

lemma dom_ex_clients: "dom ex_clients = {0, 1, 2}"
  by (auto simp: ex_clients_def)

lemma ex_client_fields [simp]:
  "lc_name (ex_client t n c i) = ascii n" "lc_prefix_name (ex_client t n c i) = ascii (t @ ''.'' @ n)"
  "lc_tenant (ex_client t n c i) = ascii t" "lc_cookie (ex_client t n c i) = c"
  "lc_sockid (ex_client t n c i) = ex_sockid i" "lc_timeout (ex_client t n c i) = 1"
  by (simp_all add: ex_client_def dot_join_def ascii_def)

lemma ex_sockid_eq [simp]: "ex_sockid i = ex_sockid j \<longleftrightarrow> i = j" "length (ex_sockid i) = 5"
  by (simp_all add: ex_sockid_def)

lemma ascii_eq [simp]: "ascii s = ascii t \<longleftrightarrow> map (of_char :: char \<Rightarrow> u8) s = map of_char t"
  by (simp add: ascii_def)

lemma ex_setups:
  "cf_keys ex_setup = Some ex_keys" "cf_dealer_connect ex_setup = None" "cf_scope ex_setup = [ascii ''1'', ascii ''2'', ascii ''3'']"
  "cf_keys ex_setup_sub = Some ex_keys" "cf_dealer_connect ex_setup_sub \<noteq> None"
  by code_simp+

lemmas ex_root_start = actor_start [OF ex_root_starts, unfolded ex_setups]
lemmas ex_sub_start = actor_start [OF ex_sub_starts, unfolded ex_setups]

lemma keys_ex [simp]: "keys ex_root = ex_keys" "keys ex_sub = ex_keys"
  using ex_root_start(1) ex_sub_start(1) by simp_all

lemma ex_tenants:
  "map_of (tenantkeys ex_keys) (ascii ''ha'') = Some (ex_tenant ''a'' 7)"
  "map_of (tenantkeys ex_keys) (ascii ''hp'') = Some (ex_tenant ''public'' 9)"
  by (simp_all add: ex_keys_def ascii_def)

lemma ex_client_ok': "map_of (tenantkeys ex_keys) h = Some (ex_tenant t c) \<Longrightarrow> n \<noteq> ''public'' \<Longrightarrow> ascii n \<noteq> ascii ''public'' \<Longrightarrow>
    length t + length n < 255 \<Longrightarrow> client_ok 5 ex_keys (ex_client t n c i)"
  unfolding client_ok_def
  by (intro conjI exI, assumption) (simp_all add: ex_tenant_def dot_join_def ascii_def MAXTENANTNAME_def)

lemma ex_client_ok: "ex_clients a = Some lc \<Longrightarrow> client_ok 5 ex_keys lc"
  by (erule ex_clientsE; hypsubst; rule ex_client_ok' [OF ex_tenants(1)] ex_client_ok' [OF ex_tenants(2)])
    simp_all

lemma ex_populate_ok:
  assumes "keys self = ex_keys" "subscribe_ht self = []"
  shows "reg_inv 5 (ex_populate self)"
proof -
  have "cli_ok 5 ex_keys ex_clients 3 (lcl_cli_ht (ex_populate self)) (rev_lcl_cli_ht (ex_populate self))"
    unfolding cli_ok_def ex_populate_def
    by (intro conjI allI impI, simp_all add: dom_ex_clients ex_client_ok insert_commute)
      (auto elim!: ex_clientsE simp: ascii_def ex_sockid_def)
  moreover have "dist_ok ex_clients (dist_cli_ht (ex_populate self))"
    by (auto simp: dist_ok_def ex_populate_def ex_dist_def ascii_def elim!: ex_clientsE)
  ultimately show ?thesis using assms
    by (simp add: reg_inv_def ex_populate_def brs_ok_def subs_ok_def ex_broker_def ex_keys_def)
qed

lemma ex_populate_clash_free: "clash_free (ex_populate self)"
  unfolding clash_free_def ex_populate_def
  by (auto elim!: ex_clientsE simp: ascii_def)

lemma ex_names_wf: "names_wf ex_keys"
  by (simp add: names_wf_def ex_keys_def ex_tenant_def ascii_def)

lemmas ex_busy_ok = ex_populate_ok [OF keys_ex(1) ex_root_empty(4), folded ex_busy_def]
  ex_populate_clash_free [of ex_root, folded ex_busy_def]

lemma ex_busy_fields [simp]:
  "keys ex_busy = ex_keys" "rsock ex_busy" "state ex_busy = DD_STATE_ROOT" "clients ex_busy = ex_clients"
  by (simp_all add: ex_busy_def ex_populate_def ex_root_start)


text \<open>The broker below, registered with the one above, with that client.\<close>

definition ex_low :: dd_broker where
  "ex_low = ex_sub
     \<lparr>state := DD_STATE_REGISTERED, dsock := True,
      clients := [0 \<mapsto> ex_client ''a'' ''z'' 7 4], next_client := 1,
      lcl_cli_ht := [(client_hash (ex_client ''a'' ''z'' 7 4), 0)],
      rev_lcl_cli_ht := [(prename_hash (lc_prefix_name (ex_client ''a'' ''z'' 7 4)), 0)]\<rparr>"

lemma ex_low_fields [simp]:
  "keys ex_low = ex_keys" "rsock ex_low" "dsock ex_low" "state ex_low = DD_STATE_REGISTERED"
  "clients ex_low = [0 \<mapsto> ex_client ''a'' ''z'' 7 4]" "dist_cli_ht ex_low = []"
  by (simp_all add: ex_low_def ex_sub_start ex_sub_empty)

lemma ex_low_ok: "reg_inv 5 ex_low" "clash_free ex_low"
proof -
  have "client_ok 5 ex_keys (ex_client ''a'' ''z'' 7 4)"
    by (rule ex_client_ok' [OF ex_tenants(1)]) simp_all
  then have "cli_ok 5 ex_keys (clients ex_low) (next_client ex_low) (lcl_cli_ht ex_low) (rev_lcl_cli_ht ex_low)"
    by (simp add: cli_ok_def ex_low_def)
  then show "reg_inv 5 ex_low"
    by (simp add: reg_inv_def ex_low_def ex_sub_empty dist_ok_def brs_ok_def subs_ok_def)
  show "clash_free ex_low"
    by (auto simp: clash_free_def split: if_splits)
qed

lemma ex_busy_tables:
  "dist_cli_ht ex_busy = [(name_hash (dc_name ex_dist), ex_dist)]"
  "lcl_br_ht ex_busy = [(sockid_cookie_hash (lb_sockid ex_broker) (le64 (lb_cookie ex_broker)), ex_broker)]"
  by (simp_all add: ex_busy_def ex_populate_def)

end
