(* ===== verification/Timers.thy ===== *)
theory Timers
  imports Scenario
begin

text \<open>
  The timers: what one round of the client check and of the broker check does to every entry, that a
  socket which stays silent loses its client after four rounds whatever else happens, and what becomes of
  a lower broker and the clients announced through it.
\<close>

section \<open>One round of the client check\<close>

definition aged :: "local_client \<Rightarrow> local_client option" where
  "aged lc = (if lc_timeout lc < 3 then Some (lc\<lparr>lc_timeout := lc_timeout lc + 1\<rparr>) else None)"

lemma post_del_cli_up: "(\<And>s. registry s = registry self \<Longrightarrow> P s) \<Longrightarrow> post (del_cli_up self name) P"
  by (simp add: del_cli_up_def)

lemma post_remove_subscriptions_fields:
  assumes "\<And>n s. \<lbrakk>keys s = keys self; clients s = clients self; next_client s = next_client self;
      lcl_cli_ht s = lcl_cli_ht self; rev_lcl_cli_ht s = rev_lcl_cli_ht self\<rbrakk> \<Longrightarrow> P (n, s)"
  shows "post (remove_subscriptions self sockid) P"
  unfolding remove_subscriptions_def post_simps
  by (rule post_lookup_subscribe_node) (auto intro!: postI assms)

lemma unreg_removes:
  assumes ok: "registry_ok L self" and a: "clients self a = Some lc"
  shows "post (unreg_cli self (lc_sockid lc) (lc_cookie lc))
    (\<lambda>s. registry_ok L s \<and> clients s = (clients self)(a := None))"
proof -
  have inv: "reg_inv L self" using ok by (simp add: registry_ok_def)
  have "post (unreg_cli self (lc_sockid lc) (lc_cookie lc)) (registry_ok L)"
    unfolding unreg_cli_def by (rule reg.I_unreg_cli [OF ok])
  moreover have "post (unreg_cli self (lc_sockid lc) (lc_cookie lc)) (\<lambda>s. clients s = (clients self)(a := None))"
    unfolding unreg_cli_def s_cb_unreg_cli_def has_local_node_exact [OF inv a]
    by (auto simp: get_client_def a registry_def free_client_def
        intro!: post_del_cli_up post_remove_subscriptions_fields post_unlink_clients)
  ultimately show ?thesis by (rule post_conj)
qed

lemma check_client_exact:
  assumes ok: "registry_ok L self" and a: "clients self a = Some lc" and h: "h = client_hash lc"
  shows "post (check_client (h, a) self) (\<lambda>s. registry_ok L s \<and> clients s = (clients self)(a := aged lc))"
proof -
  have c: "cli_ok L (keys self) (clients self) (next_client self) (lcl_cli_ht self) (rev_lcl_cli_ht self)"
    using ok by (simp add: registry_ok_def reg_inv_def)
  have "(h, a) \<in> set (lcl_cli_ht self)" using cli_ok_lcl [OF c a] h by simp
  then show ?thesis
    using reg.tick [OF ok a] unreg_removes [OF ok a] a
    by (simp add: check_client_def get_client_def aged_def)
qed

lemma check_clients_exact:
  assumes "registry_ok L self" "distinct (map snd t)"
    and "\<And>h a. (h, a) \<in> set t \<Longrightarrow> \<exists>lc. clients self a = Some lc \<and> h = client_hash lc"
  shows "post (rfold check_client t self) (\<lambda>s. registry_ok L s \<and>
    clients s = (\<lambda>a. if a \<in> snd ` set t then Option.bind (clients self a) aged else clients self a))"
  using assms
proof (induction t arbitrary: self)
  case Nil
  then show ?case by simp
next
  case (Cons n t)
  obtain h a where n: "n = (h, a)" by (cases n)
  obtain lc where lc: "clients self a = Some lc" "h = client_hash lc" using Cons.prems(3) n by force
  have a: "a \<notin> snd ` set t" using Cons.prems(2) n by simp
  show ?case
    unfolding rfold.simps post_simps n
  proof (rule post_mono [OF check_client_exact [OF Cons.prems(1) lc]])
    fix s assume s: "registry_ok L s \<and> clients s = (clients self)(a := aged lc)"
    have "\<exists>lc. clients s b = Some lc \<and> g = client_hash lc" if "(g, b) \<in> set t" for g b
      using Cons.prems(3) [of g b] that s a by force
    with s Cons.prems(2) have "post (rfold check_client t s) (\<lambda>s'. registry_ok L s' \<and>
        clients s' = (\<lambda>a. if a \<in> snd ` set t then Option.bind (clients s a) aged else clients s a))"
      by (intro Cons.IH) simp_all
    then show "post (rfold check_client t s) (\<lambda>s'. registry_ok L s' \<and>
        clients s' = (\<lambda>b. if b \<in> snd ` set ((h, a) # t) then Option.bind (clients self b) aged else clients self b))"
      by (rule post_mono) (use s a lc in \<open>auto simp: fun_eq_iff\<close>)
  qed
qed

lemma check_cli_clients:
  assumes "registry_ok L self"
  shows "post (s_check_cli_timeout self) (\<lambda>s. registry_ok L s \<and> clients s = (\<lambda>a. Option.bind (clients self a) aged))"
proof -
  have c: "cli_ok L (keys self) (clients self) (next_client self) (lcl_cli_ht self) (rev_lcl_cli_ht self)"
    using assms by (simp add: registry_ok_def reg_inv_def)
  have "post (s_check_cli_timeout self) (\<lambda>s. registry_ok L s \<and>
    clients s = (\<lambda>a. if a \<in> snd ` set (lcl_cli_ht self) then Option.bind (clients self a) aged else clients self a))"
    unfolding s_check_cli_timeout_def
    by (rule check_clients_exact [OF assms cli_okD(1) [OF c]]) (use cli_ok_lcl_dom [OF c] in blast)
  then show ?thesis
    by (rule post_mono) (auto simp: fun_eq_iff cli_okD(3) [OF c] domIff)
qed

text \<open>
  One round of the client check ages every client by one, or removes it from both tables when it has
  been silent for three rounds already, and touches no other client: the walk removes nodes of the table
  it walks on without losing or visiting twice any of them.
\<close>

theorem check_cli_timeout_exact:
  assumes "reg_inv L self" "clash_free self" "s_check_cli_timeout self = Inr self'"
  shows "clients self' a = (case clients self a of None \<Rightarrow> None
      | Some lc \<Rightarrow> if lc_timeout lc < 3 then Some (lc\<lparr>lc_timeout := lc_timeout lc + 1\<rparr>) else None) \<and>
    (clients self' a = None \<longrightarrow> a \<notin> snd ` set (lcl_cli_ht self') \<and> a \<notin> snd ` set (rev_lcl_cli_ht self'))"
proof -
  have "post (s_check_cli_timeout self) (\<lambda>s. registry_ok L s \<and> clients s = (\<lambda>a. Option.bind (clients self a) aged))"
    using assms(1,2) by (intro check_cli_clients) (simp add: registry_ok_def)
  then have s: "registry_ok L self'" "clients self' = (\<lambda>a. Option.bind (clients self a) aged)"
    using assms(3) by simp_all
  then have "cli_ok L (keys self') (clients self') (next_client self') (lcl_cli_ht self') (rev_lcl_cli_ht self')"
    by (simp add: registry_ok_def reg_inv_def)
  then show ?thesis
    using s(2) by (auto simp: cli_okD(3) cli_okD(4) domIff aged_def split: option.split)
qed


section \<open>Silent sockets\<close>

text \<open>
  Every client of socket \<open>k\<close> has been silent for \<open>n\<close> rounds; kept by all that other sockets send.
\<close>

definition silent :: "nat \<Rightarrow> bytes \<Rightarrow> int \<Rightarrow> dd_broker \<Rightarrow> bool" where
  "silent L k n self \<longleftrightarrow> registry_ok L self \<and>
     (\<forall>a lc. clients self a = Some lc \<longrightarrow> lc_sockid lc = k \<longrightarrow> n \<le> lc_timeout lc)"

lemma silent_mono:
  assumes "silent L k n self" "registry_ok L s"
    and "\<And>a lc. clients s a = Some lc \<Longrightarrow> lc_sockid lc = k \<Longrightarrow> \<exists>lc'. clients self a = Some lc' \<and> lc_sockid lc' = k \<and>
      lc_timeout lc' \<le> lc_timeout lc"
  shows "silent L k n s"
  unfolding silent_def
proof (intro conjI allI impI)
  fix a lc assume a: "clients s a = Some lc" "lc_sockid lc = k"
  then obtain lc' where "clients self a = Some lc'" "lc_sockid lc' = k" "lc_timeout lc' \<le> lc_timeout lc"
    using assms(3) by blast
  then show "n \<le> lc_timeout lc" using assms(1) unfolding silent_def by fastforce
qed (rule assms(2))

lemma silent_same: "silent L k n self \<Longrightarrow> registry_ok L s \<Longrightarrow> clients s = clients self \<Longrightarrow> silent L k n s"
  by (auto simp: silent_def)

lemma client_sockid_length: "registry_ok L self \<Longrightarrow> clients self a = Some lc \<Longrightarrow> length (lc_sockid lc) = L"
  using cli_okD(10) [of L "keys self" "clients self" _ _ _ a lc]
  unfolding registry_ok_def reg_inv_def client_ok_def by blast

lemma starts_with_length: "starts_with p s \<Longrightarrow> length p = length s \<Longrightarrow> p = s"
  unfolding starts_with_prefix prefix_def by (elim exE) simp

interpretation silence: table_invariant "silent L k n" "\<lambda>src. length src = L \<and> src \<noteq> k" for L k n
proof unfold_locales
  have ok: "silent L k n self \<Longrightarrow> registry_ok L self" for self by (simp add: silent_def)
  show "silent L k n s" if "silent L k n self" "registry s = registry self" for self s
    using that reg.same [OF ok [OF that(1)] that(2)] by (auto intro: silent_same simp: registry_def)
  show "silent L k n (self\<lparr>clients := (clients self)(a \<mapsto> lc\<lparr>lc_timeout := lc_timeout lc + 1\<rparr>)\<rparr>)"
    if "silent L k n self" "clients self a = Some lc" "lc_timeout lc < 3" for self a lc
    by (rule silent_mono [OF that(1) reg.tick [OF ok [OF that(1)] that(2,3)]]) (use that in \<open>auto split: if_splits\<close>)
  show "silent L k n (touch_client self a)"
    if "silent L k n self" "length sockid = L \<and> sockid \<noteq> k" "clients self a = Some lc"
      "starts_with sockid (lc_sockid lc)" for self sockid a lc
  proof -
    have "lc_sockid lc \<noteq> k"
      using starts_with_length [OF that(4)] client_sockid_length [OF ok [OF that(1)] that(3)] that(2) by metis
    then show ?thesis
      using that reg.touch [OF ok [OF that(1)] _ that(3,4)]
      by (intro silent_mono [OF that(1)]) (auto simp: touch_clients split: if_splits)
  qed
  show "0 \<le> lb_timeout lb" if "silent L k n self" "(h, lb) \<in> set (lcl_br_ht self)" for self h lb
    using reg.br_range [OF ok [OF that(1)] that(2)] .
  show "silent L k n (self\<lparr>lcl_br_ht := ht_replace h lb (lb\<lparr>lb_timeout := t\<rparr>) (lcl_br_ht self)\<rparr>)"
    if "silent L k n self" "0 \<le> t" "t \<le> 3" for self h lb t
    by (rule silent_same [OF that(1) reg.br_timeout [OF ok [OF that(1)] that(2,3)]]) simp
  show "silent L k n (self\<lparr>lcl_br_ht := ht_del h lb (lcl_br_ht self)\<rparr>)" if "silent L k n self" for self h lb
    by (rule silent_same [OF that(1) reg.br_del [OF ok [OF that(1)]]]) simp
  show "silent L k n (self\<lparr>dist_cli_ht := ht_del h dc (dist_cli_ht self)\<rparr>)" if "silent L k n self" for self h dc
    by (rule silent_same [OF that(1) reg.dist_del [OF ok [OF that(1)]]]) simp
  show "silent L k n (hashtable_insert_dist_node X self name sockid dist)"
    if "silent L k n self"
      "\<And>a lc. (prename_hash name, a) \<in> set (rev_lcl_cli_ht self) \<Longrightarrow> clients self a = Some lc \<Longrightarrow>
        \<not> starts_with name (lc_prefix_name lc)"
      "\<And>dc. (name_hash name, dc) \<in> set (dist_cli_ht self) \<Longrightarrow> \<not> starts_with name (dc_name dc)"
    for self name X sockid dist
    by (rule silent_same [OF that(1) reg.insert_dist [OF ok [OF that(1)] that(2,3)]])
      (simp_all add: hashtable_insert_dist_node_def)
  show "post (hashtable_unlink_local_node s (lc_sockid lc) (lc_cookie lc)) (\<lambda>s.
      post (hashtable_unlink_rev_local_node s (lc_prefix_name lc)) (\<lambda>s. silent L k n (free_client s a)))"
    if "silent L k n s" "clients s a = Some lc" for s a lc
  proof -
    have "post (hashtable_unlink_local_node s (lc_sockid lc) (lc_cookie lc)) (\<lambda>s'.
      post (hashtable_unlink_rev_local_node s' (lc_prefix_name lc)) (\<lambda>s'. clients s' = clients s))"
      by (rule post_unlink_clients)
    moreover have "silent L k n (free_client s' a)" if "clients s' = clients s" "registry_ok L (free_client s' a)" for s'
      by (rule silent_mono [OF \<open>silent L k n s\<close> that(2)]) (use that(1) in \<open>auto simp: free_client_def split: if_splits\<close>)
    ultimately show ?thesis
      using reg.drop [OF ok [OF that(1)] that(2)] unfolding post_iff by blast
  qed
  show "post (remove_subscriptions self sockid) (\<lambda>(m, s). silent L k n s \<and> clients s = clients self)"
    if "silent L k n self" for self sockid
    by (rule post_mono [OF reg.remove_subs [OF ok [OF that]]]) (auto intro: silent_same [OF that])
  show "post (remove_subscription self sockid topic) (\<lambda>(m, s). silent L k n s)" if "silent L k n self" for self sockid topic
  proof -
    have "post (remove_subscription self sockid topic) (\<lambda>(m, s). clients s = clients self)"
      unfolding remove_subscription_def post_simps by (rule post_lookup_subscribe_node) (auto intro!: postI)
    then show ?thesis
      using reg.remove_sub [OF ok [OF that]] silent_same [OF that] by (fastforce simp: post_iff)
  qed
  show "post (insert_subscription X self sockid topic) (\<lambda>(m, s). silent L k n s)"
    if "silent L k n self" "length sockid = L \<and> sockid \<noteq> k" for self sockid X topic
  proof -
    have "post (insert_subscription X self sockid topic) (\<lambda>(m, s). clients s = clients self)"
      unfolding insert_subscription_def post_simps by (rule post_lookup_subscribe_node) (auto intro!: postI)
    moreover have "post (insert_subscription X self sockid topic) (\<lambda>(m, s). registry_ok L s)"
      by (rule reg.insert_sub [OF ok [OF that(1)]]) (use that(2) in simp)
    ultimately show ?thesis using silent_same [OF that(1)] by (fastforce simp: post_iff)
  qed
qed


text \<open>The broker has had a message of the socket.\<close>

definition heard :: "bytes \<Rightarrow> input \<Rightarrow> bool" where
  "heard k inp \<longleftrightarrow> (\<exists>rest. inp = On_router (Some (k # rest)))"

definition is_check :: "input \<Rightarrow> bool" where
  "is_check inp \<longleftrightarrow> (\<exists>b. inp = On_timer Check_cli b)"

lemma silent_step:
  assumes s: "silent L k n self" and ok: "input_ok L inp" "\<not> heard k inp" and h: "handle X inp self = Inr self'"
    and cf: "clash_free self'"
  shows "silent L k (if is_check inp then n + 1 else n) self'"
proof -
  have r: "registry_ok L self" using s by (simp add: silent_def)
  then have r': "registry_ok L self'"
    using registry_step [OF _ _ ok(1) h] cf by (simp add: registry_ok_def)
  consider b where "inp = On_timer Check_cli b"
    | source proto cmd rest where "inp = On_router (Some (source # proto # cmd # rest))" "rd32 cmd = Inr DD_CMD_CHALLOK"
    | "\<not> is_check inp" "\<And>source proto cmd rest. inp = On_router (Some (source # proto # cmd # rest)) \<Longrightarrow>
        rd32 cmd \<noteq> Inr DD_CMD_CHALLOK"
    unfolding is_check_def by blast
  then show ?thesis
  proof cases
    case 1
    then have "clients self' = (\<lambda>a. Option.bind (clients self a) aged)"
      using check_cli_clients [OF r] h by (auto simp: handle_def)
    then show ?thesis
      using s r' 1 by (fastforce simp: silent_def is_check_def aged_def bind_eq_Some_conv split: if_splits)
  next
    case 2
    have "post (handle X inp self) (admitted self source rest)"
      using challok_admits [of X self source rest] 2
      by (auto simp: handle_def s_on_router_msg_def post_iff [of "rd32 proto"] router_cmd_def cmd_defs admitted_refl)
    then have ad: "admitted self source rest self'" using h by simp
    have "source \<noteq> k" using ok(2) 2 by (auto simp: heard_def)
    then have "clients self a = Some lc" if "clients self' a = Some lc" "lc_sockid lc = k" for a lc
      using ad that unfolding admitted_def admits_client_def by blast
    then have "silent L k n self'" using silent_mono [OF s r'] by blast
    then show ?thesis using 2 by (simp add: is_check_def)
  next
    case 3
    have "post (handle X inp self) (silent L k n)"
      by (rule silence.I_handle [OF s]) (use 3 ok in \<open>auto simp: input_ok_def heard_def\<close>)
    then show ?thesis using h 3 by simp
  qed
qed


lemma silent_run:
  assumes "broker_run X clash_free self inps self'" "clash_free self'" "silent L k n self"
    and "\<forall>inp\<in>set inps. input_ok L inp \<and> \<not> heard k inp"
  shows "silent L k (n + int (length (filter is_check inps))) self'"
  using assms
proof (induction arbitrary: n)
  case (stop self)
  then show ?case by simp
next
  case (more self inp self1 inps self')
  have "clash_free self1"
    using more.hyps(3) more.prems(1) by (cases rule: broker_run.cases) auto
  moreover have "handle X inp self = Inr self1"
    using more.hyps(2) by (rule broker_stepE)
  ultimately have "silent L k (if is_check inp then n + 1 else n) self1"
    using silent_step [OF more.prems(2)] more.prems(3) by simp
  from more.IH [OF more.prems(1) this] more.prems(3) show ?case
    by (auto simp: algebra_simps split: if_splits)
qed

lemma silent_start:
  assumes "registry_ok L self"
  shows "silent L k 0 self"
  using assms cli_okD(10) [of L "keys self" "clients self"]
  unfolding silent_def registry_ok_def reg_inv_def client_ok_def by blast

text \<open>
  C18. A silent client does not stay: after any run in which the socket \<open>k\<close> sends nothing and the client
  check comes round four times, whatever the other sockets, brokers and timers do in between, no client of
  that socket is registered.
\<close>

theorem silent_socket_removed:
  assumes "reg_inv L self" "clash_free self" "broker_run X clash_free self inps self'" "clash_free self'"
    and "\<forall>inp\<in>set inps. input_ok L inp \<and> \<not> heard k inp" "4 \<le> length (filter is_check inps)"
  shows "\<forall>a lc. clients self' a = Some lc \<longrightarrow> lc_sockid lc \<noteq> k"
proof (intro allI impI notI)
  fix a lc assume a: "clients self' a = Some lc" "lc_sockid lc = k"
  have "silent L k (0 + int (length (filter is_check inps))) self'"
    using assms(1,2) silent_start [of L self k] by (intro silent_run [OF assms(3,4) _ assms(5)]) (simp add: registry_ok_def)
  then have r: "registry_ok L self'" and "4 \<le> lc_timeout lc"
    using a assms(6) unfolding silent_def by fastforce+
  moreover have "lc_timeout lc \<le> 3"
    using r a(1) cli_okD(10) [of L "keys self'" "clients self'" _ _ _ a lc]
    unfolding registry_ok_def reg_inv_def client_ok_def by blast
  ultimately show False by simp
qed


text \<open>At a root without subscriptions the check cannot fail, so that such a run exists.\<close>

definition calm :: "dd_broker \<Rightarrow> bool" where
  "calm self \<longleftrightarrow> state self = DD_STATE_ROOT \<and> subscribe_ht self = [] \<and> timer_set self Check_cli"

lemma unreg_calm:
  assumes "registry_ok L self" "clients self a = Some lc" "calm self"
  shows "unreg_cli self (lc_sockid lc) (lc_cookie lc) = Inr (drop_client self a lc)"
proof -
  have inv: "reg_inv L self" "clash_free self" using assms(1) by (simp_all add: registry_ok_def)
  show ?thesis
    using unlink_both [OF inv assms(2), of "\<lambda>s. Inr (free_client s a)"] has_local_node_exact [OF inv(1) assms(2), of False] assms(2,3)
    by (simp add: unreg_cli_def s_cb_unreg_cli_def get_client_def calm_def del_cli_up_def remove_subscriptions_def
        lookup_subscribe_node_def drop_client_def free_client_def)
qed

lemma check_client_calm:
  assumes "registry_ok L self" "clients self a = Some lc" "calm self"
  shows "\<exists>s. check_client (h, a) self = Inr s \<and> calm s"
  using assms(2,3) unreg_calm [OF assms]
  by (auto simp: check_client_def get_client_def calm_def drop_client_def timer_set_def)

lemma check_clients_calm:
  assumes "registry_ok L self" "calm self" "distinct (map snd t)"
    and "\<And>h a. (h, a) \<in> set t \<Longrightarrow> \<exists>lc. clients self a = Some lc \<and> h = client_hash lc"
  shows "\<exists>s. rfold check_client t self = Inr s \<and> calm s"
  using assms
proof (induction t arbitrary: self)
  case Nil
  then show ?case by simp
next
  case (Cons n t)
  obtain h a where n: "n = (h, a)" by (cases n)
  obtain lc where lc: "clients self a = Some lc" "h = client_hash lc" using Cons.prems(4) n by force
  obtain s where s: "check_client (h, a) self = Inr s" "calm s"
    using check_client_calm [OF Cons.prems(1) lc(1) Cons.prems(2)] by blast
  have e: "registry_ok L s" "clients s = (clients self)(a := aged lc)"
    using check_client_exact [OF Cons.prems(1) lc] s(1) by simp_all
  have "\<exists>lc. clients s b = Some lc \<and> g = client_hash lc" if "(g, b) \<in> set t" for g b
    using Cons.prems(3) Cons.prems(4) [of g b] that e(2) n by force
  then show ?case
    using Cons.IH [OF e(1) s(2)] Cons.prems(3) s(1) n by simp
qed

lemma check_cli_calm:
  assumes "registry_ok L self" "calm self"
  shows "\<exists>s. s_check_cli_timeout self = Inr s \<and> calm s \<and> registry_ok L s"
proof -
  have c: "cli_ok L (keys self) (clients self) (next_client self) (lcl_cli_ht self) (rev_lcl_cli_ht self)"
    using assms(1) by (simp add: registry_ok_def reg_inv_def)
  have "\<exists>s. s_check_cli_timeout self = Inr s \<and> calm s"
    unfolding s_check_cli_timeout_def
    by (rule check_clients_calm [OF assms cli_okD(1) [OF c]]) (use cli_ok_lcl_dom [OF c] in blast)
  then show ?thesis using check_cli_clients [OF assms(1)] by auto
qed

lemma calm_rounds:
  assumes "registry_ok L self" "calm self"
  shows "\<exists>self'. broker_run X clash_free self (replicate m (On_timer Check_cli True)) self' \<and> registry_ok L self'"
  using assms
proof (induction m arbitrary: self)
  case 0
  then show ?case by (auto intro: broker_run.stop)
next
  case (Suc m)
  obtain s where s: "s_check_cli_timeout self = Inr s" "calm s" "registry_ok L s"
    using check_cli_calm [OF Suc.prems] by blast
  have "broker_step X self (On_timer Check_cli True) s"
    using s(1) Suc.prems(2) by (intro broker_step.turn) (simp_all add: handle_def enabled_def calm_def)
  moreover have "clash_free self" using Suc.prems(1) by (simp add: registry_ok_def)
  ultimately show ?case using Suc.IH [OF s(3,2)] by (auto intro: broker_run.more)
qed

lemma ex_busy_calm: "calm ex_busy"
proof -
  have "timer_set ex_root Check_cli" by code_simp
  then show ?thesis by (simp add: calm_def timer_set_def ex_busy_def ex_populate_def ex_root_start ex_root_empty)
qed

lemma silent_socket_removed_witness:
  "(\<exists>a lc. clients ex_busy a = Some lc \<and> lc_sockid lc = ex_sockid 1) \<and>
   (\<exists>self'. broker_run ex_ext clash_free ex_busy (replicate 4 (On_timer Check_cli True)) self' \<and>
     (\<forall>a lc. clients self' a = Some lc \<longrightarrow> lc_sockid lc \<noteq> ex_sockid 1))"
proof
  show "\<exists>a lc. clients ex_busy a = Some lc \<and> lc_sockid lc = ex_sockid 1"
    by (intro exI [of _ 0]) simp
  have "registry_ok 5 ex_busy" using ex_busy_ok by (simp add: registry_ok_def)
  then obtain self' where r: "broker_run ex_ext clash_free ex_busy (replicate 4 (On_timer Check_cli True)) self'"
    "registry_ok 5 self'" using calm_rounds ex_busy_calm by blast
  then have "\<forall>a lc. clients self' a = Some lc \<longrightarrow> lc_sockid lc \<noteq> ex_sockid 1"
    by (intro silent_socket_removed [OF ex_busy_ok r(1)])
      (auto simp: registry_ok_def input_ok_def heard_def is_check_def filter_replicate)
  with r(1) show "\<exists>self'. broker_run ex_ext clash_free ex_busy (replicate 4 (On_timer Check_cli True)) self' \<and>
     (\<forall>a lc. clients self' a = Some lc \<longrightarrow> lc_sockid lc \<noteq> ex_sockid 1)" by blast
qed

lemma check_cli_timeout_exact_witness:
  "\<exists>self'. s_check_cli_timeout ex_busy = Inr self' \<and>
     clients self' 0 = Some (ex_client ''a'' ''x'' 7 1\<lparr>lc_timeout := 2\<rparr>)"
proof -
  obtain self' where s: "s_check_cli_timeout ex_busy = Inr self'"
    using check_cli_calm [of 5, OF _ ex_busy_calm] ex_busy_ok by (auto simp: registry_ok_def)
  then show ?thesis using check_cli_timeout_exact [OF ex_busy_ok s, of 0] by simp
qed


section \<open>One round of the broker check\<close>

lemma ht_del_here: "(h, x) \<notin> set p \<Longrightarrow> ht_del h x (p @ (h, x) # t) = p @ t"
  by (simp add: ht_del_def remove1_append)

lemma ht_replace_here: "(h, x) \<notin> set p \<Longrightarrow> ht_replace h x y (p @ (h, x) # t) = p @ (h, y) # t"
  by (induction p) auto

lemma delete_dist_exact_aux:
  assumes F: "F = (\<lambda>(h, dc) self.
       if dc_broker dc = k then
         rbind (del_cli_up self (dc_name dc)) (\<lambda>self.
           Inr (self\<lparr>dist_cli_ht := ht_del h dc (dist_cli_ht self)\<rparr>))
       else Inr self)"
  shows "dist_cli_ht self = p @ t \<Longrightarrow> \<forall>(h, dc)\<in>set p. dc_broker dc \<noteq> k \<Longrightarrow> post (rfold F t self)
    (\<lambda>s. dist_cli_ht s = p @ filter (\<lambda>(h, dc). dc_broker dc \<noteq> k) t \<and> lcl_br_ht s = lcl_br_ht self)"
proof (induction t arbitrary: self p)
  case Nil
  then show ?case by simp
next
  case (Cons n t)
  obtain h dc where n: "n = (h, dc)" by (cases n)
  show ?case
  proof (cases "dc_broker dc = k")
    case True
    have new: "(h, dc) \<notin> set p" using Cons.prems(2) True by auto
    have "post (rfold F t (s\<lparr>dist_cli_ht := p @ t\<rparr>)) (\<lambda>s'. dist_cli_ht s' = p @ filter (\<lambda>(h, dc). dc_broker dc \<noteq> k) t \<and>
        lcl_br_ht s' = lcl_br_ht self)" if "registry s = registry self" for s
      using Cons.IH [of "s\<lparr>dist_cli_ht := p @ t\<rparr>" p] Cons.prems(2) that by (simp add: registry_def)
    then have "post (F (h, dc) self) (\<lambda>s. post (rfold F t s) (\<lambda>s'. dist_cli_ht s' = p @ filter (\<lambda>(h, dc). dc_broker dc \<noteq> k) t \<and>
        lcl_br_ht s' = lcl_br_ht self))"
      using True Cons.prems(1) new n by (auto simp: F ht_del_here registry_def intro!: post_del_cli_up)
    then show ?thesis using True n by simp
  next
    case False
    then show ?thesis
      using Cons.IH [of self "p @ [(h, dc)]"] Cons.prems n by (simp add: F case_prod_beta)
  qed
qed

lemma delete_dist_exact:
  "post (delete_dist_clients self lb)
    (\<lambda>s. dist_cli_ht s = filter (\<lambda>(h, dc). dc_broker dc \<noteq> lb_sockid lb) (dist_cli_ht self) \<and> lcl_br_ht s = lcl_br_ht self)"
  unfolding delete_dist_clients_def using delete_dist_exact_aux [OF refl, of self "[]"] by simp

definition aged_brs :: "local_broker ht \<Rightarrow> local_broker ht" where
  "aged_brs t = map (\<lambda>(h, lb). (h, lb\<lparr>lb_timeout := lb_timeout lb + 1\<rparr>)) (filter (\<lambda>(h, lb). lb_timeout lb < 3) t)"

definition lost :: "local_broker ht \<Rightarrow> bytes \<Rightarrow> bool" where
  "lost t k \<longleftrightarrow> list_ex (\<lambda>(h, lb). \<not> lb_timeout lb < 3 \<and> lb_sockid lb = k) t"

lemma aged_brs_Cons [simp]:
  "aged_brs ((h, lb) # t) = (if lb_timeout lb < 3 then (h, lb\<lparr>lb_timeout := lb_timeout lb + 1\<rparr>) # aged_brs t else aged_brs t)"
  "aged_brs [] = []"
  by (simp_all add: aged_brs_def)

lemma lost_Cons [simp]: "lost ((h, lb) # t) k \<longleftrightarrow> \<not> lb_timeout lb < 3 \<and> lb_sockid lb = k \<or> lost t k" "\<not> lost [] k"
  by (simp_all add: lost_def)

lemma check_br_aux:
  assumes "lcl_br_ht self = p @ t" "distinct (map (\<lambda>(h, lb). lb_sockid lb) (p @ t))"
  shows "post (rfold check_broker t self) (\<lambda>s. lcl_br_ht s = p @ aged_brs t \<and>
    dist_cli_ht s = filter (\<lambda>(h, dc). \<not> lost t (dc_broker dc)) (dist_cli_ht self))"
  using assms
proof (induction t arbitrary: self p)
  case Nil
  then show ?case by (simp add: case_prod_beta)
next
  case (Cons n t)
  obtain h lb where n: "n = (h, lb)" by (cases n)
  have new: "(h, x) \<notin> set p" if "lb_sockid x = lb_sockid lb" for x
    using Cons.prems(2) n that by force
  show ?case
  proof (cases "lb_timeout lb < 3")
    case True
    let ?lb = "lb\<lparr>lb_timeout := lb_timeout lb + 1\<rparr>"
    have "post (rfold check_broker t (self\<lparr>lcl_br_ht := (p @ [(h, ?lb)]) @ t\<rparr>)) (\<lambda>s. lcl_br_ht s = (p @ [(h, ?lb)]) @ aged_brs t \<and>
      dist_cli_ht s = filter (\<lambda>(h, dc). \<not> lost t (dc_broker dc)) (dist_cli_ht (self\<lparr>lcl_br_ht := (p @ [(h, ?lb)]) @ t\<rparr>)))"
      by (rule Cons.IH) (use Cons.prems(2) n in simp_all)
    then show ?thesis
      using True new [of lb] Cons.prems(1) n by (simp add: check_broker_def [of "(h, lb)"] ht_replace_here)
  next
    case False
    have "post (rfold check_broker t (s\<lparr>lcl_br_ht := ht_del h lb (lcl_br_ht s)\<rparr>)) (\<lambda>s. lcl_br_ht s = p @ aged_brs (n # t) \<and>
        dist_cli_ht s = filter (\<lambda>(h, dc). \<not> lost (n # t) (dc_broker dc)) (dist_cli_ht self))"
      if s: "dist_cli_ht s = filter (\<lambda>(h, dc). dc_broker dc \<noteq> lb_sockid lb) (dist_cli_ht self) \<and> lcl_br_ht s = lcl_br_ht self"
      for s :: dd_broker
    proof -
      let ?s = "s\<lparr>lcl_br_ht := p @ t\<rparr>"
      have "post (rfold check_broker t ?s) (\<lambda>s'. lcl_br_ht s' = p @ aged_brs t \<and>
        dist_cli_ht s' = filter (\<lambda>(h, dc). \<not> lost t (dc_broker dc)) (dist_cli_ht ?s))"
        by (rule Cons.IH) (use Cons.prems(2) n in simp_all)
      moreover have "filter (\<lambda>(h, dc). \<not> lost t (dc_broker dc)) (dist_cli_ht ?s) =
        filter (\<lambda>(h, dc). \<not> lost (n # t) (dc_broker dc)) (dist_cli_ht self)"
        using False s n by (auto intro!: filter_cong)
      moreover have "s\<lparr>lcl_br_ht := ht_del h lb (lcl_br_ht s)\<rparr> = ?s"
        using s Cons.prems(1) n new [of lb] by (simp add: ht_del_here)
      ultimately show ?thesis using False n by simp
    qed
    then have "post (check_broker (h, lb) self) (\<lambda>s. post (rfold check_broker t s) (\<lambda>s. lcl_br_ht s = p @ aged_brs (n # t) \<and>
        dist_cli_ht s = filter (\<lambda>(h, dc). \<not> lost (n # t) (dc_broker dc)) (dist_cli_ht self)))"
      unfolding check_broker_def [of "(h, lb)"] prod.case if_not_P [OF False] post_simps
      by (rule post_mono [OF delete_dist_exact])
    then show ?thesis using n by simp
  qed
qed

text \<open>
  C28. One round of the broker check ages every lower broker by one or, when it has been silent for three
  rounds, removes it together with exactly the clients that were announced through it.
\<close>

theorem check_br_timeout_exact:
  assumes "reg_inv L self" "s_check_br_timeout self = Inr self'"
  shows "lcl_br_ht self' = aged_brs (lcl_br_ht self) \<and>
    dist_cli_ht self' = filter (\<lambda>(h, dc). \<not> lost (lcl_br_ht self) (dc_broker dc)) (dist_cli_ht self)"
proof -
  have "distinct (map (\<lambda>(h, lb). lb_sockid lb) (lcl_br_ht self))"
    using assms(1) by (simp add: reg_inv_def brs_ok_def)
  then show ?thesis
    using check_br_aux [of self "[]" "lcl_br_ht self"] assms(2) by (simp add: s_check_br_timeout_def)
qed

definition ex_lost :: dd_broker where
  "ex_lost = ex_busy\<lparr>lcl_br_ht := [(sockid_cookie_hash (ex_sockid 9) (le64 5), ex_broker\<lparr>lb_timeout := 3\<rparr>)]\<rparr>"

lemma check_br_timeout_exact_witness:
  "\<exists>self'. s_check_br_timeout ex_lost = Inr self' \<and> lcl_br_ht self' = [] \<and> dist_cli_ht self' = []"
proof -
  have b: "lb_sockid ex_broker = ex_sockid 9" "lb_cookie ex_broker = 5" "dc_broker ex_dist = ex_sockid 9"
    by (simp_all add: ex_broker_def ex_dist_def)
  have "reg_inv 5 ex_lost"
    using ex_busy_ok(1) b by (simp add: reg_inv_def ex_lost_def brs_ok_def ex_keys_def)
  moreover have "\<exists>self'. s_check_br_timeout ex_lost = Inr self'"
    by (simp add: s_check_br_timeout_def check_broker_def ex_lost_def delete_dist_clients_def ex_busy_tables del_cli_up_def)
  ultimately show ?thesis
    using check_br_timeout_exact [of 5 ex_lost]
    by (force simp: ex_lost_def ex_busy_tables b)
qed

end
