(* ===== verification/Upstream.thy ===== *)
theory Upstream
  imports Scenario
begin

text \<open>
  The connection to the higher broker as a state machine of its own: three states, the timers that
  move between them, and the proof that the broker's loop refines it.
\<close>

section \<open>What belongs to the connection\<close>

record upstream =
  up_state :: dd_state
  up_timeout :: int
  up_heartbeat :: int
  up_reg :: int
  up_timers :: "(int \<times> nat \<times> timer) list"
  up_count :: nat

definition upstream :: "dd_broker \<Rightarrow> upstream" where
  "upstream self = \<lparr>up_state = state self, up_timeout = timeout self, up_heartbeat = heartbeat_loop self,
     up_reg = reg_loop self, up_timers = timers self, up_count = timer_count self\<rparr>"

lemma upstream_fields [simp]:
  "upstream (emit e self) = upstream self" "upstream (touch_client self a) = upstream self"
  "upstream (free_client self a) = upstream self" "upstream (self\<lparr>dsock := b\<rparr>) = upstream self"
  "upstream (self\<lparr>nonce := n\<rparr>) = upstream self" "upstream (self\<lparr>broker_id := bi\<rparr>) = upstream self"
  "upstream (self\<lparr>topics_trie := trie\<rparr>) = upstream self" "upstream (self\<lparr>clients := cl\<rparr>) = upstream self"
  "upstream (self\<lparr>dist_cli_ht := dt\<rparr>) = upstream self" "upstream (self\<lparr>lcl_br_ht := bt\<rparr>) = upstream self"
  "upstream (self\<lparr>lcl_cli_ht := lt\<rparr>) = upstream self" "upstream (self\<lparr>rev_lcl_cli_ht := rt\<rparr>) = upstream self"
  "upstream (self\<lparr>subscribe_ht := st\<rparr>) = upstream self" "upstream (self\<lparr>next_client := nx\<rparr>) = upstream self"
  "upstream (self\<lparr>topics_trie := trie, subscribe_ht := st\<rparr>) = upstream self"
  "upstream (self\<lparr>clients := cl, next_client := nx, lcl_cli_ht := lt, rev_lcl_cli_ht := rt\<rparr>) = upstream self"
  "upstream (self\<lparr>pub_connect := pc, sub_connect := sc, pubN := b1, subN := b2\<rparr>) = upstream self"
  "upstream (hashtable_insert_dist_node X self name sockid d) = upstream self"
  "upstream (hashtable_insert_local_broker X self sockid c) = upstream self"
  by (simp_all add: upstream_def emit_def touch_client_def free_client_def
      hashtable_insert_dist_node_def hashtable_insert_local_broker_def)

interpretation quiet: handler_invariant "\<lambda>s. upstream s = u" "\<lambda>src. True" for u
proof unfold_locales
  show "post (hashtable_unlink_local_node s (lc_sockid lc) (lc_cookie lc)) (\<lambda>s.
      post (hashtable_unlink_rev_local_node s (lc_prefix_name lc)) (\<lambda>s. upstream (free_client s a) = u))"
    if "upstream s = u" for s a lc
    unfolding hashtable_unlink_local_node_def hashtable_unlink_rev_local_node_def Let_def post_simps
    by (rule post_ht_lookup) (use that in \<open>auto intro!: post_ht_lookup\<close>)
  show "post (remove_subscriptions self sockid) (\<lambda>(n, s). upstream s = u \<and> clients s = clients self)"
    if "upstream self = u" for self sockid
    unfolding remove_subscriptions_def post_simps
    by (rule post_lookup_subscribe_node) (use that in \<open>auto intro!: postI\<close>)
  show "post (remove_subscription self sockid topic) (\<lambda>(n, s). upstream s = u)"
    if "upstream self = u" for self sockid topic
    unfolding remove_subscription_def post_simps
    by (rule post_lookup_subscribe_node) (use that in \<open>auto intro!: postI\<close>)
  show "post (insert_subscription X self sockid topic) (\<lambda>(n, s). upstream s = u)"
    if "upstream self = u" for self sockid X topic
    unfolding insert_subscription_def post_simps
    by (rule post_lookup_subscribe_node) (use that in \<open>auto intro!: postI\<close>)
qed simp_all

lemma quiet_challok: "post (s_cb_challok X self source msg) (\<lambda>s. upstream s = upstream self)"
proof -
  have "post (challok_client X self source ten cookie name) (\<lambda>s. upstream s = upstream self)" for ten cookie name
    unfolding challok_client_def Let_def
    by (auto simp: remote_reg_failed_def add_cli_up_def intro!: post_insert_local_client_raw split: if_splits)
  moreover have "post (challok_broker X self source cookie) (\<lambda>s. upstream s = upstream self)" for cookie
    unfolding challok_broker_def Let_def by (auto intro!: post_has_local_broker)
  ultimately show ?thesis
    unfolding s_cb_challok_def by (auto simp: post_iff [of "rd64 _"] split: prod.split option.split)
qed

lemma quiet_router: "post (s_on_router_msg X self msg) (\<lambda>s. upstream s = upstream self)"
proof (cases "\<exists>source proto cmd rest. msg = Some (source # proto # cmd # rest) \<and> rd32 cmd = Inr DD_CMD_CHALLOK")
  case True
  then show ?thesis
    by (auto simp: s_on_router_msg_def post_iff [of "rd32 _"] router_cmd_def cmd_defs intro: quiet_challok)
next
  case False
  then show ?thesis by (intro quiet.I_router) auto
qed


section \<open>The state machine\<close>

definition up_add_timer :: "ext \<Rightarrow> timer \<Rightarrow> upstream \<Rightarrow> upstream" where
  "up_add_timer X t u =
     u\<lparr>up_timers := up_timers u @ [(timer_id X (up_count u), 1000, t)], up_count := Suc (up_count u)\<rparr>"

definition up_end_timer :: "int \<Rightarrow> upstream \<Rightarrow> upstream" where
  "up_end_timer i u = u\<lparr>up_timers := filter (\<lambda>(j, d, t). j \<noteq> i) (up_timers u)\<rparr>"

text \<open>The higher broker accepts the registration.\<close>

definition up_regok :: "ext \<Rightarrow> upstream \<Rightarrow> upstream" where
  "up_regok X u = (up_add_timer X Heartbeat (up_end_timer (up_reg u) u))
     \<lparr>up_state := DD_STATE_REGISTERED, up_heartbeat := timer_id X (up_count u)\<rparr>"

text \<open>The heartbeat: the fourth without an answer gives the higher broker up.\<close>

definition up_beat :: "ext \<Rightarrow> upstream \<Rightarrow> upstream" where
  "up_beat X u =
     (if up_timeout u < 3 then u\<lparr>up_timeout := up_timeout u + 1\<rparr>
      else (up_add_timer X Register (up_end_timer (up_heartbeat u) u))
        \<lparr>up_state := DD_STATE_ROOT, up_timeout := up_timeout u + 1, up_reg := timer_id X (up_count u)\<rparr>)"

definition is_regok :: "zmsg option \<Rightarrow> bool" where
  "is_regok m = (case m of Some (proto # cmd # rest) \<Rightarrow> rd32 proto = Inr DD_VERSION \<and> rd32 cmd = Inr DD_CMD_REGOK
     | _ \<Rightarrow> False)"

definition up_input :: "ext \<Rightarrow> input \<Rightarrow> upstream \<Rightarrow> upstream" where
  "up_input X inp u =
     (case inp of
        On_dealer m \<Rightarrow> if is_regok m then up_regok X (u\<lparr>up_timeout := 0\<rparr>) else u\<lparr>up_timeout := 0\<rparr>
      | On_timer Heartbeat b \<Rightarrow> up_beat X u
      | _ \<Rightarrow> u)"

lemma upstream_timer:
  "zloop_timer X 1000 t self = (i, s) \<Longrightarrow> i = timer_id X (timer_count self) \<and> upstream s = up_add_timer X t (upstream self)"
  by (auto simp: zloop_timer_def Let_def upstream_def up_add_timer_def)

lemma upstream_end: "upstream (zloop_timer_end i self) = up_end_timer i (upstream self)"
  by (simp add: zloop_timer_end_def upstream_def up_end_timer_def)

lemma upstream_up:
  "up_state (upstream self) = state self" "up_timeout (upstream self) = timeout self"
  "up_heartbeat (upstream self) = heartbeat_loop self" "up_reg (upstream self) = reg_loop self"
  "up_timers (upstream self) = timers self" "up_count (upstream self) = timer_count self"
  "upstream (self\<lparr>state := st\<rparr>) = (upstream self)\<lparr>up_state := st\<rparr>"
  "upstream (self\<lparr>timeout := n\<rparr>) = (upstream self)\<lparr>up_timeout := n\<rparr>"
  "upstream (self\<lparr>heartbeat_loop := i\<rparr>) = (upstream self)\<lparr>up_heartbeat := i\<rparr>"
  "upstream (self\<lparr>reg_loop := i\<rparr>) = (upstream self)\<lparr>up_reg := i\<rparr>"
  by (simp_all add: upstream_def)

lemma regok_refines: "post (s_cb_regok X self msg) (\<lambda>s. upstream s = up_regok X (upstream self))"
proof -
  have c: "post (connect_pubsubN X s) (\<lambda>s'. upstream s' = upstream s)" for s
    unfolding connect_pubsubN_def Let_def by (auto simp: post_iff [of "pubsub_addresses _ _"])
  obtain i s where z: "zloop_timer X 1000 Heartbeat (zloop_timer_end (reg_loop self) (self\<lparr>state := DD_STATE_REGISTERED\<rparr>)) = (i, s)"
    by fastforce
  have "upstream (s\<lparr>heartbeat_loop := i\<rparr>) = up_regok X (upstream self)"
    using upstream_timer [OF z] by (simp add: upstream_up upstream_end up_regok_def up_add_timer_def up_end_timer_def zloop_timer_end_def)
  moreover have "post (announce_clients s) (\<lambda>s'. upstream s' = upstream s)" for s
    by (rule quiet.I_announce [where u = "upstream s"]) simp_all
  ultimately show ?thesis
    unfolding s_cb_regok_def Let_def z
    by (auto simp: post_iff [of "announce_clients _"] post_iff [of "connect_pubsubN _ _"] dest!: c [unfolded post_iff, rule_format])
qed

lemma heartbeat_refines: "post (s_heartbeat X self) (\<lambda>s. upstream s = up_beat X (upstream self))"
  by (simp add: s_heartbeat_def Let_def zloop_timer_def zloop_timer_end_def emit_def upstream_def up_beat_def
      up_add_timer_def up_end_timer_def)

lemma register_refines: "post (s_register X created self) (\<lambda>(rc, s). upstream s = upstream self)"
  unfolding s_register_def Let_def by auto

lemma dealer_refines:
  "post (s_on_dealer_msg X self msg) (\<lambda>s. upstream s = up_input X (On_dealer msg) (upstream self))"
proof -
  have q: "post (dealer_cmd X s cmd rest) (\<lambda>s'. upstream s' = upstream s)" if "cmd \<noteq> DD_CMD_REGOK" for s cmd rest
    by (rule quiet.I_dealer_cmd) (use that in simp_all)
  have r: "post (dealer_cmd X s DD_CMD_REGOK rest) (\<lambda>s'. upstream s' = up_regok X (upstream s))" for s rest
    using regok_refines by (simp add: dealer_cmd_def)
  consider proto cmd rest where "msg = Some (proto # cmd # rest)" | "\<And>proto cmd rest. msg \<noteq> Some (proto # cmd # rest)"
    by blast
  then show ?thesis
  proof cases
    case 1
    have "post (rbind (rd32 cmd) (\<lambda>cmd. dealer_cmd X (self\<lparr>timeout := 0\<rparr>) cmd rest))
        (\<lambda>s. upstream s = (if rd32 cmd = Inr DD_CMD_REGOK then up_regok X (upstream (self\<lparr>timeout := 0\<rparr>))
          else upstream (self\<lparr>timeout := 0\<rparr>)))"
      using q [of _ "self\<lparr>timeout := 0\<rparr>" rest] r [of "self\<lparr>timeout := 0\<rparr>" rest]
      by (cases "rd32 cmd") simp_all
    then show ?thesis
      unfolding 1
      by (cases "rd32 proto"; cases "rd32 cmd"; cases "rd32 cmd = Inr DD_CMD_REGOK")
        (simp_all add: s_on_dealer_msg_def Let_def up_input_def is_regok_def upstream_up)
  next
    case 2
    then show ?thesis
      by (auto simp: s_on_dealer_msg_def up_input_def is_regok_def upstream_up split: option.split list.split)
  qed
qed

lemma refines:
  "handle X inp self = Inr self' \<Longrightarrow> upstream self' = up_input X inp (upstream self)"
proof -
  have "post (handle X inp self) (\<lambda>s. upstream s = up_input X inp (upstream self))"
  proof (cases inp)
    case (On_router m)
    then show ?thesis using quiet_router by (simp add: handle_def up_input_def)
  next
    case (On_dealer m)
    then show ?thesis using dealer_refines by (simp add: handle_def)
  next
    case (On_timer t b)
    then show ?thesis
      using register_refines heartbeat_refines quiet.I_check_cli [of self] quiet.I_check_br [of self]
      by (cases t) (auto simp: handle_def up_input_def intro: post_mono [OF register_refines])
  qed (auto simp: handle_def up_input_def intro!: quiet.I_subN quiet.I_subS quiet.I_pubNS)
  then show "handle X inp self = Inr self' \<Longrightarrow> upstream self' = up_input X inp (upstream self)" by simp
qed


lemma upstream_refines_step: "broker_step X self inp self' \<Longrightarrow> upstream self' = up_input X inp (upstream self)"
  by (elim broker_stepE) (rule refines)

text \<open>
  C19. The broker's loop refines the state machine of its connection: what a turn does to the state, the
  missed heartbeats and the timers is what the machine does on that input, and only messages of the dealer
  socket and the heartbeat timer move it.
\<close>

theorem upstream_refines:
  assumes "handle X inp self = Inr self'"
  shows "upstream self' = up_input X inp (upstream self)"
  by (rule refines [OF assms])

lemma ex_busy_ping:
  "handle ex_ext (On_dealer (Some [le32 DD_VERSION, le32 DD_CMD_PONG])) ex_low = Inr (ex_low\<lparr>timeout := 0\<rparr>)"
  by (simp add: handle_def s_on_dealer_msg_def dealer_cmd_def cmd_defs)

lemma upstream_refines_witness:
  "upstream (ex_low\<lparr>timeout := 0\<rparr>) =
     up_input ex_ext (On_dealer (Some [le32 DD_VERSION, le32 DD_CMD_PONG])) (upstream ex_low)"
  by (rule upstream_refines [OF ex_busy_ping])

section \<open>The broker always has a way back\<close>

text \<open>
  The timers that the connection needs are set: the heartbeat's while registered, the registration's
  otherwise; the two checks of the tables go on in any case.
\<close>

definition timers_ok :: "ext \<Rightarrow> upstream \<Rightarrow> bool" where
  "timers_ok X u \<longleftrightarrow>
     (if up_state u = DD_STATE_REGISTERED then (up_heartbeat u, 1000, Heartbeat) \<in> set (up_timers u)
      else (up_reg u, 1000, Register) \<in> set (up_timers u)) \<and>
     (\<exists>c b. (c, 3000, Check_cli) \<in> set (up_timers u) \<and> (b, 1000, Check_br) \<in> set (up_timers u) \<and>
        c \<notin> {up_reg u, up_heartbeat u} \<and> b \<notin> {up_reg u, up_heartbeat u} \<and>
        (\<exists>k<up_count u. c = timer_id X k) \<and> (\<exists>k<up_count u. b = timer_id X k))"

lemma timers_ok_input:
  assumes ok: "timers_ok X u" and inj: "inj (timer_id X)"
  shows "timers_ok X (up_input X inp u)"
proof -
  have new: "timer_id X k \<noteq> timer_id X (up_count u)" if "k < up_count u" for k
    using inj that by (auto dest: injD)
  have heard: "timers_ok X (u\<lparr>up_timeout := n\<rparr>)" for n
    using ok by (simp add: timers_ok_def)
  have "timers_ok X (up_regok X u)" if "timers_ok X u" "up_count u = m" "\<And>k. k < m \<Longrightarrow> timer_id X k \<noteq> timer_id X m" for u m
    using that unfolding timers_ok_def up_regok_def up_add_timer_def up_end_timer_def
    by (auto simp: less_Suc_eq split: if_splits)
  moreover have "timers_ok X (up_beat X u)"
    using ok new heard unfolding timers_ok_def up_beat_def up_add_timer_def up_end_timer_def
    by (auto simp: less_Suc_eq split: if_splits)
  ultimately show ?thesis
    using ok heard new unfolding up_input_def by (auto split: input.split timer.split)
qed


lemma timers_ok_start:
  assumes "dd_broker_actor X n cf = Inr (Some self)" "cf_dealer_connect cf \<noteq> None"
    and inj: "inj (timer_id X)" and pos: "\<forall>k. 0 \<le> timer_id X k"
  shows "timers_ok X (upstream self)"
proof -
  have "upstream self = \<lparr>up_state = DD_STATE_UNREG, up_timeout = 0, up_heartbeat = - 1, up_reg = timer_id X 0,
    up_timers = [(timer_id X 0, 1000, Register), (timer_id X 1, 3000, Check_cli), (timer_id X 2, 1000, Check_br)], up_count = 3\<rparr>"
    using assms(1,2)
    by (auto simp: dd_broker_actor_def broker_actor_def broker_fresh_def start_pubsub_def zloop_timer_def emit_def Let_def
        rbind_eq_Inr upstream_def numeral_2_eq_2 numeral_3_eq_3 split: if_splits option.splits)
  moreover have "timer_id X i = timer_id X j \<longleftrightarrow> i = j" "timer_id X i \<noteq> - 1" for i j
    using inj pos [rule_format, of i] by (auto dest: injD)
  ultimately show ?thesis
    by (auto simp: timers_ok_def intro: exI [of _ 1] exI [of _ 2])
qed

lemma timers_ok_run:
  "broker_run X C self inps self' \<Longrightarrow> inj (timer_id X) \<Longrightarrow> timers_ok X (upstream self) \<Longrightarrow> timers_ok X (upstream self')"
proof (induction rule: broker_run.induct)
  case (more self inp self' inps self'')
  have "upstream self' = up_input X inp (upstream self)"
    using more.hyps(2) upstream_refines_step by blast
  then show ?case using more timers_ok_input by metis
qed

lemma timers_okD:
  "timers_ok X (upstream self) \<Longrightarrow> timer_set self Check_cli \<and> timer_set self Check_br \<and>
    timer_set self (if state self = DD_STATE_REGISTERED then Heartbeat else Register)"
  by (force simp: timers_ok_def timer_set_def upstream_up split: if_splits)

text \<open>
  C20. A broker that has a higher broker never gets stuck: in every state it reaches, the timer is set
  that makes progress there, the heartbeat while it is registered and the registration while it is not,
  and the two checks of its own clients and brokers go on. The library's timer identifiers are assumed to
  be fresh and not negative.
\<close>

theorem upstream_never_stuck:
  assumes "dd_broker_actor X n cf = Inr (Some self0)" "cf_dealer_connect cf \<noteq> None"
    and "inj (timer_id X)" "\<forall>k. 0 \<le> timer_id X k" "broker_run X C self0 inps self"
  shows "timer_set self (if state self = DD_STATE_REGISTERED then Heartbeat else Register) \<and>
    timer_set self Check_cli \<and> timer_set self Check_br"
  using timers_okD [OF timers_ok_run [OF assms(5,3) timers_ok_start [OF assms(1-4)]]] by blast

lemma upstream_never_stuck_witness:
  "timer_set ex_sub (if state ex_sub = DD_STATE_REGISTERED then Heartbeat else Register) \<and>
    timer_set ex_sub Check_cli \<and> timer_set ex_sub Check_br"
  by (rule upstream_never_stuck [OF ex_sub_starts ex_setups(5) _ _ broker_run.stop])
    (simp_all add: ex_ext_def inj_on_def)

section \<open>Losing the higher broker\<close>

definition is_beat :: "input \<Rightarrow> bool" where
  "is_beat inp \<longleftrightarrow> (\<exists>b. inp = On_timer Heartbeat b)"

definition from_dealer :: "input \<Rightarrow> bool" where
  "from_dealer inp \<longleftrightarrow> (\<exists>m. inp = On_dealer m)"

definition missed :: "nat \<Rightarrow> upstream \<Rightarrow> bool" where
  "missed n u \<longleftrightarrow> up_timeout u = int n \<and> up_state u = (if n < 4 then DD_STATE_REGISTERED else DD_STATE_ROOT)"

lemma missed_input:
  "missed n u \<Longrightarrow> \<not> from_dealer inp \<Longrightarrow> missed (if is_beat inp then Suc n else n) (up_input X inp u)"
  by (auto simp: missed_def from_dealer_def is_beat_def up_input_def up_beat_def up_add_timer_def up_end_timer_def
      split: input.splits timer.splits if_splits)

lemma missed_run:
  "broker_run X C self inps self' \<Longrightarrow> missed n (upstream self) \<Longrightarrow> \<forall>inp\<in>set inps. \<not> from_dealer inp \<Longrightarrow>
   missed (n + length (filter is_beat inps)) (upstream self')"
proof (induction arbitrary: n rule: broker_run.induct)
  case (more self inp self' inps self'')
  have "upstream self' = up_input X inp (upstream self)"
    using more.hyps(2) upstream_refines_step by blast
  then have "missed (if is_beat inp then Suc n else n) (upstream self')"
    using missed_input more.prems by simp
  from more.IH [OF this] more.prems show ?case by (auto split: if_splits)
qed simp

text \<open>
  C21. A registered broker that hears nothing from the higher one gives it up at the fourth heartbeat, not
  before and not later, whatever its clients and lower brokers do meanwhile.
\<close>

theorem higher_broker_lost:
  assumes "state self = DD_STATE_REGISTERED" "timeout self = 0" "broker_run X C self inps self'"
    and "\<forall>inp\<in>set inps. \<not> from_dealer inp"
  shows "state self' = (if length (filter is_beat inps) < 4 then DD_STATE_REGISTERED else DD_STATE_ROOT)"
  using missed_run [OF assms(3) _ assms(4), of 0] assms(1,2) by (simp add: missed_def upstream_up)

section \<open>A second acceptance\<close>

definition leaked :: "ext \<Rightarrow> int \<Rightarrow> upstream \<Rightarrow> bool" where
  "leaked X i u \<longleftrightarrow> (i, 1000, Heartbeat) \<in> set (up_timers u) \<and> i \<noteq> up_heartbeat u \<and> i \<noteq> up_reg u \<and>
     (\<exists>k<up_count u. i = timer_id X k)"

lemma leaked_input:
  assumes "leaked X i u" "inj (timer_id X)"
  shows "leaked X i (up_input X inp u)"
proof -
  have new: "timer_id X k \<noteq> timer_id X (up_count u)" if "k < up_count u" for k
    using assms(2) that by (auto dest: injD)
  show ?thesis
    using assms(1) new
    by (auto simp: leaked_def up_input_def up_regok_def up_beat_def up_add_timer_def up_end_timer_def less_Suc_eq
        split: input.split timer.split)
qed

lemma leaked_run:
  "broker_run X C self inps self' \<Longrightarrow> inj (timer_id X) \<Longrightarrow> leaked X i (upstream self) \<Longrightarrow> leaked X i (upstream self')"
proof (induction rule: broker_run.induct)
  case (more self inp self' inps self'')
  have "upstream self' = up_input X inp (upstream self)"
    using more.hyps(2) upstream_refines_step by blast
  then show ?case using more leaked_input by metis
qed

text \<open>
  C31. A second \<open>REGOK\<close> while registered starts a second heartbeat timer and forgets the identifier of the
  first, which then stays set for as long as the broker runs: it is in neither of the variables through
  which timers are stopped.
\<close>

theorem duplicate_regok_leaks_timer:
  assumes "inj (timer_id X)" "(heartbeat_loop self, 1000, Heartbeat) \<in> set (timers self)"
    and "heartbeat_loop self \<noteq> reg_loop self" "\<exists>k<timer_count self. heartbeat_loop self = timer_id X k"
    and "handle X (On_dealer m) self = Inr self'" "is_regok m" "broker_run X C self' inps self''"
  shows "(heartbeat_loop self, 1000, Heartbeat) \<in> set (timers self'') \<and>
    heartbeat_loop self'' \<noteq> heartbeat_loop self \<and> reg_loop self'' \<noteq> heartbeat_loop self"
proof -
  have "upstream self' = up_regok X (upstream self\<lparr>up_timeout := 0\<rparr>)"
    using refines [OF assms(5)] assms(6) by (simp add: up_input_def)
  moreover have "timer_id X (timer_count self) \<noteq> heartbeat_loop self"
    using assms(1,4) by (metis injD less_irrefl)
  moreover have "\<exists>k<Suc (timer_count self). heartbeat_loop self = timer_id X k"
    using assms(4) less_SucI by blast
  ultimately have "leaked X (heartbeat_loop self) (upstream self')"
    using assms(2,3) by (simp add: leaked_def up_regok_def up_add_timer_def up_end_timer_def upstream_up)
  from leaked_run [OF assms(7,1) this] show ?thesis
    by (auto simp: leaked_def upstream_up)
qed

text \<open>The lower broker of the scenario, some time after it registered.\<close>

definition ex_reg :: dd_broker where
  "ex_reg = ex_low\<lparr>timers := [(1, 3000, Check_cli), (2, 1000, Check_br), (3, 1000, Heartbeat)], timer_count := 4,
     reg_loop := 0, heartbeat_loop := 3, timeout := 0\<rparr>"

lemma ex_reg_regok:
  "\<exists>self'. handle ex_ext (On_dealer (Some [le32 DD_VERSION, le32 DD_CMD_REGOK, le64 5])) ex_reg = Inr self'"
  by (simp add: handle_def s_on_dealer_msg_def dealer_cmd_def s_cb_regok_def Let_def zloop_timer_def zloop_timer_end_def
      announce_clients_def ex_reg_def ex_low_def ex_sub_empty get_client_def add_cli_up_def zsock_send_def sock_open_def emit_def)

lemma duplicate_regok_leaks_timer_witness:
  "\<exists>self'. handle ex_ext (On_dealer (Some [le32 DD_VERSION, le32 DD_CMD_REGOK, le64 5])) ex_reg = Inr self' \<and>
     (3, 1000, Heartbeat) \<in> set (timers self') \<and> heartbeat_loop self' \<noteq> 3"
proof -
  obtain self' where h: "handle ex_ext (On_dealer (Some [le32 DD_VERSION, le32 DD_CMD_REGOK, le64 5])) ex_reg = Inr self'"
    using ex_reg_regok by blast
  have r: "heartbeat_loop ex_reg = 3" "reg_loop ex_reg = 0" "timer_count ex_reg = 4" "(3, 1000, Heartbeat) \<in> set (timers ex_reg)"
    by (simp_all add: ex_reg_def)
  have t: "timer_id ex_ext = int" by (simp add: ex_ext_def)
  have "(heartbeat_loop ex_reg, 1000, Heartbeat) \<in> set (timers self') \<and>
    heartbeat_loop self' \<noteq> heartbeat_loop ex_reg \<and> reg_loop self' \<noteq> heartbeat_loop ex_reg"
    by (rule duplicate_regok_leaks_timer [OF _ _ _ _ h _ broker_run.stop])
      (auto simp: r t is_regok_def intro: exI [of _ 3])
  then show ?thesis using h r by auto
qed

lemma higher_broker_lost_witness:
  "\<exists>self'. broker_run ex_ext (\<lambda>s. True) ex_reg [On_timer Heartbeat True] self' \<and> state self' = DD_STATE_REGISTERED"
proof -
  obtain self' where h: "handle ex_ext (On_timer Heartbeat True) ex_reg = Inr self'"
    by (simp add: handle_def s_heartbeat_def Let_def ex_reg_def zsock_send_def sock_open_def)
  have "broker_step ex_ext ex_reg (On_timer Heartbeat True) self'"
    by (rule broker_step.turn [OF _ h]) (simp add: enabled_def timer_set_def ex_reg_def)
  then have run: "broker_run ex_ext (\<lambda>s. True) ex_reg [On_timer Heartbeat True] self'"
    by (intro broker_run.more [OF _ _ broker_run.stop]) simp_all
  have "state self' = (if length (filter is_beat [On_timer Heartbeat True]) < 4 then DD_STATE_REGISTERED else DD_STATE_ROOT)"
    by (rule higher_broker_lost [OF _ _ run]) (simp_all add: ex_reg_def from_dealer_def)
  with run show ?thesis by (auto simp: is_beat_def)
qed

end
