(* ===== verification/SubList.thy ===== *)
theory SubList
  imports Protocol
begin

text \<open>
  The client's list of subscriptions, \<open>src/src/lib/sublist.c\<close>, on the \<open>zlistx\<close> container of CZMQ as
  its documentation describes it: the items in order and a cursor, which rests on the head of the list
  (position 0) or on an item. The loops of the code start at the item after the cursor, wherever that is.
\<close>

section \<open>The container\<close>

record ddtopic =
  topic :: bytes
  topic_scope :: bytes
  active :: u8

record zlistx =
  zl_items :: "ddtopic list"
  zl_cursor :: nat

definition sublist_new :: zlistx where
  "sublist_new = \<lparr>zl_items = [], zl_cursor = 0\<rparr>"

text \<open>The next item, by its index; past the last one the cursor is back on the head.\<close>

definition zlistx_next :: "zlistx \<Rightarrow> nat option \<times> zlistx" where
  "zlistx_next l =
     (if zl_cursor l < length (zl_items l) then (Some (zl_cursor l), l\<lparr>zl_cursor := Suc (zl_cursor l)\<rparr>)
      else (None, l\<lparr>zl_cursor := 0\<rparr>))"

definition zlistx_first :: "zlistx \<Rightarrow> nat option \<times> zlistx" where
  "zlistx_first l = zlistx_next (l\<lparr>zl_cursor := 0\<rparr>)"

text \<open>A new item becomes the first, and the cursor rests on the head.\<close>

definition zlistx_add_start :: "zlistx \<Rightarrow> ddtopic \<Rightarrow> zlistx" where
  "zlistx_add_start l x = \<lparr>zl_items = x # zl_items l, zl_cursor = 0\<rparr>"

text \<open>The first item that the comparator accepts; the cursor goes there.\<close>

definition zlistx_find :: "(ddtopic \<Rightarrow> bool) \<Rightarrow> zlistx \<Rightarrow> nat option \<times> zlistx" where
  "zlistx_find eq l =
     (let i = length (takeWhile (\<lambda>x. \<not> eq x) (zl_items l)) in
      if i < length (zl_items l) then (Some i, l\<lparr>zl_cursor := Suc i\<rparr>) else (None, l))"

text \<open>Deleting through a handle: a cursor on the item moves to the one before.\<close>

definition zlistx_delete :: "nat \<Rightarrow> zlistx \<Rightarrow> zlistx" where
  "zlistx_delete i l =
     l\<lparr>zl_items := take i (zl_items l) @ drop (Suc i) (zl_items l),
       zl_cursor := (if i < zl_cursor l then zl_cursor l - 1 else zl_cursor l)\<rparr>"

text \<open>\<open>while ((item = zlistx_next (list)))\<close>, with a body that may change the item.\<close>

function zlistx_loop :: "(ddtopic \<Rightarrow> 'a \<Rightarrow> (ddtopic \<times> 'a) res) \<Rightarrow> zlistx \<Rightarrow> 'a \<Rightarrow> (zlistx \<times> 'a) res" where
  "zlistx_loop body l acc =
     (case zlistx_next l of
        (None, l) \<Rightarrow> Inr (l, acc)
      | (Some i, l) \<Rightarrow>
          rbind (body (zl_items l ! i) acc) (\<lambda>(x, acc).
          zlistx_loop body (l\<lparr>zl_items := (zl_items l)[i := x]\<rparr>) acc))"
  by pat_completeness auto

termination
  by (relation "measure (\<lambda>(body, l, acc). length (zl_items l) - zl_cursor l)")
    (auto simp: zlistx_next_def split: if_splits)

declare zlistx_loop.simps [simp del]

section \<open>The operations\<close>

definition sublist_add :: "zlistx \<Rightarrow> bytes \<Rightarrow> bytes \<Rightarrow> u8 \<Rightarrow> zlistx res" where
  "sublist_add l t s act =
     rbind (zlistx_loop (\<lambda>x found. Inr (if topic x = t \<and> topic_scope x = s then (x\<lparr>active := act\<rparr>, True) else (x, found)))
       l False) (\<lambda>(l, found).
     if found then Inr l
     else Inr (zlistx_add_start l \<lparr>topic = t, topic_scope = s, active = act\<rparr>))"

text \<open>
  It passes the item where \<open>zlistx_delete\<close> wants the handle, whose tag that checks; on an empty list it
  reads through NULL.
\<close>

definition sublist_delete_topic :: "zlistx \<Rightarrow> bytes \<Rightarrow> zlistx res" where
  "sublist_delete_topic l t =
     (case zlistx_first l of
        (None, l) \<Rightarrow> Inl Null_deref
      | (Some i, l) \<Rightarrow>
          if topic (zl_items l ! i) = t then Inl Assert_fail
          else rbind (zlistx_loop (\<lambda>x u. if topic x = t then Inl Assert_fail else Inr (x, u)) l ()) (\<lambda>(l, u). Inr l))"

text \<open>The comparator of the list looks at topics only.\<close>

definition s_sublist_cmp :: "ddtopic \<Rightarrow> ddtopic \<Rightarrow> bool" where
  "s_sublist_cmp x y \<longleftrightarrow> topic x = topic y"

definition sublist_delete :: "zlistx \<Rightarrow> bytes \<Rightarrow> bytes \<Rightarrow> int \<times> zlistx" where
  "sublist_delete l t s =
     (case zlistx_find (\<lambda>x. s_sublist_cmp x \<lparr>topic = t, topic_scope = s, active = 0\<rparr>) l of
        (None, l) \<Rightarrow> (- 1, l)
      | (Some i, l) \<Rightarrow> (0, zlistx_delete i l))"

definition sublist_activate :: "zlistx \<Rightarrow> bytes option \<Rightarrow> bytes option \<Rightarrow> zlistx res" where
  "sublist_activate l t s =
     rbind (zlistx_loop (\<lambda>x u.
         rbind (deref_str t) (\<lambda>t.
         if topic x = t then
           rbind (deref_str s) (\<lambda>s. Inr (if topic_scope x = s then x\<lparr>active := 1\<rparr> else x, u))
         else Inr (x, u))) l ()) (\<lambda>(l, u). Inr l)"

definition sublist_deactivate_all :: "zlistx \<Rightarrow> zlistx res" where
  "sublist_deactivate_all l = rbind (zlistx_loop (\<lambda>x u. Inr (x\<lparr>active := 0\<rparr>, u)) l ()) (\<lambda>(l, u). Inr l)"

section \<open>What the loops do\<close>

text \<open>A loop whose body cannot fail visits the items behind the cursor, in order, and ends on the head.\<close>

fun visit :: "(ddtopic \<Rightarrow> 'a \<Rightarrow> ddtopic \<times> 'a) \<Rightarrow> ddtopic list \<Rightarrow> 'a \<Rightarrow> ddtopic list \<times> 'a" where
  "visit f [] acc = ([], acc)"
| "visit f (x # xs) acc = (case f x acc of (y, acc) \<Rightarrow> case visit f xs acc of (ys, acc) \<Rightarrow> (y # ys, acc))"

lemma zlistx_loop_visit:
  assumes "zl_cursor l \<le> length (zl_items l)"
  shows "zlistx_loop (\<lambda>x acc. Inr (f x acc)) l acc =
    (case visit f (drop (zl_cursor l) (zl_items l)) acc of (ys, acc) \<Rightarrow>
      Inr (\<lparr>zl_items = take (zl_cursor l) (zl_items l) @ ys, zl_cursor = 0\<rparr>, acc))"
  using assms
proof (induction "\<lambda>x acc. Inr (f x acc) :: (ddtopic \<times> 'a) res" l acc rule: zlistx_loop.induct)
  case (1 l acc)
  show ?case
  proof (cases "zl_cursor l < length (zl_items l)")
    case False
    then have "zl_cursor l = length (zl_items l)" using 1 by simp
    then show ?thesis by (simp add: zlistx_loop.simps zlistx_next_def)
  next
    case True
    obtain y acc' where y: "f (zl_items l ! zl_cursor l) acc = (y, acc')" by fastforce
    have d: "drop (zl_cursor l) (zl_items l) = zl_items l ! zl_cursor l # drop (Suc (zl_cursor l)) (zl_items l)"
      using True by (simp add: Cons_nth_drop_Suc)
    show ?thesis
      using 1 True y
      by (subst zlistx_loop.simps)
        (simp add: zlistx_next_def d take_Suc_conv_app_nth upd_conv_take_nth_drop split: prod.split)
  qed
qed


section \<open>The list as a map\<close>

text \<open>What the list records: for each topic and scope whether the broker has confirmed them.\<close>

definition sub_map :: "zlistx \<Rightarrow> (bytes \<times> bytes) \<rightharpoonup> u8" where
  "sub_map l = map_of (map (\<lambda>x. ((topic x, topic_scope x), active x)) (zl_items l))"

definition sub_keys :: "zlistx \<Rightarrow> (bytes \<times> bytes) list" where
  "sub_keys l = map (\<lambda>x. (topic x, topic_scope x)) (zl_items l)"

text \<open>Between operations: no entry twice, the cursor on the head.\<close>

definition sublist_ok :: "zlistx \<Rightarrow> bool" where
  "sublist_ok l \<longleftrightarrow> distinct (sub_keys l) \<and> zl_cursor l = 0"

lemma visit_update:
  "visit (\<lambda>x found. if P x then (g x, True) else (x, found)) xs b =
     (map (\<lambda>x. if P x then g x else x) xs, b \<or> list_ex P xs)"
  by (induction xs arbitrary: b) auto

lemma visit_map: "visit (\<lambda>x u. (g x, u)) xs u = (map g xs, u)"
  by (induction xs) auto

lemma visit_map_unit: "visit (\<lambda>x u. (g x, ())) xs () = (map g xs, ())"
  by (induction xs) auto

lemma sublist_add_head:
  assumes "zl_cursor l = 0"
  shows "sublist_add l t s act = Inr
    (if (t, s) \<in> set (sub_keys l)
     then \<lparr>zl_items = map (\<lambda>x. if topic x = t \<and> topic_scope x = s then x\<lparr>active := act\<rparr> else x) (zl_items l), zl_cursor = 0\<rparr>
     else \<lparr>zl_items = \<lparr>topic = t, topic_scope = s, active = act\<rparr> # zl_items l, zl_cursor = 0\<rparr>)"
proof -
  let ?P = "\<lambda>x. topic x = t \<and> topic_scope x = s"
  have ex: "list_ex ?P (zl_items l) \<longleftrightarrow> (t, s) \<in> set (sub_keys l)"
    by (force simp: list_ex_iff sub_keys_def)
  have "map (\<lambda>x. if ?P x then x\<lparr>active := act\<rparr> else x) (zl_items l) = zl_items l" if "(t, s) \<notin> set (sub_keys l)"
    using that by (intro map_idI) (force simp: sub_keys_def)
  then show ?thesis
    using zlistx_loop_visit [of l "\<lambda>x found. if ?P x then (x\<lparr>active := act\<rparr>, True) else (x, found)" False] assms ex
    by (simp add: sublist_add_def visit_update zlistx_add_start_def)
qed

lemma map_of_active:
  "map_of (map (\<lambda>x. ((topic x, topic_scope x), active x))
      (map (\<lambda>x. if topic x = t \<and> topic_scope x = s then x\<lparr>active := act\<rparr> else x) xs)) =
    (if (t, s) \<in> set (map (\<lambda>x. (topic x, topic_scope x)) xs)
     then (map_of (map (\<lambda>x. ((topic x, topic_scope x), active x)) xs))((t, s) \<mapsto> act)
     else map_of (map (\<lambda>x. ((topic x, topic_scope x), active x)) xs))"
  by (induction xs) (auto simp: fun_eq_iff)

text \<open>
  Subscribing updates the list as a map: the entry for the topic and scope takes the given mark,
  every other entry is as it was, and the list stays free of duplicates with its cursor on the head.
\<close>

theorem sublist_add_refines:
  assumes "sublist_ok l"
  shows "\<exists>l'. sublist_add l t s act = Inr l' \<and> sublist_ok l' \<and> sub_map l' = (sub_map l)((t, s) \<mapsto> act)"
proof -
  define m where "m = map (\<lambda>x. if topic x = t \<and> topic_scope x = s then x\<lparr>active := act\<rparr> else x) (zl_items l)"
  have keys: "map (\<lambda>x. (topic x, topic_scope x)) m = sub_keys l"
    by (simp add: m_def sub_keys_def)
  have mp: "map_of (map (\<lambda>x. ((topic x, topic_scope x), active x)) m) = (sub_map l)((t, s) \<mapsto> act)"
    if "(t, s) \<in> set (sub_keys l)"
    using map_of_active [of t s act "zl_items l", folded m_def] that unfolding sub_map_def sub_keys_def by presburger
  have l: "sublist_add l t s act = Inr (if (t, s) \<in> set (sub_keys l) then \<lparr>zl_items = m, zl_cursor = 0\<rparr>
      else \<lparr>zl_items = \<lparr>topic = t, topic_scope = s, active = act\<rparr> # zl_items l, zl_cursor = 0\<rparr>)"
    using sublist_add_head [of l t s act, folded m_def] assms by (simp add: sublist_ok_def)
  show ?thesis
  proof (cases "(t, s) \<in> set (sub_keys l)")
    case True
    then show ?thesis using l mp keys assms by (simp add: sublist_ok_def sub_map_def sub_keys_def)
  next
    case False
    then show ?thesis using l assms by (auto simp: sublist_ok_def sub_map_def sub_keys_def)
  qed
qed

definition ex_subs :: zlistx where
  "ex_subs = \<lparr>zl_items = [\<lparr>topic = [1], topic_scope = [47], active = 1\<rparr>, \<lparr>topic = [2], topic_scope = [47], active = 1\<rparr>,
     \<lparr>topic = [2], topic_scope = [47, 42, 47], active = 1\<rparr>], zl_cursor = 0\<rparr>"

lemma ex_subs_ok: "sublist_ok ex_subs"
  by (simp add: sublist_ok_def ex_subs_def sub_keys_def)

lemma sublist_add_refines_witness:
  "\<exists>l'. sublist_add ex_subs [3] [47] 0 = Inr l' \<and> sublist_ok l' \<and> sub_map l' = (sub_map ex_subs)(([3], [47]) \<mapsto> 0)"
  by (rule sublist_add_refines [OF ex_subs_ok])

text \<open>
  The walks over the list return, wherever an earlier operation left the cursor: they change exactly the items
  behind it, the one that confirms those of its topic and scope, the other all of them, and leave the cursor on the
  head.
\<close>

theorem sublist_walks_return:
  assumes "zl_cursor l \<le> length (zl_items l)"
  shows "sublist_activate l (Some t) (Some s) = Inr \<lparr>zl_items = take (zl_cursor l) (zl_items l) @
      map (\<lambda>x. if topic x = t \<and> topic_scope x = s then x\<lparr>active := 1\<rparr> else x) (drop (zl_cursor l) (zl_items l)), zl_cursor = 0\<rparr> \<and>
    sublist_deactivate_all l = Inr \<lparr>zl_items = take (zl_cursor l) (zl_items l) @
      map (\<lambda>x. x\<lparr>active := 0\<rparr>) (drop (zl_cursor l) (zl_items l)), zl_cursor = 0\<rparr>"
proof -
  have a: "sublist_activate l (Some t) (Some s) = rbind (zlistx_loop (\<lambda>x u. Inr
      (if topic x = t \<and> topic_scope x = s then x\<lparr>active := 1\<rparr> else x, ())) l ()) (\<lambda>(l, u). Inr l)"
    unfolding sublist_activate_def by (intro arg_cong2 [where f = rbind] arg_cong [where f = "\<lambda>f. zlistx_loop f l ()"]) (auto simp: fun_eq_iff)
  show ?thesis
    by (simp add: a sublist_deactivate_all_def zlistx_loop_visit [OF assms] visit_map_unit)
qed

lemma sublist_walks_return_witness:
  "sublist_deactivate_all ex_subs = Inr \<lparr>zl_items = map (\<lambda>x. x\<lparr>active := 0\<rparr>) (zl_items ex_subs), zl_cursor = 0\<rparr>"
  using sublist_walks_return [of ex_subs] by (simp add: ex_subs_def)

text \<open>
  Unsubscribing looks for the topic only: when the topic is subscribed in another scope that is
  listed before, that subscription is dropped from the list and the one that was meant stays.
\<close>

theorem sublist_delete_ignores_scope:
  assumes "zl_items l = xs @ x # ys" "\<forall>z\<in>set xs. topic z \<noteq> t" "topic x = t" "topic_scope x \<noteq> s"
  shows "\<exists>l'. sublist_delete l t s = (0, l') \<and> zl_items l' = xs @ ys \<and> zl_cursor l' = length xs"
proof -
  have "takeWhile (\<lambda>x. topic x \<noteq> t) (zl_items l) = xs"
    using assms(1-3) by (simp add: takeWhile_append2)
  then show ?thesis
    using assms(1,3) by (simp add: sublist_delete_def zlistx_find_def s_sublist_cmp_def zlistx_delete_def Let_def)
qed

lemma sublist_delete_ignores_scope_witness:
  "\<exists>l'. sublist_delete ex_subs [2] [47, 42, 47] = (0, l') \<and> ([2], [47, 42, 47]) \<in> set (sub_keys l') \<and> ([2], [47]) \<notin> set (sub_keys l')"
proof -
  obtain l' where "sublist_delete ex_subs [2] [47, 42, 47] = (0, l')"
    "zl_items l' = [\<lparr>topic = [1], topic_scope = [47], active = 1\<rparr>] @ [\<lparr>topic = [2], topic_scope = [47, 42, 47], active = 1\<rparr>]"
    using sublist_delete_ignores_scope [of ex_subs "[\<lparr>topic = [1], topic_scope = [47], active = 1\<rparr>]"
        "\<lparr>topic = [2], topic_scope = [47], active = 1\<rparr>" "[\<lparr>topic = [2], topic_scope = [47, 42, 47], active = 1\<rparr>]"
        "[2]" "[47, 42, 47]"]
    by (auto simp: ex_subs_def)
  then show ?thesis by (simp add: sub_keys_def)
qed

end
