(* ===== verification/Client.thy ===== *)
theory Client
  imports Broker SubList
begin

text \<open>
  The client library, \<open>src/src/lib/client.c\<close>, run as an actor: one definition per API call, message
  callback and timer. What the client sends, connects and reports is appended to \<open>c_out\<close>; a callback of
  the application is the event with its arguments, which \<open>actor_msg\<close> turns into the message on the pipe.
\<close>

section \<open>State\<close>

text \<open>The keys of a client, from its key file (\<open>struct _dd_keys_t\<close> of keys.c).\<close>

record dd_keys =
  k_ispublic :: bool
  k_hash :: bytes
  k_clients :: "(bytes \<times> bytes) list"
  k_custboxk :: bytes
  k_pubboxk :: bytes
  k_ddboxk :: bytes

datatype ctimer = Ask_registration | Client_heartbeat | Client_ping

datatype cevent =
    CSend "bytes list"
  | CConnect bytes
  | CReader
  | CReader_end
  | CDestroy
  | On_reg
  | On_discon
  | On_data bytes bytes
  | On_pub bytes bytes bytes
  | On_error u32 "bytes option"

text \<open>
  The fields of \<open>struct _dd_t\<close> that the code reads; the cookie and the heartbeat's identifier are not
  set before the first registration. A timer has its identifier, its delay, how often it is to fire (0 for
  ever) and what it does.
\<close>

record dd =
  c_socket :: bool
  c_endpoint :: bytes
  c_name :: bytes
  c_timeout :: int
  c_state :: dd_state
  c_registration_loop :: int
  c_heartbeat_loop :: "int option"
  c_cookie :: "u64 option"
  c_keys :: dd_keys
  c_sublist :: zlistx
  c_nonce :: bytes
  c_timers :: "(int \<times> nat \<times> nat \<times> ctimer) list"
  c_timer_count :: nat
  c_running :: bool
  c_out :: "cevent list"

definition c_emit :: "cevent \<Rightarrow> dd \<Rightarrow> dd" where
  "c_emit e self = self\<lparr>c_out := c_out self @ [e]\<rparr>"

definition c_send :: "bytes list \<Rightarrow> dd \<Rightarrow> dd res" where
  "c_send fs self = (if c_socket self then Inr (c_emit (CSend fs) self) else Inl Assert_fail)"

text \<open>The application's callbacks of an actor: \<open>actor_con\<close>, \<open>actor_discon\<close>, \<open>actor_pub\<close>, \<open>actor_data\<close>, \<open>actor_error\<close>.\<close>

definition actor_msg :: "dd \<Rightarrow> cevent \<Rightarrow> bytes list res" where
  "actor_msg self e =
     (case e of
        On_reg \<Rightarrow> Inr [ascii ''reg'', c_endpoint self]
      | On_discon \<Rightarrow> Inr [ascii ''discon'', c_endpoint self]
      | On_pub source t d \<Rightarrow> Inr [ascii ''pub'', source, t, le32 (of_nat (length d)), d]
      | On_data source d \<Rightarrow> Inr [ascii ''data'', source, le32 (of_nat (length d)), d]
      | On_error code m \<Rightarrow> rbind (deref_str m) (\<lambda>m. Inr [ascii ''error'', m, le32 code])
      | _ \<Rightarrow> Inr [])"

definition c_report :: "cevent \<Rightarrow> dd \<Rightarrow> dd res" where
  "c_report e self = rbind (actor_msg self e) (\<lambda>m. Inr (c_emit e self))"

definition initialised :: "'a option \<Rightarrow> 'a res" where
  "initialised v = (case v of None \<Rightarrow> Inl Uninit_read | Some x \<Rightarrow> Inr x)"

definition c_timer :: "ext \<Rightarrow> nat \<Rightarrow> nat \<Rightarrow> ctimer \<Rightarrow> dd \<Rightarrow> int \<times> dd" where
  "c_timer X delay reps t self =
     (let i = timer_id X (c_timer_count self) in
      (i, self\<lparr>c_timers := c_timers self @ [(i, delay, reps, t)], c_timer_count := Suc (c_timer_count self)\<rparr>))"

definition c_timer_end :: "int \<Rightarrow> dd \<Rightarrow> dd" where
  "c_timer_end i self = self\<lparr>c_timers := filter (\<lambda>(j, d, n, t). j \<noteq> i) (c_timers self)\<rparr>"

section \<open>Subscribing, publishing, sending\<close>

text \<open>One SUB for every item behind the cursor of the list.\<close>

definition sublist_resubscribe :: "dd \<Rightarrow> dd res" where
  "sublist_resubscribe self =
     rbind (zlistx_loop (\<lambda>item self.
         rbind (initialised (c_cookie self)) (\<lambda>cookie.
         rbind (c_send [le32 DD_VERSION, le32 DD_CMD_SUB, le64 cookie, topic item, topic_scope item] self) (\<lambda>self.
         Inr (item, self)))) (c_sublist self) self) (\<lambda>(l, self).
     Inr (self\<lparr>c_sublist := l\<rparr>))"

definition scope_alias :: "bytes \<Rightarrow> bytes" where
  "scope_alias s =
     (if s = ascii ''all'' then ascii ''/''
      else if s = ascii ''region'' then ascii ''/*/''
      else if s = ascii ''cluster'' then ascii ''/*/*/''
      else if s = ascii ''node'' then ascii ''/*/*/*/''
      else if s = ascii ''noscope'' then ascii ''noscope''
      else s)"

definition dd_subscribe :: "dd \<Rightarrow> bytes \<Rightarrow> bytes \<Rightarrow> (int \<times> dd) res" where
  "dd_subscribe self t s =
     (let scopestr = scope_alias s in
      rbind (sublist_add (c_sublist self) t scopestr 0) (\<lambda>l.
      let self = self\<lparr>c_sublist := l\<rparr> in
      if c_state self = DD_STATE_REGISTERED then
        rbind (initialised (c_cookie self)) (\<lambda>cookie.
        rbind (c_send [le32 DD_VERSION, le32 DD_CMD_SUB, le64 cookie, t, scopestr] self) (\<lambda>self. Inr (0, self)))
      else Inr (- 1, self)))"

definition dd_unsubscribe :: "dd \<Rightarrow> bytes \<Rightarrow> bytes \<Rightarrow> (int \<times> dd) res" where
  "dd_unsubscribe self t s =
     (let scopestr = scope_alias s; self = self\<lparr>c_sublist := snd (sublist_delete (c_sublist self) t scopestr)\<rparr> in
      if c_state self = DD_STATE_REGISTERED then
        rbind (initialised (c_cookie self)) (\<lambda>cookie.
        rbind (c_send [le32 DD_VERSION, le32 DD_CMD_UNSUB, le64 cookie, t, scopestr] self) (\<lambda>self. Inr (0, self)))
      else Inr (- 1, self))"

text \<open>The name up to its first dot, when it has one: the tenant it may name.\<close>

definition tenant_part :: "bytes \<Rightarrow> bytes option" where
  "tenant_part s = (if of_char (CHR ''.'') \<in> set s then Some (takeWhile (\<lambda>b. b \<noteq> of_char (CHR ''.'')) s) else None)"

definition tenant_key :: "dd_keys \<Rightarrow> bytes \<Rightarrow> bytes option" where
  "tenant_key ks s = (case tenant_part s of None \<Rightarrow> None | Some ten \<Rightarrow> map_of (k_clients ks) ten)"

text \<open>
  Encrypting \<open>mlen\<close> bytes of the buffer \<open>message\<close> under the next nonce. The frame starts with the nonce.
\<close>

definition encrypt_next :: "ext \<Rightarrow> dd \<Rightarrow> bytes \<Rightarrow> bytes \<Rightarrow> nat \<Rightarrow> (bytes \<times> dd) res" where
  "encrypt_next X self k message mlen =
     (if length message < mlen then Inl Out_of_bounds
      else let n = nonce_increment (c_nonce self) in
        Inr (n @ box_easy X k n (take mlen message), self\<lparr>c_nonce := n\<rparr>))"

text \<open>
  The result is the return value, the topic as the caller finds it afterwards, and the client. When a
  public client publishes to a tenant the code returns with the dot still overwritten.
\<close>

definition dd_publish :: "ext \<Rightarrow> dd \<Rightarrow> bytes \<Rightarrow> bytes \<Rightarrow> nat \<Rightarrow> (int \<times> bytes \<times> dd) res" where
  "dd_publish X self t message mlen =
     (let srcpublic = k_ispublic (c_keys self); dstpublic = starts_with (ascii ''public.'') t in
      if srcpublic \<and> tenant_key (c_keys self) t \<noteq> None then
        Inr (- 1, the (tenant_part t), self)
      else
        let precalck = (if dstpublic then k_pubboxk (c_keys self) else k_custboxk (c_keys self)) in
        rbind (encrypt_next X self precalck message mlen) (\<lambda>(ciphertext, self).
        if c_state self = DD_STATE_REGISTERED then
          rbind (initialised (c_cookie self)) (\<lambda>cookie.
          rbind (c_send [le32 DD_VERSION, le32 DD_CMD_PUB, le64 cookie, t, [], ciphertext] self) (\<lambda>self.
          Inr (0, t, self)))
        else Inr (0, t, self)))"

definition dd_notify :: "ext \<Rightarrow> dd \<Rightarrow> bytes \<Rightarrow> bytes \<Rightarrow> nat \<Rightarrow> (int \<times> dd) res" where
  "dd_notify X self target message mlen =
     (let srcpublic = k_ispublic (c_keys self); dstpublic = starts_with (ascii ''public.'') target;
          tenk = (if srcpublic then tenant_key (c_keys self) target else None);
          precalck = (if dstpublic then k_pubboxk (c_keys self)
                      else case tenk of None \<Rightarrow> k_custboxk (c_keys self) | Some k \<Rightarrow> k) in
      rbind (encrypt_next X self precalck message mlen) (\<lambda>(ciphertext, self).
      if c_state self = DD_STATE_REGISTERED then
        rbind (initialised (c_cookie self)) (\<lambda>cookie.
        rbind (c_send [le32 DD_VERSION, le32 DD_CMD_SEND, le64 cookie, target, ciphertext] self) (\<lambda>self.
        Inr (0, self)))
      else Inr (0, self)))"

section \<open>Timers\<close>

definition s_ping :: "dd \<Rightarrow> dd res" where
  "s_ping self =
     (if c_state self = DD_STATE_REGISTERED then
        rbind (initialised (c_cookie self)) (\<lambda>cookie. c_send [le32 DD_VERSION, le32 DD_CMD_PING, le64 cookie] self)
      else Inr self)"

definition c_heartbeat :: "ext \<Rightarrow> dd \<Rightarrow> dd res" where
  "c_heartbeat X self =
     (let self = self\<lparr>c_timeout := c_timeout self + 1\<rparr> in
      if c_timeout self > 3 then
        case c_timer X 1000 0 Ask_registration (self\<lparr>c_state := DD_STATE_UNREG\<rparr>) of (i, self) \<Rightarrow>
        rbind (initialised (c_heartbeat_loop self)) (\<lambda>hb.
        rbind (sublist_deactivate_all (c_sublist self)) (\<lambda>l.
        c_report On_discon ((c_timer_end hb (self\<lparr>c_registration_loop := i\<rparr>))\<lparr>c_sublist := l\<rparr>)))
      else Inr self)"

text \<open>
  With whether \<open>zsock_new_dealer\<close> returned a socket. When it did not, or cannot be connected, the code
  frees the client and returns -1.
\<close>

definition s_ask_registration :: "ext \<Rightarrow> bool \<Rightarrow> dd \<Rightarrow> dd option res" where
  "s_ask_registration X created self =
     (if c_state self = DD_STATE_UNREG then
        if \<not> c_socket self then Inl Assert_fail
        else
          let self = c_emit CDestroy (c_emit CReader_end (self\<lparr>c_socket := False\<rparr>)) in
          if \<not> created then Inr None
          else
            let self = c_emit (CConnect (c_endpoint self)) (self\<lparr>c_socket := True\<rparr>) in
            if \<not> connect_ok X Dsock (c_endpoint self) then Inr None
            else
              rbind (c_send [le32 DD_VERSION, le32 DD_CMD_ADDLCL, k_hash (c_keys self)] (c_emit CReader self)) (\<lambda>self.
              Inr (Some self))
      else Inr (Some self))"

section \<open>Messages from the broker\<close>

definition cb_regok :: "ext \<Rightarrow> dd \<Rightarrow> zmsg \<Rightarrow> dd res" where
  "cb_regok X self msg =
     (case zmsg_pop msg of
        (None, msg) \<Rightarrow> Inr self
      | (Some cookie_frame, msg) \<Rightarrow>
          rbind (rd64 cookie_frame) (\<lambda>cookie2.
          rbind (c_send [le32 DD_VERSION, le32 DD_CMD_PING, le64 cookie2]
                   (self\<lparr>c_cookie := Some cookie2, c_state := DD_STATE_REGISTERED\<rparr>)) (\<lambda>self.
          case c_timer X 1500 0 Client_heartbeat self of (i, self) \<Rightarrow>
          rbind (sublist_resubscribe (c_timer_end (c_registration_loop self) (self\<lparr>c_heartbeat_loop := Some i\<rparr>))) (c_report On_reg))))"

definition cb_pong :: "ext \<Rightarrow> dd \<Rightarrow> dd" where
  "cb_pong X self = snd (c_timer X 1500 1 Client_ping self)"

text \<open>
  Decrypting a frame that starts with the nonce. A frame shorter than a nonce makes the length wrap around,
  and the library reads past its end.
\<close>

definition decrypt_frame :: "ext \<Rightarrow> bytes \<Rightarrow> bytes option \<Rightarrow> bytes option res" where
  "decrypt_frame X k encrypted =
     rbind (zframe_data encrypted) (\<lambda>data.
     if length data < NONCEBYTES then Inl Out_of_bounds
     else Inr (box_open X k (take NONCEBYTES data) (drop NONCEBYTES data)))"

definition cb_chall :: "ext \<Rightarrow> dd \<Rightarrow> zmsg \<Rightarrow> dd res" where
  "cb_chall X self msg =
     rbind (decrypt_frame X (k_ddboxk (c_keys self)) (fst (zmsg_pop msg))) (\<lambda>r. case r of
       None \<Rightarrow> Inr self
     | Some temp_frame \<Rightarrow>
         c_send [le32 DD_VERSION, le32 DD_CMD_CHALLOK, temp_frame, k_hash (c_keys self), c_name self] self)"

text \<open>The key for a message from \<open>source\<close>.\<close>

definition source_key :: "dd_keys \<Rightarrow> bytes \<Rightarrow> bytes" where
  "source_key ks source =
     (case tenant_key ks source of
        Some k \<Rightarrow> k
      | None \<Rightarrow> if starts_with (ascii ''public.'') source then k_pubboxk ks else k_custboxk ks)"

text \<open>The frame is asked for its data before the source is looked at.\<close>

definition cb_data :: "ext \<Rightarrow> dd \<Rightarrow> zmsg \<Rightarrow> dd res" where
  "cb_data X self msg =
     (case zmsg_popstr msg of (source, msg) \<Rightarrow>
      rbind (zframe_data (fst (zmsg_pop msg))) (\<lambda>data.
      rbind (deref_str source) (\<lambda>source.
      rbind (decrypt_frame X (source_key (c_keys self) source) (Some data)) (\<lambda>r. case r of
        None \<Rightarrow> Inr self
      | Some decrypted \<Rightarrow> c_report (On_data source decrypted) self))))"

definition cb_pub :: "ext \<Rightarrow> dd \<Rightarrow> zmsg \<Rightarrow> dd res" where
  "cb_pub X self msg =
     (case zmsg_popstr msg of (source, msg) \<Rightarrow>
      case zmsg_popstr msg of (tpc, msg) \<Rightarrow>
      rbind (zframe_data (fst (zmsg_pop msg))) (\<lambda>data.
      rbind (deref_str source) (\<lambda>source.
      rbind (deref_str tpc) (\<lambda>tpc.
      rbind (decrypt_frame X (source_key (c_keys self) source) (Some data)) (\<lambda>r. case r of
        None \<Rightarrow> Inr self
      | Some decrypted \<Rightarrow> c_report (On_pub source tpc decrypted) self)))))"

definition cb_subok :: "dd \<Rightarrow> zmsg \<Rightarrow> dd res" where
  "cb_subok self msg =
     (case zmsg_popstr msg of (tpc, msg) \<Rightarrow>
      case zmsg_popstr msg of (sco, msg) \<Rightarrow>
      rbind (sublist_activate (c_sublist self) tpc sco) (\<lambda>l. Inr (self\<lparr>c_sublist := l\<rparr>)))"

definition cb_error :: "dd \<Rightarrow> zmsg \<Rightarrow> dd res" where
  "cb_error self msg =
     (case zmsg_pop msg of
        (None, msg) \<Rightarrow> Inr self
      | (Some code_frame, msg) \<Rightarrow>
          rbind (rd32 code_frame) (\<lambda>error_code.
          c_report (On_error error_code (fst (zmsg_popstr msg))) self))"

text \<open>
  The other commands up to \<open>SUBOK\<close> are logged as unexpected. The message for a command beyond them has a \<open>%s\<close>
  to which no string is passed.
\<close>

definition c_dealer_cmd :: "ext \<Rightarrow> dd \<Rightarrow> u32 \<Rightarrow> zmsg \<Rightarrow> dd res" where
  "c_dealer_cmd X self cmd msg =
     (if cmd = DD_CMD_DATA then cb_data X self msg
      else if cmd = DD_CMD_ERROR then cb_error self msg
      else if cmd = DD_CMD_REGOK then cb_regok X self msg
      else if cmd = DD_CMD_PONG then Inr (cb_pong X self)
      else if cmd = DD_CMD_CHALL then cb_chall X self msg
      else if cmd = DD_CMD_PUB then cb_pub X self msg
      else if cmd = DD_CMD_SUBOK then cb_subok self msg
      else if cmd < DD_CMD_SUBOK then Inr self
      else Inl Out_of_bounds)"

definition c_on_dealer_msg :: "ext \<Rightarrow> dd \<Rightarrow> zmsg option \<Rightarrow> dd res" where
  "c_on_dealer_msg X self msg =
     (let self = self\<lparr>c_timeout := 0\<rparr> in
      case msg of
        Some (proto # cmd # rest) \<Rightarrow>
          rbind (rd32 proto) (\<lambda>pver.
          if pver \<noteq> DD_VERSION then Inr self
          else rbind (rd32 cmd) (\<lambda>cmd. c_dealer_cmd X self cmd rest))
      | _ \<Rightarrow> Inr self)"


section \<open>The pipe and the actor\<close>

text \<open>
  A string popped off the pipe is a buffer of the frame's bytes and a terminator; what is published is as
  many of them as the length frame says, taken as a signed 32-bit number. A negative one is more than any
  buffer holds once it is a size again.
\<close>

definition pipe_message :: "bytes option \<Rightarrow> bytes res" where
  "pipe_message f = (case f of None \<Rightarrow> Inl Null_deref | Some d \<Rightarrow> Inr (d @ [0]))"

definition dd_destroy :: "dd \<Rightarrow> dd res" where
  "dd_destroy self =
     rbind (if c_state self = DD_STATE_REGISTERED then
              rbind (initialised (c_cookie self)) (\<lambda>cookie.
              c_send [le32 DD_VERSION, le32 DD_CMD_UNREG, le64 cookie] self)
            else Inr self) (\<lambda>self.
     Inr (c_emit CDestroy (self\<lparr>c_socket := False, c_running := False\<rparr>)))"

text \<open>The result is what the loop gets back and the client.\<close>

definition s_on_pipe_msg :: "ext \<Rightarrow> dd \<Rightarrow> zmsg \<Rightarrow> (int \<times> dd) res" where
  "s_on_pipe_msg X self msg =
     (case zmsg_popstr msg of (command, msg) \<Rightarrow>
      rbind (deref_str command) (\<lambda>command.
      if command = ascii ''$TERM'' then Inr (- 1, self)
      else if command = ascii ''subscribe'' then
        case zmsg_popstr msg of (t, msg) \<Rightarrow>
        case zmsg_popstr msg of (s, msg) \<Rightarrow>
        rbind (deref_str t) (\<lambda>t. rbind (deref_str s) (\<lambda>s.
        rbind (dd_subscribe self t s) (\<lambda>(r, self). Inr (0, self))))
      else if command = ascii ''unsubscribe'' then
        case zmsg_popstr msg of (t, msg) \<Rightarrow>
        case zmsg_popstr msg of (s, msg) \<Rightarrow>
        rbind (deref_str t) (\<lambda>t. rbind (deref_str s) (\<lambda>s.
        rbind (dd_unsubscribe self t s) (\<lambda>(r, self). Inr (0, self))))
      else if command = ascii ''publish'' then
        case zmsg_popstr msg of (t, msg) \<Rightarrow>
        case zmsg_pop msg of (message, msg) \<Rightarrow>
        rbind (zframe_data (fst (zmsg_pop msg))) (\<lambda>mlen.
        rbind (rd32 mlen) (\<lambda>len.
        rbind (deref_str t) (\<lambda>t.
        rbind (pipe_message message) (\<lambda>message.
        rbind (dd_publish X self t message (unat len)) (\<lambda>(r, t, self). Inr (0, self))))))
      else if command = ascii ''notify'' then
        case zmsg_popstr msg of (target, msg) \<Rightarrow>
        case zmsg_pop msg of (message, msg) \<Rightarrow>
        rbind (zframe_data (fst (zmsg_pop msg))) (\<lambda>mlen.
        rbind (rd32 mlen) (\<lambda>len.
        rbind (deref_str target) (\<lambda>target.
        rbind (pipe_message message) (\<lambda>message.
        rbind (dd_notify X self target message (unat len)) (\<lambda>(r, self). Inr (0, self))))))
      else Inr (0, self)))"

text \<open>
  \<open>ddactor_new\<close> and \<open>dd_actor\<close> up to \<open>zloop_start\<close>: \<open>ks\<close> is what \<open>dd_keys_new\<close> returns, \<open>n\<close> the random
  nonce. When there is no socket or no connection, the structure is torn down before its field for the
  keys was set; without keys the actor ends.
\<close>

definition dd_actor :: "ext \<Rightarrow> bytes \<Rightarrow> bytes \<Rightarrow> dd_keys option \<Rightarrow> bytes \<Rightarrow> bool \<Rightarrow> dd option res" where
  "dd_actor X client_name endpoint ks n created =
     (if \<not> created then Inl Uninit_read
      else if \<not> connect_ok X Dsock endpoint then Inl Uninit_read
      else case ks of
          None \<Rightarrow> Inr None
        | Some ks \<Rightarrow>
            let self = \<lparr>c_socket = True, c_endpoint = endpoint, c_name = client_name, c_timeout = 0,
              c_state = DD_STATE_UNREG, c_registration_loop = 0, c_heartbeat_loop = None, c_cookie = None,
              c_keys = ks, c_sublist = sublist_new, c_nonce = n, c_timers = [], c_timer_count = 0,
              c_running = True, c_out = [CConnect endpoint]\<rparr>
            in case c_timer X 1000 0 Ask_registration self of (i, self) \<Rightarrow>
              Inr (Some (c_emit CReader (self\<lparr>c_registration_loop := i\<rparr>))))"

text \<open>
  One turn of the actor's loop. A callback that returns -1 ends the loop, and the actor destroys the client,
  also when the callback has freed it. A timer that has fired as often as asked for is gone.
\<close>

datatype cinput =
    C_dealer "zmsg option"
  | C_pipe zmsg
  | C_timer int ctimer bool

definition c_fired :: "int \<Rightarrow> ctimer \<Rightarrow> dd \<Rightarrow> dd" where
  "c_fired i t self = (if t = Client_ping then c_timer_end i self else self)"

definition c_handle :: "ext \<Rightarrow> cinput \<Rightarrow> dd \<Rightarrow> dd res" where
  "c_handle X inp self =
     (case inp of
        C_dealer m \<Rightarrow> c_on_dealer_msg X self m
      | C_pipe m \<Rightarrow> rbind (s_on_pipe_msg X self m) (\<lambda>(rc, self). if rc = - 1 then dd_destroy self else Inr self)
      | C_timer i Ask_registration created \<Rightarrow>
          rbind (s_ask_registration X created self) (\<lambda>r. case r of None \<Rightarrow> Inl Use_after_free | Some self \<Rightarrow> Inr self)
      | C_timer i Client_heartbeat created \<Rightarrow> c_heartbeat X self
      | C_timer i Client_ping created \<Rightarrow> rbind (s_ping self) (\<lambda>self. Inr (c_fired i Client_ping self)))"

definition c_enabled :: "dd \<Rightarrow> cinput \<Rightarrow> bool" where
  "c_enabled self inp \<longleftrightarrow> c_running self \<and>
     (case inp of C_dealer m \<Rightarrow> c_socket self | C_pipe m \<Rightarrow> True
      | C_timer i t created \<Rightarrow> list_ex (\<lambda>(j, d, n, u). j = i \<and> u = t) (c_timers self))"

inductive client_step :: "ext \<Rightarrow> dd \<Rightarrow> cinput \<Rightarrow> dd \<Rightarrow> bool" for X where
  c_turn: "c_enabled self inp \<Longrightarrow> c_handle X inp self = Inr self' \<Longrightarrow> client_step X self inp self'"

inductive client_run :: "ext \<Rightarrow> dd \<Rightarrow> cinput list \<Rightarrow> dd \<Rightarrow> bool" for X where
  c_stop: "client_run X self [] self"
| c_more: "client_step X self inp self' \<Longrightarrow> client_run X self' inps self'' \<Longrightarrow> client_run X self (inp # inps) self''"

inductive_cases client_stepE [elim]: "client_step X self inp self'"
inductive_cases client_run_NilE [elim]: "client_run X self [] self'"
inductive_cases client_run_ConsE [elim]: "client_run X self (inp # inps) self'"

end
