(* ===== verification/ClientProps.thy ===== *)
theory ClientProps
  imports Client Scenario
begin

text \<open>
  What a client keeps in every reachable state: which timer runs, that the cookie and the socket are there when they
  are needed, and the only reason for which a callback of it can be undefined.
\<close>

section \<open>The client's state\<close>

text \<open>
  Kept by every turn: the registration timer is set while the client is not registered, the heartbeat while
  it is, and nothing that is needed in a state is unset there.
\<close>

definition c_ids :: "dd \<Rightarrow> int list" where
  "c_ids self = map fst (c_timers self)"

definition c_ok :: "ext \<Rightarrow> dd \<Rightarrow> bool" where
  "c_ok X self \<longleftrightarrow>
     c_state self \<in> {DD_STATE_UNREG, DD_STATE_REGISTERED} \<and> c_socket self = c_running self \<and>
     zl_cursor (c_sublist self) \<le> length (zl_items (c_sublist self)) \<and>
     distinct (c_ids self) \<and> set (c_ids self) \<subseteq> timer_id X ` {..<c_timer_count self} \<and>
     c_registration_loop self \<in> timer_id X ` {..<c_timer_count self} \<and>
     (\<forall>hb. c_heartbeat_loop self = Some hb \<longrightarrow> hb \<in> timer_id X ` {..<c_timer_count self}) \<and>
     (\<forall>i d n. (i, d, n, Client_heartbeat) \<in> set (c_timers self) \<longrightarrow> c_heartbeat_loop self \<noteq> None) \<and>
     (c_state self = DD_STATE_UNREG \<longrightarrow> (c_registration_loop self, 1000, 0, Ask_registration) \<in> set (c_timers self)) \<and>
     (c_state self = DD_STATE_REGISTERED \<longrightarrow> c_cookie self \<noteq> None \<and>
        (\<exists>hb. c_heartbeat_loop self = Some hb \<and> (hb, 1500, 0, Client_heartbeat) \<in> set (c_timers self)))"

lemma fresh_id: "inj (timer_id X) \<Longrightarrow> timer_id X n \<notin> timer_id X ` {..<n}"
  by (auto dest: injD)

lemma c_timer_simps:
  assumes "c_timer X delay reps t self = (i, s)"
  shows "i = timer_id X (c_timer_count self)"
    "s = self\<lparr>c_timers := c_timers self @ [(i, delay, reps, t)], c_timer_count := Suc (c_timer_count self)\<rparr>"
  using assms by (auto simp: c_timer_def Let_def)


lemma c_emit_fields [simp]:
  "c_timers (c_emit e self) = c_timers self" "c_timer_count (c_emit e self) = c_timer_count self"
  "c_state (c_emit e self) = c_state self" "c_socket (c_emit e self) = c_socket self"
  "c_running (c_emit e self) = c_running self" "c_sublist (c_emit e self) = c_sublist self"
  "c_cookie (c_emit e self) = c_cookie self" "c_heartbeat_loop (c_emit e self) = c_heartbeat_loop self"
  "c_registration_loop (c_emit e self) = c_registration_loop self" "c_keys (c_emit e self) = c_keys self"
  "c_nonce (c_emit e self) = c_nonce self" "c_endpoint (c_emit e self) = c_endpoint self" "c_name (c_emit e self) = c_name self"
  by (simp_all add: c_emit_def)

lemma c_ok_emit [simp]: "c_ok X (c_emit e self) = c_ok X self"
  by (simp add: c_ok_def c_ids_def)

lemma c_ok_fields [simp]:
  "c_ok X (self\<lparr>c_timeout := n\<rparr>) = c_ok X self" "c_ok X (self\<lparr>c_nonce := nn\<rparr>) = c_ok X self"
  by (simp_all add: c_ok_def c_ids_def)

lemma c_ok_sublist:
  "c_ok X self \<Longrightarrow> zl_cursor l \<le> length (zl_items l) \<Longrightarrow> c_ok X (self\<lparr>c_sublist := l\<rparr>)"
  by (simp add: c_ok_def c_ids_def)

text \<open>A result that is not the read of a variable that was never set, and that satisfies \<open>P\<close> when there is one.\<close>

definition defined :: "'a res \<Rightarrow> ('a \<Rightarrow> bool) \<Rightarrow> bool" where
  "defined r P \<longleftrightarrow> (case r of Inl e \<Rightarrow> e \<noteq> Uninit_read | Inr x \<Rightarrow> P x)"

lemma defined_simps [simp]:
  "defined (Inl e) P \<longleftrightarrow> e \<noteq> Uninit_read" "defined (Inr x) P \<longleftrightarrow> P x"
  "defined (rbind r f) P \<longleftrightarrow> defined r (\<lambda>x. defined (f x) P)"
  by (simp_all add: defined_def rbind_def split: sum.split)

lemma defined_case [simp]:
  "defined (case p of (a, b) \<Rightarrow> f a b) P \<longleftrightarrow> (case p of (a, b) \<Rightarrow> defined (f a b) P)"
  "defined (case r of None \<Rightarrow> m | Some a \<Rightarrow> g a) P \<longleftrightarrow> (case r of None \<Rightarrow> defined m P | Some a \<Rightarrow> defined (g a) P)"
  by (simp_all split: prod.split option.split)

lemma defined_mono: "defined r P \<Longrightarrow> (\<And>x. P x \<Longrightarrow> Q x) \<Longrightarrow> defined r Q"
  by (auto simp: defined_def split: sum.splits)

lemma defined_reads:
  "(\<And>x. P x) \<Longrightarrow> defined (rd32 f) P" "(\<And>x. P' x) \<Longrightarrow> defined (rd64 f) P'"
  "(\<And>x. Q x) \<Longrightarrow> defined (deref_str s) Q" "(\<And>x. Q' x) \<Longrightarrow> defined (zframe_data s') Q'"
  by (auto simp: rd32_def rd64_def deref_str_def zframe_data_def split: option.split)

lemma defined_send: "(\<And>e. P (c_emit e self)) \<Longrightarrow> defined (c_send fs self) P"
  by (simp add: c_send_def)

lemma defined_report: "(\<And>e. P (c_emit e self)) \<Longrightarrow> defined (c_report e self) P"
  by (cases e) (simp_all add: c_report_def actor_msg_def deref_str_def split: option.split)

lemma defined_initialised: "v \<noteq> None \<Longrightarrow> (\<And>x. v = Some x \<Longrightarrow> P x) \<Longrightarrow> defined (initialised v) P"
  by (cases v) (simp_all add: initialised_def)

lemma defined_loop:
  assumes "zl_cursor l \<le> length (zl_items l)" "I acc"
    and "\<And>x acc. I acc \<Longrightarrow> defined (body x acc) (\<lambda>(y, acc). I acc)"
  shows "defined (zlistx_loop body l acc) (\<lambda>(l', acc). zl_cursor l' = 0 \<and> length (zl_items l') = length (zl_items l) \<and> I acc)"
  using assms
proof (induction "length (zl_items l) - zl_cursor l" arbitrary: l acc rule: less_induct)
  case less
  show ?case
  proof (cases "zl_cursor l < length (zl_items l)")
    case False
    then show ?thesis using less.prems by (subst zlistx_loop.simps) (simp add: zlistx_next_def)
  next
    case True
    let ?l = "\<lambda>y. l\<lparr>zl_cursor := Suc (zl_cursor l), zl_items := (zl_items l)[zl_cursor l := y]\<rparr>"
    have "defined (zlistx_loop body (?l y) acc') (\<lambda>(l', acc). zl_cursor l' = 0 \<and> length (zl_items l') = length (zl_items l) \<and> I acc)"
      if "I acc'" for acc' y
      using less.hyps [of "?l y" acc'] True that less.prems(3) by simp
    then have "defined (body (zl_items l ! zl_cursor l) acc) (\<lambda>(y, acc'). defined (zlistx_loop body (?l y) acc')
        (\<lambda>(l', acc). zl_cursor l' = 0 \<and> length (zl_items l') = length (zl_items l) \<and> I acc))"
      by (intro defined_mono [OF less.prems(3) [OF less.prems(2)]]) (simp add: split_beta)
    then show ?thesis
      by (subst zlistx_loop.simps) (simp add: zlistx_next_def True)
  qed
qed

lemma loop_ok:
  assumes "zl_cursor l \<le> length (zl_items l)" "\<And>x acc. defined (body x acc) (\<lambda>(y, acc). True)"
    "\<And>l' acc. zl_cursor l' \<le> length (zl_items l') \<Longrightarrow> P (l', acc)"
  shows "defined (zlistx_loop body l acc) P"
  by (rule defined_mono [OF defined_loop [OF assms(1), of "\<lambda>acc. True"]]) (use assms(2,3) in auto)

lemma sublist_add_cursor:
  assumes "zl_cursor l \<le> length (zl_items l)" "\<And>l'. zl_cursor l' \<le> length (zl_items l') \<Longrightarrow> P l'"
  shows "defined (sublist_add l t s act) P"
  unfolding sublist_add_def defined_simps
  by (rule loop_ok [OF assms(1)]) (auto simp: zlistx_add_start_def intro!: assms(2))

lemma sublist_activate_cursor:
  assumes "zl_cursor l \<le> length (zl_items l)" "\<And>l'. zl_cursor l' \<le> length (zl_items l') \<Longrightarrow> P l'"
  shows "defined (sublist_activate l t s) P"
  unfolding sublist_activate_def defined_simps
  by (rule loop_ok [OF assms(1)]) (auto intro!: assms(2) defined_reads)

lemma sublist_deactivate_cursor:
  assumes "zl_cursor l \<le> length (zl_items l)" "\<And>l'. zl_cursor l' \<le> length (zl_items l') \<Longrightarrow> P l'"
  shows "defined (sublist_deactivate_all l) P"
  unfolding sublist_deactivate_all_def defined_simps
  by (rule loop_ok [OF assms(1)]) (auto intro!: assms(2))

lemma sublist_delete_cursor:
  "zl_cursor l \<le> length (zl_items l) \<Longrightarrow>
   zl_cursor (snd (sublist_delete l t s)) \<le> length (zl_items (snd (sublist_delete l t s)))"
  by (auto simp: sublist_delete_def zlistx_find_def zlistx_delete_def Let_def)

text \<open>Replaying the subscriptions only sends.\<close>

definition sends_from :: "dd \<Rightarrow> dd \<Rightarrow> bool" where
  "sends_from self s \<longleftrightarrow> (\<exists>l out. s = self\<lparr>c_out := out, c_sublist := l\<rparr> \<and> zl_cursor l \<le> length (zl_items l))"

lemma resubscribe_sends:
  assumes "zl_cursor (c_sublist self) \<le> length (zl_items (c_sublist self))" "c_cookie self \<noteq> None"
  shows "defined (sublist_resubscribe self) (sends_from self)"
proof -
  let ?I = "\<lambda>s. \<exists>out. s = self\<lparr>c_out := out\<rparr>"
  have "defined (zlistx_loop (\<lambda>item self.
         rbind (initialised (c_cookie self)) (\<lambda>cookie.
         rbind (c_send [le32 DD_VERSION, le32 DD_CMD_SUB, le64 cookie, topic item, topic_scope item] self) (\<lambda>self.
         Inr (item, self)))) (c_sublist self) self)
      (\<lambda>(l', s). zl_cursor l' = 0 \<and> length (zl_items l') = length (zl_items (c_sublist self)) \<and> ?I s)"
  proof (rule defined_loop [OF assms(1)])
    show "?I self" by (rule exI [of _ "c_out self"]) simp
  qed (use assms(2) in \<open>auto simp: c_emit_def intro!: defined_send defined_initialised\<close>)
  then show ?thesis
    unfolding sublist_resubscribe_def defined_simps
    by (rule defined_mono) (fastforce simp: sends_from_def)
qed


lemma ids_add_timer:
  assumes "c_ok X self" "inj (timer_id X)" "i = timer_id X (c_timer_count self)"
  shows "distinct (map fst (c_timers self @ [(i, d, n, t)]))"
    "set (map fst (c_timers self @ [(i, d, n, t)])) \<subseteq> timer_id X ` {..<Suc (c_timer_count self)}"
    "i \<noteq> c_registration_loop self" "c_heartbeat_loop self \<noteq> Some i"
    "(j, d', n', t') \<in> set (c_timers self) \<Longrightarrow> j \<noteq> i"
proof -
  have i: "i \<notin> timer_id X ` {..<c_timer_count self}" using fresh_id [OF assms(2), of "c_timer_count self"] assms(3) by simp
  have l: "timer_id X ` {..<Suc (c_timer_count self)} = insert i (timer_id X ` {..<c_timer_count self})"
    using assms(3) by (simp add: lessThan_Suc)
  have ids: "distinct (c_ids self)" "set (c_ids self) \<subseteq> timer_id X ` {..<c_timer_count self}"
    using assms(1) by (simp_all add: c_ok_def)
  show "distinct (map fst (c_timers self @ [(i, d, n, t)]))"
    using i ids by (simp add: c_ids_def) blast
  show "set (map fst (c_timers self @ [(i, d, n, t)])) \<subseteq> timer_id X ` {..<Suc (c_timer_count self)}"
    using ids(2) unfolding l by (simp add: c_ids_def) blast
  show "i \<noteq> c_registration_loop self" "c_heartbeat_loop self \<noteq> Some i"
    using i assms(1) unfolding c_ok_def by blast+
  show "j \<noteq> i" if "(j, d', n', t') \<in> set (c_timers self)"
    using i ids(2) that by (force simp: c_ids_def)
qed

lemma c_ok_filter:
  assumes "distinct (map fst ts)" "set (map fst ts) \<subseteq> A"
  shows "distinct (map fst (filter P ts))" "set (map fst (filter P ts)) \<subseteq> A"
  using assms by (auto simp: distinct_map_filter)

lemma c_ok_regok:
  assumes ok: "c_ok X self" and inj: "inj (timer_id X)" and i: "i = timer_id X (c_timer_count self)"
  shows "c_ok X (self\<lparr>c_cookie := Some ck, c_state := DD_STATE_REGISTERED,
      c_timers := filter (\<lambda>(j, d, n, t). j \<noteq> c_registration_loop self) (c_timers self @ [(i, 1500, 0, Client_heartbeat)]),
      c_timer_count := Suc (c_timer_count self), c_heartbeat_loop := Some i\<rparr>)"
proof -
  note new = ids_add_timer [OF ok inj i]
  have "timer_id X ` {..<Suc (c_timer_count self)} = insert i (timer_id X ` {..<c_timer_count self})"
    using i by (simp add: lessThan_Suc)
  then show ?thesis
    using ok new(3) c_ok_filter [OF new(1,2) [of 1500 0 Client_heartbeat], of "\<lambda>(j, d, n, t). j \<noteq> c_registration_loop self"]
    unfolding c_ok_def c_ids_def by auto
qed

lemma c_ok_lost:
  assumes ok: "c_ok X self" and inj: "inj (timer_id X)" and i: "i = timer_id X (c_timer_count self)"
    and hb: "c_heartbeat_loop self = Some hb"
  shows "c_ok X (self\<lparr>c_state := DD_STATE_UNREG,
      c_timers := filter (\<lambda>(j, d, n, t). j \<noteq> hb) (c_timers self @ [(i, 1000, 0, Ask_registration)]),
      c_timer_count := Suc (c_timer_count self), c_registration_loop := i\<rparr>)"
proof -
  note new = ids_add_timer [OF ok inj i]
  have "timer_id X ` {..<Suc (c_timer_count self)} = insert i (timer_id X ` {..<c_timer_count self})"
    using i by (simp add: lessThan_Suc)
  then show ?thesis
    using ok new(4) hb c_ok_filter [OF new(1,2) [of 1000 0 Ask_registration], of "\<lambda>(j, d, n, t). j \<noteq> hb"]
    unfolding c_ok_def c_ids_def by auto
qed

lemma c_ok_pong:
  assumes ok: "c_ok X self" and inj: "inj (timer_id X)"
  shows "c_ok X (cb_pong X self)"
  using ok ids_add_timer(1,2) [OF ok inj refl, of 1500 1 Client_ping]
  unfolding cb_pong_def c_timer_def Let_def c_ok_def c_ids_def by (auto simp: lessThan_Suc)

lemma distinct_timer: "distinct (map fst ts) \<Longrightarrow> (i, x) \<in> set ts \<Longrightarrow> (i, y) \<in> set ts \<Longrightarrow> x = y"
  by (metis eq_key_imp_eq_value)

lemma c_ok_timers:
  assumes ok: "c_ok X self" and sub: "set ts \<subseteq> set (c_timers self)" "distinct (map fst ts)"
    and keep: "\<And>j e m t. (j, e, m, t) \<in> set (c_timers self) \<Longrightarrow> t \<noteq> Client_ping \<Longrightarrow> (j, e, m, t) \<in> set ts"
  shows "c_ok X (self\<lparr>c_timers := ts\<rparr>)"
proof -
  have "set (map fst ts) \<subseteq> timer_id X ` {..<c_timer_count self}"
    using sub(1) ok unfolding c_ok_def c_ids_def set_map by (meson image_mono subset_trans)
  moreover have "(j, e, m, Client_heartbeat) \<in> set ts \<Longrightarrow> (j, e, m, Client_heartbeat) \<in> set (c_timers self)" for j e m
    using sub(1) by blast
  moreover have "(j, e, m, Ask_registration) \<in> set (c_timers self) \<Longrightarrow> (j, e, m, Ask_registration) \<in> set ts"
    "(j, e, m, Client_heartbeat) \<in> set (c_timers self) \<Longrightarrow> (j, e, m, Client_heartbeat) \<in> set ts" for j e m
    using keep by simp_all
  ultimately show ?thesis
    using ok sub(2) unfolding c_ok_def c_ids_def by simp metis
qed

lemma c_ok_fired:
  assumes ok: "c_ok X self" and p: "(i, d, n, Client_ping) \<in> set (c_timers self)"
  shows "c_ok X (c_fired i Client_ping self)"
proof -
  have ids: "distinct (map fst (c_timers self))"
    using ok by (simp add: c_ok_def c_ids_def)
  have "(j, e, m, t) \<in> set (filter (\<lambda>(j, d, n, t). j \<noteq> i) (c_timers self))"
    if "(j, e, m, t) \<in> set (c_timers self)" "t \<noteq> Client_ping" for j e m t
    using distinct_timer [OF ids p, of "(e, m, t)"] that by auto
  then have "c_ok X (self\<lparr>c_timers := filter (\<lambda>(j, d, n, t). j \<noteq> i) (c_timers self)\<rparr>)"
    by (intro c_ok_timers [OF ok]) (auto simp: distinct_map_filter ids)
  then show ?thesis by (simp add: c_fired_def c_timer_end_def)
qed


text \<open>Every callback keeps the invariant and reads nothing unset.\<close>

abbreviation keeps :: "ext \<Rightarrow> dd res \<Rightarrow> bool" where
  "keeps X r \<equiv> defined r (c_ok X)"

lemma c_ok_cookie: "c_ok X self \<Longrightarrow> c_state self = DD_STATE_REGISTERED \<Longrightarrow> c_cookie self \<noteq> None"
  by (simp add: c_ok_def)

lemma c_ok_cursor: "c_ok X self \<Longrightarrow> zl_cursor (c_sublist self) \<le> length (zl_items (c_sublist self))"
  by (simp add: c_ok_def)

lemma c_ok_sends_from: "c_ok X self \<Longrightarrow> sends_from self s \<Longrightarrow> c_ok X s"
  unfolding sends_from_def by (elim exE conjE) (simp add: c_ok_def c_ids_def)

lemma keeps_regok:
  assumes "c_ok X self" "inj (timer_id X)"
  shows "keeps X (cb_regok X self msg)"
proof -
  let ?s = "\<lambda>ck e. c_emit e (self\<lparr>c_cookie := Some ck, c_state := DD_STATE_REGISTERED\<rparr>)"
  have K: "defined (sublist_resubscribe (c_timer_end (c_registration_loop s) (s\<lparr>c_heartbeat_loop := Some i\<rparr>)))
      (\<lambda>x. keeps X (c_report On_reg x))" if Pair: "c_timer X 1500 0 Client_heartbeat (?s ck e) = (i, s)" for ck e i s
  proof -
    note t = c_timer_simps [OF Pair]
    let ?u = "c_timer_end (c_registration_loop s) (s\<lparr>c_heartbeat_loop := Some i\<rparr>)"
    have i: "i = timer_id X (c_timer_count self)" using t(1) by simp
    have ok: "c_ok X ?u"
      using c_ok_regok [OF assms i, of ck] unfolding t(2)
      by (simp add: c_timer_end_def c_ok_def c_ids_def c_emit_def)
    have "c_cookie ?u \<noteq> None" by (simp add: t(2) c_timer_end_def)
    then have "defined (sublist_resubscribe ?u) (sends_from ?u)"
      using resubscribe_sends c_ok_cursor [OF ok] by blast
    then show ?thesis
      by (rule defined_mono) (auto intro!: defined_report dest: c_ok_sends_from [OF ok])
  qed
  show ?thesis
    using assms(1) unfolding cb_regok_def
    by (auto split: prod.split option.split intro!: defined_reads defined_send K)
qed

lemma keeps_heartbeat:
  assumes "c_ok X self" "inj (timer_id X)" "c_heartbeat_loop self \<noteq> None"
  shows "keeps X (c_heartbeat X self)"
proof -
  obtain hb where hb: "c_heartbeat_loop self = Some hb" using assms(3) by blast
  let ?s = "self\<lparr>c_timeout := c_timeout self + 1, c_state := DD_STATE_UNREG\<rparr>"
  obtain i s where Pair: "c_timer X 1000 0 Ask_registration ?s = (i, s)" by fastforce
  note t = c_timer_simps [OF Pair]
  have i: "i = timer_id X (c_timer_count self)" using t(1) by simp
  have ok: "c_ok X (c_timer_end hb (s\<lparr>c_registration_loop := i\<rparr>))"
    using c_ok_lost [OF assms(1,2) i hb] unfolding t(2)
    by (simp add: c_timer_end_def c_ok_def c_ids_def)
  have cur: "zl_cursor (c_sublist s) \<le> length (zl_items (c_sublist s))"
    using c_ok_cursor [OF assms(1)] by (simp add: t(2))
  show ?thesis
    using assms(1) hb ok cur
    by (auto simp: c_heartbeat_def Let_def Pair t(2) initialised_def
        intro!: sublist_deactivate_cursor defined_report c_ok_sublist)
qed

lemma keeps_ask_registration:
  "c_ok X self \<Longrightarrow> defined (s_ask_registration X created self) (\<lambda>r. case r of None \<Rightarrow> True | Some s \<Rightarrow> c_ok X s)"
  by (auto simp: s_ask_registration_def Let_def c_send_def)
    (auto simp: c_ok_def c_ids_def c_emit_def)

lemma keeps_decrypt: "(\<And>r. P r) \<Longrightarrow> defined (decrypt_frame X k f) P"
  unfolding decrypt_frame_def by (auto intro!: defined_reads)

lemma keeps_dealer:
  assumes ok: "c_ok X self" and inj: "inj (timer_id X)"
  shows "keeps X (c_on_dealer_msg X self msg)"
proof -
  have s: "c_ok X (self\<lparr>c_timeout := 0\<rparr>)" using ok by simp
  have "keeps X (c_dealer_cmd X (self\<lparr>c_timeout := 0\<rparr>) cmd m)" for cmd m
    unfolding c_dealer_cmd_def cb_data_def cb_error_def cb_chall_def cb_pub_def cb_subok_def
    using s keeps_regok [OF s inj] c_ok_pong [OF s inj] c_ok_cursor [OF s]
    by (auto split: prod.split option.split intro!: defined_reads keeps_decrypt defined_report defined_send
        sublist_activate_cursor c_ok_sublist)
  then show ?thesis
    unfolding c_on_dealer_msg_def Let_def using s by (auto split: option.split list.split intro!: defined_reads)
qed

lemma keeps_subscribe:
  assumes ok: "c_ok X self"
  shows "defined (dd_subscribe self t s) (\<lambda>(r, s). c_ok X s)" "defined (dd_unsubscribe self t s) (\<lambda>(r, s). c_ok X s)"
proof -
  have "c_cookie self \<noteq> None" if "c_state self = DD_STATE_REGISTERED" using c_ok_cookie [OF ok that] .
  then show "defined (dd_subscribe self t s) (\<lambda>(r, s). c_ok X s)" "defined (dd_unsubscribe self t s) (\<lambda>(r, s). c_ok X s)"
    unfolding dd_subscribe_def dd_unsubscribe_def Let_def
    using c_ok_cursor [OF ok]
    by (auto intro!: sublist_add_cursor defined_initialised defined_send c_ok_sublist ok sublist_delete_cursor)
qed

lemma keeps_messages:
  assumes ok: "c_ok X self"
  shows "defined (dd_publish X self t m n) (\<lambda>(r, t, s). c_ok X s)" "defined (dd_notify X self t m n) (\<lambda>(r, s). c_ok X s)"
proof -
  have "c_cookie self \<noteq> None" if "c_state self = DD_STATE_REGISTERED" using c_ok_cookie [OF ok that] .
  then show "defined (dd_publish X self t m n) (\<lambda>(r, t, s). c_ok X s)" "defined (dd_notify X self t m n) (\<lambda>(r, s). c_ok X s)"
    unfolding dd_publish_def dd_notify_def Let_def encrypt_next_def
    using ok by (auto intro!: defined_initialised defined_send)
qed


lemma keeps_pipe:
  assumes ok: "c_ok X self"
  shows "defined (s_on_pipe_msg X self msg) (\<lambda>(rc, s). c_ok X s)"
proof -
  have "defined (pipe_message f) P" if "\<And>b. P b" for f P
    using that by (cases f) (simp_all add: pipe_message_def)
  then show ?thesis
    unfolding s_on_pipe_msg_def
    using ok keeps_subscribe [OF ok] keeps_messages [OF ok]
    by (auto split: prod.split intro!: defined_reads elim!: defined_mono)
qed

lemma keeps_destroy:
  assumes ok: "c_ok X self"
  shows "keeps X (dd_destroy self)"
proof -
  have "c_ok X (c_emit CDestroy (s\<lparr>c_socket := False, c_running := False\<rparr>))" if "c_ok X s" for s
    using that by (simp add: c_ok_def c_ids_def)
  then show ?thesis
    unfolding dd_destroy_def using ok c_ok_cookie [OF ok] by (auto intro!: defined_initialised defined_send)
qed

lemma keeps_ping:
  assumes ok: "c_ok X self"
  shows "defined (s_ping self) (\<lambda>s. c_ok X s \<and> c_timers s = c_timers self)"
  unfolding s_ping_def using ok c_ok_cookie [OF ok] by (auto intro!: defined_initialised defined_send)

lemma client_keeps:
  assumes ok: "c_ok X self" and inj: "inj (timer_id X)" and en: "c_enabled self inp"
  shows "keeps X (c_handle X inp self)"
proof (cases inp)
  case (C_dealer m)
  then show ?thesis using keeps_dealer [OF ok inj] by (simp add: c_handle_def)
next
  case (C_pipe m)
  then show ?thesis
    using keeps_pipe [OF ok, of m] keeps_destroy
    by (auto simp: c_handle_def elim!: defined_mono)
next
  case (C_timer i t created)
  then obtain d n where t: "(i, d, n, t) \<in> set (c_timers self)"
    using en by (auto simp: c_enabled_def list_ex_iff)
  show ?thesis
  proof (cases t)
    case Ask_registration
    have "defined (s_ask_registration X created self) (\<lambda>r. keeps X (case r of None \<Rightarrow> Inl Use_after_free | Some self \<Rightarrow> Inr self))"
      by (rule defined_mono [OF keeps_ask_registration [OF ok]]) (auto split: option.splits)
    then show ?thesis using Ask_registration C_timer by (simp add: c_handle_def)
  next
    case Client_heartbeat
    then have "c_heartbeat_loop self \<noteq> None" using ok t unfolding c_ok_def by blast
    then show ?thesis using keeps_heartbeat [OF ok inj] Client_heartbeat C_timer by (simp add: c_handle_def)
  next
    case Client_ping
    then have "(i, d, n, Client_ping) \<in> set (c_timers s)" if "c_timers s = c_timers self" for s using t that by simp
    then show ?thesis
      using keeps_ping [OF ok] Client_ping C_timer
      by (auto simp: c_handle_def intro: c_ok_fired elim!: defined_mono)
  qed
qed

lemma c_ok_start:
  "dd_actor X name endpoint ks n created = Inr (Some self) \<Longrightarrow> c_ok X self"
  by (auto simp: dd_actor_def c_timer_def Let_def c_ok_def c_ids_def sublist_new_def split: if_splits option.splits)

lemma c_ok_run:
  assumes "client_run X self inps self'" "inj (timer_id X)" "c_ok X self"
  shows "c_ok X self'"
  using assms
proof (induction rule: client_run.induct)
  case (c_more self inp self' inps self'')
  have "c_enabled self inp" "c_handle X inp self = Inr self'" using c_more.hyps(1) by auto
  then have "c_ok X self'" using client_keeps [OF c_more.prems(2,1)] by force
  then show ?case using c_more by blast
qed simp

text \<open>
  C36. In every state that a run of an actor reaches the timer that makes progress is set and what it needs is there: the
  client is registered, with its cookie known and the heartbeat timer it remembers set, or it is not registered, and the
  registration timer it remembers is set; and no message, command or timer makes it read a field that was never set.
\<close>

theorem client_invariant:
  assumes "dd_actor X name endpoint ks n created = Inr (Some self0)" "inj (timer_id X)" "client_run X self0 inps self"
    and "c_enabled self inp"
  shows "(if c_state self = DD_STATE_REGISTERED
      then c_cookie self \<noteq> None \<and> (\<exists>hb. c_heartbeat_loop self = Some hb \<and> (hb, 1500, 0, Client_heartbeat) \<in> set (c_timers self))
      else (c_registration_loop self, 1000, 0, Ask_registration) \<in> set (c_timers self)) \<and>
    c_handle X inp self \<noteq> Inl Uninit_read"
proof -
  have ok: "c_ok X self" using c_ok_run [OF assms(3,2) c_ok_start [OF assms(1)]] .
  have "keeps X (c_handle X inp self)" by (rule client_keeps [OF ok assms(2,4)])
  then have "c_handle X inp self \<noteq> Inl Uninit_read" by (auto simp: defined_def)
  then show ?thesis using ok by (auto simp: c_ok_def)
qed

definition ex_dd_keys :: dd_keys where
  "ex_dd_keys = \<lparr>k_ispublic = False, k_hash = ascii ''ha'', k_clients = [], k_custboxk = [4], k_pubboxk = [5], k_ddboxk = [1]\<rparr>"

definition ex_client0 :: dd where
  "ex_client0 = the (projr (dd_actor ex_ext (ascii ''q'') (ascii ''tcp://h:1001'') (Some ex_dd_keys) (replicate NONCEBYTES 0) True))"

lemma ex_client_starts:
  "dd_actor ex_ext (ascii ''q'') (ascii ''tcp://h:1001'') (Some ex_dd_keys) (replicate NONCEBYTES 0) True = Inr (Some ex_client0)"
  unfolding ex_client0_def by (simp add: dd_actor_def ex_ext_def c_timer_def)

lemma client_invariant_witness:
  "(c_registration_loop ex_client0, 1000, 0, Ask_registration) \<in> set (c_timers ex_client0) \<and>
   c_handle ex_ext (C_timer 0 Ask_registration True) ex_client0 \<noteq> Inl Uninit_read"
proof -
  have f: "c_state ex_client0 = DD_STATE_UNREG" "c_enabled ex_client0 (C_timer 0 Ask_registration True)"
    by (simp_all add: ex_client0_def dd_actor_def ex_ext_def c_timer_def c_enabled_def)
  have "inj (timer_id ex_ext)" by (simp add: ex_ext_def inj_on_def)
  from client_invariant [OF ex_client_starts this client_run.c_stop f(2)] f(1) show ?thesis by simp
qed

end
