(* ===== verification/Replay.thy ===== *)
theory Replay
  imports ClientProps
begin

text \<open>
  What the client tells the broker again after a lost connection: all of its subscriptions, or, when the
  list's cursor was left inside by an earlier unsubscription, only those behind it.
\<close>

lemma resubscribe_exact:
  assumes "zl_cursor (c_sublist self) \<le> length (zl_items (c_sublist self))" "c_cookie self = Some cookie" "c_socket self"
  shows "sublist_resubscribe self = Inr (self\<lparr>
      c_sublist := (c_sublist self)\<lparr>zl_cursor := 0\<rparr>,
      c_out := c_out self @ map (\<lambda>item. CSend [le32 DD_VERSION, le32 DD_CMD_SUB, le64 cookie, topic item, topic_scope item])
        (drop (zl_cursor (c_sublist self)) (zl_items (c_sublist self)))\<rparr>)"
proof -
  let ?f = "\<lambda>item (s::dd). (item, c_emit (CSend [le32 DD_VERSION, le32 DD_CMD_SUB, le64 cookie, topic item, topic_scope item]) s)"
  let ?b = "\<lambda>item self. rbind (initialised (c_cookie self)) (\<lambda>cookie.
         rbind (c_send [le32 DD_VERSION, le32 DD_CMD_SUB, le64 cookie, topic item, topic_scope item] self) (\<lambda>self.
         Inr (item, self)))"
  have v: "visit ?f xs s = (xs, s\<lparr>c_out := c_out s @ map (\<lambda>item. CSend [le32 DD_VERSION, le32 DD_CMD_SUB, le64 cookie, topic item, topic_scope item]) xs\<rparr>)" for xs s
    by (induction xs arbitrary: s) (simp_all add: c_emit_def)
  have loop: "zlistx_loop ?b l s = zlistx_loop (\<lambda>item s. Inr (?f item s)) l s" if "c_cookie s = Some cookie" "c_socket s" for l s
    using that
  proof (induction "length (zl_items l) - zl_cursor l" arbitrary: l s rule: less_induct)
    case less
    show ?case
      using less.hyps [of "l\<lparr>zl_cursor := Suc (zl_cursor l), zl_items := (zl_items l)[zl_cursor l := zl_items l ! zl_cursor l]\<rparr>"
          "snd (?f (zl_items l ! zl_cursor l) s)"] less.prems
      by (subst (1 2) zlistx_loop.simps) (auto simp: zlistx_next_def initialised_def c_send_def)
  qed
  have l: "l = \<lparr>zl_items = zl_items l, zl_cursor = zl_cursor l\<rparr>" for l :: zlistx by simp
  show ?thesis
    using zlistx_loop_visit [OF assms(1), of ?f self] loop [of self "c_sublist self"] assms(2,3)
    by (simp add: sublist_resubscribe_def v)
qed


lemma c_emit_out: "c_out (c_emit e self) = c_out self @ [e]"
  by (simp add: c_emit_def)

lemma regok_exact:
  assumes "zl_cursor (c_sublist self) \<le> length (zl_items (c_sublist self))" "c_socket self"
  shows "\<exists>s. cb_regok X self (le64 cookie # msg) = Inr s \<and> c_state s = DD_STATE_REGISTERED \<and> c_cookie s = Some cookie \<and>
    c_out s = c_out self @ [CSend [le32 DD_VERSION, le32 DD_CMD_PING, le64 cookie]] @
      map (\<lambda>item. CSend [le32 DD_VERSION, le32 DD_CMD_SUB, le64 cookie, topic item, topic_scope item])
        (drop (zl_cursor (c_sublist self)) (zl_items (c_sublist self))) @ [On_reg]"
proof -
  obtain i s where z: "c_timer X 1500 0 Client_heartbeat (c_emit (CSend [le32 DD_VERSION, le32 DD_CMD_PING, le64 cookie])
      (self\<lparr>c_cookie := Some cookie, c_state := DD_STATE_REGISTERED\<rparr>)) = (i, s)" by fastforce
  note t = c_timer_simps(2) [OF z]
  let ?u = "c_timer_end (c_registration_loop s) (s\<lparr>c_heartbeat_loop := Some i\<rparr>)"
  have u: "c_cookie ?u = Some cookie" "c_socket ?u" "c_sublist ?u = c_sublist self" "c_state ?u = DD_STATE_REGISTERED"
    "c_out ?u = c_out self @ [CSend [le32 DD_VERSION, le32 DD_CMD_PING, le64 cookie]]"
    using assms(2) by (simp_all add: t c_timer_end_def) (simp add: c_emit_def)
  have "sublist_resubscribe ?u = Inr (?u\<lparr>c_sublist := (c_sublist ?u)\<lparr>zl_cursor := 0\<rparr>,
      c_out := c_out ?u @ map (\<lambda>item. CSend [le32 DD_VERSION, le32 DD_CMD_SUB, le64 cookie, topic item, topic_scope item])
        (drop (zl_cursor (c_sublist ?u)) (zl_items (c_sublist ?u)))\<rparr>)"
    by (rule resubscribe_exact [OF _ u(1,2)]) (use assms(1) u(3) in simp)
  then show ?thesis
    using assms(2) u by (simp add: cb_regok_def c_send_def z c_report_def actor_msg_def c_emit_out)
qed

text \<open>
  C37. When the broker accepts a client, the client sends a PING and then one SUB for every subscription from the cursor
  of its list on, in the order of the list, before it reports the connection: for all of them when the cursor is at the
  start, where every walk over the list leaves it.
\<close>

theorem regok_replays_subscriptions:
  assumes "zl_cursor (c_sublist self) \<le> length (zl_items (c_sublist self))" "c_socket self"
  shows "\<exists>s. c_handle X (C_dealer (Some (le32 DD_VERSION # le32 DD_CMD_REGOK # le64 cookie # msg))) self = Inr s \<and>
    c_state s = DD_STATE_REGISTERED \<and> c_cookie s = Some cookie \<and>
    c_out s = c_out self @ [CSend [le32 DD_VERSION, le32 DD_CMD_PING, le64 cookie]] @
      map (\<lambda>(t, sc). CSend [le32 DD_VERSION, le32 DD_CMD_SUB, le64 cookie, t, sc])
        (drop (zl_cursor (c_sublist self)) (sub_keys (c_sublist self))) @ [On_reg]"
  using regok_exact [of "self\<lparr>c_timeout := 0\<rparr>" X cookie msg] assms
  by (auto simp: c_handle_def c_on_dealer_msg_def Let_def c_dealer_cmd_def cmd_defs sub_keys_def comp_def drop_map)

lemma regok_replays_subscriptions_witness:
  "\<exists>s. c_handle ex_ext (C_dealer (Some [le32 DD_VERSION, le32 DD_CMD_REGOK, le64 7])) (ex_client0\<lparr>c_sublist := ex_subs\<rparr>) = Inr s \<and>
    c_state s = DD_STATE_REGISTERED \<and>
    c_out s = c_out ex_client0 @ [CSend [le32 DD_VERSION, le32 DD_CMD_PING, le64 7]] @
      map (\<lambda>(t, sc). CSend [le32 DD_VERSION, le32 DD_CMD_SUB, le64 7, t, sc]) (sub_keys ex_subs) @ [On_reg]"
proof -
  have "c_socket (ex_client0\<lparr>c_sublist := ex_subs\<rparr>)" "zl_cursor ex_subs = 0"
    using ex_subs_ok by (simp_all add: ex_client0_def dd_actor_def ex_ext_def c_timer_def sublist_ok_def)
  then show ?thesis
    using regok_replays_subscriptions [of "ex_client0\<lparr>c_sublist := ex_subs\<rparr>" ex_ext 7 "[]"] by auto
qed

text \<open>
  C38. A client that unsubscribes while it has no connection loses subscriptions: after the next
  registration only those listed behind the deleted one are sent to the broker, those before it, which are
  the younger ones, are not, although they stay in the list.
\<close>

theorem offline_unsubscribe_forgets:
  assumes "c_state self = DD_STATE_UNREG" "c_socket self"
    and "zl_items (c_sublist self) = xs @ x # ys" "\<forall>z\<in>set xs. topic z \<noteq> topic x"
    and "scope_alias sc = topic_scope x"
  shows "\<exists>self1 s. dd_unsubscribe self (topic x) sc = Inr (- 1, self1) \<and>
    zl_items (c_sublist self1) = xs @ ys \<and>
    c_handle X (C_dealer (Some (le32 DD_VERSION # le32 DD_CMD_REGOK # le64 cookie # msg))) self1 = Inr s \<and>
    c_out s = c_out self @ [CSend [le32 DD_VERSION, le32 DD_CMD_PING, le64 cookie]] @
      map (\<lambda>item. CSend [le32 DD_VERSION, le32 DD_CMD_SUB, le64 cookie, topic item, topic_scope item]) ys @ [On_reg]"
proof -
  have "takeWhile (\<lambda>z. topic z \<noteq> topic x) (zl_items (c_sublist self)) = xs"
    using assms(3,4) by (simp add: takeWhile_append2)
  then have d: "snd (sublist_delete (c_sublist self) (topic x) s) = \<lparr>zl_items = xs @ ys, zl_cursor = length xs\<rparr>" for s
    using assms(3) by (simp add: sublist_delete_def zlistx_find_def s_sublist_cmp_def zlistx_delete_def Let_def)
  let ?self1 = "self\<lparr>c_sublist := \<lparr>zl_items = xs @ ys, zl_cursor = length xs\<rparr>\<rparr>"
  have "dd_unsubscribe self (topic x) sc = Inr (- 1, ?self1)"
    using assms(1) by (simp add: dd_unsubscribe_def d)
  moreover have "\<exists>s. c_handle X (C_dealer (Some (le32 DD_VERSION # le32 DD_CMD_REGOK # le64 cookie # msg))) ?self1 = Inr s \<and>
    c_out s = c_out self @ [CSend [le32 DD_VERSION, le32 DD_CMD_PING, le64 cookie]] @
      map (\<lambda>item. CSend [le32 DD_VERSION, le32 DD_CMD_SUB, le64 cookie, topic item, topic_scope item]) ys @ [On_reg]"
    using regok_exact [of "?self1\<lparr>c_timeout := 0\<rparr>" X cookie msg] assms(2)
    by (auto simp: c_handle_def c_on_dealer_msg_def Let_def c_dealer_cmd_def cmd_defs)
  ultimately show ?thesis by auto
qed

lemma offline_unsubscribe_forgets_witness:
  "\<exists>self1. dd_unsubscribe (ex_client0\<lparr>c_sublist := ex_subs\<rparr>) [2] (ascii ''/'') = Inr (- 1, self1) \<and>
     ([1], [47]) \<in> set (sub_keys (c_sublist self1)) \<and>
     (\<exists>s. c_handle ex_ext (C_dealer (Some [le32 DD_VERSION, le32 DD_CMD_REGOK, le64 7])) self1 = Inr s \<and>
       CSend [le32 DD_VERSION, le32 DD_CMD_SUB, le64 7, [1], [47]] \<notin> set (c_out s))"
proof -
  let ?c = "ex_client0\<lparr>c_sublist := ex_subs\<rparr>"
  have c: "c_state ?c = DD_STATE_UNREG" "c_socket ?c" "c_out ?c = [CConnect (ascii ''tcp://h:1001''), CReader]"
    by (simp_all add: ex_client0_def dd_actor_def ex_ext_def c_timer_def c_emit_def)
  have "zl_items (c_sublist ?c) = [\<lparr>topic = [1], topic_scope = [47], active = 1\<rparr>] @ \<lparr>topic = [2], topic_scope = [47], active = 1\<rparr> #
     [\<lparr>topic = [2], topic_scope = [47, 42, 47], active = 1\<rparr>]"
    by (simp add: ex_subs_def)
  from offline_unsubscribe_forgets [OF c(1,2) this, of "ascii ''/''" ex_ext 7 "[]"] c(3)
  show ?thesis by (force simp: scope_alias_def ascii_def sub_keys_def cmd_defs)
qed

end
