(* ===== verification/RoutingProps.thy ===== *)
theory RoutingProps
  imports Scenario
begin

text \<open>
  What becomes of a point-to-point message: delivery within a broker and across two brokers, the
  confinement of messages to the tenant of their sender, and the answer for a destination that does
  not exist.
\<close>

section \<open>Addressing\<close>

text \<open>
  How a client names a destination: another client of its tenant by its plain name, a public client
  from anywhere as \<open>public.name\<close>, and, from a public client, a client of a tenant as \<open>tenant.name\<close>.
\<close>

definition reaches :: "dd_broker \<Rightarrow> local_client \<Rightarrow> bytes \<Rightarrow> local_client \<Rightarrow> bool" where
  "reaches self lc dest lc' \<longleftrightarrow>
     (lc_tenant lc' = ascii ''public'' \<and> dest = lc_prefix_name lc') \<or>
     (lc_tenant lc' = lc_tenant lc \<and> dest = lc_name lc' \<and> \<not> is_public_name dest \<and>
        (lc_tenant lc = ascii ''public'' \<longrightarrow> \<not> names_tenant self dest)) \<or>
     (lc_tenant lc = ascii ''public'' \<and> lc_tenant lc' \<noteq> ascii ''public'' \<and>
        lc_tenant lc' \<in> set (tenants (keys self)) \<and> dest = lc_prefix_name lc')"

text \<open>The name under which the receiver sees the sender: qualified when they are of different tenants.\<close>

definition sender_name :: "local_client \<Rightarrow> local_client \<Rightarrow> bytes" where
  "sender_name lc lc' = (if lc_tenant lc = lc_tenant lc' then lc_name lc else lc_prefix_name lc)"

lemma takeWhile_dot: "dot \<notin> set t \<Longrightarrow> takeWhile (\<lambda>b. b \<noteq> dot) (t @ dot # n) = t"
  by (induction t) auto

definition well_named :: "local_client \<Rightarrow> bool" where
  "well_named lc \<longleftrightarrow> dot \<notin> set (lc_tenant lc) \<and> lc_prefix_name lc = lc_tenant lc @ dot # lc_name lc \<and>
     length (lc_prefix_name lc) < MAXTENANTNAME"

lemma client_well_named:
  "reg_inv L self \<Longrightarrow> names_wf (keys self) \<Longrightarrow> clients self a = Some lc \<Longrightarrow> well_named lc"
  using client_tenant_wf by (simp add: well_named_def)

lemma well_named_simps:
  assumes "well_named lc"
  shows "after_char (lc_prefix_name lc) dot = Inr (lc_name lc)"
    and "is_public_name (lc_prefix_name lc) \<longleftrightarrow> lc_tenant lc = ascii ''public''"
    and "dot_join (lc_tenant lc) (lc_name lc) = lc_prefix_name lc"
    and "takeWhile (\<lambda>b. b \<noteq> dot) (lc_prefix_name lc) = lc_tenant lc"
    and "snprintf MAXTENANTNAME (lc_prefix_name lc) = lc_prefix_name lc"
proof -
  have w: "dot \<notin> set (lc_tenant lc)" "lc_prefix_name lc = lc_tenant lc @ dot # lc_name lc"
    "length (lc_prefix_name lc) < MAXTENANTNAME" using assms unfolding well_named_def by blast+
  show "snprintf MAXTENANTNAME (lc_prefix_name lc) = lc_prefix_name lc" using w(3) by simp
  show "dot_join (lc_tenant lc) (lc_name lc) = lc_prefix_name lc" unfolding w(2) by (simp add: dot_join_def ascii_def)
  show "after_char (lc_prefix_name lc) dot = Inr (lc_name lc)" unfolding w(2) by (rule after_char_append_first [OF w(1)])
  show "is_public_name (lc_prefix_name lc) \<longleftrightarrow> lc_tenant lc = ascii ''public''"
    unfolding w(2) by (rule is_public_name_dot [OF w(1)])
  show "takeWhile (\<lambda>b. b \<noteq> dot) (lc_prefix_name lc) = lc_tenant lc" unfolding w(2) by (rule takeWhile_dot [OF w(1)])
qed

lemma well_named_after: "well_named lc \<Longrightarrow> after_char (lc_prefix_name lc) 46 = Inr (lc_name lc)"
  using well_named_simps(1) by simp

text \<open>Clients of one tenant, or one of them public.\<close>

definition may_talk :: "local_client \<Rightarrow> local_client \<Rightarrow> bool" where
  "may_talk lc lc' \<longleftrightarrow> lc_tenant lc = lc_tenant lc' \<or> lc_tenant lc = ascii ''public'' \<or> lc_tenant lc' = ascii ''public''"

lemma sender_name_alt:
  "may_talk lc lc' \<Longrightarrow> sender_name lc lc' =
    (if (lc_tenant lc = ascii ''public'') = (lc_tenant lc' = ascii ''public'') then lc_name lc else lc_prefix_name lc)"
  by (auto simp: may_talk_def sender_name_def)

lemma send_names_reaches:
  assumes "well_named lc" "well_named lc'" "reaches self lc dest lc'"
  shows "send_names self lc dest = (lc_prefix_name lc', lc_tenant lc' = ascii ''public'')" "may_talk lc lc'"
proof -
  note w = well_named_simps [OF assms(2)]
  have "names_tenant self (lc_prefix_name lc')" if "lc_tenant lc' \<in> set (tenants (keys self))"
    unfolding names_tenant_def w(4) using that assms(2) by (force simp: well_named_def)
  then show "send_names self lc dest = (lc_prefix_name lc', lc_tenant lc' = ascii ''public'')"
    using assms(3) w(2,5) unfolding reaches_def w(3) [symmetric]
    by (elim disjE conjE) (simp_all add: send_names_def Let_def)
  show "may_talk lc lc'"
    using assms(3) unfolding reaches_def may_talk_def by (elim disjE conjE) simp_all
qed

section \<open>Delivery within a broker\<close>

lemma send_lookup:
  assumes inv: "reg_inv L self" and lc: "clients self a = Some lc"
  shows "s_cb_send self (lc_sockid lc) (le64 (lc_cookie lc)) (dest # msg) =
    (let self = touch_client self a; dest = c_string dest; ln = lc\<lparr>lc_timeout := 0\<rparr>;
         srcpublic = (lc_tenant lc = ascii ''public'') in
     case send_names self ln dest of (dst_string, dstpublic) \<Rightarrow>
     rbind (hashtable_has_rev_local_node self dst_string False) (\<lambda>(r, self). case r of
          Some a' \<Rightarrow>
            rbind (get_client self a') (\<lambda>ln'.
            if srcpublic = dstpublic
            then rbind (after_char (lc_prefix_name lc) dot) (\<lambda>src. forward_locally self (lc_sockid ln') src msg)
            else forward_locally self (lc_sockid ln') (lc_prefix_name lc) msg)
        | None \<Rightarrow>
            rbind (hashtable_has_dist_node self dst_string) (\<lambda>dn. case dn of
              Some dc \<Rightarrow> forward_down self (lc_prefix_name lc) dst_string (dc_broker dc) msg
            | None \<Rightarrow>
                if state self = DD_STATE_ROOT then
                  (if srcpublic = dstpublic
                   then rbind (after_char (lc_prefix_name lc) dot) (\<lambda>src.
                        rbind (after_char dst_string dot) (\<lambda>dst.
                        dest_invalid_rsock self (lc_sockid lc) src dst))
                   else dest_invalid_rsock self (lc_sockid lc) (lc_prefix_name lc) dst_string)
                else forward_up self (lc_prefix_name lc) dst_string msg)))"
  using lc
  by (simp add: s_cb_send_def has_local_node_exact [OF inv lc] get_client_def touch_clients Let_def cong: option.case_cong prod.case_cong if_cong)

lemma send_names_cong: "keys s = keys self \<Longrightarrow> lc_tenant l' = lc_tenant l \<Longrightarrow> send_names s l' d = send_names self l d"
  by (simp add: send_names_def names_tenant_def cong: if_cong)

lemma router_send:
  "handle X (On_router (Some (src # le32 DD_VERSION # le32 DD_CMD_SEND # cookie # msg))) self = s_cb_send self src cookie msg"
  "handle X (On_router (Some (src # le32 DD_VERSION # le32 DD_CMD_FORWARD # cookie # msg))) self =
    s_cb_forward_rsock self src cookie msg"
  "handle X (On_dealer (Some (le32 DD_VERSION # le32 DD_CMD_FORWARD # msg))) self =
    s_cb_forward_dsock (self\<lparr>timeout := 0\<rparr>) msg"
  by (simp_all add: handle_def s_on_router_msg_def router_cmd_def with_cookie_def s_on_dealer_msg_def dealer_cmd_def cmd_defs)

lemma send_local:
  assumes "reg_inv L self" "clash_free self" "names_wf (keys self)" "rsock self"
    and "clients self a = Some lc" "clients self b = Some lc'" "reaches self lc (c_string dest) lc'"
  shows "s_cb_send self (lc_sockid lc) (le64 (lc_cookie lc)) (dest # msg) =
    Inr (emit (Send Rsock ([lc_sockid lc', le32 DD_VERSION, le32 DD_CMD_DATA, sender_name lc lc'] @ msg))
      (touch_client self a))"
proof -
  note w = client_well_named [OF assms(1,3,5)] client_well_named [OF assms(1,3,6)]
  note sn = send_names_reaches [OF w assms(7)]
  let ?s = "touch_client self a"
  obtain t where b: "clients ?s b = Some (lc'\<lparr>lc_timeout := t\<rparr>)"
    using touch_client_Some [OF assms(6)] by blast
  have "hashtable_has_rev_local_node ?s (lc_prefix_name lc') False = Inr (Some b, ?s)"
    using has_rev_exact [OF reg_inv_touch [OF assms(1)] _ b] assms(2) by simp
  moreover have "send_names ?s (lc\<lparr>lc_timeout := 0\<rparr>) (c_string dest) = (lc_prefix_name lc', lc_tenant lc' = ascii ''public'')"
    using sn(1) send_names_cong [of ?s self "lc\<lparr>lc_timeout := 0\<rparr>" lc] by simp
  ultimately show ?thesis
    unfolding send_lookup [OF assms(1,5)] well_named_simps(1) [OF w(1)] sender_name_alt [OF sn(2)]
    using b assms(4) by (simp add: get_client_def forward_locally_def zsock_send_def sock_open_def)
qed

text \<open>
  C14. A message to a client of the same broker is delivered: the broker sends exactly one message, to
  the socket of that client, with the payload unchanged and the sender named as the receiver has to name
  it in a reply; the sender's timeout starts anew and nothing else of the state changes.
\<close>

theorem send_delivers:
  assumes "reg_inv L self" "clash_free self" "names_wf (keys self)" "rsock self"
    and "clients self a = Some lc" "clients self b = Some lc'" "reaches self lc (c_string dest) lc'"
  shows "handle X (On_router (Some ([lc_sockid lc, le32 DD_VERSION, le32 DD_CMD_SEND, le64 (lc_cookie lc), dest] @ msg))) self =
    Inr (emit (Send Rsock ([lc_sockid lc', le32 DD_VERSION, le32 DD_CMD_DATA, sender_name lc lc'] @ msg))
      (touch_client self a))"
  using send_local [OF assms] by (simp add: router_send)

lemma ex_reaches: "reaches ex_busy (ex_client ''a'' ''x'' 7 1) (c_string (ascii ''y'')) (ex_client ''a'' ''y'' 7 2)"
  by (simp add: reaches_def is_public_name_def starts_with_def c_string_def ascii_def)

lemma send_delivers_witness:
  "handle ex_ext (On_router (Some [ex_sockid 1, le32 DD_VERSION, le32 DD_CMD_SEND, le64 7, ascii ''y'', [1, 2, 3]])) ex_busy =
     Inr (emit (Send Rsock [ex_sockid 2, le32 DD_VERSION, le32 DD_CMD_DATA, ascii ''x'', [1, 2, 3]])
       (touch_client ex_busy 0))"
  using send_delivers [OF ex_busy_ok, of 0 "ex_client ''a'' ''x'' 7 1" 1 "ex_client ''a'' ''y'' 7 2" "ascii ''y''" ex_ext "[[1, 2, 3]]"] ex_reaches
  by (simp add: ex_names_wf sender_name_def)

section \<open>Confinement to a tenant\<close>

text \<open>
  What a client of a tenant may cause its broker to send: data to a client of its tenant or to a
  public one, a message for such a client to another broker, or an error to itself.
\<close>

definition in_tenant :: "bytes \<Rightarrow> bytes \<Rightarrow> bool" where
  "in_tenant ten dst \<longleftrightarrow> starts_with (dot_join ten []) dst \<or> is_public_name dst"

inductive confined :: "dd_broker \<Rightarrow> local_client \<Rightarrow> event \<Rightarrow> bool" for self lc where
  data: "clients self b = Some lc' \<Longrightarrow> lc_tenant lc' = lc_tenant lc \<or> lc_tenant lc' = ascii ''public'' \<Longrightarrow>
    src = lc_name lc \<or> src = lc_prefix_name lc \<Longrightarrow>
    confined self lc (Send Rsock ([lc_sockid lc', le32 DD_VERSION, le32 DD_CMD_DATA, src] @ msg))"
| down: "in_tenant (lc_tenant lc) dst \<Longrightarrow>
    confined self lc (Send Rsock ([br, le32 DD_VERSION, le32 DD_CMD_FORWARD, lc_prefix_name lc, dst] @ msg))"
| up: "in_tenant (lc_tenant lc) dst \<Longrightarrow>
    confined self lc (Send Dsock ([le32 DD_VERSION, le32 DD_CMD_FORWARD, cookie, lc_prefix_name lc, dst] @ msg))"
| error: "confined self lc (Send Rsock [lc_sockid lc, le32 DD_VERSION, le32 DD_CMD_ERROR, code, dst, src])"

lemma prefix_snprintf: "length p < n \<Longrightarrow> prefix p s \<Longrightarrow> prefix p (snprintf n s)"
  by (auto simp: snprintf_def prefix_def min_def)

lemma send_names_confined:
  assumes inv: "reg_inv L self" and wf: "names_wf (keys self)" and lc: "clients self a = Some lc"
    and np: "lc_tenant lc \<noteq> ascii ''public''" and sn: "send_names self lc dest = (dst, pub)"
  shows "in_tenant (lc_tenant lc) dst"
proof -
  note w = client_tenant_wf [OF inv wf lc]
  have "length (dot_join (lc_tenant lc) []) < MAXTENANTNAME"
    using w(3,4) by (simp add: dot_join_def ascii_def)
  then have "prefix (dot_join (lc_tenant lc) []) (snprintf MAXTENANTNAME (dot_join (lc_tenant lc) dest))"
    by (rule prefix_snprintf) (simp add: dot_join_def)
  then show ?thesis
    using sn np by (auto simp: send_names_def Let_def in_tenant_def starts_with_prefix split: if_splits)
qed

lemma in_tenant_client:
  assumes inv: "reg_inv L self" and wf: "names_wf (keys self)" and lc: "clients self a = Some lc" "clients self b = Some lc'"
    and "in_tenant (lc_tenant lc) dst" "prefix dst (lc_prefix_name lc')"
  shows "lc_tenant lc' = lc_tenant lc \<or> lc_tenant lc' = ascii ''public''"
proof -
  note w = client_tenant_wf [OF inv wf lc(1)] client_tenant_wf [OF inv wf lc(2)]
  have "starts_with (dot_join (lc_tenant lc) []) (lc_prefix_name lc') \<or> is_public_name (lc_prefix_name lc')"
    using assms(5,6) unfolding in_tenant_def is_public_name_def starts_with_prefix by (blast intro: prefix_order.trans)
  then show ?thesis
    unfolding w(7) is_public_name_dot [OF w(5)] starts_with_prefix dot_join_def
    using dot_prefix_eq [OF w(1,5), of "[]" "lc_name lc'"] by (auto simp: ascii_def)
qed

definition confined_from :: "dd_broker \<Rightarrow> local_client \<Rightarrow> dd_broker \<Rightarrow> bool" where
  "confined_from self lc self' \<longleftrightarrow> (\<exists>es. sent self' = sent self @ es \<and> list_all (confined self lc) es)"

lemma confined_send:
  assumes "confined self lc (Send s fs)" "sent self1 = sent self"
  shows "post (zsock_send s fs self1) (confined_from self lc)"
  using assms by (simp add: confined_from_def emit_def)

lemma post_after_char: "(\<And>r. P r) \<Longrightarrow> post (after_char s c) P"
  by (simp add: post_iff)

text \<open>
  C15. A client of a tenant cannot reach another tenant: whatever it puts into a SEND, the broker sends
  at most messages to clients of its tenant or to public ones, here or over another broker, under its own
  name, and errors to the client itself.
\<close>

theorem send_tenant_isolation:
  assumes "reg_inv L self" "names_wf (keys self)" "clients self a = Some lc" "lc_tenant lc \<noteq> ascii ''public''"
    and "s_cb_send self (lc_sockid lc) (le64 (lc_cookie lc)) msg = Inr self'"
  shows "\<exists>es. sent self' = sent self @ es \<and> list_all (confined self lc) es"
proof -
  note w = client_tenant_wf [OF assms(1-3)]
  have nm: "after_char (lc_prefix_name lc) dot = Inr (lc_name lc)"
    unfolding w(3) by (rule after_char_append_first [OF w(1)])
  let ?s = "touch_client self a"
  have local: "\<exists>lc''. clients self b = Some lc'' \<and> lc_sockid lc'' = lc_sockid lc' \<and> lc_tenant lc'' = lc_tenant lc' \<and>
      lc_prefix_name lc'' = lc_prefix_name lc'" if "clients ?s b = Some lc'" for b lc'
    using that by (cases "clients self b") (auto simp: touch_clients split: if_splits)
  obtain dest rest where msg: "msg = dest # rest \<or> msg = []" by (cases msg) auto
  have "post (s_cb_send self (lc_sockid lc) (le64 (lc_cookie lc)) (dest # rest)) (confined_from self lc)"
  proof -
    obtain dst pub where sn: "send_names ?s (lc\<lparr>lc_timeout := 0\<rparr>) (c_string dest) = (dst, pub)" by fastforce
    then have "send_names self lc (c_string dest) = (dst, pub)"
      using send_names_cong [of ?s self "lc\<lparr>lc_timeout := 0\<rparr>" lc] by simp
    note dst = send_names_confined [OF assms(1-4) this]
    have data: "post (forward_locally ?s (lc_sockid lc') src rest) (confined_from self lc)"
      if b: "clients ?s b = Some lc'" "starts_with dst (lc_prefix_name lc')"
        and src: "src = lc_name lc \<or> src = lc_prefix_name lc" for b lc' src
    proof -
      obtain lc'' where l: "clients self b = Some lc''" "lc_sockid lc'' = lc_sockid lc'" "lc_tenant lc'' = lc_tenant lc'"
        "lc_prefix_name lc'' = lc_prefix_name lc'" using local [OF b(1)] by blast
      then have "lc_tenant lc'' = lc_tenant lc \<or> lc_tenant lc'' = ascii ''public''"
        using in_tenant_client [OF assms(1-3) l(1) dst] b(2) by (simp add: starts_with_prefix)
      from confined.data [OF l(1) this src, of rest] show ?thesis
        unfolding forward_locally_def using l(2) by (intro confined_send) simp_all
    qed
    have err: "post (dest_invalid_rsock ?s (lc_sockid lc) x y) (confined_from self lc)" for x y
      unfolding dest_invalid_rsock_def by (rule confined_send [OF confined.error]) simp
    have down: "post (forward_down ?s (lc_prefix_name lc) dst br rest) (confined_from self lc)" for br
      unfolding forward_down_def by (rule confined_send [OF confined.down [OF dst]]) simp
    have up: "post (forward_up ?s (lc_prefix_name lc) dst rest) (confined_from self lc)"
      using confined_send [OF confined.up [OF dst], of ?s self] by (simp add: forward_up_def confined_from_def)
    show ?thesis
      unfolding send_lookup [OF assms(1,3)] Let_def sn prod.case nm rbind_Inr post_simps
      by (rule post_has_rev_local_node)
        (auto intro!: post_has_dist_node post_after_char data err down up split: option.splits)
  qed
  then show ?thesis
    using assms(5) msg has_local_node_exact [OF assms(1,3), of True]
    by (auto simp: post_iff confined_from_def s_cb_send_def get_client_def touch_clients assms(3))
qed


lemma send_tenant_isolation_witness:
  "\<exists>self' es. s_cb_send ex_busy (ex_sockid 1) (le64 7) [ascii ''y'', [1]] = Inr self' \<and> sent self' = sent ex_busy @ es \<and>
     list_all (confined ex_busy (ex_client ''a'' ''x'' 7 1)) es"
  using send_local [OF ex_busy_ok, of 0 "ex_client ''a'' ''x'' 7 1" 1 "ex_client ''a'' ''y'' 7 2" "ascii ''y''" "[[1]]"]
    send_tenant_isolation [OF ex_busy_ok(1), of 0 "ex_client ''a'' ''x'' 7 1" "[ascii ''y'', [1]]"] ex_reaches
  by (simp add: ex_names_wf)

section \<open>Destinations that are not clients of this broker\<close>

lemma forward_up_registered:
  "state self = DD_STATE_REGISTERED \<Longrightarrow> dsock self \<Longrightarrow> forward_up self src dst msg =
     Inr (emit (Send Dsock ([le32 DD_VERSION, le32 DD_CMD_FORWARD, le64 (br_cookie (keys self)), src, dst] @ msg)) self)"
  by (simp add: forward_up_def zsock_send_def sock_open_def)

text \<open>The message as the broker passes it on, for another broker.\<close>

lemma send_elsewhere:
  assumes "reg_inv L self" "clients self a = Some lc" "unknown_here self (fst (send_names self lc (c_string dest)))"
  shows "s_cb_send self (lc_sockid lc) (le64 (lc_cookie lc)) (dest # msg) =
    (let self = touch_client self a; dst = fst (send_names self lc (c_string dest));
         srcpublic = (lc_tenant lc = ascii ''public''); dstpublic = snd (send_names self lc (c_string dest)) in
     rbind (hashtable_has_dist_node self dst) (\<lambda>dn. case dn of
       Some dc \<Rightarrow> forward_down self (lc_prefix_name lc) dst (dc_broker dc) msg
     | None \<Rightarrow>
         if state self = DD_STATE_ROOT then
           (if srcpublic = dstpublic
            then rbind (after_char (lc_prefix_name lc) dot) (\<lambda>src.
                 rbind (after_char dst dot) (\<lambda>dst. dest_invalid_rsock self (lc_sockid lc) src dst))
            else dest_invalid_rsock self (lc_sockid lc) (lc_prefix_name lc) dst)
         else forward_up self (lc_prefix_name lc) dst msg))"
proof -
  let ?s = "touch_client self a"
  have names: "send_names ?s (lc\<lparr>lc_timeout := 0\<rparr>) (c_string dest) = send_names self lc (c_string dest)"
    "send_names ?s lc (c_string dest) = send_names self lc (c_string dest)"
    by (rule send_names_cong; simp)+
  obtain dst pub where sn: "send_names self lc (c_string dest) = (dst, pub)" by fastforce
  have "hashtable_has_rev_local_node ?s dst False = Inr (None, ?s)"
    using has_rev_none [OF reg_inv_touch [OF assms(1)]] assms(3) sn by simp
  then show ?thesis
    unfolding send_lookup [OF assms(1,2)] Let_def names sn by (simp cong: option.case_cong if_cong)
qed

text \<open>
  A message whose destination the root does not know is answered with an error to the sender that
  names the destination as the sender wrote it (less the prefix \<open>public.\<close> when the sender is itself public);
  nothing else is sent.
\<close>

theorem send_unknown_destination:
  assumes "reg_inv L self" "names_wf (keys self)" "rsock self" "state self = DD_STATE_ROOT"
    and "clients self a = Some lc" "send_names self lc (c_string dest) = (dst, pub)"
    and "unknown_here self dst" "unknown_below self dst"
    and "length (dot_join (lc_tenant lc) (c_string dest)) < MAXTENANTNAME"
  shows "\<exists>src. handle X (On_router (Some ([lc_sockid lc, le32 DD_VERSION, le32 DD_CMD_SEND, le64 (lc_cookie lc), dest] @ msg))) self =
    Inr (emit (Send Rsock [lc_sockid lc, le32 DD_VERSION, le32 DD_CMD_ERROR, le32 DD_ERROR_NODST,
        (if lc_tenant lc = ascii ''public'' \<and> is_public_name (c_string dest)
         then drop 7 (c_string dest) else c_string dest), src])
      (touch_client self a))"
proof -
  let ?s = "touch_client self a"
  note w = client_tenant_wf [OF assms(1,2,5)]
  have names: "send_names ?s lc (c_string dest) = (dst, pub)"
    using send_names_cong [of ?s self lc lc] assms(6) by simp
  have dist: "hashtable_has_dist_node ?s dst = Inr None"
    using has_dist_none [OF reg_inv_touch [OF assms(1)]] assms(8) by simp
  have nm: "after_char (lc_prefix_name lc) dot = Inr (lc_name lc)"
    "after_char (dot_join (lc_tenant lc) d) dot = Inr d" for d
    using after_char_append_first [OF w(1), of "lc_name lc"] after_char_append_first [OF w(1), of d]
    by (simp_all add: w(3) dot_join_def ascii_def)
  have pubdot: "after_char (c_string dest) dot = Inr (drop 7 (c_string dest))" if "is_public_name (c_string dest)"
    using that after_char_append_first [of dot "ascii ''public''" "drop 7 (c_string dest)"]
    by (auto simp: is_public_name_def starts_with_prefix prefix_def ascii_def)
  have "unknown_here self (fst (send_names self lc (c_string dest)))" using assms(6,7) by simp
  note eq = send_elsewhere [OF assms(1,5) this, of msg]
  note unf = append.simps router_send eq Let_def names fst_conv snd_conv dist rbind_Inr option.case
    dest_invalid_rsock_def zsock_send_def sock_open_def
  let ?d = "c_string dest"
  consider "is_public_name ?d" "dst = ?d" "pub" | "\<not> is_public_name ?d" "lc_tenant lc = ascii ''public''" "dst = ?d" "\<not> pub"
    | "\<not> is_public_name ?d" "dst = dot_join (lc_tenant lc) ?d" "pub = (lc_tenant lc = ascii ''public'')"
    using assms(6,9) by (auto simp: send_names_def Let_def split: if_splits)
  then show ?thesis
  proof cases
    case 1
    show ?thesis unfolding unf unfolding 1(2) nm(1) pubdot [OF 1(1)] rbind_Inr using 1 assms(3,4) by auto
  next
    case 2
    then show ?thesis unfolding unf using assms(3,4) by auto
  next
    case 3
    show ?thesis unfolding unf unfolding 3(2) nm rbind_Inr using 3 assms(3,4) by auto
  qed
qed

lemma send_unknown_destination_witness:
  "\<exists>src. handle ex_ext (On_router (Some [ex_sockid 1, le32 DD_VERSION, le32 DD_CMD_SEND, le64 7, ascii ''q'', [1]])) ex_busy =
     Inr (emit (Send Rsock [ex_sockid 1, le32 DD_VERSION, le32 DD_CMD_ERROR, le32 DD_ERROR_NODST, ascii ''q'', src])
       (touch_client ex_busy 0))"
proof -
  have "send_names ex_busy (ex_client ''a'' ''x'' 7 1) (c_string (ascii ''q'')) = (ascii ''a.q'', False)"
    by (simp add: send_names_def is_public_name_def starts_with_def c_string_def dot_join_def ascii_def MAXTENANTNAME_def)
  moreover have "unknown_here ex_busy (ascii ''a.q'')"
    by (auto simp: unknown_here_def ascii_def elim!: ex_clientsE)
  moreover have "unknown_below ex_busy (ascii ''a.q'')"
    by (simp add: unknown_below_def ex_busy_def ex_populate_def ex_dist_def ascii_def)
  ultimately show ?thesis
    using send_unknown_destination [OF ex_busy_ok(1), of 0 "ex_client ''a'' ''x'' 7 1" "ascii ''q''" "ascii ''a.q''" False ex_ext "[[1]]"]
    by (simp add: ex_names_wf dot_join_def c_string_def ascii_def MAXTENANTNAME_def)
qed


section \<open>Across two brokers\<close>

text \<open>What the forward handlers do with a message for a client of the broker.\<close>

lemma forward_dsock_local:
  assumes "reg_inv L self" "clash_free self" "rsock self" "clients self b = Some lc'" "well_named lc" "well_named lc'"
    and "may_talk lc lc'" "0 \<notin> set (lc_prefix_name lc)" "0 \<notin> set (lc_prefix_name lc')"
  shows "s_cb_forward_dsock self ([lc_prefix_name lc, lc_prefix_name lc'] @ msg) =
    Inr (emit (Send Rsock ([lc_sockid lc', le32 DD_VERSION, le32 DD_CMD_DATA, sender_name lc lc'] @ msg)) self)"
  using assms(3,4) has_rev_exact [OF assms(1,2,4), of False]
  unfolding sender_name_alt [OF assms(7)] s_cb_forward_dsock_def
  by (simp add: c_string_id assms(8,9) well_named_simps(2) assms(5,6) well_named_after
      get_client_def forward_locally_def zsock_send_def sock_open_def)

lemma clash_free_br [simp]: "clash_free (self\<lparr>lcl_br_ht := t\<rparr>) = clash_free self"
  by (simp add: clash_free_def)

lemma reg_inv_br_touch:
  assumes "reg_inv L self" "(h, lb) \<in> set (lcl_br_ht self)"
  shows "reg_inv L (self\<lparr>lcl_br_ht := ht_replace h lb (lb\<lparr>lb_timeout := 0\<rparr>) (lcl_br_ht self)\<rparr>)"
  using assms brs_ok_replace [of L "keys self" "lcl_br_ht self" 0 h lb]
  by (simp add: reg_inv_def)

lemma forward_rsock_local:
  assumes "reg_inv L self" "clash_free self" "rsock self" "clients self b = Some lc'" "well_named lc" "well_named lc'"
    and "may_talk lc lc'" "0 \<notin> set (lc_prefix_name lc)" "0 \<notin> set (lc_prefix_name lc')"
    and br: "(h, lb) \<in> set (lcl_br_ht self)"
  shows "s_cb_forward_rsock self (lb_sockid lb) (le64 (lb_cookie lb)) ([lc_prefix_name lc, lc_prefix_name lc'] @ msg) =
    Inr (emit (Send Rsock ([lc_sockid lc', le32 DD_VERSION, le32 DD_CMD_DATA, sender_name lc lc'] @ msg))
      (self\<lparr>lcl_br_ht := ht_replace h lb (lb\<lparr>lb_timeout := 0\<rparr>) (lcl_br_ht self)\<rparr>))"
proof -
  let ?s = "self\<lparr>lcl_br_ht := ht_replace h lb (lb\<lparr>lb_timeout := 0\<rparr>) (lcl_br_ht self)\<rparr>"
  have "hashtable_has_rev_local_node ?s (lc_prefix_name lc') False = Inr (Some b, ?s)"
    using has_rev_exact [OF reg_inv_br_touch [OF assms(1) br], of b lc' False] assms(2,4) by simp
  then show ?thesis
    using assms(3,4) has_local_broker_exact [OF assms(1) br, of True]
    unfolding sender_name_alt [OF assms(7)] s_cb_forward_rsock_def
    by (simp add: c_string_id assms(8,9) well_named_simps(2) assms(5,6) well_named_after
        get_client_def forward_locally_def zsock_send_def sock_open_def)
qed

text \<open>
  C16. Delivery to a broker below: a message of a client of the upper broker to a client that is announced
  below is sent to the lower broker, and what that broker receives makes it deliver the payload to the
  client, with the sender named for a reply.
\<close>

theorem send_down_delivers:
  assumes "reg_inv L up" "names_wf (keys up)" "rsock up" "clients up a = Some lc"
    and "(h, dc) \<in> set (dist_cli_ht up)" "dist_clear up dc" "dc_name dc = lc_prefix_name lc'"
    and "unknown_here up (lc_prefix_name lc')"
    and "reg_inv L low" "clash_free low" "names_wf (keys low)" "rsock low" "clients low b = Some lc'"
    and "reaches up lc (c_string dest) lc'" "0 \<notin> set (lc_prefix_name lc)" "0 \<notin> set (lc_prefix_name lc')"
  shows "\<exists>fs.
    handle X (On_router (Some ([lc_sockid lc, le32 DD_VERSION, le32 DD_CMD_SEND, le64 (lc_cookie lc), dest] @ msg))) up =
      Inr (emit (Send Rsock (dc_broker dc # fs)) (touch_client up a)) \<and>
    handle X (On_dealer (Some fs)) low =
      Inr (emit (Send Rsock ([lc_sockid lc', le32 DD_VERSION, le32 DD_CMD_DATA, sender_name lc lc'] @ msg))
        (low\<lparr>timeout := 0\<rparr>))"
proof (intro exI conjI)
  let ?fs = "[le32 DD_VERSION, le32 DD_CMD_FORWARD, lc_prefix_name lc, lc_prefix_name lc'] @ msg"
  note w = client_well_named [OF assms(1,2,4)] client_well_named [OF assms(9,11,13)]
  note sn = send_names_reaches [OF w assms(14)]
  have "hashtable_has_dist_node (touch_client up a) (lc_prefix_name lc') = Inr (Some dc)"
    using has_dist_exact [OF reg_inv_touch [OF assms(1)], of h dc a] assms(5,6)
    unfolding assms(7) [symmetric] dist_clear_def touch_fields by blast
  moreover have "send_names (touch_client up a) lc (c_string dest) = (lc_prefix_name lc', lc_tenant lc' = ascii ''public'')"
    using sn(1) send_names_cong [of "touch_client up a" up lc lc] by simp
  ultimately show "handle X (On_router (Some ([lc_sockid lc, le32 DD_VERSION, le32 DD_CMD_SEND, le64 (lc_cookie lc), dest] @ msg))) up =
      Inr (emit (Send Rsock (dc_broker dc # ?fs)) (touch_client up a))"
    using send_elsewhere [OF assms(1,4), of dest msg] assms(3,8) sn(1)
    by (simp add: router_send forward_down_def zsock_send_def sock_open_def)
  show "handle X (On_dealer (Some ?fs)) low =
      Inr (emit (Send Rsock ([lc_sockid lc', le32 DD_VERSION, le32 DD_CMD_DATA, sender_name lc lc'] @ msg))
        (low\<lparr>timeout := 0\<rparr>))"
    using forward_dsock_local [of L "low\<lparr>timeout := 0\<rparr>" b lc' lc msg] assms(9,10,12,13,15,16) w sn(2)
    by (simp add: router_send reg_inv_def clash_free_def)
qed

lemma send_down_delivers_witness:
  "\<exists>fs.
    handle ex_ext (On_router (Some [ex_sockid 1, le32 DD_VERSION, le32 DD_CMD_SEND, le64 7, ascii ''z'', [1]])) ex_busy =
      Inr (emit (Send Rsock (ex_sockid 9 # fs)) (touch_client ex_busy 0)) \<and>
    handle ex_ext (On_dealer (Some fs)) ex_low =
      Inr (emit (Send Rsock [ex_sockid 4, le32 DD_VERSION, le32 DD_CMD_DATA, ascii ''x'', [1]]) (ex_low\<lparr>timeout := 0\<rparr>))"
proof -
  have "dist_clear ex_busy ex_dist" by (simp add: dist_clear_def ex_busy_tables)
  moreover have "unknown_here ex_busy (lc_prefix_name (ex_client ''a'' ''z'' 7 4))"
    by (auto simp: unknown_here_def ascii_def elim!: ex_clientsE)
  moreover have "reaches ex_busy (ex_client ''a'' ''x'' 7 1) (c_string (ascii ''z'')) (ex_client ''a'' ''z'' 7 4)"
    by (simp add: reaches_def is_public_name_def starts_with_def c_string_def ascii_def)
  moreover have "(name_hash (dc_name ex_dist), ex_dist) \<in> set (dist_cli_ht ex_busy)"
    "dc_name ex_dist = lc_prefix_name (ex_client ''a'' ''z'' 7 4)" "dc_broker ex_dist = ex_sockid 9"
    by (simp_all add: ex_busy_tables) (simp_all add: ex_dist_def ascii_def)
  ultimately show ?thesis
    using send_down_delivers [OF ex_busy_ok(1), of 0 "ex_client ''a'' ''x'' 7 1" _ ex_dist "ex_client ''a'' ''z'' 7 4"
        ex_low 0 "ascii ''z''" ex_ext "[[1]]"]
    by (simp add: ex_names_wf ex_low_ok sender_name_def ascii_def)
qed

text \<open>
  C17. Delivery to the broker above: a message of a client of the lower broker to a client of the upper
  one is sent up, and what arrives there makes that broker deliver the payload to the client, with the
  sender named for a reply.
\<close>

theorem send_up_delivers:
  assumes "reg_inv L low" "names_wf (keys low)" "dsock low" "state low = DD_STATE_REGISTERED" "clients low a = Some lc"
    and "unknown_here low (lc_prefix_name lc')" "unknown_below low (lc_prefix_name lc')"
    and "reg_inv L up" "clash_free up" "names_wf (keys up)" "rsock up" "clients up b = Some lc'"
    and "(h, lb) \<in> set (lcl_br_ht up)" "lb_cookie lb = br_cookie (keys low)"
    and "reaches low lc (c_string dest) lc'" "0 \<notin> set (lc_prefix_name lc)" "0 \<notin> set (lc_prefix_name lc')"
  shows "\<exists>fs up'.
    handle X (On_router (Some ([lc_sockid lc, le32 DD_VERSION, le32 DD_CMD_SEND, le64 (lc_cookie lc), dest] @ msg))) low =
      Inr (emit (Send Dsock fs) (touch_client low a)) \<and>
    handle X (On_router (Some (lb_sockid lb # fs))) up = Inr up' \<and>
    sent up' = sent up @ [Send Rsock ([lc_sockid lc', le32 DD_VERSION, le32 DD_CMD_DATA, sender_name lc lc'] @ msg)]"
proof (intro exI conjI)
  let ?fs = "[le32 DD_VERSION, le32 DD_CMD_FORWARD, le64 (lb_cookie lb), lc_prefix_name lc, lc_prefix_name lc'] @ msg"
  let ?up = "emit (Send Rsock ([lc_sockid lc', le32 DD_VERSION, le32 DD_CMD_DATA, sender_name lc lc'] @ msg))
      (up\<lparr>lcl_br_ht := ht_replace h lb (lb\<lparr>lb_timeout := 0\<rparr>) (lcl_br_ht up)\<rparr>)"
  note w = client_well_named [OF assms(1,2,5)] client_well_named [OF assms(8,10,12)]
  note sn = send_names_reaches [OF w assms(15)]
  have "hashtable_has_dist_node (touch_client low a) (lc_prefix_name lc') = Inr None"
    using has_dist_none [OF reg_inv_touch [OF assms(1)]] assms(7) by simp
  moreover have "send_names (touch_client low a) lc (c_string dest) = (lc_prefix_name lc', lc_tenant lc' = ascii ''public'')"
    using sn(1) send_names_cong [of "touch_client low a" low lc lc] by simp
  ultimately show "handle X (On_router (Some ([lc_sockid lc, le32 DD_VERSION, le32 DD_CMD_SEND, le64 (lc_cookie lc), dest] @ msg))) low =
      Inr (emit (Send Dsock ?fs) (touch_client low a))"
    using send_elsewhere [OF assms(1,5), of dest msg] assms(3,4,6,14) sn(1)
    by (simp add: router_send forward_up_registered)
  show "handle X (On_router (Some (lb_sockid lb # ?fs))) up = Inr ?up"
    using forward_rsock_local [OF assms(8,9,11,12) w sn(2) assms(16,17,13), of msg] by (simp add: router_send)
  show "sent ?up = sent up @ [Send Rsock ([lc_sockid lc', le32 DD_VERSION, le32 DD_CMD_DATA, sender_name lc lc'] @ msg)]"
    by (simp add: emit_def)
qed

lemma send_up_delivers_witness:
  "\<exists>fs up'.
    handle ex_ext (On_router (Some [ex_sockid 4, le32 DD_VERSION, le32 DD_CMD_SEND, le64 7, ascii ''x'', [1]])) ex_low =
      Inr (emit (Send Dsock fs) (touch_client ex_low 0)) \<and>
    handle ex_ext (On_router (Some (ex_sockid 9 # fs))) ex_busy = Inr up' \<and>
    sent up' = sent ex_busy @ [Send Rsock [ex_sockid 1, le32 DD_VERSION, le32 DD_CMD_DATA, ascii ''z'', [1]]]"
proof -
  have "unknown_here ex_low (lc_prefix_name (ex_client ''a'' ''x'' 7 1))"
    by (auto simp: unknown_here_def ascii_def split: if_splits)
  moreover have "unknown_below ex_low (lc_prefix_name (ex_client ''a'' ''x'' 7 1))"
    by (simp add: unknown_below_def)
  moreover have "reaches ex_low (ex_client ''a'' ''z'' 7 4) (c_string (ascii ''x'')) (ex_client ''a'' ''x'' 7 1)"
    by (simp add: reaches_def is_public_name_def starts_with_def c_string_def ascii_def)
  moreover have "(sockid_cookie_hash (lb_sockid ex_broker) (le64 (lb_cookie ex_broker)), ex_broker) \<in> set (lcl_br_ht ex_busy)"
    "lb_sockid ex_broker = ex_sockid 9" "lb_cookie ex_broker = 5" "br_cookie ex_keys = 5"
    by (simp_all add: ex_busy_tables) (simp_all add: ex_broker_def ex_keys_def)
  ultimately show ?thesis
    using send_up_delivers [OF ex_low_ok(1), of 0 "ex_client ''a'' ''z'' 7 4" "ex_client ''a'' ''x'' 7 1" ex_busy 0
        _ ex_broker "ascii ''x''" ex_ext "[[1]]"]
    by (simp add: ex_names_wf ex_busy_ok sender_name_def ascii_def)
qed

end
