(* ===== verification/Network.thy ===== *)
theory Network
  imports Replay RoutingProps
begin

text \<open>
  A broker and its clients together: what a client sends is handed to the broker under the client's socket
  id, what the broker sends to a socket id to the client of that id, each in the order it was sent. Here are
  the properties that no component has alone: a client with the right keys and the broker answer each other
  until the client is registered, and a message from one client is reported by the other, decrypted.
\<close>

section \<open>The composition\<close>

text \<open>The messages that a client has sent, and those that the broker has sent to its clients.\<close>

fun sends :: "cevent list \<Rightarrow> bytes list list" where
  "sends [] = []"
| "sends (CSend m # es) = m # sends es"
| "sends (e # es) = sends es"

fun routed :: "event list \<Rightarrow> (bytes \<times> bytes list) list" where
  "routed [] = []"
| "routed (Send Rsock (sid # m) # es) = (sid, m) # routed es"
| "routed (e # es) = routed es"

text \<open>\<open>n_up\<close> and \<open>n_down\<close> count the messages that have arrived.\<close>

record net =
  n_broker :: dd_broker
  n_clients :: "bytes \<rightharpoonup> dd"
  n_up :: "bytes \<Rightarrow> nat"
  n_down :: nat

text \<open>
  What the broker is given by others: anything but a message from one of the clients. A client that asks for its
  registration destroys its socket and makes a new one: what it had sent and has not arrived is lost, and from then on
  it has another socket id, one that no message was ever sent to.
\<close>

definition elsewhere :: "net \<Rightarrow> input \<Rightarrow> bool" where
  "elsewhere n inp = (case inp of On_router (Some (sid # m)) \<Rightarrow> n_clients n sid = None | _ \<Rightarrow> True)"

inductive net_step :: "ext \<Rightarrow> (bytes \<Rightarrow> ext) \<Rightarrow> net \<Rightarrow> net \<Rightarrow> bool" for XB XC where
  client_acts: "n_clients n sid = Some c \<Longrightarrow> c_enabled c inp \<Longrightarrow> \<forall>m. inp \<noteq> C_dealer m \<Longrightarrow>
    c_state c = DD_STATE_UNREG \<longrightarrow> (\<forall>i created. inp \<noteq> C_timer i Ask_registration created) \<Longrightarrow> c_handle (XC sid) inp c = Inr c' \<Longrightarrow>
    net_step XB XC n (n\<lparr>n_clients := (n_clients n)(sid \<mapsto> c')\<rparr>)"
| client_reconnects: "n_clients n sid = Some c \<Longrightarrow> c_state c = DD_STATE_UNREG \<Longrightarrow> c_enabled c (C_timer i Ask_registration True) \<Longrightarrow>
    n_clients n sid' = None \<Longrightarrow> sid' \<notin> fst ` set (routed (sent (n_broker n))) \<Longrightarrow> XC sid' = XC sid \<Longrightarrow>
    c_handle (XC sid) (C_timer i Ask_registration True) c = Inr c' \<Longrightarrow>
    net_step XB XC n (n\<lparr>n_clients := (n_clients n)(sid := None, sid' \<mapsto> c'), n_up := (n_up n)(sid' := length (sends (c_out c)))\<rparr>)"
| broker_acts: "enabled (n_broker n) inp \<Longrightarrow> elsewhere n inp \<Longrightarrow> handle XB inp (n_broker n) = Inr b \<Longrightarrow>
    net_step XB XC n (n\<lparr>n_broker := b\<rparr>)"
| uplink: "n_clients n sid = Some c \<Longrightarrow> n_up n sid < length (sends (c_out c)) \<Longrightarrow>
    enabled (n_broker n) (On_router None) \<Longrightarrow>
    handle XB (On_router (Some (sid # sends (c_out c) ! n_up n sid))) (n_broker n) = Inr b \<Longrightarrow>
    net_step XB XC n (n\<lparr>n_broker := b, n_up := (n_up n)(sid := Suc (n_up n sid))\<rparr>)"
| downlink: "n_down n < length (routed (sent (n_broker n))) \<Longrightarrow> routed (sent (n_broker n)) ! n_down n = (sid, m) \<Longrightarrow>
    n_clients n sid = Some c \<Longrightarrow> c_enabled c (C_dealer (Some m)) \<Longrightarrow> c_handle (XC sid) (C_dealer (Some m)) c = Inr c' \<Longrightarrow>
    net_step XB XC n (n\<lparr>n_clients := (n_clients n)(sid \<mapsto> c'), n_down := Suc (n_down n)\<rparr>)"
| lost: "n_down n < length (routed (sent (n_broker n))) \<Longrightarrow> routed (sent (n_broker n)) ! n_down n = (sid, m) \<Longrightarrow>
    n_clients n sid = None \<Longrightarrow> net_step XB XC n (n\<lparr>n_down := Suc (n_down n)\<rparr>)"

abbreviation net_run :: "ext \<Rightarrow> (bytes \<Rightarrow> ext) \<Rightarrow> net \<Rightarrow> net \<Rightarrow> bool" where
  "net_run XB XC \<equiv> (net_step XB XC)\<^sup>*\<^sup>*"

text \<open>Everything that was sent has arrived, as far as the broker and this client are concerned.\<close>

definition settled :: "net \<Rightarrow> bytes \<Rightarrow> dd \<Rightarrow> bool" where
  "settled n sid c \<longleftrightarrow> n_clients n sid = Some c \<and> n_up n sid = length (sends (c_out c)) \<and>
     n_down n = length (routed (sent (n_broker n))) \<and> c_running c \<and> c_socket c \<and> rsock (n_broker n)"

text \<open>What one side encrypts the other decrypts: the law of \<open>crypto_box\<close>.\<close>

definition same_box :: "ext \<Rightarrow> ext \<Rightarrow> bool" where
  "same_box X Y \<longleftrightarrow> (\<forall>k n m. box_open X k n (box_easy Y k n m) = Some m)"

lemma sends_append [simp]: "sends (xs @ ys) = sends xs @ sends ys"
  by (induction xs rule: sends.induct) simp_all

lemma routed_append [simp]: "routed (xs @ ys) = routed xs @ routed ys"
  by (induction xs rule: routed.induct) simp_all

lemma sends_subs [simp]:
  "sends (map (\<lambda>i. CSend (f i)) xs) = map f xs"
  by (induction xs) simp_all

lemma enabled_router: "enabled b (On_router m) \<longleftrightarrow> rsock b"
  by (simp add: enabled_def)

text \<open>One exchange: the client acts, the broker answers it.\<close>

lemma uplink_last:
  assumes "n_clients n sid = Some c" "sends (c_out c) = ms @ [m]" "n_up n sid = length ms" "rsock (n_broker n)"
    and "handle XB (On_router (Some (sid # m))) (n_broker n) = Inr b"
  shows "net_step XB XC n (n\<lparr>n_broker := b, n_up := (n_up n)(sid := Suc (length ms))\<rparr>)"
  using uplink [of n sid c XB b XC] assms by (simp add: enabled_router nth_append)

lemma downlink_last:
  assumes "routed (sent (n_broker n)) = ms @ (sid, m) # rest" "n_down n = length ms" "n_clients n sid = Some c"
    and "c_running c" "c_socket c" "c_handle (XC sid) (C_dealer (Some m)) c = Inr c'"
  shows "net_step XB XC n (n\<lparr>n_clients := (n_clients n)(sid \<mapsto> c'), n_down := Suc (length ms)\<rparr>)"
  using downlink [of n sid m c XC c' XB] assms by (simp add: c_enabled_def nth_append)

section \<open>The handshake, message by message\<close>

lemma ask_registration_sends:
  assumes "c_state c = DD_STATE_UNREG" "c_socket c" "connect_ok X Dsock (c_endpoint c)"
  shows "\<exists>c'. c_handle X (C_timer i Ask_registration True) c = Inr c' \<and>
    sends (c_out c') = sends (c_out c) @ [[le32 DD_VERSION, le32 DD_CMD_ADDLCL, k_hash (c_keys c)]] \<and>
    c' = c\<lparr>c_out := c_out c'\<rparr>"
  using assms by (simp add: c_handle_def s_ask_registration_def c_send_def c_emit_def)

lemma nonce_add_length [simp]: "length (nonce_add w n) = length n"
  by (induction n arbitrary: w) (simp_all add: Let_def)

lemma nonce_increment_length [simp]: "length (nonce_increment n) = length n"
  by (simp add: nonce_increment_def)

lemma addlcl_challenges:
  assumes "map_of (tenantkeys (keys b)) h = Some ten" "0 \<notin> set h" "rsock b"
  shows "\<exists>b'. handle X (On_router (Some (sid # [le32 DD_VERSION, le32 DD_CMD_ADDLCL, h]))) b = Inr b' \<and>
    routed (sent b') = routed (sent b) @
      [(sid, [le32 DD_VERSION, le32 DD_CMD_CHALL, nonce_increment (nonce b) @ box_easy X (ten_boxk ten) (nonce_increment (nonce b)) (le64 (ten_cookie ten))])] \<and>
    b' = b\<lparr>nonce := nonce_increment (nonce b), sent := sent b'\<rparr>"
  using assms
  by (simp add: handle_def s_on_router_msg_def router_cmd_def cmd_defs s_cb_addlcl_def c_string_id zsock_send_def sock_open_def Let_def
      emit_def)

lemma chall_answered:
  assumes "length n = NONCEBYTES" "box_open X (k_ddboxk (c_keys c)) n cipher = Some m" "c_socket c"
  shows "\<exists>c'. c_handle X (C_dealer (Some [le32 DD_VERSION, le32 DD_CMD_CHALL, n @ cipher])) (c\<lparr>c_out := es\<rparr>) = Inr c' \<and>
    sends (c_out c') = sends es @ [[le32 DD_VERSION, le32 DD_CMD_CHALLOK, m, k_hash (c_keys c), c_name c]] \<and>
    c' = c\<lparr>c_timeout := 0, c_out := c_out c'\<rparr>"
  using assms
  by (simp add: c_handle_def c_on_dealer_msg_def Let_def c_dealer_cmd_def cmd_defs cb_chall_def decrypt_frame_def c_send_def c_emit_def)

text \<open>A name and a socket that the broker does not know are entered.\<close>

definition newcomer :: "bytes \<Rightarrow> ddtenant \<Rightarrow> bytes \<Rightarrow> local_client" where
  "newcomer sid ten name =
     \<lparr>lc_name = name, lc_prefix_name = dot_join (ten_name ten) name, lc_tenant = ten_name ten,
      lc_cookie = ten_cookie ten, lc_sockid = sid, lc_timeout = 0\<rparr>"

definition entered :: "ext \<Rightarrow> dd_broker \<Rightarrow> local_client \<Rightarrow> dd_broker" where
  "entered X b np = b\<lparr>clients := (clients b)(next_client b \<mapsto> np), next_client := Suc (next_client b),
     lcl_cli_ht := ht_add X (client_hash np) (next_client b) (lcl_cli_ht b),
     rev_lcl_cli_ht := ht_add X (prename_hash (lc_prefix_name np)) (next_client b) (rev_lcl_cli_ht b)\<rparr>"

lemma entered_fields [simp]:
  "sent (entered X b np) = sent b" "rsock (entered X b np) = rsock b" "dsock (entered X b np) = dsock b"
  "state (entered X b np) = state b" "keys (entered X b np) = keys b"
  "clients (entered X b np) = (clients b)(next_client b \<mapsto> np)" "sock_open (entered X b np) = sock_open b"
  by (simp_all add: entered_def sock_open_def fun_eq_iff split: sock.split)

lemma newcomer_socket:
  assumes inv: "reg_inv L b" and len: "length sid = L" and new: "\<forall>a lc. clients b a = Some lc \<longrightarrow> lc_sockid lc \<noteq> sid"
  shows "ht_lookup (match_lcl_node_sockid b sid) h (lcl_cli_ht b) = Inr None"
proof (rule ht_lookup_miss)
  fix a assume a: "(h, a) \<in> set (lcl_cli_ht b)"
  have ok: "cli_ok L (keys b) (clients b) (next_client b) (lcl_cli_ht b) (rev_lcl_cli_ht b)"
    using inv by (simp add: reg_inv_def)
  obtain lc where lc: "clients b a = Some lc" using cli_ok_lcl_dom [OF ok a] by blast
  then have "length (lc_sockid lc) = length sid" using cli_okD(10) [OF ok lc] len unfolding client_ok_def by simp
  then show "match_lcl_node_sockid b sid a = Inr False"
    using lc new [rule_format, OF lc] by (simp add: match_lcl_node_sockid_def get_client_def memcmp_eq_len)
qed

lemma insert_newcomer:
  assumes inv: "reg_inv L b" and len: "length sid = L" "length (dot_join (ten_name ten) name) < MAXTENANTNAME"
    and new: "\<forall>a lc. clients b a = Some lc \<longrightarrow> lc_sockid lc \<noteq> sid"
    and free: "unknown_here b (dot_join (ten_name ten) name)" "unknown_below b (dot_join (ten_name ten) name)"
  shows "insert_local_client X b sid ten name = Inr (1, entered X b (newcomer sid ten name))"
proof -
  have r: "ht_lookup (match_lcl_node_prename b (dot_join (ten_name ten) name)) (prename_hash (dot_join (ten_name ten) name))
      (rev_lcl_cli_ht b) = Inr None"
    using has_rev_none [OF inv free(1), of False] by (auto simp: hashtable_has_rev_local_node_def rbind_eq_Inr split: option.splits)
  show ?thesis using len(2)
    by (simp add: insert_local_client_def Let_def has_dist_none [OF inv free(2)] newcomer_socket [OF inv len(1) new] r entered_def
        newcomer_def client_hash_def)
qed

text \<open>A name that is taken.\<close>

lemma ht_lookup_hit:
  assumes "(h, y) \<in> set t" "m y = Inr True" "\<And>z. (h, z) \<in> set t \<Longrightarrow> is_ok (m z)"
  shows "\<exists>z. ht_lookup m h t = Inr (Some z)"
  using assms
proof (induction t)
  case (Cons x t)
  show ?case
  proof (cases "x = (h, y)")
    case False
    then have "\<exists>z. ht_lookup m h t = Inr (Some z)" using Cons by auto
    then show ?thesis using Cons.prems(3) by (cases x) (fastforce simp: is_ok_iff)
  qed (use Cons.prems(2) in simp)
qed simp

lemma insert_taken:
  assumes inv: "reg_inv L b" and len: "length sid = L" "length (dot_join (ten_name ten) name) < MAXTENANTNAME"
    and new: "\<forall>a lc. clients b a = Some lc \<longrightarrow> lc_sockid lc \<noteq> sid"
    and taken: "\<not> (unknown_here b (dot_join (ten_name ten) name) \<and> unknown_below b (dot_join (ten_name ten) name))"
  shows "insert_local_client X b sid ten name = Inr (- 1, b)"
proof -
  let ?n = "dot_join (ten_name ten) name"
  have ok: "cli_ok L (keys b) (clients b) (next_client b) (lcl_cli_ht b) (rev_lcl_cli_ht b)"
    using inv by (simp add: reg_inv_def)
  note s = newcomer_socket [OF inv len(1) new]
  show ?thesis
  proof (cases "unknown_below b ?n")
    case True
    then obtain a lc where lc: "clients b a = Some lc" "prename_hash (lc_prefix_name lc) = prename_hash ?n" "prefix ?n (lc_prefix_name lc)"
      using taken by (auto simp: unknown_here_def)
    then have m: "(prename_hash ?n, a) \<in> set (rev_lcl_cli_ht b)" using cli_ok_rev [OF ok] by metis
    have "is_ok (match_lcl_node_prename b ?n z)" if "(prename_hash ?n, z) \<in> set (rev_lcl_cli_ht b)" for z
      using cli_ok_rev_dom [OF ok that] by (auto simp: match_lcl_node_prename_def get_client_def)
    then obtain z where "ht_lookup (match_lcl_node_prename b ?n) (prename_hash ?n) (rev_lcl_cli_ht b) = Inr (Some z)"
      using ht_lookup_hit [OF m, of "match_lcl_node_prename b ?n"] lc
      by (auto simp: match_lcl_node_prename_def get_client_def starts_with_prefix)
    then show ?thesis using len(2) by (simp add: insert_local_client_def Let_def has_dist_none [OF inv True] s)
  next
    case False
    then obtain h dc where dc: "(h, dc) \<in> set (dist_cli_ht b)" "name_hash (dc_name dc) = name_hash ?n" "prefix ?n (dc_name dc)"
      by (auto simp: unknown_below_def)
    then have "(name_hash ?n, dc) \<in> set (dist_cli_ht b)" using dist_hash [OF inv dc(1)] by simp
    then obtain z where "hashtable_has_dist_node b ?n = Inr (Some z)"
      using ht_lookup_hit [of "name_hash ?n" dc "dist_cli_ht b" "match_dist_node ?n"] dc(3)
      by (auto simp: hashtable_has_dist_node_def match_dist_node_def starts_with_prefix)
    then show ?thesis using len(2) by (simp add: insert_local_client_def Let_def)
  qed
qed

lemma challok_registers:
  assumes "reg_inv L b" "length sid = L" "length (dot_join (ten_name ten) name) < MAXTENANTNAME"
    and "\<forall>a lc. clients b a = Some lc \<longrightarrow> lc_sockid lc \<noteq> sid"
    and "unknown_here b (dot_join (ten_name ten) name)" "unknown_below b (dot_join (ten_name ten) name)"
    and h: "map_of (tenantkeys (keys b)) h = Some ten" "0 \<notin> set h" "h \<noteq> br_hash (keys b)"
    and name: "0 \<notin> set name" "name \<noteq> ascii ''public''"
    and ready: "rsock b" "state b = DD_STATE_REGISTERED \<longrightarrow> dsock b"
  shows "\<exists>b'. handle X (On_router (Some [sid, le32 DD_VERSION, le32 DD_CMD_CHALLOK, le64 (ten_cookie ten), h, name])) b = Inr b' \<and>
    routed (sent b') = routed (sent b) @ [(sid, [le32 DD_VERSION, le32 DD_CMD_REGOK, le64 (ten_cookie ten)])] \<and>
    rsock b' \<and> clients b' = (clients b)(next_client b \<mapsto> newcomer sid ten name) \<and> next_client b \<notin> dom (clients b)"
proof -
  have ok: "cli_ok L (keys b) (clients b) (next_client b) (lcl_cli_ht b) (rev_lcl_cli_ht b)"
    using assms(1) by (simp add: reg_inv_def)
  have n: "next_client b \<notin> dom (clients b)" using cli_okD(5) [OF ok] by blast
  let ?b = "entered X b (newcomer sid ten name)"
  let ?e = "emit (Send Rsock [sid, le32 DD_VERSION, le32 DD_CMD_REGOK, le64 (ten_cookie ten)]) ?b"
  have "handle X (On_router (Some [sid, le32 DD_VERSION, le32 DD_CMD_CHALLOK, le64 (ten_cookie ten), h, name])) b =
      (if state b \<noteq> DD_STATE_ROOT then add_cli_up ?e (snprintf 200 (dot_join (ten_name ten) name)) 0 else Inr ?e)"
    using h name ready
    by (simp add: handle_def s_on_router_msg_def router_cmd_def cmd_defs s_cb_challok_def c_string_id
        challok_client_def insert_newcomer [OF assms(1-6)] zsock_send_def sock_open_def)
  moreover have "routed (sent ?e) = routed (sent b) @ [(sid, [le32 DD_VERSION, le32 DD_CMD_REGOK, le64 (ten_cookie ten)])]"
    by (simp add: emit_def)
  ultimately show ?thesis using ready n
    by (auto simp: add_cli_up_def zsock_send_def sock_open_def emit_def)
qed

lemma challok_refused:
  assumes "reg_inv L b" "length sid = L" "length (dot_join (ten_name ten) name) < MAXTENANTNAME"
    and "\<forall>a lc. clients b a = Some lc \<longrightarrow> lc_sockid lc \<noteq> sid"
    and "\<not> (unknown_here b (dot_join (ten_name ten) name) \<and> unknown_below b (dot_join (ten_name ten) name))"
    and h: "map_of (tenantkeys (keys b)) h = Some ten" "0 \<notin> set h" "h \<noteq> br_hash (keys b)"
    and name: "0 \<notin> set name" "name \<noteq> ascii ''public''" and ready: "rsock b"
  shows "\<exists>b'. handle X (On_router (Some [sid, le32 DD_VERSION, le32 DD_CMD_CHALLOK, le64 (ten_cookie ten), h, name])) b = Inr b' \<and>
    routed (sent b') = routed (sent b) @ [(sid, [le32 DD_VERSION, le32 DD_CMD_ERROR, le32 DD_ERROR_REGFAIL, ascii ''local''])] \<and>
    clients b' = clients b"
  using h name ready
  by (simp add: handle_def s_on_router_msg_def router_cmd_def cmd_defs s_cb_challok_def c_string_id
      challok_client_def insert_taken [OF assms(1-5)] remote_reg_failed_def zsock_send_def sock_open_def emit_def)

lemma regok_accepted:
  assumes "c_ok X c" "c_running c"
  shows "\<exists>c'. c_handle X (C_dealer (Some [le32 DD_VERSION, le32 DD_CMD_REGOK, le64 cookie])) c = Inr c' \<and>
    c_state c' = DD_STATE_REGISTERED \<and> c_cookie c' = Some cookie \<and> last (c_out c') = On_reg"
  using regok_exact [of "c\<lparr>c_timeout := 0\<rparr>" X cookie "[]"] assms
  by (auto simp: c_handle_def c_on_dealer_msg_def Let_def c_dealer_cmd_def cmd_defs c_ok_def)

section \<open>A client with the right keys gets registered\<close>

text \<open>
  The two sides in between: a broker with the keys \<open>ks\<close>, and a client with the keys \<open>ck\<close> and a name, each in any state
  in which it can be (\<open>reg_inv\<close> and \<open>c_ok\<close> are invariants of their runs), whatever else it has done.
\<close>

definition serves :: "nat \<Rightarrow> ddbrokerkeys \<Rightarrow> dd_broker \<Rightarrow> bool" where
  "serves L ks b \<longleftrightarrow> reg_inv L b \<and> keys b = ks \<and> rsock b \<and> length (nonce b) = NONCEBYTES \<and> (state b = DD_STATE_REGISTERED \<longrightarrow> dsock b)"

definition waits :: "ext \<Rightarrow> dd_keys \<Rightarrow> bytes \<Rightarrow> dd \<Rightarrow> bool" where
  "waits X ck name c \<longleftrightarrow> c_ok X c \<and> c_running c \<and> c_keys c = ck \<and> c_name c = name"

lemma waits_same: "waits X ck name c \<Longrightarrow> waits X ck name (c\<lparr>c_timeout := t, c_out := es\<rparr>)"
  by (simp add: waits_def c_ok_def c_ids_def)

text \<open>
  The handshake, step by step, each step from whatever state the message finds its receiver in: the client asks, the
  broker answers with a challenge, the client answers that with the cookie, the broker with REGOK, upon which the client
  is registered; unless a client of this name is known here or below: then the answer is the error REGFAIL, and nothing
  is entered.
\<close>

definition agreement :: "ext \<Rightarrow> ext \<Rightarrow> nat \<Rightarrow> bytes \<Rightarrow> ddbrokerkeys \<Rightarrow> dd_keys \<Rightarrow> bytes \<Rightarrow> ddtenant \<Rightarrow> bool" where
  "agreement XB XC L sid ks ck name ten \<longleftrightarrow>
     (\<forall>c i. waits XC ck name c \<longrightarrow> c_state c = DD_STATE_UNREG \<longrightarrow> connect_ok XC Dsock (c_endpoint c) \<longrightarrow>
        (\<exists>c'. c_handle XC (C_timer i Ask_registration True) c = Inr c' \<and> waits XC ck name c' \<and>
           sends (c_out c') = sends (c_out c) @ [[le32 DD_VERSION, le32 DD_CMD_ADDLCL, k_hash ck]])) \<and>
     (\<forall>b. serves L ks b \<longrightarrow>
        (\<exists>b' chall. handle XB (On_router (Some (sid # [le32 DD_VERSION, le32 DD_CMD_ADDLCL, k_hash ck]))) b = Inr b' \<and> serves L ks b' \<and>
           clients b' = clients b \<and> routed (sent b') = routed (sent b) @ [(sid, [le32 DD_VERSION, le32 DD_CMD_CHALL, chall])] \<and>
           (\<forall>c. waits XC ck name c \<longrightarrow>
              (\<exists>c'. c_handle XC (C_dealer (Some [le32 DD_VERSION, le32 DD_CMD_CHALL, chall])) c = Inr c' \<and> waits XC ck name c' \<and>
                 sends (c_out c') = sends (c_out c) @ [[le32 DD_VERSION, le32 DD_CMD_CHALLOK, le64 (ten_cookie ten), k_hash ck, name]])))) \<and>
     (\<forall>b. serves L ks b \<longrightarrow> (\<forall>a lc. clients b a = Some lc \<longrightarrow> lc_sockid lc \<noteq> sid) \<longrightarrow>
        (\<exists>b'. handle XB (On_router (Some (sid # [le32 DD_VERSION, le32 DD_CMD_CHALLOK, le64 (ten_cookie ten), k_hash ck, name]))) b = Inr b' \<and>
           (if unknown_here b (dot_join (ten_name ten) name) \<and> unknown_below b (dot_join (ten_name ten) name)
            then clients b' = (clients b)(next_client b \<mapsto> newcomer sid ten name) \<and> next_client b \<notin> dom (clients b) \<and>
              routed (sent b') = routed (sent b) @ [(sid, [le32 DD_VERSION, le32 DD_CMD_REGOK, le64 (ten_cookie ten)])]
            else clients b' = clients b \<and>
              routed (sent b') = routed (sent b) @ [(sid, [le32 DD_VERSION, le32 DD_CMD_ERROR, le32 DD_ERROR_REGFAIL, ascii ''local''])]))) \<and>
     (\<forall>c. waits XC ck name c \<longrightarrow>
        (\<exists>c'. c_handle XC (C_dealer (Some [le32 DD_VERSION, le32 DD_CMD_REGOK, le64 (ten_cookie ten)])) c = Inr c' \<and>
           c_state c' = DD_STATE_REGISTERED \<and> c_cookie c' = Some (ten_cookie ten) \<and> last (c_out c') = On_reg))"

text \<open>The four steps.\<close>

lemma step_ask:
  assumes c: "waits XC ck name c" "c_state c = DD_STATE_UNREG" "connect_ok XC Dsock (c_endpoint c)"
  shows "\<exists>c'. c_handle XC (C_timer i Ask_registration True) c = Inr c' \<and> waits XC ck name c' \<and>
      sends (c_out c') = sends (c_out c) @ [[le32 DD_VERSION, le32 DD_CMD_ADDLCL, k_hash ck]]"
proof -
  have "c_socket c" using c(1) by (simp add: waits_def c_ok_def)
  from ask_registration_sends [OF c(2) this c(3), of i] obtain c' where c': "c_handle XC (C_timer i Ask_registration True) c = Inr c'"
    "sends (c_out c') = sends (c_out c) @ [[le32 DD_VERSION, le32 DD_CMD_ADDLCL, k_hash (c_keys c)]]" "c' = c\<lparr>c_out := c_out c'\<rparr>" by blast
  have "waits XC ck name c'" using waits_same [OF c(1), where t = "c_timeout c" and es = "c_out c'"] c'(3) by simp
  then show ?thesis using c'(1,2) c(1) by (auto simp: waits_def)
qed

lemma step_challenge:
  assumes b: "serves L ks b" and h: "map_of (tenantkeys ks) h = Some ten" "0 \<notin> set h"
  shows "\<exists>b' n. handle XB (On_router (Some (sid # [le32 DD_VERSION, le32 DD_CMD_ADDLCL, h]))) b = Inr b' \<and> serves L ks b' \<and> clients b' = clients b \<and>
    length n = NONCEBYTES \<and> routed (sent b') = routed (sent b) @
      [(sid, [le32 DD_VERSION, le32 DD_CMD_CHALL, n @ box_easy XB (ten_boxk ten) n (le64 (ten_cookie ten))])]"
proof -
  have bk: "map_of (tenantkeys (keys b)) h = Some ten" "rsock b" using b h(1) by (simp_all add: serves_def)
  define n where "n = nonce_increment (nonce b)"
  obtain b' where b': "handle XB (On_router (Some (sid # [le32 DD_VERSION, le32 DD_CMD_ADDLCL, h]))) b = Inr b'"
    "routed (sent b') = routed (sent b) @ [(sid, [le32 DD_VERSION, le32 DD_CMD_CHALL, n @ box_easy XB (ten_boxk ten) n (le64 (ten_cookie ten))])]"
    "b' = b\<lparr>nonce := n, sent := sent b'\<rparr>"
    using addlcl_challenges [OF bk(1) h(2) bk(2)] unfolding n_def by blast
  have n: "length n = NONCEBYTES" using b by (simp add: n_def serves_def)
  have "reg_inv L (b\<lparr>nonce := n, sent := sent b'\<rparr>)" by (rule reg_inv_same [of L b]) (use b in \<open>simp_all add: serves_def\<close>)
  then have "serves L ks (b\<lparr>nonce := n, sent := sent b'\<rparr>)" "clients (b\<lparr>nonce := n, sent := sent b'\<rparr>) = clients b"
    using b n by (simp_all add: serves_def)
  then show ?thesis using b'(1,2) n unfolding b'(3) [symmetric] by blast
qed

lemma step_answer:
  assumes c: "waits XC ck name c" and n: "length n = NONCEBYTES" "same_box XC XB" "k = k_ddboxk ck"
  shows "\<exists>c'. c_handle XC (C_dealer (Some [le32 DD_VERSION, le32 DD_CMD_CHALL, n @ box_easy XB k n m])) c = Inr c' \<and>
      waits XC ck name c' \<and> sends (c_out c') = sends (c_out c) @ [[le32 DD_VERSION, le32 DD_CMD_CHALLOK, m, k_hash ck, name]]"
proof -
  have f: "box_open XC (k_ddboxk (c_keys c)) n (box_easy XB k n m) = Some m" "c_socket c"
    using c n(2,3) by (simp_all add: waits_def c_ok_def same_box_def)
  from chall_answered [OF n(1) f, of "c_out c"] obtain c' where c': "c_handle XC (C_dealer (Some [le32 DD_VERSION, le32 DD_CMD_CHALL, n @ box_easy XB k n m])) c = Inr c'"
    "sends (c_out c') = sends (c_out c) @ [[le32 DD_VERSION, le32 DD_CMD_CHALLOK, m, k_hash (c_keys c), c_name c]]"
    "c' = c\<lparr>c_timeout := 0, c_out := c_out c'\<rparr>" by auto
  have "waits XC ck name c'" using waits_same [OF c, where t = 0 and es = "c_out c'"] c'(3) by simp
  then show ?thesis using c'(1,2) c by (auto simp: waits_def)
qed

lemma step_decide:
  assumes b: "serves L ks b" and new: "\<forall>a lc. clients b a = Some lc \<longrightarrow> lc_sockid lc \<noteq> sid"
    and h: "map_of (tenantkeys ks) h = Some ten" "0 \<notin> set h" "h \<noteq> br_hash ks"
    and name: "0 \<notin> set name" "name \<noteq> ascii ''public''" "length (dot_join (ten_name ten) name) < MAXTENANTNAME" "length sid = L"
  shows "\<exists>b'. handle XB (On_router (Some (sid # [le32 DD_VERSION, le32 DD_CMD_CHALLOK, le64 (ten_cookie ten), h, name]))) b = Inr b' \<and>
       (if unknown_here b (dot_join (ten_name ten) name) \<and> unknown_below b (dot_join (ten_name ten) name)
        then clients b' = (clients b)(next_client b \<mapsto> newcomer sid ten name) \<and> next_client b \<notin> dom (clients b) \<and>
          routed (sent b') = routed (sent b) @ [(sid, [le32 DD_VERSION, le32 DD_CMD_REGOK, le64 (ten_cookie ten)])]
        else clients b' = clients b \<and>
          routed (sent b') = routed (sent b) @ [(sid, [le32 DD_VERSION, le32 DD_CMD_ERROR, le32 DD_ERROR_REGFAIL, ascii ''local''])])"
proof -
  have f: "reg_inv L b" "map_of (tenantkeys (keys b)) h = Some ten" "h \<noteq> br_hash (keys b)" "rsock b"
    "state b = DD_STATE_REGISTERED \<longrightarrow> dsock b"
    using b h(1,3) by (auto simp: serves_def)
  show ?thesis
  proof (cases "unknown_here b (dot_join (ten_name ten) name) \<and> unknown_below b (dot_join (ten_name ten) name)")
    case True
    show ?thesis unfolding if_P [OF True]
      using challok_registers [OF f(1) name(4,3) new conjunct1 [OF True] conjunct2 [OF True] f(2) h(2) f(3) name(1,2) f(4,5), where X = XB] by blast
  next
    case False
    show ?thesis unfolding if_not_P [OF False]
      using challok_refused [OF f(1) name(4,3) new False f(2) h(2) f(3) name(1,2) f(4), where X = XB] by blast
  qed
qed

lemma step_confirm:
  assumes "waits XC ck name c"
  shows "\<exists>c'. c_handle XC (C_dealer (Some [le32 DD_VERSION, le32 DD_CMD_REGOK, le64 cookie])) c = Inr c' \<and>
      c_state c' = DD_STATE_REGISTERED \<and> c_cookie c' = Some cookie \<and> last (c_out c') = On_reg"
  using regok_accepted [of XC c cookie] assms by (simp add: waits_def)

lemma agreement_holds:
  assumes h: "map_of (tenantkeys ks) (k_hash ck) = Some ten" "0 \<notin> set (k_hash ck)" "k_hash ck \<noteq> br_hash ks"
      "ten_boxk ten = k_ddboxk ck" "same_box XC XB"
    and name: "0 \<notin> set name" "name \<noteq> ascii ''public''" "length (dot_join (ten_name ten) name) < MAXTENANTNAME" "length sid = L"
  shows "agreement XB XC L sid ks ck name ten"
  unfolding agreement_def
proof (intro conjI allI impI)
  fix b assume b: "serves L ks b"
  show "\<exists>b' chall. handle XB (On_router (Some (sid # [le32 DD_VERSION, le32 DD_CMD_ADDLCL, k_hash ck]))) b = Inr b' \<and> serves L ks b' \<and>
           clients b' = clients b \<and> routed (sent b') = routed (sent b) @ [(sid, [le32 DD_VERSION, le32 DD_CMD_CHALL, chall])] \<and>
           (\<forall>c. waits XC ck name c \<longrightarrow>
              (\<exists>c'. c_handle XC (C_dealer (Some [le32 DD_VERSION, le32 DD_CMD_CHALL, chall])) c = Inr c' \<and> waits XC ck name c' \<and>
                 sends (c_out c') = sends (c_out c) @ [[le32 DD_VERSION, le32 DD_CMD_CHALLOK, le64 (ten_cookie ten), k_hash ck, name]]))"
    using step_challenge [OF b h(1,2), of XB sid] step_answer [OF _ _ h(5,4), of name] by blast
qed (rule step_ask step_decide [OF _ _ h(1-3) name] step_confirm; assumption)+

text \<open>
  C6. A client whose keys fit the broker's is registered by the messages of the handshake, whatever the two do in between
  and whoever else is there: ADDLCL when its registration timer fires, the challenge under the shared key, its cookie sent
  back, REGOK, upon which it is registered with the cookie of its tenant and has reported it, and the broker has one more
  client, of that socket, name and tenant. When a client of this name is known, here or below, the answer to the cookie is
  the error REGFAIL instead. The name is not \<open>public\<close>, and with the tenant's it fits the buffer of the broker.
\<close>

theorem handshake_completes:
  assumes "map_of (tenantkeys ks) (k_hash ck) = Some ten" "0 \<notin> set (k_hash ck)" "k_hash ck \<noteq> br_hash ks"
      "ten_boxk ten = k_ddboxk ck" "same_box XC XB"
    and "0 \<notin> set name" "name \<noteq> ascii ''public''" "length (dot_join (ten_name ten) name) < MAXTENANTNAME" "length sid = L"
  shows "agreement XB XC L sid ks ck name ten"
  by (rule agreement_holds [OF assms])

text \<open>A client that joins a busy broker.\<close>

definition ex_asking :: dd where
  "ex_asking = ex_client0\<lparr>c_name := ascii ''w'', c_sublist := ex_subs\<rparr>"

lemma ex_same_box: "same_box ex_ext ex_ext"
  by (auto simp: same_box_def ex_ext_def ex_tag_def min_def)

lemma ex_asking_fields:
  "c_state ex_asking = DD_STATE_UNREG" "c_socket ex_asking" "c_running ex_asking" "c_keys ex_asking = ex_dd_keys"
  "c_name ex_asking = ascii ''w''" "sends (c_out ex_asking) = []" "c_sublist ex_asking = ex_subs" "connect_ok ex_ext Dsock (c_endpoint ex_asking)"
  by (simp_all add: ex_asking_def ex_client0_def dd_actor_def ex_ext_def c_timer_def c_emit_def)

lemma ex_asking_waits: "waits ex_ext ex_dd_keys (ascii ''w'') ex_asking"
proof -
  have "c_ok ex_ext (ex_client0\<lparr>c_sublist := ex_subs\<rparr>)"
    using c_ok_sublist [OF c_ok_start [OF ex_client_starts]] ex_subs_ok by (simp add: sublist_ok_def)
  then show ?thesis using ex_asking_fields(3-5) by (simp add: waits_def) (simp add: ex_asking_def c_ok_def c_ids_def)
qed

lemma ex_busy_serves: "serves 5 ex_keys ex_busy"
  using ex_busy_ok by (simp add: serves_def) (simp add: ex_busy_def ex_populate_def ex_root_start)

lemma ex_busy_free:
  assumes "clients ex_busy a = Some lc"
  shows "lc_sockid lc \<noteq> ex_sockid 8" "\<not> prefix (ascii ''a.w'') (lc_prefix_name lc)"
  using assms by (auto elim!: ex_clientsE simp: ascii_def)

lemma handshake_completes_witness:
  "waits ex_ext ex_dd_keys (ascii ''w'') ex_asking \<and> serves 5 ex_keys ex_busy \<and>
   (\<exists>c1 b1 chall c2 b2 c3. c_handle ex_ext (C_timer 0 Ask_registration True) ex_asking = Inr c1 \<and>
     handle ex_ext (On_router (Some (ex_sockid 8 # last (sends (c_out c1))))) ex_busy = Inr b1 \<and>
     last (routed (sent b1)) = (ex_sockid 8, chall) \<and> c_handle ex_ext (C_dealer (Some chall)) c1 = Inr c2 \<and>
     handle ex_ext (On_router (Some (ex_sockid 8 # last (sends (c_out c2))))) ex_busy = Inr b2 \<and>
     clients b2 (next_client ex_busy) = Some (newcomer (ex_sockid 8) (ex_tenant ''a'' 7) (ascii ''w'')) \<and>
     c_handle ex_ext (C_dealer (Some (snd (last (routed (sent b2)))))) c2 = Inr c3 \<and> c_state c3 = DD_STATE_REGISTERED)"
proof -
  have j: "dot_join (ten_name (ex_tenant ''a'' 7)) (ascii ''w'') = ascii ''a.w''"
    by (simp add: ex_tenant_def dot_join_def ascii_def)
  have u: "unknown_here ex_busy (ascii ''a.w'') \<and> unknown_below ex_busy (ascii ''a.w'')"
    using ex_busy_free(2) by (auto simp: unknown_here_def unknown_below_def ex_busy_tables ex_dist_def ascii_def)
  have a: "agreement ex_ext ex_ext 5 (ex_sockid 8) ex_keys ex_dd_keys (ascii ''w'') (ex_tenant ''a'' 7)"
    by (rule handshake_completes)
      (use ex_tenants(1) ex_same_box in \<open>simp_all add: j ex_dd_keys_def del: ascii_eq\<close>,
        (auto simp: ascii_def ex_keys_def ex_tenant_def MAXTENANTNAME_def ex_sockid_def)?)
  note steps = a [unfolded agreement_def j]
  obtain c1 where c1: "c_handle ex_ext (C_timer 0 Ask_registration True) ex_asking = Inr c1" "waits ex_ext ex_dd_keys (ascii ''w'') c1"
    "sends (c_out c1) = sends (c_out ex_asking) @ [[le32 DD_VERSION, le32 DD_CMD_ADDLCL, k_hash ex_dd_keys]]"
    using steps ex_asking_waits ex_asking_fields(1,8) by blast
  obtain b1 chall c2 where b1: "handle ex_ext (On_router (Some (ex_sockid 8 # [le32 DD_VERSION, le32 DD_CMD_ADDLCL, k_hash ex_dd_keys]))) ex_busy = Inr b1"
    "routed (sent b1) = routed (sent ex_busy) @ [(ex_sockid 8, [le32 DD_VERSION, le32 DD_CMD_CHALL, chall])]"
    "c_handle ex_ext (C_dealer (Some [le32 DD_VERSION, le32 DD_CMD_CHALL, chall])) c1 = Inr c2" "waits ex_ext ex_dd_keys (ascii ''w'') c2"
    "sends (c_out c2) = sends (c_out c1) @ [[le32 DD_VERSION, le32 DD_CMD_CHALLOK, le64 (ten_cookie (ex_tenant ''a'' 7)), k_hash ex_dd_keys, ascii ''w'']]"
    using steps ex_busy_serves c1(2) by blast
  obtain b2 where b2: "handle ex_ext (On_router (Some (ex_sockid 8 # [le32 DD_VERSION, le32 DD_CMD_CHALLOK, le64 (ten_cookie (ex_tenant ''a'' 7)), k_hash ex_dd_keys, ascii ''w'']))) ex_busy = Inr b2"
    "clients b2 = (clients ex_busy)(next_client ex_busy \<mapsto> newcomer (ex_sockid 8) (ex_tenant ''a'' 7) (ascii ''w''))"
    "routed (sent b2) = routed (sent ex_busy) @ [(ex_sockid 8, [le32 DD_VERSION, le32 DD_CMD_REGOK, le64 (ten_cookie (ex_tenant ''a'' 7))])]"
    using steps ex_busy_serves ex_busy_free(1) u by (metis (no_types, lifting))
  obtain c3 where c3: "c_handle ex_ext (C_dealer (Some [le32 DD_VERSION, le32 DD_CMD_REGOK, le64 (ten_cookie (ex_tenant ''a'' 7))])) c2 = Inr c3"
    "c_state c3 = DD_STATE_REGISTERED"
    using steps b1(4) by blast
  have "last (sends (c_out c1)) = [le32 DD_VERSION, le32 DD_CMD_ADDLCL, k_hash ex_dd_keys]"
    "last (sends (c_out c2)) = [le32 DD_VERSION, le32 DD_CMD_CHALLOK, le64 (ten_cookie (ex_tenant ''a'' 7)), k_hash ex_dd_keys, ascii ''w'']"
    "last (routed (sent b1)) = (ex_sockid 8, [le32 DD_VERSION, le32 DD_CMD_CHALL, chall])"
    "snd (last (routed (sent b2))) = [le32 DD_VERSION, le32 DD_CMD_REGOK, le64 (ten_cookie (ex_tenant ''a'' 7))]"
    "clients b2 (next_client ex_busy) = Some (newcomer (ex_sockid 8) (ex_tenant ''a'' 7) (ascii ''w''))"
    unfolding c1(3) b1(2,5) b2(2,3) by (simp_all only: last_snoc snd_conv fun_upd_same)
  then show ?thesis using ex_asking_waits ex_busy_serves c1(1) b1(1,3) b2(1) c3 by metis
qed

section \<open>A message from client to client\<close>

lemma notify_sends:
  assumes c: "c_running c" "c_socket c" "c_state c = DD_STATE_REGISTERED" "c_cookie c = Some cookie" "\<not> k_ispublic (c_keys c)"
    and t: "0 \<notin> set target" "\<not> is_public_name target" "length message < 2 ^ 32"
  shows "\<exists>c'. c_handle X (C_pipe [ascii ''notify'', target, message, le32 (of_nat (length message))]) c = Inr c' \<and>
    sends (c_out c') = sends (c_out c) @ [[le32 DD_VERSION, le32 DD_CMD_SEND, le64 cookie, target,
      nonce_increment (c_nonce c) @ box_easy X (k_custboxk (c_keys c)) (nonce_increment (c_nonce c)) message]] \<and>
    c' = c\<lparr>c_nonce := nonce_increment (c_nonce c), c_out := c_out c'\<rparr>"
proof -
  have len: "unat (of_nat (length message) :: u32) = length message"
    using t(3) by (simp add: unat_of_nat take_bit_nat_eq_self)
  have cmd: "c_string (ascii ''notify'') = ascii ''notify''" by code_simp
  have ne: "ascii ''notify'' \<noteq> ascii ''$TERM''" "ascii ''notify'' \<noteq> ascii ''subscribe''" "ascii ''notify'' \<noteq> ascii ''unsubscribe''"
    "ascii ''notify'' \<noteq> ascii ''publish''" by (simp_all add: ascii_def)
  have "\<not> starts_with (ascii ''public.'') target" using t(2) by (simp add: is_public_name_def)
  then show ?thesis using c t(1) ne
    by (simp add: c_handle_def s_on_pipe_msg_def cmd c_string_id pipe_message_def len dd_notify_def encrypt_next_def initialised_def
        c_send_def c_emit_def Let_def del: ascii_eq)
qed

lemma data_reported:
  assumes "c_socket c" "0 \<notin> set source" "k_clients (c_keys c) = []" "\<not> is_public_name source" "length n = NONCEBYTES"
    and "box_open X (k_custboxk (c_keys c)) n cipher = Some m"
  shows "\<exists>c'. c_handle X (C_dealer (Some [le32 DD_VERSION, le32 DD_CMD_DATA, source, n @ cipher])) c = Inr c' \<and>
    c_out c' = c_out c @ [On_data source m] \<and> c_running c' = c_running c"
proof -
  have "tenant_key (c_keys c) source = None"
    using assms(3) by (simp add: tenant_key_def split: option.split)
  then show ?thesis using assms
    by (simp add: c_handle_def c_on_dealer_msg_def Let_def c_dealer_cmd_def cmd_defs cb_data_def c_string_id source_key_def
        is_public_name_def decrypt_frame_def c_report_def actor_msg_def c_emit_def)
qed

text \<open>
  C8. What a client of a tenant notifies another of is what that one reports: the command on the pipe is encrypted,
  sent, routed by the broker and decrypted, and the receiver's application gets the message unchanged, with the
  sender's name, whatever the two clients and the broker did before.
\<close>

theorem notify_delivers:
  assumes n: "settled n s1 c1" "n_clients n s2 = Some c2" "s1 \<noteq> s2" "c_running c2" "c_socket c2"
    and c1: "c_state c1 = DD_STATE_REGISTERED" "c_cookie c1 = Some (lc_cookie lc)" "length (c_nonce c1) = NONCEBYTES"
    and inv: "reg_inv L (n_broker n)" "clash_free (n_broker n)" "names_wf (keys (n_broker n))"
    and lc: "clients (n_broker n) a = Some lc" "lc_sockid lc = s1" "0 \<notin> set (lc_name lc)" "\<not> is_public_name (lc_name lc)"
    and lc': "clients (n_broker n) b = Some lc'" "lc_sockid lc' = s2" "reaches (n_broker n) lc target lc'" "lc_tenant lc' = lc_tenant lc"
    and keys: "\<not> k_ispublic (c_keys c1)" "k_clients (c_keys c2) = []" "k_custboxk (c_keys c1) = k_custboxk (c_keys c2)"
      "same_box (XC s2) (XC s1)"
    and t: "0 \<notin> set target" "\<not> is_public_name target" "length message < 2 ^ 32"
  shows "\<exists>c1' n' c2'. c_handle (XC s1) (C_pipe [ascii ''notify'', target, message, le32 (of_nat (length message))]) c1 = Inr c1' \<and>
    net_run XB XC (n\<lparr>n_clients := (n_clients n)(s1 \<mapsto> c1')\<rparr>) n' \<and> n_clients n' = (n_clients n)(s1 \<mapsto> c1', s2 \<mapsto> c2') \<and>
    c_out c2' = c_out c2 @ [On_data (lc_name lc) message]"
proof -
  note s = n(1) [unfolded settled_def]
  define k where "k = nonce_increment (c_nonce c1)"
  define cipher where "cipher = k @ box_easy (XC s1) (k_custboxk (c_keys c1)) k message"
  obtain d1 where d1: "c_handle (XC s1) (C_pipe [ascii ''notify'', target, message, le32 (of_nat (length message))]) c1 = Inr d1"
    "sends (c_out d1) = sends (c_out c1) @ [[le32 DD_VERSION, le32 DD_CMD_SEND, le64 (lc_cookie lc), target, cipher]]"
    using notify_sends [OF _ _ c1(1,2) keys(1) t] s unfolding k_def cipher_def by blast
  define n1 where "n1 = n\<lparr>n_clients := (n_clients n)(s1 \<mapsto> d1)\<rparr>"
  define b1 where "b1 = emit (Send Rsock ([lc_sockid lc', le32 DD_VERSION, le32 DD_CMD_DATA, sender_name lc lc'] @ [cipher])) (touch_client (n_broker n) a)"
  have b1: "handle XB (On_router (Some (s1 # [le32 DD_VERSION, le32 DD_CMD_SEND, le64 (lc_cookie lc), target, cipher]))) (n_broker n) = Inr b1"
    using send_local [OF inv _ lc(1) lc'(1), of target "[cipher]"] lc(2) lc'(3) s by (simp add: router_send c_string_id [OF t(1)] b1_def)
  have out: "routed (sent b1) = routed (sent (n_broker n)) @ [(s2, [le32 DD_VERSION, le32 DD_CMD_DATA, lc_name lc, cipher])]"
    using lc'(2,4) by (simp add: b1_def emit_def sender_name_def)
  define n2 where "n2 = n1\<lparr>n_broker := b1, n_up := (n_up n1)(s1 := Suc (length (sends (c_out c1))))\<rparr>"
  have 2: "net_step XB XC n1 n2" unfolding n2_def
    by (rule uplink_last [OF _ d1(2)]) (use s b1 in \<open>simp_all add: n1_def\<close>)
  have "box_open (XC s2) (k_custboxk (c_keys c2)) k (box_easy (XC s1) (k_custboxk (c_keys c1)) k message) = Some message"
    using keys(3,4) by (simp add: same_box_def)
  then obtain d2 where d2: "c_handle (XC s2) (C_dealer (Some [le32 DD_VERSION, le32 DD_CMD_DATA, lc_name lc, cipher])) c2 = Inr d2"
    "c_out d2 = c_out c2 @ [On_data (lc_name lc) message]"
    using data_reported [OF n(5) lc(3) keys(2) lc(4), of k "XC s2"] c1(3) unfolding cipher_def k_def
    by (metis nonce_increment_length)
  define n3 where "n3 = n2\<lparr>n_clients := (n_clients n2)(s2 \<mapsto> d2), n_down := Suc (length (routed (sent (n_broker n))))\<rparr>"
  have 3: "net_step XB XC n2 n3" unfolding n3_def
    by (rule downlink_last [where c = c2 and rest = "[]"]) (use s n out d2(1) in \<open>simp_all add: n2_def n1_def\<close>)
  have "net_run XB XC n1 n3" using 2 3 by (meson converse_rtranclp_into_rtranclp rtranclp.rtrancl_refl)
  moreover have "n_clients n3 = (n_clients n)(s1 \<mapsto> d1, s2 \<mapsto> d2)" by (simp add: n3_def n2_def n1_def)
  ultimately show ?thesis using d1(1) d2(2) unfolding n1_def by blast
qed


text \<open>Two registered clients of the busy broker.\<close>

definition ex_registered :: "string \<Rightarrow> dd" where
  "ex_registered name = ex_client0\<lparr>c_name := ascii name, c_state := DD_STATE_REGISTERED, c_cookie := Some 7\<rparr>"

definition ex_net2 :: net where
  "ex_net2 = \<lparr>n_broker = ex_busy, n_clients = [ex_sockid 1 \<mapsto> ex_registered ''x'', ex_sockid 2 \<mapsto> ex_registered ''y''],
     n_up = (\<lambda>s. 0), n_down = length (routed (sent ex_busy))\<rparr>"

lemma ex_registered_fields:
  "c_state (ex_registered m) = DD_STATE_REGISTERED" "c_socket (ex_registered m)" "c_running (ex_registered m)"
  "c_keys (ex_registered m) = ex_dd_keys" "c_cookie (ex_registered m) = Some 7" "sends (c_out (ex_registered m)) = []"
  "length (c_nonce (ex_registered m)) = NONCEBYTES"
  by (simp_all add: ex_registered_def ex_client0_def dd_actor_def ex_ext_def c_timer_def c_emit_def)

lemma notify_delivers_witness:
  "\<exists>c1' n' c2'. c_handle ex_ext (C_pipe [ascii ''notify'', ascii ''y'', [1, 2, 3], le32 3]) (ex_registered ''x'') = Inr c1' \<and>
    net_run ex_ext (\<lambda>s. ex_ext) (ex_net2\<lparr>n_clients := (n_clients ex_net2)(ex_sockid 1 \<mapsto> c1')\<rparr>) n' \<and>
    n_clients n' (ex_sockid 2) = Some c2' \<and> last (c_out c2') = On_data (ascii ''x'') [1, 2, 3]"
proof -
  have n: "settled ex_net2 (ex_sockid 1) (ex_registered ''x'')"
    by (simp add: settled_def ex_net2_def ex_registered_fields)
  have r: "reaches (n_broker ex_net2) (ex_client ''a'' ''x'' 7 1) (ascii ''y'') (ex_client ''a'' ''y'' 7 2)"
    using ex_reaches by (simp add: ex_net2_def c_string_def ascii_def)
  have "\<exists>c1' n' c2'. c_handle ex_ext (C_pipe [ascii ''notify'', ascii ''y'', [1, 2, 3], le32 (of_nat (length [1::u8, 2, 3]))]) (ex_registered ''x'') = Inr c1' \<and>
    net_run ex_ext (\<lambda>s. ex_ext) (ex_net2\<lparr>n_clients := (n_clients ex_net2)(ex_sockid 1 \<mapsto> c1')\<rparr>) n' \<and>
    n_clients n' = (n_clients ex_net2)(ex_sockid 1 \<mapsto> c1', ex_sockid 2 \<mapsto> c2') \<and>
    c_out c2' = c_out (ex_registered ''y'') @ [On_data (lc_name (ex_client ''a'' ''x'' 7 1)) [1, 2, 3]]"
    by (rule notify_delivers [where XC = "\<lambda>s. ex_ext" and L = 5 and a = 0 and b = 1, OF n _ _ _ _ ex_registered_fields(1) _ _ _ _ _ _ _ _ _ _ _ r])
      (use ex_busy_ok ex_names_wf ex_same_box in \<open>simp_all add: ex_net2_def ex_registered_fields ex_dd_keys_def is_public_name_def starts_with_def del: ascii_eq,
        auto simp: ascii_def\<close>)
  then obtain c1' n' c2' where
    "c_handle ex_ext (C_pipe [ascii ''notify'', ascii ''y'', [1, 2, 3], le32 3]) (ex_registered ''x'') = Inr c1'"
    "net_run ex_ext (\<lambda>s. ex_ext) (ex_net2\<lparr>n_clients := (n_clients ex_net2)(ex_sockid 1 \<mapsto> c1')\<rparr>) n'"
    "n_clients n' (ex_sockid 2) = Some c2'" "last (c_out c2') = On_data (ascii ''x'') [1, 2, 3]"
    by (elim exE conjE) (simp del: ascii_eq)
  then show ?thesis by blast
qed

end
