(* ===== verification/BrokerPair.thy ===== *)
theory BrokerPair
  imports Network
begin

text \<open>
  Two brokers, one above the other: the handshake between them, at the end of which the lower one has
  announced its clients and the higher one has it in its table.
\<close>

text \<open>The messages that a broker has sent to the one above it.\<close>

fun dealt :: "event list \<Rightarrow> bytes list list" where
  "dealt [] = []"
| "dealt (Send Dsock m # es) = m # dealt es"
| "dealt (e # es) = dealt es"

lemma dealt_append [simp]: "dealt (xs @ ys) = dealt xs @ dealt ys"
  by (induction xs rule: dealt.induct) simp_all

lemma dealt_map_send: "dealt (map (\<lambda>x. Send Dsock (f x)) xs) = map f xs"
  by (induction xs) simp_all

section \<open>The messages one by one\<close>

lemma register_sends:
  assumes "state l = DD_STATE_UNREG \<or> state l = DD_STATE_ROOT" "dealer_connect l = Some addr" "connect_ok X Dsock addr"
  shows "\<exists>l'. handle X (On_timer Register True) l = Inr l' \<and>
    dealt (sent l') = dealt (sent l) @ [[le32 DD_VERSION, le32 DD_CMD_ADDBR, br_hash (keys l)]] \<and>
    l' = l\<lparr>dsock := True, sent := sent l'\<rparr>"
proof -
  have s: "s = s\<lparr>dsock := False\<rparr>\<lparr>dsock := dsock s\<rparr>" for s :: dd_broker by simp
  show ?thesis using assms
    by (auto simp: handle_def s_register_def Let_def zsock_send_def sock_open_def emit_def)
qed

lemma addbr_challenges:
  assumes "h = br_hash (keys b)" "0 \<notin> set h" "rsock b"
  shows "\<exists>b'. handle X (On_router (Some (sid # [le32 DD_VERSION, le32 DD_CMD_ADDBR, h]))) b = Inr b' \<and>
    routed (sent b') = routed (sent b) @
      [(sid, [le32 DD_VERSION, le32 DD_CMD_CHALL, nonce_increment (nonce b) @ box_easy X (ddboxk (keys b)) (nonce_increment (nonce b)) (le64 (br_cookie (keys b))), sid])] \<and>
    b' = b\<lparr>nonce := nonce_increment (nonce b), sent := sent b'\<rparr>"
  using assms
  by (simp add: handle_def s_on_router_msg_def router_cmd_def cmd_defs s_cb_addbr_def c_string_id zsock_send_def sock_open_def Let_def
      emit_def)

lemma chall_answered_by_broker:
  assumes "length n = NONCEBYTES" "box_open X (ddboxk (keys l)) n cipher = Some m" "dsock l"
  shows "\<exists>l'. handle X (On_dealer (Some [le32 DD_VERSION, le32 DD_CMD_CHALL, n @ cipher, sid])) l = Inr l' \<and>
    dealt (sent l') = dealt (sent l) @ [[le32 DD_VERSION, le32 DD_CMD_CHALLOK, m, br_hash (keys l), ascii ''broker'']] \<and>
    l' = l\<lparr>timeout := 0, broker_id := Some sid, sent := sent l'\<rparr>"
  using assms
  by (simp add: handle_def s_on_dealer_msg_def Let_def dealer_cmd_def cmd_defs s_cb_chall_def zsock_send_def sock_open_def emit_def)

lemma challok_registers_broker:
  assumes inv: "reg_inv L b" "length sid = L"
    and new: "\<And>g lb. (g, lb) \<in> set (lcl_br_ht b) \<Longrightarrow> lb_sockid lb \<noteq> sid"
    and ready: "rsock b" "pubS b" "subS b" "0 \<notin> set (br_hash (keys b))"
  shows "\<exists>b'. handle X (On_router (Some (sid # [le32 DD_VERSION, le32 DD_CMD_CHALLOK, le64 (br_cookie (keys b)), br_hash (keys b), ascii ''broker'']))) b = Inr b' \<and>
    routed (sent b') = routed (sent b) @
      [(sid, [le32 DD_VERSION, le32 DD_CMD_REGOK, le64 (br_cookie (keys b)), zsock_endpoint X PubS, zsock_endpoint X SubS])] \<and>
    (sockid_cookie_hash sid (le64 (br_cookie (keys b))), \<lparr>lb_sockid = sid, lb_cookie = br_cookie (keys b), lb_distance = 0, lb_timeout = 0\<rparr>) \<in> set (lcl_br_ht b')"
proof -
  have "ht_lookup (match_lcl_broker sid) h (lcl_br_ht b) = Inr None" for h
  proof (rule ht_lookup_miss)
    fix y assume y: "(h, y) \<in> set (lcl_br_ht b)"
    then have "length (lb_sockid y) = L" using inv(1) unfolding reg_inv_def brs_ok_def by blast
    then show "match_lcl_broker sid y = Inr False" using new [OF y] inv(2) by (simp add: match_lcl_broker_def memcmp_eq_len)
  qed
  moreover have "c_string (ascii ''broker'') = ascii ''broker''" by code_simp
  ultimately show ?thesis using ready
    by (simp add: handle_def s_on_router_msg_def router_cmd_def cmd_defs s_cb_challok_def c_string_id challok_broker_def
        hashtable_has_local_broker_def hashtable_insert_local_broker_def zsock_send_def sock_open_def emit_def Let_def)
qed

section \<open>Announcing the clients\<close>

definition announcement :: "dd_broker \<Rightarrow> bytes \<Rightarrow> u32 \<Rightarrow> bytes list" where
  "announcement b name d = [le32 DD_VERSION, le32 DD_CMD_ADDDCL, le64 (br_cookie (keys b)), name, le32 d]"

text \<open>The clients of the broker, and those announced to it from below.\<close>

definition announcements :: "dd_broker \<Rightarrow> bytes list list" where
  "announcements b = map (\<lambda>(h, a). announcement b (lc_prefix_name (the (clients b a))) 0) (lcl_cli_ht b) @
     map (\<lambda>(h, dc). announcement b (dc_name dc) (dc_distance dc)) (dist_cli_ht b)"

lemma announce_fold:
  assumes "\<And>x s. x \<in> set xs \<Longrightarrow> dsock s \<Longrightarrow> state s = DD_STATE_REGISTERED \<Longrightarrow> keys s = keys b \<Longrightarrow> clients s = clients b \<Longrightarrow>
      f x s = Inr (emit (Send Dsock (g x)) s)"
    and "dsock s" "state s = DD_STATE_REGISTERED" "keys s = keys b" "clients s = clients b"
  shows "rfold f xs s = Inr (s\<lparr>sent := sent s @ map (\<lambda>x. Send Dsock (g x)) xs\<rparr>)"
  using assms
proof (induction xs arbitrary: s)
  case (Cons x xs)
  have "rfold f xs (emit (Send Dsock (g x)) s) = Inr ((emit (Send Dsock (g x)) s)\<lparr>sent := sent (emit (Send Dsock (g x)) s) @ map (\<lambda>x. Send Dsock (g x)) xs\<rparr>)"
    by (rule Cons.IH) (use Cons.prems in \<open>simp_all add: emit_def\<close>)
  then show ?case using Cons.prems(1) [of x s] Cons.prems by (simp add: emit_def)
qed simp

lemma announce_exact:
  assumes "reg_inv L b" "dsock b" "state b = DD_STATE_REGISTERED"
  shows "announce_clients b = Inr (b\<lparr>sent := sent b @ map (Send Dsock) (announcements b)\<rparr>)"
proof -
  have ok: "cli_ok L (keys b) (clients b) (next_client b) (lcl_cli_ht b) (rev_lcl_cli_ht b)"
    using assms(1) by (simp add: reg_inv_def)
  have up: "add_cli_up s name d = Inr (emit (Send Dsock (announcement b name d)) s)"
    if "dsock s" "state s = DD_STATE_REGISTERED" "keys s = keys b" for s name d
    using that by (simp add: add_cli_up_def announcement_def zsock_send_def sock_open_def)
  have "rfold (\<lambda>(h, a) self. rbind (get_client self a) (\<lambda>np. add_cli_up self (lc_prefix_name np) 0)) (lcl_cli_ht b) b =
      Inr (b\<lparr>sent := sent b @ map (\<lambda>x. Send Dsock ((\<lambda>(h, a). announcement b (lc_prefix_name (the (clients b a))) 0) x)) (lcl_cli_ht b)\<rparr>)"
    by (rule announce_fold [where b = b])
      (use assms up in \<open>auto simp: get_client_def dest!: cli_ok_lcl_dom [OF ok]\<close>)
  moreover have "rfold (\<lambda>(h, nd) self. add_cli_up self (dc_name nd) (dc_distance nd)) (dist_cli_ht b) s =
      Inr (s\<lparr>sent := sent s @ map (\<lambda>x. Send Dsock ((\<lambda>(h, dc). announcement b (dc_name dc) (dc_distance dc)) x)) (dist_cli_ht b)\<rparr>)"
    if "dsock s" "state s = DD_STATE_REGISTERED" "keys s = keys b" "clients s = clients b" for s
    by (rule announce_fold [where b = b]) (use that up in auto)
  ultimately show ?thesis using assms
    by (simp add: announce_clients_def announcements_def comp_def case_prod_unfold)
qed

lemma regok_announces:
  assumes inv: "reg_inv L l" "dsock l" "dealer_connect l = Some addr"
    and north: "pubsub_addresses X addr = Inr (pa, sa)" "connect_ok X PubN pa" "connect_ok X SubN sa"
  shows "\<exists>l'. handle X (On_dealer (Some [le32 DD_VERSION, le32 DD_CMD_REGOK, c, e1, e2])) l = Inr l' \<and>
    state l' = DD_STATE_REGISTERED \<and> timeout l' = 0 \<and> pubN l' \<and> subN l' \<and> broker_id l' = broker_id l \<and>
    dealt (sent l') = dealt (sent l) @ announcements l"
proof -
  define s where "s = l\<lparr>timeout := 0, state := DD_STATE_REGISTERED,
    timers := filter (\<lambda>(j, d, t). j \<noteq> reg_loop l) (timers l) @ [(timer_id X (timer_count l), 1000, Heartbeat)],
    timer_count := Suc (timer_count l), heartbeat_loop := timer_id X (timer_count l)\<rparr>"
  have "reg_inv L s" by (rule reg_inv_same [OF inv(1)]) (simp_all add: s_def)
  then have a: "announce_clients s = Inr (s\<lparr>sent := sent s @ map (Send Dsock) (announcements s)\<rparr>)"
    by (rule announce_exact) (simp_all add: s_def inv(2))
  have "handle X (On_dealer (Some [le32 DD_VERSION, le32 DD_CMD_REGOK, c, e1, e2])) l = rbind (announce_clients s) (connect_pubsubN X)"
    by (simp add: handle_def s_on_dealer_msg_def Let_def dealer_cmd_def cmd_defs s_cb_regok_def zloop_timer_def zloop_timer_end_def s_def)
  also have "\<dots> = connect_pubsubN X (s\<lparr>sent := sent s @ map (Send Dsock) (announcements s)\<rparr>)" by (simp add: a)
  finally have h: "handle X (On_dealer (Some [le32 DD_VERSION, le32 DD_CMD_REGOK, c, e1, e2])) l =
      connect_pubsubN X (s\<lparr>sent := sent s @ map (Send Dsock) (announcements s)\<rparr>)" .
  have "announcements s = announcements l" by (simp add: announcements_def announcement_def s_def)
  then show ?thesis unfolding h using inv(3) north dealt_map_send [of "\<lambda>m. m" "announcements l"]
    by (simp add: connect_pubsubN_def Let_def s_def emit_def)
qed

text \<open>
  C7. A lower broker with a connection and the keys of the higher one can register there: ADDBR, the challenge under
  the common key, the cookie sent back, REGOK. Then it is registered, knows the identity the higher broker gave it,
  listens to its publications, and has announced every client of its own and every client announced to it; and the
  higher broker has it in its table, under that identity.
\<close>

theorem broker_handshake_completes:
  assumes low: "reg_inv K l" "state l = DD_STATE_UNREG \<or> state l = DD_STATE_ROOT" "dealer_connect l = Some addr"
      "connect_ok XL Dsock addr" "pubsub_addresses XL addr = Inr (pa, sa)" "connect_ok XL PubN pa" "connect_ok XL SubN sa"
    and high: "reg_inv L h" "length sid = L" "\<forall>(g, lb)\<in>set (lcl_br_ht h). lb_sockid lb \<noteq> sid"
      "rsock h" "pubS h" "subS h" "length (nonce h) = NONCEBYTES"
    and ks: "br_hash (keys l) = br_hash (keys h)" "ddboxk (keys l) = ddboxk (keys h)" "br_cookie (keys l) = br_cookie (keys h)"
      "0 \<notin> set (br_hash (keys h))" "same_box XL XH"
  shows "\<exists>l1 h1 l2 h2 l3 m1 m2 m3 m4.
    handle XL (On_timer Register True) l = Inr l1 \<and> dealt (sent l1) = dealt (sent l) @ [m1] \<and>
    handle XH (On_router (Some (sid # m1))) h = Inr h1 \<and> routed (sent h1) = routed (sent h) @ [(sid, m2)] \<and>
    handle XL (On_dealer (Some m2)) l1 = Inr l2 \<and> dealt (sent l2) = dealt (sent l1) @ [m3] \<and>
    handle XH (On_router (Some (sid # m3))) h1 = Inr h2 \<and> routed (sent h2) = routed (sent h1) @ [(sid, m4)] \<and>
    handle XL (On_dealer (Some m4)) l2 = Inr l3 \<and> dealt (sent l3) = dealt (sent l2) @ announcements l \<and>
    state l3 = DD_STATE_REGISTERED \<and> broker_id l3 = Some sid \<and> pubN l3 \<and> subN l3 \<and>
    (sockid_cookie_hash sid (le64 (br_cookie (keys h))),
      \<lparr>lb_sockid = sid, lb_cookie = br_cookie (keys h), lb_distance = 0, lb_timeout = 0\<rparr>) \<in> set (lcl_br_ht h2)"
proof -
  let ?k = "nonce_increment (nonce h)"
  obtain l1 where l1: "handle XL (On_timer Register True) l = Inr l1" "l1 = l\<lparr>dsock := True, sent := sent l1\<rparr>"
    "dealt (sent l1) = dealt (sent l) @ [[le32 DD_VERSION, le32 DD_CMD_ADDBR, br_hash (keys h)]]"
    using register_sends [OF low(2-4)] unfolding ks(1) by blast
  obtain h1 where h1: "handle XH (On_router (Some (sid # [le32 DD_VERSION, le32 DD_CMD_ADDBR, br_hash (keys h)]))) h = Inr h1"
    "routed (sent h1) = routed (sent h) @ [(sid, [le32 DD_VERSION, le32 DD_CMD_CHALL, ?k @ box_easy XH (ddboxk (keys h)) ?k (le64 (br_cookie (keys h))), sid])]"
    "h1 = h\<lparr>nonce := ?k, sent := sent h1\<rparr>"
    using addbr_challenges [OF refl ks(4) high(4)] by blast
  have f1: "dsock l1" "keys l1 = keys l" by (subst l1(2), simp)+
  have "box_open XL (ddboxk (keys l1)) ?k (box_easy XH (ddboxk (keys h)) ?k (le64 (br_cookie (keys h)))) = Some (le64 (br_cookie (keys h)))"
    using ks(5) by (simp add: same_box_def f1 ks(2))
  then obtain l2 where l2: "handle XL (On_dealer (Some [le32 DD_VERSION, le32 DD_CMD_CHALL, ?k @ box_easy XH (ddboxk (keys h)) ?k (le64 (br_cookie (keys h))), sid])) l1 = Inr l2"
    "dealt (sent l2) = dealt (sent l1) @ [[le32 DD_VERSION, le32 DD_CMD_CHALLOK, le64 (br_cookie (keys h)), br_hash (keys h), ascii ''broker'']]"
    "l2 = l1\<lparr>timeout := 0, broker_id := Some sid, sent := sent l2\<rparr>"
    using chall_answered_by_broker [OF _ _ f1(1), of ?k XL] high(7) unfolding f1(2) ks(1) by (metis nonce_increment_length)
  have g1: "reg_inv L h1" "keys h1 = keys h" "lcl_br_ht h1 = lcl_br_ht h" "rsock h1" "pubS h1" "subS h1"
    using high(4-6) by (subst h1(3), simp add: reg_inv_same [OF high(1)])+
  obtain h2 where h2: "handle XH (On_router (Some (sid # [le32 DD_VERSION, le32 DD_CMD_CHALLOK, le64 (br_cookie (keys h)), br_hash (keys h), ascii ''broker'']))) h1 = Inr h2"
    "routed (sent h2) = routed (sent h1) @ [(sid, [le32 DD_VERSION, le32 DD_CMD_REGOK, le64 (br_cookie (keys h)), zsock_endpoint XH PubS, zsock_endpoint XH SubS])]"
    "(sockid_cookie_hash sid (le64 (br_cookie (keys h))), \<lparr>lb_sockid = sid, lb_cookie = br_cookie (keys h), lb_distance = 0, lb_timeout = 0\<rparr>) \<in> set (lcl_br_ht h2)"
    using challok_registers_broker [OF g1(1) high(2) _ g1(4-6), of XH] high(3) ks(4) unfolding g1(2,3) by fast
  have f2: "reg_inv K l2" "dsock l2" "dealer_connect l2 = Some addr" "broker_id l2 = Some sid" "announcements l2 = announcements l"
    using low(1,3) by (subst l2(3), subst l1(2), simp add: reg_inv_same [OF low(1)] announcements_def announcement_def)+
  obtain l3 where "handle XL (On_dealer (Some [le32 DD_VERSION, le32 DD_CMD_REGOK, le64 (br_cookie (keys h)), zsock_endpoint XH PubS, zsock_endpoint XH SubS])) l2 = Inr l3"
    "state l3 = DD_STATE_REGISTERED" "pubN l3" "subN l3" "broker_id l3 = Some sid" "dealt (sent l3) = dealt (sent l2) @ announcements l"
    using regok_announces [OF f2(1-3) low(5-7)] unfolding f2(4,5) by blast
  with l1(1,3) h1(1,2) l2(1,2) h2 show ?thesis by (intro exI conjI) assumption+
qed

lemma broker_handshake_completes_witness:
  "\<exists>l1 h1 m1. handle ex_ext (On_timer Register True) ex_sub = Inr l1 \<and> dealt (sent l1) = dealt (sent ex_sub) @ [m1] \<and>
    handle ex_ext (On_router (Some (ex_sockid 7 # m1))) ex_busy = Inr h1"
proof -
  obtain pa sa where a: "pubsub_addresses ex_ext (ascii ''tcp://up:5555'') = Inr (pa, sa)"
    by (simp add: pubsub_addresses_def ex_ext_def)
  have u: "dealer_connect ex_sub = Some (ascii ''tcp://up:5555'')" unfolding ex_sub_start by code_simp
  have st: "state ex_sub = DD_STATE_UNREG \<or> state ex_sub = DD_STATE_ROOT" by (simp add: ex_sub_start)
  have c: "connect_ok ex_ext s x" for s x by (simp add: ex_ext_def)
  have h: "length (nonce ex_busy) = NONCEBYTES" "pubS ex_busy" "subS ex_busy" "0 \<notin> set (br_hash (keys ex_busy))"
    by (simp_all add: ex_busy_def ex_populate_def ex_root_start ex_keys_def ascii_def)
  have new: "\<forall>(g, lb)\<in>set (lcl_br_ht ex_busy). lb_sockid lb \<noteq> ex_sockid 7"
    by (simp add: ex_busy_tables ex_broker_def)
  show ?thesis
    using broker_handshake_completes [OF ex_reg_inv_sub [of 5] st u c a c c ex_busy_ok(1) _ new _ h(2,3,1) _ _ _ h(4) ex_same_box]
    by simp blast
qed

end
