(* ===== verification/PubSubProps.thy ===== *)
theory PubSubProps
  imports Scenario
begin

text \<open>
  Publish and subscribe: how the scope of a subscription is filled in, what a publication is sent to, and
  that a subscription leads to the delivery of the publications it is meant for.
\<close>

section \<open>The scope of a subscription\<close>

text \<open>The broker's own numbers in place of the stars.\<close>

definition fill_scope :: "bytes list \<Rightarrow> bytes list \<Rightarrow> bytes list" where
  "fill_scope toks ts = map2 (\<lambda>token t. if token = ascii ''*'' then t else token) toks ts"

definition path :: "bytes list \<Rightarrow> bytes" where
  "path ts = concat (map (\<lambda>t. slash # t) ts)"

lemma path_simps [simp]: "path [] = []" "path (t # ts) = slash # t @ path ts" "path (xs @ ys) = path xs @ path ys"
  by (simp_all add: path_def)

lemma fill_scope_simps [simp]:
  "fill_scope [] ts = []" "fill_scope toks [] = []"
  "fill_scope (token # toks) (t # ts) = (if token = ascii ''*'' then t else token) # fill_scope toks ts"
  by (simp_all add: fill_scope_def)

lemma scope_put_fits: "length s < n \<Longrightarrow> scope_put s (buf, int n) = Inr (buf @ s, int (n - length s))"
  by (simp add: scope_put_def of_nat_diff)

lemma scope_loop_exact:
  "length (path (fill_scope toks ts)) < n \<Longrightarrow> scope_loop toks ts (buf, int n) =
     (if length toks \<le> length ts then Inr (buf @ path (fill_scope toks ts), int (n - length (path (fill_scope toks ts))))
      else Inl Use_after_free)"
proof (induction toks ts "(buf, int n)" arbitrary: buf n rule: scope_loop.induct)
  case (3 token toks t ts)
  let ?x = "if token = ascii ''*'' then t else token"
  have "scope_put (slash # ?x) (buf, int n) = Inr (buf @ slash # ?x, int (n - length (slash # ?x)))"
    by (rule scope_put_fits) (use "3.prems" in simp)
  moreover have "scope_loop toks ts (buf @ slash # ?x, int (n - length (slash # ?x))) =
     (if length toks \<le> length ts then Inr ((buf @ slash # ?x) @ path (fill_scope toks ts), int (n - length (slash # ?x) - length (path (fill_scope toks ts))))
      else Inl Use_after_free)"
    by (rule "3.hyps") (use "3.prems" calculation in simp_all)
  ultimately show ?case by (simp del: of_nat_Suc)
qed simp_all

lemma new_scope_fill:
  assumes "scopestr \<noteq> ascii ''noscope''" "length (path (fill_scope (strtok slash scopestr) (scope self))) < 126"
  shows "new_scope self scopestr =
    (if length (strtok slash scopestr) \<le> length (scope self)
     then Inr (path (fill_scope (strtok slash scopestr) (scope self)) @ [slash])
     else Inl Use_after_free)"
proof -
  let ?p = "path (fill_scope (strtok slash scopestr) (scope self))"
  have "scope_put [slash] (?p, int (128 - length ?p)) = Inr (?p @ [slash], int (128 - length ?p - length [slash]))"
    by (rule scope_put_fits) (use assms(2) in simp)
  then show ?thesis
    using assms scope_loop_exact [of "strtok slash scopestr" "scope self" 128 "[]"] by (simp add: new_scope_def)
qed

text \<open>
  The scope of a subscription: the tokens of the client's string, each star replaced by the broker's number of
  that level, between slashes; a string with more levels than the broker has is used after it was freed.
\<close>

theorem new_scope_exact:
  assumes "scopestr \<noteq> ascii ''noscope''" "length (path (fill_scope (strtok slash scopestr) (scope self))) < 126"
  shows "new_scope self scopestr =
    (if length (strtok slash scopestr) \<le> length (scope self)
     then Inr (path (fill_scope (strtok slash scopestr) (scope self)) @ [slash])
     else Inl Use_after_free)"
  by (rule new_scope_fill [OF assms])

lemma new_scope_exact_witness:
  "new_scope ex_busy (ascii ''/*/7/'') = Inr (ascii ''/1/7/'') \<and> new_scope ex_busy (ascii ''/*/*/*/*/'') = Inl Use_after_free"
proof -
  have sc: "scope ex_busy = [ascii ''1'', ascii ''2'', ascii ''3'']"
    by (simp add: ex_busy_def ex_populate_def ex_root_start)
  have t: "strtok slash (ascii ''/*/7/'') = [ascii ''*'', ascii ''7'']" "strtok slash (ascii ''/*/*/*/*/'') = [ascii ''*'', ascii ''*'', ascii ''*'', ascii ''*'']"
    by code_simp+
  have "new_scope ex_busy (ascii ''/*/7/'') = Inr (path [ascii ''1'', ascii ''7''] @ [slash])"
    by (subst new_scope_exact; (unfold t sc)?) (simp_all add: ascii_def)
  moreover have "new_scope ex_busy (ascii ''/*/*/*/*/'') = Inl Use_after_free"
    by (subst new_scope_exact; (unfold t sc)?) (simp_all add: ascii_def)
  ultimately show ?thesis by (simp add: ascii_def)
qed

section \<open>What a publication is sent to\<close>

text \<open>The frames to the brokers above and below, where those sockets are open.\<close>

definition to_brokers :: "dd_broker \<Rightarrow> bytes \<Rightarrow> bytes \<Rightarrow> zmsg \<Rightarrow> event list" where
  "to_brokers b pubtopic name msg =
     (if pubN b then [Send PubN ([pubtopic, name, the (broker_id b)] @ msg)] else []) @
     (if pubS b then [Send PubS ([pubtopic, name, []] @ msg)] else [])"

lemma send_pubs_exact:
  assumes "rsock b"
  shows "send_pubs pub name t msg b =
    Inr (b\<lparr>sent := sent b @ map (\<lambda>s. Send Rsock ([s, le32 DD_VERSION, le32 DD_CMD_PUB, name, t] @ msg)) (pub_list pub)\<rparr>)"
proof -
  have "rfold (\<lambda>s. zsock_send Rsock ([s, le32 DD_VERSION, le32 DD_CMD_PUB, name, t] @ msg)) xs b =
      Inr (b\<lparr>sent := sent b @ map (\<lambda>s. Send Rsock ([s, le32 DD_VERSION, le32 DD_CMD_PUB, name, t] @ msg)) xs\<rparr>)"
    if "rsock b" for xs and b :: dd_broker
    using that by (induction xs arbitrary: b) (simp_all add: zsock_send_def sock_open_def emit_def)
  from this [OF assms] show ?thesis by (simp add: send_pubs_def pub_list_def split: option.split)
qed

lemma router_pub:
  "handle X (On_router (Some ([src, le32 DD_VERSION, le32 DD_CMD_PUB, cookie] @ msg))) b = s_cb_pub b src cookie msg"
  "handle X (On_router (Some ([src, le32 DD_VERSION, le32 DD_CMD_SUB, cookie] @ msg))) b = s_cb_sub X b src cookie msg"
  by (simp_all add: handle_def s_on_router_msg_def router_cmd_def with_cookie_def cmd_defs)

lemma set_snprintf: "x \<in> set (snprintf n s) \<Longrightarrow> x \<in> set s"
  by (auto simp: snprintf_def dest: in_set_takeD)

text \<open>
  The four cases of a topic: one that ends in \<open>$\<close> is published without it and without the scope of the broker, one that
  begins with \<open>public.\<close> without the tenant of the publisher, whose name is qualified instead. The topic as the clients see
  it, the topic that is looked up, and the name.
\<close>

definition seen_topic :: "bytes \<Rightarrow> bytes" where
  "seen_topic t = (if last t = of_char (CHR ''$'') then butlast t else t)"

definition full_topic :: "local_client \<Rightarrow> bytes \<Rightarrow> bytes \<Rightarrow> bytes" where
  "full_topic lc t bscope =
     (let p = (if last t = of_char (CHR ''$'') then butlast t else snprintf 256 (t @ bscope)) in
      if is_public_name t then p else snprintf 256 (dot_join (lc_tenant lc) p))"

definition publisher_name :: "local_client \<Rightarrow> bytes \<Rightarrow> bytes" where
  "publisher_name lc t = (if is_public_name t then lc_prefix_name lc else lc_name lc)"

lemma publisher_fields [simp]: "full_topic (lc\<lparr>lc_timeout := n\<rparr>) = full_topic lc" "publisher_name (lc\<lparr>lc_timeout := n\<rparr>) = publisher_name lc"
  by (simp_all add: full_topic_def publisher_name_def fun_eq_iff Let_def)

lemma pub_exact:
  assumes inv: "reg_inv L b" "names_wf (keys b)" "clients b a = Some lc" "slot_ok (topics_trie b)"
    and ready: "rsock b" "pubN b \<longrightarrow> broker_id b \<noteq> None" "broker_scope b = Some bscope" "0 \<notin> set bscope"
    and t: "t \<noteq> []" "0 \<notin> set t"
  shows "\<exists>subs. distinct subs \<and>
    set subs = {s. \<exists>p. prefix p (full_topic lc t bscope) \<and> s \<in> set (subs_slot (topics_trie b) p)} \<and>
    s_cb_pub b (lc_sockid lc) (le64 (lc_cookie lc)) ([t, pathv] @ msg) =
      Inr ((touch_client b a)\<lparr>sent := sent b @ to_brokers b (full_topic lc t bscope) (publisher_name lc t) msg @
        map (\<lambda>s. Send Rsock ([s, le32 DD_VERSION, le32 DD_CMD_PUB, publisher_name lc t, seen_topic t] @ msg)) subs\<rparr>)"
proof -
  let ?p = "full_topic lc t bscope" and ?n = "publisher_name lc t"
  have "0 \<notin> set ?p" using client_tenant_wf(2) [OF inv(1-3)] t(2) ready(4)
    by (auto simp: full_topic_def Let_def dot_join_def ascii_def dest!: set_snprintf in_set_butlastD split: if_splits)
  then obtain pub where pub: "nn_trie_tree (topics_trie b) ?p = Inr pub" "distinct (pub_list pub)"
      "set (pub_list pub) = {s. \<exists>q. prefix q ?p \<and> s \<in> set (subs_slot (topics_trie b) q)}"
    using nn_trie.find [OF inv(4)] by blast
  let ?b = "touch_client b a"
  let ?c = "?b\<lparr>sent := sent b @ to_brokers b ?p ?n msg\<rparr>"
  have c: "rsock ?c" using ready(1) by simp
  have q: "rbind (publish PubN ?p ?n (broker_id ?b) msg ?b) (publish PubS ?p ?n (Some []) msg) = Inr ?c"
    using ready(2) by (cases "pubN b"; cases "pubS b")
      (auto simp: publish_def sock_open_def zsock_send_def emit_def to_brokers_def)
  have "s_cb_pub b (lc_sockid lc) (le64 (lc_cookie lc)) ([t, pathv] @ msg) =
      rbind (rbind (publish PubN ?p ?n (broker_id ?b) msg ?b) (publish PubS ?p ?n (Some []) msg))
        (\<lambda>self. rbind (nn_trie_tree (topics_trie self) ?p) (\<lambda>pub. send_pubs pub ?n (seen_topic t) msg self))"
    using inv(3) t ready(3)
    by (simp add: s_cb_pub_def c_string_id has_local_node_exact [OF inv(1,3)] get_client_def touch_clients Let_def
        full_topic_def publisher_name_def seen_topic_def rbind_assoc [symmetric])
  also have "\<dots> = send_pubs pub ?n (seen_topic t) msg ?c" unfolding q using pub(1) by simp
  also have "\<dots> = Inr (?c\<lparr>sent := sent ?c @ map (\<lambda>s. Send Rsock ([s, le32 DD_VERSION, le32 DD_CMD_PUB, ?n, seen_topic t] @ msg)) (pub_list pub)\<rparr>)"
    by (rule send_pubs_exact [OF c])
  finally show ?thesis using pub(2,3) by (intro exI [of _ "pub_list pub"]) simp
qed

text \<open>
  C13. What a publication of a registered client causes: one frame for the broker above and one for those below, where
  those sockets are open, and then one PUB to every socket that is subscribed to a prefix of the qualified topic, and
  nothing else. The qualified topic has the tenant in front, unless the topic is public, and the scope of the broker
  behind, unless the topic ends in \<open>$\<close>; the subscriber sees the topic as it was published, without the \<open>$\<close>, and the
  publisher's name, with its tenant when the topic is public.
\<close>

theorem publish_reaches_subscribers:
  assumes "reg_inv L b" "names_wf (keys b)" "clients b a = Some lc" "slot_ok (topics_trie b)"
    and "rsock b" "pubN b \<longrightarrow> broker_id b \<noteq> None" "broker_scope b = Some bscope" "0 \<notin> set bscope"
    and "t \<noteq> []" "0 \<notin> set t"
  shows "\<exists>subs. distinct subs \<and>
    set subs = {s. \<exists>p. prefix p (full_topic lc t bscope) \<and> s \<in> set (subs_slot (topics_trie b) p)} \<and>
    handle X (On_router (Some ([lc_sockid lc, le32 DD_VERSION, le32 DD_CMD_PUB, le64 (lc_cookie lc)] @ [t, pathv] @ msg))) b =
      Inr ((touch_client b a)\<lparr>sent := sent b @ to_brokers b (full_topic lc t bscope) (publisher_name lc t) msg @
        map (\<lambda>s. Send Rsock ([s, le32 DD_VERSION, le32 DD_CMD_PUB, publisher_name lc t, seen_topic t] @ msg)) subs\<rparr>)"
  unfolding router_pub by (rule pub_exact [OF assms])

section \<open>From the subscription to the delivery\<close>

lemma ht_lookup_total: "(\<And>y. (h, y) \<in> set t \<Longrightarrow> is_ok (m y)) \<Longrightarrow> is_ok (ht_lookup m h t)"
proof (induction t)
  case (Cons x t)
  then have "is_ok (ht_lookup m h t)" by auto
  then show ?case using Cons.prems by (cases x) (fastforce simp: is_ok_iff)
qed simp

lemma lookup_subscribe_total:
  assumes "reg_inv L b" "length sid = L"
  shows "is_ok (lookup_subscribe_node b sid)"
  unfolding lookup_subscribe_node_def
proof (rule ht_lookup_total)
  fix y assume "(name_hash sid, y) \<in> set (subscribe_ht b)"
  then have "length (sn_sockid y) = L" using assms(1) unfolding reg_inv_def subs_ok_def by blast
  then show "is_ok (match_subscribe_node sid y)" using assms(2) by (simp add: match_subscribe_node_def memcmp_eq_len)
qed

lemma insert_subscription_total:
  assumes "reg_inv L b" "length sid = L"
  shows "\<exists>n ht. insert_subscription X b sid key = Inr (n, b\<lparr>subscribe_ht := ht\<rparr>) \<and> reg_inv L (b\<lparr>subscribe_ht := ht\<rparr>)"
proof -
  obtain r where r: "lookup_subscribe_node b sid = Inr r" using lookup_subscribe_total [OF assms] by (auto simp: is_ok_iff)
  then have "\<exists>n ht. insert_subscription X b sid key = Inr (n, b\<lparr>subscribe_ht := ht\<rparr>)"
    by (auto simp: insert_subscription_def split: option.split intro: exI [of _ "subscribe_ht b"])
  then obtain n ht where i: "insert_subscription X b sid key = Inr (n, b\<lparr>subscribe_ht := ht\<rparr>)" by blast
  have "post (insert_subscription X b sid key) (\<lambda>(n, s). reg_inv L s)"
    by (rule post_insert_subscription [OF assms]) simp
  then show ?thesis using i by auto
qed

text \<open>What a subscription leaves unchanged.\<close>

definition same_but_trie :: "dd_broker \<Rightarrow> dd_broker \<Rightarrow> bool" where
  "same_but_trie b b' \<longleftrightarrow> keys b' = keys b \<and> clients b' = clients b \<and> rsock b' = rsock b \<and> pubN b' = pubN b \<and> pubS b' = pubS b \<and>
     broker_id b' = broker_id b \<and> broker_scope b' = broker_scope b"

lemma send_if_open_fields [simp]:
  "same_but_trie b (send_if_open s fs b') = same_but_trie b b'" "reg_inv L (send_if_open s fs b') = reg_inv L b'"
  "topics_trie (send_if_open s fs b') = topics_trie b'"
  by (simp_all add: send_if_open_def same_but_trie_def)

lemma new_scope_cong: "scope b' = scope b \<Longrightarrow> new_scope b' sc = new_scope b sc"
  by (simp add: new_scope_def)

lemma sub_exact:
  assumes inv: "reg_inv L b" "clients b a = Some lc" "slot_ok (topics_trie b)" "rsock b" "names_wf (keys b)"
    and t: "t \<noteq> ascii ''public''" "0 \<notin> set t" "0 \<notin> set sc"
    and ns: "new_scope b sc = Inr newscope" "0 \<notin> set newscope"
    and key: "key = new_topic (lc_tenant lc) t newscope"
    and safe: "sub_safe (topics_trie b) key" "int (length (subs_slot (topics_trie b) key)) + 1 < 2 ^ 32"
  shows "\<exists>b'. s_cb_sub X b (lc_sockid lc) (le64 (lc_cookie lc)) [t, sc] = Inr b' \<and> reg_inv L b' \<and>
    same_but_trie (touch_client b a) b' \<and> slot_ok (topics_trie b') \<and>
    subs_slot (topics_trie b') = (subs_slot (topics_trie b))(key := add_sock (subs_slot (topics_trie b) key) (lc_sockid lc))"
proof -
  let ?b = "emit (Send Rsock [lc_sockid lc, le32 DD_VERSION, le32 DD_CMD_SUBOK, t, sc]) (touch_client b a)"
  have len: "length (lc_sockid lc) = L"
    using inv(1,2) unfolding reg_inv_def by (auto dest!: cli_okD(10) simp: client_ok_def)
  have "0 \<notin> set key" using client_tenant_wf(2) [OF inv(1,5,2)] t(2) ns(2)
    by (auto simp: key new_topic_def dot_join_def ascii_def dest!: set_snprintf)
  then obtain y where y: "nn_trie_subscribe (topics_trie b) key (lc_sockid lc) = Inr (y, sub_code (subs_slot (topics_trie b) key) (lc_sockid lc))"
      "slot_ok y" "subs_slot y = (subs_slot (topics_trie b))(key := add_sock (subs_slot (topics_trie b) key) (lc_sockid lc))"
    using nn_trie.add [OF inv(3) _ safe] by blast
  have "reg_inv L ?b" using inv(1) by (simp add: reg_inv_touch)
  from insert_subscription_total [OF this len, of X key] obtain n ht where i: "insert_subscription X ?b (lc_sockid lc) key = Inr (n, ?b\<lparr>subscribe_ht := ht\<rparr>)"
      "reg_inv L (?b\<lparr>subscribe_ht := ht\<rparr>)" by blast
  let ?c = "?b\<lparr>subscribe_ht := ht, topics_trie := y\<rparr>"
  have c: "reg_inv L ?c" using i(2) by (simp add: reg_inv_def)
  have "new_scope (touch_client b a) sc = Inr newscope" using ns(1) new_scope_cong [of "touch_client b a" b] by simp
  then have "s_cb_sub X b (lc_sockid lc) (le64 (lc_cookie lc)) [t, sc] = Inr (if sub_code (subs_slot (topics_trie b) key) (lc_sockid lc) \<noteq> 2 then ?c
      else send_if_open SubS [1 # key] (send_if_open SubN [1 # key] ?c))"
    using inv(2,4) t i(1) y(1)
    by (simp add: s_cb_sub_def c_string_id has_local_node_exact [OF inv(1,2)] get_client_def touch_clients zsock_send_def sock_open_def
        Let_def key [symmetric])
  moreover have "same_but_trie (touch_client b a) ?c" by (simp add: same_but_trie_def emit_def)
  ultimately show ?thesis using c y(2,3) by auto
qed

lemma path_take: "prefix (path (take k ts) @ [slash]) (path ts @ [slash])"
proof (cases "k < length ts")
  case True
  then have "path ts = path (take k ts) @ slash # (ts ! k) @ path (drop (Suc k) ts)"
    using arg_cong [OF id_take_nth_drop [OF True], of path] by simp
  then show ?thesis by simp
qed simp

text \<open>A scope of stars or of the broker's own numbers is a prefix of the broker's.\<close>

lemma own_scope:
  assumes "sc \<noteq> ascii ''noscope''" "length (strtok slash sc) \<le> length (scope b)" "length (path (scope b)) < 126"
    and "fill_scope (strtok slash sc) (scope b) = take (length (strtok slash sc)) (scope b)"
  shows "\<exists>newscope. new_scope b sc = Inr newscope \<and> prefix newscope (path (scope b) @ [slash])"
proof -
  let ?ts = "take (length (strtok slash sc)) (scope b)"
  have pre: "prefix (path ?ts @ [slash]) (path (scope b) @ [slash])" by (rule path_take)
  then have "length (path ?ts) < 126" using prefix_length_le [OF pre] assms(3) by simp
  then have "new_scope b sc = Inr (path ?ts @ [slash])"
    using new_scope_fill [OF assms(1), of b] assms(2,4) by simp
  then show ?thesis using pre by blast
qed

text \<open>
  A socket is subscribed, in a state of the broker that its invariants allow: it is in the trie under the topic \<open>key\<close>.
\<close>

definition subscribed :: "nat \<Rightarrow> bytes \<Rightarrow> bytes \<Rightarrow> dd_broker \<Rightarrow> bool" where
  "subscribed L key sid b \<longleftrightarrow> reg_inv L b \<and> names_wf (keys b) \<and> slot_ok (topics_trie b) \<and> rsock b \<and> (pubN b \<longrightarrow> broker_id b \<noteq> None) \<and>
     sid \<in> set (subs_slot (topics_trie b) key)"

lemma subscribed_delivery:
  assumes "subscribed L key sid b" "broker_scope b = Some bscope" "0 \<notin> set bscope" "clients b a = Some lc"
    and "t \<noteq> []" "0 \<notin> set t" "prefix key (full_topic lc t bscope)"
  shows "\<exists>b' es. handle X (On_router (Some ([lc_sockid lc, le32 DD_VERSION, le32 DD_CMD_PUB, le64 (lc_cookie lc)] @ [t, pathv] @ msg))) b = Inr b' \<and>
    sent b' = sent b @ es \<and> Send Rsock ([sid, le32 DD_VERSION, le32 DD_CMD_PUB, publisher_name lc t, seen_topic t] @ msg) \<in> set es"
proof -
  have s: "reg_inv L b" "names_wf (keys b)" "slot_ok (topics_trie b)" "rsock b" "pubN b \<longrightarrow> broker_id b \<noteq> None"
    "sid \<in> set (subs_slot (topics_trie b) key)" using assms(1) by (simp_all add: subscribed_def)
  obtain subs where subs: "set subs = {s. \<exists>p. prefix p (full_topic lc t bscope) \<and> s \<in> set (subs_slot (topics_trie b) p)}"
    and b': "s_cb_pub b (lc_sockid lc) (le64 (lc_cookie lc)) ([t, pathv] @ msg) =
      Inr ((touch_client b a)\<lparr>sent := sent b @ to_brokers b (full_topic lc t bscope) (publisher_name lc t) msg @
        map (\<lambda>s. Send Rsock ([s, le32 DD_VERSION, le32 DD_CMD_PUB, publisher_name lc t, seen_topic t] @ msg)) subs\<rparr>)"
    using pub_exact [OF s(1,2) assms(4) s(3-5) assms(2,3,5,6)] by blast
  let ?es = "to_brokers b (full_topic lc t bscope) (publisher_name lc t) msg @
    map (\<lambda>s. Send Rsock ([s, le32 DD_VERSION, le32 DD_CMD_PUB, publisher_name lc t, seen_topic t] @ msg)) subs"
  have "sid \<in> set subs" using s(6) assms(7) subs by blast
  then have "Send Rsock ([sid, le32 DD_VERSION, le32 DD_CMD_PUB, publisher_name lc t, seen_topic t] @ msg) \<in> set ?es" by simp
  with b' show ?thesis unfolding router_pub by (intro exI [of _ ?es] exI conjI) (assumption | simp)+
qed

text \<open>Which topics those are: the subscribed one with the scope, and with \<open>noscope\<close> every one that starts with it.\<close>

lemma subscribed_topics:
  assumes "newscope = [] \<and> prefix t t' \<or> t' = t \<and> last t \<noteq> of_char (CHR ''$'') \<and> prefix newscope bscope" "\<not> is_public_name t'"
    and "length (dot_join (lc_tenant lc) (seen_topic t' @ bscope)) < 256" "t' \<noteq> []" "last t' = of_char (CHR ''$'') \<longrightarrow> t' \<noteq> t"
    and "key = new_topic tenant t newscope" "lc_tenant lc = tenant"
  shows "prefix key (full_topic lc t' bscope)"
proof -
  have st: "prefix (t @ newscope) (seen_topic t' @ (if last t' = of_char (CHR ''$'') then [] else bscope))"
  proof (cases "last t' = of_char (CHR ''$'')")
    case True
    have "newscope = []" "prefix t t'" "t \<noteq> t'" using True assms(1,5) by auto
    moreover have "prefix t (butlast t')"
      using calculation(2,3) assms(4) prefix_snoc [of t "butlast t'" "last t'"] by simp
    ultimately show ?thesis using True by (simp add: seen_topic_def)
  next
    case False
    then show ?thesis using assms(1) by (auto simp: seen_topic_def prefix_def)
  qed
  have "length (t @ newscope) \<le> length (seen_topic t' @ bscope)"
    using prefix_length_le [OF st] by (auto split: if_splits)
  then have "key = dot_join (lc_tenant lc) (t @ newscope)"
    using assms(3) by (simp add: assms(6,7) new_topic_def dot_join_def snprintf_def)
  moreover have "full_topic lc t' bscope = dot_join (lc_tenant lc) (seen_topic t' @ (if last t' = of_char (CHR ''$'') then [] else bscope))"
    using assms(2,3) by (auto simp: full_topic_def Let_def seen_topic_def dot_join_def snprintf_def)
  ultimately show ?thesis using st by (simp add: dot_join_def)
qed

text \<open>
  C12. A client that subscribes gets what is published: once its SUB is handled, with a scope of at most the levels of
  the broker, its socket is in the trie under the topic with its tenant and the scope filled in, and as long as it is
  there, in whatever state the broker is then, every PUB whose qualified topic starts with that is answered with, among
  others, a PUB to the subscriber with the payload unchanged. Those are, for a publisher of the tenant and a topic that is
  not public: with \<open>noscope\<close> every topic that starts with the one subscribed to, and with a scope that is one of the broker's
  own the topic itself.
\<close>

theorem subscription_delivers:
  assumes inv: "reg_inv L b" "names_wf (keys b)" "clients b a' = Some lc'"
    and ready: "slot_ok (topics_trie b)" "rsock b" "pubN b \<longrightarrow> broker_id b \<noteq> None"
      "broker_scope b = Some bscope" "0 \<notin> set bscope"
    and t: "0 \<notin> set t" "t \<noteq> ascii ''public''" "0 \<notin> set sc"
    and sc: "new_scope b sc = Inr newscope" "0 \<notin> set newscope"
    and key: "key = new_topic (lc_tenant lc') t newscope"
      "sub_safe (topics_trie b) key" "int (length (subs_slot (topics_trie b) key)) + 1 < 2 ^ 32"
  shows "(\<exists>b1. handle X (On_router (Some ([lc_sockid lc', le32 DD_VERSION, le32 DD_CMD_SUB, le64 (lc_cookie lc')] @ [t, sc]))) b = Inr b1 \<and>
      subscribed L key (lc_sockid lc') b1 \<and> broker_scope b1 = Some bscope) \<and>
    (\<forall>b2 a lc t' pathv msg. subscribed L key (lc_sockid lc') b2 \<and> broker_scope b2 = Some bscope \<and> clients b2 a = Some lc \<and>
        t' \<noteq> [] \<and> 0 \<notin> set t' \<and> prefix key (full_topic lc t' bscope) \<longrightarrow>
      (\<exists>b3 es. handle X (On_router (Some ([lc_sockid lc, le32 DD_VERSION, le32 DD_CMD_PUB, le64 (lc_cookie lc)] @ [t', pathv] @ msg))) b2 = Inr b3 \<and>
         sent b3 = sent b2 @ es \<and>
         Send Rsock ([lc_sockid lc', le32 DD_VERSION, le32 DD_CMD_PUB, publisher_name lc t', seen_topic t'] @ msg) \<in> set es)) \<and>
    (\<forall>(lc :: local_client) t'. lc_tenant lc = lc_tenant lc' \<and> t' \<noteq> [] \<and> \<not> is_public_name t' \<and> length (dot_join (lc_tenant lc) (seen_topic t' @ bscope)) < 256 \<and>
        (newscope = [] \<and> prefix t t' \<and> t \<noteq> t' \<or> t' = t \<and> last t \<noteq> of_char (CHR ''$'') \<and> prefix newscope bscope) \<longrightarrow>
      prefix key (full_topic lc t' bscope))"
proof -
  obtain b1 where b1: "s_cb_sub X b (lc_sockid lc') (le64 (lc_cookie lc')) [t, sc] = Inr b1" "reg_inv L b1"
      "same_but_trie (touch_client b a') b1" "slot_ok (topics_trie b1)"
      "subs_slot (topics_trie b1) = (subs_slot (topics_trie b))(key := add_sock (subs_slot (topics_trie b) key) (lc_sockid lc'))"
    using sub_exact [OF inv(1,3) ready(1,2) inv(2) t(2,1,3) sc(1,2) key] by blast
  then have "subscribed L key (lc_sockid lc') b1" "broker_scope b1 = Some bscope"
    using inv(2) ready(2-4) by (simp_all add: subscribed_def same_but_trie_def)
  then have "\<exists>b1. handle X (On_router (Some ([lc_sockid lc', le32 DD_VERSION, le32 DD_CMD_SUB, le64 (lc_cookie lc')] @ [t, sc]))) b = Inr b1 \<and>
      subscribed L key (lc_sockid lc') b1 \<and> broker_scope b1 = Some bscope"
    unfolding router_pub using b1(1) by blast
  moreover have "\<forall>b2 a lc t' pathv msg. subscribed L key (lc_sockid lc') b2 \<and> broker_scope b2 = Some bscope \<and> clients b2 a = Some lc \<and>
        t' \<noteq> [] \<and> 0 \<notin> set t' \<and> prefix key (full_topic lc t' bscope) \<longrightarrow>
      (\<exists>b3 es. handle X (On_router (Some ([lc_sockid lc, le32 DD_VERSION, le32 DD_CMD_PUB, le64 (lc_cookie lc)] @ [t', pathv] @ msg))) b2 = Inr b3 \<and>
         sent b3 = sent b2 @ es \<and>
         Send Rsock ([lc_sockid lc', le32 DD_VERSION, le32 DD_CMD_PUB, publisher_name lc t', seen_topic t'] @ msg) \<in> set es)"
    using subscribed_delivery ready(5) by blast
  moreover have "\<forall>(lc :: local_client) t'. lc_tenant lc = lc_tenant lc' \<and> t' \<noteq> [] \<and> \<not> is_public_name t' \<and> length (dot_join (lc_tenant lc) (seen_topic t' @ bscope)) < 256 \<and>
        (newscope = [] \<and> prefix t t' \<and> t \<noteq> t' \<or> t' = t \<and> last t \<noteq> of_char (CHR ''$'') \<and> prefix newscope bscope) \<longrightarrow>
      prefix key (full_topic lc t' bscope)"
  proof (intro allI impI, elim conjE)
    fix lc :: local_client and t'
    assume p: "lc_tenant lc = lc_tenant lc'" "t' \<noteq> []" "\<not> is_public_name t'" "length (dot_join (lc_tenant lc) (seen_topic t' @ bscope)) < 256"
      "newscope = [] \<and> prefix t t' \<and> t \<noteq> t' \<or> t' = t \<and> last t \<noteq> of_char (CHR ''$'') \<and> prefix newscope bscope"
    show "prefix key (full_topic lc t' bscope)"
      by (rule subscribed_topics [OF _ p(3,4,2) _ key(1) p(1)]) (use p(5) in auto)
  qed
  ultimately show ?thesis by (intro conjI)
qed

lemma actor_broker_scope: "dd_broker_actor X n cf = Inr (Some self) \<Longrightarrow> broker_scope self = cf_broker_scope cf"
  by (auto simp: dd_broker_actor_def broker_actor_def broker_fresh_def start_pubsub_def zloop_timer_def emit_def Let_def
      rbind_eq_Inr split: if_splits option.splits)

lemma ex_busy_pubsub:
  "topics_trie ex_busy = None" "pubN ex_busy = False" "broker_scope ex_busy = Some (ascii ''/1/2/3/'')"
  "scope ex_busy = [ascii ''1'', ascii ''2'', ascii ''3'']"
  by (simp_all add: ex_busy_def ex_populate_def ex_root_start nn_trie_init_def actor_broker_scope [OF ex_root_starts])
    (code_simp)

text \<open>The busy broker with a subscription of one of its clients.\<close>

definition ex_topic :: bytes where "ex_topic = ascii ''a.t/1/2/''"

definition ex_subscribed :: dd_broker where
  "ex_subscribed = ex_busy\<lparr>topics_trie := fst (projr (nn_trie_subscribe nn_trie_init ex_topic (ex_sockid 2)))\<rparr>"

lemma ex_subscribed_trie:
  "slot_ok (topics_trie ex_subscribed)" "subs_slot (topics_trie ex_subscribed) = (\<lambda>p. if p = ex_topic then [ex_sockid 2] else [])"
proof -
  have t: "0 \<notin> set ex_topic" "sub_safe nn_trie_init ex_topic" "int (length (subs_slot nn_trie_init ex_topic)) + 1 < 2 ^ 32"
    by (auto simp: ex_topic_def nn_trie_init_def sub_safe.simps ascii_def)
  have e: "slot_ok nn_trie_init" "subs_slot nn_trie_init p = []" for p by (simp_all add: nn_trie_init_def)
  obtain y where "nn_trie_subscribe nn_trie_init ex_topic (ex_sockid 2) = Inr (y, sub_code (subs_slot nn_trie_init ex_topic) (ex_sockid 2))" "slot_ok y"
    "subs_slot y = (subs_slot nn_trie_init)(ex_topic := add_sock (subs_slot nn_trie_init ex_topic) (ex_sockid 2))"
    using nn_trie.add [OF e(1) t] by blast
  then show "slot_ok (topics_trie ex_subscribed)" "subs_slot (topics_trie ex_subscribed) = (\<lambda>p. if p = ex_topic then [ex_sockid 2] else [])"
    by (simp_all add: ex_subscribed_def e(2) fun_eq_iff)
qed

lemma ex_subscribed_fields:
  "reg_inv 5 ex_subscribed" "names_wf (keys ex_subscribed)" "clients ex_subscribed = clients ex_busy" "rsock ex_subscribed" "\<not> pubN ex_subscribed"
  "broker_scope ex_subscribed = Some (ascii ''/1/2/3/'')" "sent ex_subscribed = sent ex_busy" "pubS ex_subscribed = pubS ex_busy"
  using ex_busy_ok ex_names_wf by (simp_all add: ex_subscribed_def reg_inv_def ex_busy_pubsub)

lemma ex_full_topic: "full_topic (ex_client ''a'' ''x'' 7 1) (ascii ''t'') (ascii ''/1/2/3/'') = ascii ''a.t/1/2/3/''"
  by (simp add: full_topic_def is_public_name_def starts_with_def snprintf_def dot_join_def ascii_def)

lemma publish_reaches_subscribers_witness:
  "\<exists>subs b. set subs = {ex_sockid 2} \<and>
    handle ex_ext (On_router (Some ([ex_sockid 1, le32 DD_VERSION, le32 DD_CMD_PUB, le64 7] @ [ascii ''t'', []] @ [[9]]))) ex_subscribed = Inr b \<and>
    Send Rsock [ex_sockid 2, le32 DD_VERSION, le32 DD_CMD_PUB, ascii ''x'', ascii ''t'', [9]] \<in> set (sent b)"
proof -
  have c: "clients ex_subscribed 0 = Some (ex_client ''a'' ''x'' 7 1)" by (simp add: ex_subscribed_fields(3))
  have t: "ascii ''t'' \<noteq> []" "0 \<notin> set (ascii ''t'')" "0 \<notin> set (ascii ''/1/2/3/'')" by (simp_all add: ascii_def)
  have n: "publisher_name (ex_client ''a'' ''x'' 7 1) (ascii ''t'') = ascii ''x''" "seen_topic (ascii ''t'') = ascii ''t''"
    by (simp_all add: publisher_name_def seen_topic_def is_public_name_def starts_with_def ascii_def)
  have p: "prefix ex_topic (ascii ''a.t/1/2/3/'')" by (simp add: ex_topic_def ascii_def)
  obtain subs where subs: "set subs = {s. \<exists>p. prefix p (ascii ''a.t/1/2/3/'') \<and> s \<in> set (subs_slot (topics_trie ex_subscribed) p)}"
    and h: "handle ex_ext (On_router (Some ([ex_sockid 1, le32 DD_VERSION, le32 DD_CMD_PUB, le64 7] @ [ascii ''t'', []] @ [[9]]))) ex_subscribed =
      Inr ((touch_client ex_subscribed 0)\<lparr>sent := sent ex_subscribed @ to_brokers ex_subscribed (ascii ''a.t/1/2/3/'') (ascii ''x'') [[9]] @
        map (\<lambda>s. Send Rsock ([s, le32 DD_VERSION, le32 DD_CMD_PUB, ascii ''x'', ascii ''t''] @ [[9]])) subs\<rparr>)"
    using publish_reaches_subscribers [OF ex_subscribed_fields(1,2) c ex_subscribed_trie(1) ex_subscribed_fields(4) _ ex_subscribed_fields(6) t(3,1,2), of ex_ext "[]" "[[9]]"]
    unfolding ex_full_topic n using ex_subscribed_fields(5) by (auto simp del: ascii_eq)
  have "set subs = {ex_sockid 2}" using p unfolding subs ex_subscribed_trie(2) by (auto split: if_splits)
  then show ?thesis using h by (intro exI [of _ subs] exI conjI) (assumption | simp del: ascii_eq)+
qed

lemma subscription_delivers_witness:
  "\<exists>b1 b2 es. handle ex_ext (On_router (Some ([ex_sockid 2, le32 DD_VERSION, le32 DD_CMD_SUB, le64 7] @ [ascii ''t'', ascii ''/*/2/'']))) ex_busy = Inr b1 \<and>
    handle ex_ext (On_router (Some ([ex_sockid 1, le32 DD_VERSION, le32 DD_CMD_PUB, le64 7] @ [ascii ''t'', []] @ [[9]]))) ex_subscribed = Inr b2 \<and>
    sent b2 = sent ex_subscribed @ es \<and>
    Send Rsock ([ex_sockid 2, le32 DD_VERSION, le32 DD_CMD_PUB, ascii ''x'', ascii ''t''] @ [[9]]) \<in> set es"
proof -
  have sc: "scope ex_busy = [ascii ''1'', ascii ''2'', ascii ''3'']" by (simp add: ex_busy_pubsub)
  have st: "strtok slash (ascii ''/*/2/'') = [ascii ''*'', ascii ''2'']" by code_simp
  have ns: "new_scope ex_busy (ascii ''/*/2/'') = Inr (ascii ''/1/2/'')"
    by (subst new_scope_fill; (unfold st sc)?) (simp_all add: ascii_def)
  have t: "0 \<notin> set (ascii ''t'')" "ascii ''t'' \<noteq> ascii ''public''" "0 \<notin> set (ascii ''/*/2/'')" "0 \<notin> set (ascii ''/1/2/'')" "0 \<notin> set (ascii ''/1/2/3/'')"
    by (simp_all add: ascii_def)
  have k: "ex_topic = new_topic (lc_tenant (ex_client ''a'' ''y'' 7 2)) (ascii ''t'') (ascii ''/1/2/'')"
    by (simp add: ex_topic_def new_topic_def dot_join_def snprintf_def ascii_def)
  have s: "sub_safe (topics_trie ex_busy) ex_topic" "int (length (subs_slot (topics_trie ex_busy) ex_topic)) + 1 < 2 ^ 32" "slot_ok (topics_trie ex_busy)"
    by (simp_all add: ex_busy_pubsub sub_safe.simps)
  have c: "clients ex_busy 1 = Some (ex_client ''a'' ''y'' 7 2)" "clients ex_subscribed 0 = Some (ex_client ''a'' ''x'' 7 1)"
    by (simp_all add: ex_subscribed_fields(3))
  have r: "names_wf (keys ex_busy)" "rsock ex_busy" by (simp_all add: ex_names_wf)
  note d = subscription_delivers [OF ex_busy_ok(1) r(1) c(1) s(3) r(2) _ ex_busy_pubsub(3) t(5,1,2,3) ns t(4) k s(1,2), of ex_ext]
  have sub: "subscribed 5 ex_topic (lc_sockid (ex_client ''a'' ''y'' 7 2)) ex_subscribed"
    using ex_subscribed_fields ex_subscribed_trie by (simp add: subscribed_def)
  have p: "ascii ''t'' \<noteq> []" "prefix ex_topic (full_topic (ex_client ''a'' ''x'' 7 1) (ascii ''t'') (ascii ''/1/2/3/''))"
    unfolding ex_full_topic by (simp_all add: ex_topic_def ascii_def)
  have n: "publisher_name (ex_client ''a'' ''x'' 7 1) (ascii ''t'') = ascii ''x''" "seen_topic (ascii ''t'') = ascii ''t''"
    by (simp_all add: publisher_name_def seen_topic_def is_public_name_def starts_with_def ascii_def)
  have m: "pubN ex_busy \<longrightarrow> broker_id ex_busy \<noteq> None" by (simp add: ex_busy_pubsub)
  from conjunct1 [OF d [OF m]] conjunct1 [OF conjunct2 [OF d [OF m]], rule_format, OF conjI [OF sub conjI [OF ex_subscribed_fields(6) conjI [OF c(2) conjI [OF p(1) conjI [OF t(1) p(2)]]]]], of "[]" "[[9]]"]
  show ?thesis unfolding n by (auto simp del: ascii_eq)
qed

end
