(* ===== verification/Nonces.thy ===== *)
theory Nonces
  imports Broker
begin

text \<open>
  \<open>nonce_increment\<close> of keys.c as arithmetic: the nonce is a little-endian number, incremented modulo its
  range, so that the nonces of a key are all different until the range is used up.
\<close>

definition nonce_val :: "bytes \<Rightarrow> nat" where
  "nonce_val n = foldr (\<lambda>b v. unat b + 256 * v) n 0"

lemma nonce_val_simps [simp]: "nonce_val [] = 0" "nonce_val (b # n) = unat b + 256 * nonce_val n"
  by (simp_all add: nonce_val_def)

lemma nonce_val_less: "nonce_val n < 256 ^ length n"
proof (induction n)
  case (Cons b n)
  have "unat b < 256" using unsigned_less [of b] by simp
  with Cons show ?case by simp
qed simp

lemma byte_mod: "(x mod 256 + 256 * y) mod (256 * m) = x mod 256 + 256 * (y mod (m :: nat))"
  by (simp add: mod_mult2_eq)

lemma nonce_add_val:
  assumes "unat c \<le> 1"
  shows "nonce_val (nonce_add c n) = (nonce_val n + unat c) mod 256 ^ length n \<and> length (nonce_add c n) = length n"
  using assms
proof (induction n arbitrary: c)
  case (Cons b n)
  let ?s = "c + ucast b"
  have b: "unat b < 256" using unsigned_less [of b] by simp
  have u: "unat (ucast b :: u32) = unat b"
    using b by (simp add: unsigned_ucast_eq take_bit_nat_eq_self)
  have s: "unat ?s = unat c + unat b"
    using b Cons.prems u by (subst unat_add_lem [THEN iffD1]) simp_all
  have low: "unat (ucast ?s :: u8) = (unat c + unat b) mod 256"
    by (simp add: unsigned_ucast_eq take_bit_eq_mod s)
  have high: "unat (drop_bit 8 ?s) = (unat c + unat b) div 256"
    by (simp add: unat_drop_bit_eq s) (simp add: drop_bit_eq_div)
  have "unat (drop_bit 8 ?s) \<le> 1" unfolding high using b Cons.prems by linarith
  note IH = Cons.IH [OF this]
  have "(unat b + 256 * nonce_val n + unat c) mod (256 * 256 ^ length n) =
      (unat c + unat b) mod 256 + 256 * ((nonce_val n + (unat c + unat b) div 256) mod 256 ^ length n)"
  proof -
    have "unat b + 256 * nonce_val n + unat c = (unat c + unat b) mod 256 + 256 * (nonce_val n + (unat c + unat b) div 256)"
      using div_mult_mod_eq [of "unat c + unat b" 256] by simp
    then show ?thesis by (simp only: byte_mod)
  qed
  then show ?case using IH by (simp add: Let_def low high)
qed simp

lemma nonce_increment_val:
  "nonce_val (nonce_increment n) = (nonce_val n + 1) mod 256 ^ length n" "length (nonce_increment n) = length n"
  using nonce_add_val [of 1 n] by (simp_all add: nonce_increment_def)

lemma nonce_iterate:
  "nonce_val ((nonce_increment ^^ i) n) = (nonce_val n + i) mod 256 ^ length n \<and> length ((nonce_increment ^^ i) n) = length n"
proof (induction i)
  case 0
  then show ?case by (simp add: nonce_val_less)
next
  case (Suc i)
  then show ?case by (simp add: nonce_increment_val mod_Suc_eq)
qed

lemma byte_split: "a < 256 \<Longrightarrow> c < 256 \<Longrightarrow> a + 256 * x = c + 256 * y \<longleftrightarrow> a = c \<and> x = (y :: nat)"
  by (metis add_left_cancel mod_less mod_mult_self2 mult_cancel1 zero_neq_numeral)

lemma nonce_val_inject: "length n = length m \<Longrightarrow> nonce_val n = nonce_val m \<longleftrightarrow> n = m"
proof (induction n m rule: list_induct2)
  case (Cons b n c m)
  have "unat b < 256" "unat c < 256" using unsigned_less [of b] unsigned_less [of c] by simp_all
  then have "unat b + 256 * nonce_val n = unat c + 256 * nonce_val m \<longleftrightarrow> unat b = unat c \<and> nonce_val n = nonce_val m"
    by (rule byte_split)
  then show ?case using Cons.IH by (simp add: word_unat_eq_iff)
qed simp

lemma mod_add_left_eq_iff: "(v + i) mod m = (v + j) mod m \<longleftrightarrow> i mod m = j mod (m :: nat)"
proof (induction i j rule: linorder_wlog)
  case (le i j)
  then show ?case using mod_eq_dvd_iff_nat [of i j m] mod_eq_dvd_iff_nat [of "v + i" "v + j" m] by (simp add: eq_commute)
qed (auto simp: eq_commute)

text \<open>
  The nonce of \<open>len\<close> bytes is a counter modulo \<open>256 ^ len\<close>, and two of the nonces that successive
  increments give are the same only when that many lie between them.
\<close>

theorem nonce_counts:
  "nonce_val (nonce_increment n) = (nonce_val n + 1) mod 256 ^ length n \<and>
   ((nonce_increment ^^ i) n = (nonce_increment ^^ j) n \<longleftrightarrow> i mod 256 ^ length n = j mod 256 ^ length n)"
  using nonce_iterate [of i n] nonce_iterate [of j n] nonce_val_inject [of "(nonce_increment ^^ i) n" "(nonce_increment ^^ j) n"]
  by (simp add: nonce_increment_val mod_add_left_eq_iff)

end
