(* ===== verification/Keys.thy ===== *)
theory Keys
  imports Client Base64
begin

text \<open>
  Reading the key files of the clients and of the broker: \<open>dd_keys_new\<close> and \<open>read_ddbrokerkeys\<close> of
  \<open>src/src/lib/keys.c\<close>. The contents of the file are an argument (None when it cannot be opened); the JSON
  parser of json-c and the key agreement of libsodium are parameters. A function that returns NULL is None.
\<close>

section \<open>JSON values\<close>

text \<open>
  What the code sees of a \<open>json_object\<close>: its fields when it is an object, and the text that
  \<open>json_object_get_string\<close> gives for it, which for a string is the string and for null is NULL.
\<close>

datatype json =
    J_null
  | J_string bytes
  | J_object bytes "(bytes \<times> json) list"
  | J_other bytes

record keylib =
  json_tokener_parse :: "bytes \<Rightarrow> json"
  beforenm :: "bytes \<Rightarrow> bytes \<Rightarrow> bytes option"

definition json_text :: "json \<Rightarrow> bytes option" where
  "json_text v = (case v of J_null \<Rightarrow> None | J_string s \<Rightarrow> Some s | J_object t fs \<Rightarrow> Some t | J_other t \<Rightarrow> Some t)"

text \<open>\<open>json_object_object_foreach\<close> reads through \<open>json_object_get_object\<close>, which is NULL for anything but an object.\<close>

definition json_fields :: "json \<Rightarrow> (bytes \<times> json) list res" where
  "json_fields v = (case v of J_object t fs \<Rightarrow> Inr fs | _ \<Rightarrow> Inl Null_deref)"

text \<open>A copy of the text as a C string.\<close>

definition json_strdup :: "json \<Rightarrow> bytes res" where
  "json_strdup v = rbind (deref_str (json_text v)) (\<lambda>s. Inr (c_string s))"

text \<open>A loop whose body may fault or return from the function with NULL.\<close>

fun ofold :: "('a \<Rightarrow> 's \<Rightarrow> 's option res) \<Rightarrow> 'a list \<Rightarrow> 's \<Rightarrow> 's option res" where
  "ofold f [] s = Inr (Some s)"
| "ofold f (x # xs) s = rbind (f x s) (\<lambda>r. case r of None \<Rightarrow> Inr None | Some s \<Rightarrow> ofold f xs s)"

text \<open>\<open>zhash_insert\<close> does nothing when the key is there.\<close>

definition zhash_insert :: "bytes \<Rightarrow> 'a \<Rightarrow> (bytes \<times> 'a) list \<Rightarrow> (bytes \<times> 'a) list" where
  "zhash_insert k x t = (if map_of t k = None then t @ [(k, x)] else t)"

text \<open>\<open>strtoull\<close> to base 10: white space, a sign, digits; too large a number is the largest one.\<close>

definition strtoull :: "bytes \<Rightarrow> u64" where
  "strtoull s =
     (let s = dropWhile (\<lambda>b. b = 32 \<or> 9 \<le> b \<and> b \<le> 13) s;
          neg = (s \<noteq> [] \<and> hd s = of_char (CHR ''-''));
          s = (if s \<noteq> [] \<and> (neg \<or> hd s = of_char (CHR ''+'')) then tl s else s);
          n = foldl (\<lambda>n b. 10 * n + nat (uint (b - 48))) 0 (takeWhile (\<lambda>b. 48 \<le> b \<and> b \<le> 57) s)
      in if 2 ^ 64 \<le> n then - 1 else if neg then - of_nat n else of_nat n)"

section \<open>One key\<close>

text \<open>
  The decoder leaves its last partial byte behind the bytes it returns, in a buffer of 33. A key that does
  not decode to 32 bytes is refused, once the buffer has been written. \<open>json_object_get_string_len\<close> is 0 for
  anything but a string.
\<close>

definition decode_key :: "json \<Rightarrow> bytes option res" where
  "decode_key v =
     (let text = (case v of J_string s \<Rightarrow> s | _ \<Rightarrow> []) in
      rbind (base64_decode_block text base64_init_decodestate) (\<lambda>(out, st).
      if 33 \<le> length out then Inl Out_of_bounds
      else if length out \<noteq> 32 then Inr None else Inr (Some out)))"

section \<open>The keys of a client\<close>

record dd_keys_t =
  kt_publicpubkey :: "bytes option"
  kt_ddpubkey :: "bytes option"
  kt_privkey :: "bytes option"
  kt_pubkey :: "bytes option"
  kt_ddboxk :: "bytes option"
  kt_custboxk :: "bytes option"
  kt_pubboxk :: "bytes option"
  kt_ispublic :: bool
  kt_hash :: "bytes option"
  kt_clientkeys :: "(bytes \<times> bytes) list"

definition calloc_keys :: dd_keys_t where
  "calloc_keys = \<lparr>kt_publicpubkey = None, kt_ddpubkey = None, kt_privkey = None, kt_pubkey = None, kt_ddboxk = None,
     kt_custboxk = None, kt_pubboxk = None, kt_ispublic = False, kt_hash = None, kt_clientkeys = []\<rparr>"

text \<open>The body of the loop over the fields of a client's keys.\<close>

definition key_field :: "bytes \<times> json \<Rightarrow> dd_keys_t \<Rightarrow> dd_keys_t option res" where
  "key_field = (\<lambda>(key2, val2) ddkeys.
     if key2 = ascii ''publicpubkey'' then
       rbind (decode_key val2) (\<lambda>r. Inr (map_option (\<lambda>k. ddkeys\<lparr>kt_publicpubkey := Some k\<rparr>) r))
     else if key2 = ascii ''ddpubkey'' then
       rbind (decode_key val2) (\<lambda>r. Inr (map_option (\<lambda>k. ddkeys\<lparr>kt_ddpubkey := Some k\<rparr>) r))
     else if key2 = ascii ''privkey'' then
       rbind (decode_key val2) (\<lambda>r. Inr (map_option (\<lambda>k. ddkeys\<lparr>kt_privkey := Some k\<rparr>) r))
     else if key2 = ascii ''pubkey'' then
       rbind (decode_key val2) (\<lambda>r. Inr (map_option (\<lambda>k. ddkeys\<lparr>kt_pubkey := Some k\<rparr>) r))
     else if key2 = ascii ''hash'' then
       rbind (json_strdup val2) (\<lambda>h. Inr (Some (ddkeys\<lparr>kt_hash := Some h\<rparr>)))
     else Inr (Some ddkeys))"

text \<open>\<open>crypto_box_beforenm\<close> into a zeroed buffer, the result of the call not looked at.\<close>

definition shared_key :: "keylib \<Rightarrow> bytes option \<Rightarrow> bytes option \<Rightarrow> bytes res" where
  "shared_key K pk sk =
     rbind (deref_str pk) (\<lambda>pk. rbind (deref_str sk) (\<lambda>sk.
     Inr (case beforenm K pk sk of None \<Rightarrow> replicate 32 0 | Some k \<Rightarrow> k)))"

text \<open>The first pass over a file with a \<open>public\<close> entry: the keys of the public client itself.\<close>

definition public_entry :: "bytes \<times> json \<Rightarrow> dd_keys_t \<Rightarrow> dd_keys_t option res" where
  "public_entry = (\<lambda>(key, val) ddkeys.
     if key = ascii ''public'' then rbind (json_fields val) (\<lambda>fs. ofold key_field fs ddkeys)
     else Inr (Some ddkeys))"

text \<open>
  The second pass: the entries of the tenants. As soon as an entry has shown a name and a key, the shared key
  is computed. Here the length is not looked at, and a shorter key is used with what the buffer held.
\<close>

definition customer_key :: "bytes \<Rightarrow> bytes res" where
  "customer_key text =
     rbind (base64_decode_block text base64_init_decodestate) (\<lambda>(out, st).
     if 33 \<le> length out then Inl Out_of_bounds
     else
       let written = out @ (if dstep st = step_a then [] else [plainchar st]) in
       if length written < 32 then Inl Uninit_read else Inr (take 32 written))"

definition customer_field :: "keylib \<Rightarrow> bytes \<times> json \<Rightarrow> bytes option \<times> bytes option \<times> dd_keys_t \<Rightarrow>
    (bytes option \<times> bytes option \<times> dd_keys_t) res" where
  "customer_field K = (\<lambda>(key4, val4) (customer_name, customer_pubkey, ddkeys).
     let customer_name = (if key4 = ascii ''r'' then json_text val4 else customer_name);
         customer_pubkey = (if key4 \<noteq> ascii ''r'' \<and> key4 = ascii ''pubkey'' then json_text val4 else customer_pubkey)
     in case (customer_name, customer_pubkey) of
          (Some name, Some text) \<Rightarrow>
            rbind (customer_key (c_string text)) (\<lambda>pubkey.
            rbind (shared_key K (Some pubkey) (kt_privkey ddkeys)) (\<lambda>precalck.
            Inr (None, None, ddkeys\<lparr>kt_clientkeys := zhash_insert (c_string name) precalck (kt_clientkeys ddkeys)\<rparr>)))
        | _ \<Rightarrow> Inr (customer_name, customer_pubkey, ddkeys))"

definition customer_entry :: "keylib \<Rightarrow> bytes \<times> json \<Rightarrow> dd_keys_t \<Rightarrow> dd_keys_t res" where
  "customer_entry K = (\<lambda>(key3, val3) ddkeys.
     if key3 \<noteq> ascii ''public'' then
       rbind (json_fields val3) (\<lambda>fs.
       rbind (rfold (customer_field K) fs (None, None, ddkeys)) (\<lambda>(name, key, ddkeys). Inr ddkeys))
     else Inr ddkeys)"

text \<open>The shared keys with the brokers, within the tenant and with the public clients.\<close>

definition precalculate :: "keylib \<Rightarrow> dd_keys_t \<Rightarrow> dd_keys_t res" where
  "precalculate K ddkeys =
     rbind (shared_key K (kt_ddpubkey ddkeys) (kt_privkey ddkeys)) (\<lambda>dd.
     rbind (shared_key K (kt_pubkey ddkeys) (kt_privkey ddkeys)) (\<lambda>cust.
     rbind (shared_key K (kt_publicpubkey ddkeys) (kt_privkey ddkeys)) (\<lambda>pub.
     Inr (ddkeys\<lparr>kt_ddboxk := Some dd, kt_custboxk := Some cust, kt_pubboxk := Some pub\<rparr>))))"

definition dd_keys_parsed :: "keylib \<Rightarrow> (bytes \<times> json) list \<Rightarrow> dd_keys_t option res" where
  "dd_keys_parsed K fs =
     (let ddkeys = calloc_keys\<lparr>kt_ispublic := list_ex (\<lambda>(key, val). key = ascii ''public'') fs\<rparr> in
      rbind (if kt_ispublic ddkeys then
               rbind (ofold public_entry fs ddkeys) (\<lambda>r. case r of
                 None \<Rightarrow> Inr None
               | Some ddkeys \<Rightarrow> rbind (rfold (customer_entry K) fs ddkeys) (\<lambda>ddkeys. Inr (Some ddkeys)))
             else ofold key_field fs ddkeys) (\<lambda>r. case r of
        None \<Rightarrow> Inr None
      | Some ddkeys \<Rightarrow> rbind (precalculate K ddkeys) (\<lambda>ddkeys. Inr (Some ddkeys))))"

definition dd_keys_new :: "keylib \<Rightarrow> bytes option \<Rightarrow> dd_keys_t option res" where
  "dd_keys_new K file =
     (case file of
        None \<Rightarrow> Inl Assert_fail
      | Some data \<Rightarrow>
          if data = [] then Inr None
          else rbind (json_fields (json_tokener_parse K (c_string data))) (dd_keys_parsed K))"

section \<open>The keys of a broker\<close>

record tenantsinfo =
  ti_name :: "bytes option"
  ti_cookie :: u64
  ti_boxk :: "bytes option"

record ddbrokerkeys_t =
  bk_tenants :: "bytes list"
  bk_privkey :: "bytes option"
  bk_pubkey :: "bytes option"
  bk_ddboxk :: "bytes option"
  bk_tenantkeys :: "(bytes \<times> tenantsinfo) list"
  bk_hash :: "bytes option"
  bk_cookie :: u64

definition dd_field :: "bytes \<times> json \<Rightarrow> ddbrokerkeys_t \<Rightarrow> ddbrokerkeys_t option res" where
  "dd_field = (\<lambda>(key2, val2) ddkeys.
     if key2 = ascii ''privkey'' then
       rbind (decode_key val2) (\<lambda>r. Inr (map_option (\<lambda>k. ddkeys\<lparr>bk_privkey := Some k\<rparr>) r))
     else if key2 = ascii ''pubkey'' then
       rbind (json_strdup val2) (\<lambda>h.
       rbind (decode_key val2) (\<lambda>r. Inr (map_option (\<lambda>k. ddkeys\<lparr>bk_hash := Some h, bk_pubkey := Some k\<rparr>) r)))
     else if key2 = ascii ''R'' then
       rbind (json_strdup val2) (\<lambda>s. Inr (Some (ddkeys\<lparr>bk_cookie := strtoull s\<rparr>)))
     else Inr (Some ddkeys))"

definition dd_entry :: "bytes \<times> json \<Rightarrow> ddbrokerkeys_t \<Rightarrow> ddbrokerkeys_t option res" where
  "dd_entry = (\<lambda>(key, val) ddkeys.
     if key = ascii ''dd'' then rbind (json_fields val) (\<lambda>fs. ofold dd_field fs ddkeys)
     else Inr (Some ddkeys))"

definition tenant_field :: "keylib \<Rightarrow> bytes option \<Rightarrow> bytes \<times> json \<Rightarrow> tenantsinfo \<Rightarrow> tenantsinfo option res" where
  "tenant_field K privkey = (\<lambda>(key4, val4) ten.
     if key4 = ascii ''pubkey'' then
       rbind (decode_key val4) (\<lambda>r. case r of
         None \<Rightarrow> Inr None
       | Some pubkey \<Rightarrow>
           rbind (deref_str privkey) (\<lambda>sk.
           Inr (map_option (\<lambda>k. ten\<lparr>ti_boxk := Some k\<rparr>) (beforenm K pubkey sk))))
     else if key4 = ascii ''r'' then
       rbind (json_strdup val4) (\<lambda>s. Inr (Some (ten\<lparr>ti_name := Some s\<rparr>)))
     else if key4 = ascii ''R'' then
       rbind (json_strdup val4) (\<lambda>s. Inr (Some (ten\<lparr>ti_cookie := strtoull s\<rparr>)))
     else Inr (Some ten))"

definition tenant_entry :: "keylib \<Rightarrow> bytes \<times> json \<Rightarrow> ddbrokerkeys_t \<Rightarrow> ddbrokerkeys_t option res" where
  "tenant_entry K = (\<lambda>(key3, val3) ddkeys.
     if key3 \<noteq> ascii ''dd'' then
       rbind (json_fields val3) (\<lambda>fs.
       rbind (ofold (tenant_field K (bk_privkey ddkeys)) fs \<lparr>ti_name = None, ti_cookie = 0, ti_boxk = None\<rparr>) (\<lambda>r.
       Inr (map_option (\<lambda>ten. ddkeys\<lparr>bk_tenants := bk_tenants ddkeys @ (case ti_name ten of None \<Rightarrow> [] | Some n \<Rightarrow> [n]),
         bk_tenantkeys := zhash_insert key3 ten (bk_tenantkeys ddkeys)\<rparr>) r)))
     else Inr (Some ddkeys))"

definition broker_keys_parsed :: "keylib \<Rightarrow> (bytes \<times> json) list \<Rightarrow> ddbrokerkeys_t option res" where
  "broker_keys_parsed K fs =
     rbind (ofold dd_entry fs \<lparr>bk_tenants = [], bk_privkey = None, bk_pubkey = None, bk_ddboxk = None,
         bk_tenantkeys = [], bk_hash = None, bk_cookie = 0\<rparr>) (\<lambda>r. case r of
       None \<Rightarrow> Inr None
     | Some ddkeys \<Rightarrow>
         rbind (shared_key K (bk_pubkey ddkeys) (bk_privkey ddkeys)) (\<lambda>k.
         ofold (tenant_entry K) fs (ddkeys\<lparr>bk_ddboxk := Some k\<rparr>)))"

definition read_ddbrokerkeys :: "keylib \<Rightarrow> bytes option \<Rightarrow> ddbrokerkeys_t option res" where
  "read_ddbrokerkeys K file =
     (case file of
        None \<Rightarrow> Inr None
      | Some data \<Rightarrow>
          if data = [] then Inr None
          else rbind (json_fields (json_tokener_parse K (c_string data))) (broker_keys_parsed K))"

text \<open>
  The keys as the client and the broker models take them, when everything they need was in the file.
\<close>

definition client_keys :: "dd_keys_t \<Rightarrow> dd_keys option" where
  "client_keys k =
     (case (kt_hash k, kt_custboxk k, kt_pubboxk k, kt_ddboxk k) of
        (Some h, Some cust, Some pub, Some dd) \<Rightarrow>
          Some \<lparr>k_ispublic = kt_ispublic k, k_hash = h, k_clients = kt_clientkeys k, k_custboxk = cust,
            k_pubboxk = pub, k_ddboxk = dd\<rparr>
      | _ \<Rightarrow> None)"

definition tenant_of :: "tenantsinfo \<Rightarrow> ddtenant option" where
  "tenant_of t =
     (case (ti_name t, ti_boxk t) of
        (Some name, Some k) \<Rightarrow> Some \<lparr>ten_name = name, ten_cookie = ti_cookie t, ten_boxk = k\<rparr>
      | _ \<Rightarrow> None)"

definition broker_keys :: "ddbrokerkeys_t \<Rightarrow> ddbrokerkeys option" where
  "broker_keys k =
     (if (\<forall>(h, t)\<in>set (bk_tenantkeys k). tenant_of t \<noteq> None) then
        case (bk_ddboxk k, bk_hash k) of
          (Some dd, Some h) \<Rightarrow>
            Some \<lparr>tenants = bk_tenants k, ddboxk = dd,
              tenantkeys = map (\<lambda>(h, t). (h, the (tenant_of t))) (bk_tenantkeys k),
              br_hash = h, br_cookie = bk_cookie k\<rparr>
        | _ \<Rightarrow> None
      else None)"

end
