(* ===== verification/KeyFiles.thy ===== *)
theory KeyFiles
  imports Keys
begin

text \<open>
  What the loaded keys are: the bound on the length of a key, the fields of a well-formed file in any order,
  and the agreement of a client's file with the broker's.
\<close>

section \<open>How many characters make a key\<close>

text \<open>The characters of a text that the decoder does not skip.\<close>

definition key_chars :: "bytes \<Rightarrow> nat" where
  "key_chars s = length (filter (\<lambda>c. case base64_decode_value c of Inl f \<Rightarrow> False | Inr v \<Rightarrow> 0 \<le> v) s)"

fun step_no :: "base64_decodestep \<Rightarrow> nat" where
  "step_no step_a = 0"
| "step_no step_b = 1"
| "step_no step_c = 2"
| "step_no step_d = 3"

lemma step_no_less: "step_no p < 4"
  by (cases p) simp_all

lemma key_chars_simps [simp]:
  "key_chars [] = 0"
  "key_chars (c # s) = (case base64_decode_value c of Inl f \<Rightarrow> 0 | Inr v \<Rightarrow> if 0 \<le> v then 1 else 0) + key_chars s"
  by (auto simp: key_chars_def split: sum.split)

fun step_succ :: "base64_decodestep \<Rightarrow> base64_decodestep" where
  "step_succ step_a = step_b"
| "step_succ step_b = step_c"
| "step_succ step_c = step_d"
| "step_succ step_d = step_a"

lemma decode_char_shape:
  assumes "base64_decode_char st c = Inr (out, st')" "base64_decode_value c = Inr v"
  shows "if v < 0 then out = [] \<and> st' = st
    else dstep st' = step_succ (dstep st) \<and> length out = (if dstep st = step_a then 0 else 1)"
proof (cases "v < 0")
  case True
  with assms show ?thesis by (simp add: base64_decode_char_def)
next
  case False
  then show ?thesis using assms(1) unfolding base64_decode_char_def assms(2) rbind_Inr Let_def
    by (cases "dstep st") (simp_all only: if_False base64_decodestep.case sum.inject prod.inject, auto)
qed

lemma decode_char_length:
  assumes "base64_decode_char st c = Inr (out, st')"
  shows "length out + 3 * step_no (dstep st) div 4 = 3 * (step_no (dstep st) + key_chars [c]) div 4 \<and>
     step_no (dstep st') = (step_no (dstep st) + key_chars [c]) mod 4"
proof -
  obtain v where v: "base64_decode_value c = Inr v"
    using assms by (auto simp: base64_decode_char_def rbind_eq_Inr)
  have k: "key_chars [c] = (if v < 0 then 0 else 1)" by (simp add: v)
  show ?thesis
  proof (cases "v < 0")
    case True
    then have e: "out = []" "st' = st" using decode_char_shape [OF assms v] by simp_all
    show ?thesis unfolding k if_P [OF True] e list.size add_0 add_0_right
      by (intro conjI refl mod_less [symmetric] step_no_less)
  next
    case False
    then have "dstep st' = step_succ (dstep st)" "length out = (if dstep st = step_a then 0 else 1)"
      using decode_char_shape [OF assms v] by simp_all
    then show ?thesis unfolding k if_not_P [OF False] by (cases "dstep st") simp_all
  qed
qed

lemma thirds_compose:
  fixes s :: nat
  assumes a: "l1 + 3 * s div 4 = 3 * (s + k1) div 4 \<and> s1 = (s + k1) mod 4"
    and b: "l2 + 3 * s1 div 4 = 3 * (s1 + k2) div 4 \<and> t = (s1 + k2) mod 4"
  shows "l1 + l2 + 3 * s div 4 = 3 * (s + (k1 + k2)) div 4 \<and> t = (s + (k1 + k2)) mod 4"
proof -
  have three: "3 * (4 * q + r) div 4 = 3 * q + 3 * r div 4" for q r :: nat
    using div_mult_self3 [of 4 "3 * q" "3 * r"] by (simp add: algebra_simps)
  define q where "q = (s + k1) div 4"
  have q: "s + k1 = 4 * q + s1" using a by (simp add: q_def)
  then have "s + (k1 + k2) = 4 * q + (s1 + k2)" by simp
  then have "3 * (s + (k1 + k2)) div 4 = 3 * q + 3 * (s1 + k2) div 4" "(s + (k1 + k2)) mod 4 = (s1 + k2) mod 4"
    by (simp_all only: three mod_mult_self4)
  moreover have "3 * (s + k1) div 4 = 3 * q + 3 * s1 div 4" unfolding q by (rule three)
  ultimately show ?thesis using a b by linarith
qed

lemma decode_block_length:
  "base64_decode_block s st = Inr (out, st') \<Longrightarrow>
     length out + 3 * step_no (dstep st) div 4 = 3 * (step_no (dstep st) + key_chars s) div 4 \<and>
     step_no (dstep st') = (step_no (dstep st) + key_chars s) mod 4"
proof (induction s arbitrary: st out)
  case (Cons c s)
  from Cons.prems obtain o1 st1 o2 where c: "base64_decode_char st c = Inr (o1, st1)"
    and s: "base64_decode_block s st1 = Inr (o2, st')" and out: "out = o1 @ o2"
    by (auto simp: rbind_eq_Inr split: prod.splits)
  have kc: "key_chars (c # s) = key_chars [c] + key_chars s" by simp
  show ?case
    using thirds_compose [of "length o1" _ _ _ "length o2"] decode_char_length [OF c] Cons.IH [OF s]
    unfolding kc out length_append by blast
qed (simp add: step_no_less)

text \<open>
  C33. A key is accepted exactly when its text has 43 characters of the alphabet; with fewer the file is refused,
  with more, or with an opening brace, memory outside the buffer or the decoder's table is accessed.
\<close>

theorem key_text_lengths:
  "decode_key (J_string s) =
     (if of_char (CHR ''{'') \<in> set s \<or> 44 \<le> key_chars s then Inl Out_of_bounds
      else if key_chars s = 43 then Inr (Some (fst (projr (base64_decode_block s base64_init_decodestate))))
      else Inr None)"
proof (cases "base64_decode_block s base64_init_decodestate")
  case (Inl f)
  then show ?thesis using decode_block_ok_iff [of s base64_init_decodestate] base64_decode_in_bounds [OF Inl]
    by (simp add: decode_key_def)
next
  case (Inr r)
  then obtain out st where r: "base64_decode_block s base64_init_decodestate = Inr (out, st)" by (cases r) auto
  then have n: "123 \<notin> set s" using decode_block_ok_iff [of s base64_init_decodestate] by simp
  have l: "length out = 3 * key_chars s div 4"
    using decode_block_length [OF r] by (simp add: base64_init_decodestate_def)
  then have "33 \<le> length out \<longleftrightarrow> 44 \<le> key_chars s" "length out = 32 \<longleftrightarrow> key_chars s = 43"
    by presburger+
  with r n show ?thesis by (simp add: decode_key_def)
qed


section \<open>Loading a file\<close>

text \<open>The loop over the fields gives every key the entry of its name, wherever it stands in the file.\<close>

lemma ofold_Some:
  "ofold f (x # xs) s = Inr (Some t) \<longleftrightarrow> (\<exists>u. f x s = Inr (Some u) \<and> ofold f xs u = Inr (Some t))"
  by (auto simp: rbind_eq_Inr split: option.split)

definition field_ok :: "bytes list \<Rightarrow> bytes \<times> json \<Rightarrow> bool" where
  "field_ok names = (\<lambda>(k, v). (k \<in> set names \<longrightarrow> (\<exists>key. decode_key v = Inr (Some key))) \<and> json_text v \<noteq> None)"

definition key_of :: "(bytes \<times> json) list \<Rightarrow> string \<Rightarrow> bytes option \<Rightarrow> bytes option" where
  "key_of fs name old = (case map_of fs (ascii name) of None \<Rightarrow> old | Some v \<Rightarrow> projr (decode_key v))"

definition text_of :: "(bytes \<times> json) list \<Rightarrow> string \<Rightarrow> bytes option \<Rightarrow> bytes option" where
  "text_of fs name old = (case map_of fs (ascii name) of None \<Rightarrow> old | Some v \<Rightarrow> map_option c_string (json_text v))"

definition client_names :: "bytes list" where
  "client_names = map ascii [''publicpubkey'', ''ddpubkey'', ''privkey'', ''pubkey'']"

lemma key_of_Cons: "key_of ((k, v) # fs) name old = (if k = ascii name then projr (decode_key v) else key_of fs name old)"
  by (simp add: key_of_def)

lemma text_of_Cons: "text_of ((k, v) # fs) name old = (if k = ascii name then map_option c_string (json_text v) else text_of fs name old)"
  by (simp add: text_of_def)

lemma key_of_absent: "ascii name \<notin> fst ` set fs \<Longrightarrow> key_of fs name old = old"
  by (simp add: key_of_def map_of_eq_None_iff [THEN iffD2])

lemma text_of_absent: "ascii name \<notin> fst ` set fs \<Longrightarrow> text_of fs name old = old"
  by (simp add: text_of_def map_of_eq_None_iff [THEN iffD2])

lemma of_char_u8_inject: "(of_char c :: u8) = of_char d \<longleftrightarrow> c = d"
proof
  have less: "(of_char x :: nat) < 2 ^ LENGTH(8)" for x by simp
  assume "(of_char c :: u8) = of_char d"
  then have "(of_nat (of_char c) :: u8) = of_nat (of_char d)" by (simp only: of_nat_of_char)
  then have "(of_char c :: nat) = of_char d"
    using less [of c] less [of d] by (simp only: word_of_nat_eq_iff take_bit_nat_eq_self)
  then show "c = d" by simp
qed simp

lemma ascii_inject [simp]: "ascii s = ascii t \<longleftrightarrow> s = t"
  unfolding ascii_def by (rule inj_map_eq_map) (auto intro: injI simp: of_char_u8_inject)

lemma key_fields_load:
  "distinct (map fst fs) \<Longrightarrow> list_all (field_ok client_names) fs \<Longrightarrow>
     ofold key_field fs self = Inr (Some (self\<lparr>
       kt_publicpubkey := key_of fs ''publicpubkey'' (kt_publicpubkey self),
       kt_ddpubkey := key_of fs ''ddpubkey'' (kt_ddpubkey self),
       kt_privkey := key_of fs ''privkey'' (kt_privkey self),
       kt_pubkey := key_of fs ''pubkey'' (kt_pubkey self),
       kt_hash := text_of fs ''hash'' (kt_hash self)\<rparr>))"
proof (induction fs arbitrary: self)
  case Nil
  then show ?case by (simp add: key_of_def text_of_def)
next
  case (Cons x fs)
  obtain k v where x: "x = (k, v)" by (cases x)
  from Cons.prems have k: "k \<notin> fst ` set fs" and ok: "field_ok client_names (k, v)"
    and IH: "\<And>self. ofold key_field fs self = Inr (Some (self\<lparr>
       kt_publicpubkey := key_of fs ''publicpubkey'' (kt_publicpubkey self),
       kt_ddpubkey := key_of fs ''ddpubkey'' (kt_ddpubkey self),
       kt_privkey := key_of fs ''privkey'' (kt_privkey self),
       kt_pubkey := key_of fs ''pubkey'' (kt_pubkey self),
       kt_hash := text_of fs ''hash'' (kt_hash self)\<rparr>))"
    using Cons.IH by (auto simp: x)
  show ?case
  proof (cases "k \<in> set client_names")
    case True
    then obtain key where "decode_key v = Inr (Some key)" using ok by (auto simp: field_ok_def)
    with True k IH show ?thesis
      by (auto simp: x client_names_def key_field_def key_of_Cons text_of_Cons key_of_absent)
  next
    case False
    with k IH ok show ?thesis
      by (auto simp: x client_names_def key_field_def key_of_Cons text_of_Cons text_of_absent json_strdup_def field_ok_def)
  qed
qed

lemma ofold_invariant:
  "ofold f xs s = Inr (Some t) \<Longrightarrow> I s \<Longrightarrow> (\<And>x s t. I s \<Longrightarrow> f x s = Inr (Some t) \<Longrightarrow> I t) \<Longrightarrow> I t"
  by (induction xs arbitrary: s) (simp, metis ofold_Some)

text \<open>The broker's own entry and the entries of the tenants.\<close>

definition number_of :: "(bytes \<times> json) list \<Rightarrow> string \<Rightarrow> u64 \<Rightarrow> u64" where
  "number_of fs name old = (case map_of fs (ascii name) of None \<Rightarrow> old | Some v \<Rightarrow> strtoull (c_string (the (json_text v))))"

lemma number_of_Cons: "number_of ((k, v) # fs) name old = (if k = ascii name then strtoull (c_string (the (json_text v))) else number_of fs name old)"
  by (simp add: number_of_def)

lemma number_of_absent: "ascii name \<notin> fst ` set fs \<Longrightarrow> number_of fs name old = old"
  by (simp add: number_of_def map_of_eq_None_iff [THEN iffD2])

lemmas field_simps = key_of_Cons text_of_Cons number_of_Cons key_of_absent text_of_absent number_of_absent json_strdup_def

lemma dd_fields_load:
  "distinct (map fst fs) \<Longrightarrow> list_all (field_ok [ascii ''privkey'', ascii ''pubkey'']) fs \<Longrightarrow>
     ofold dd_field fs self = Inr (Some (self\<lparr>
       bk_privkey := key_of fs ''privkey'' (bk_privkey self),
       bk_pubkey := key_of fs ''pubkey'' (bk_pubkey self),
       bk_hash := text_of fs ''pubkey'' (bk_hash self),
       bk_cookie := number_of fs ''R'' (bk_cookie self)\<rparr>))"
proof (induction fs arbitrary: self)
  case Nil
  then show ?case by (simp add: key_of_def text_of_def number_of_def)
next
  case (Cons x fs)
  obtain k v where x: "x = (k, v)" by (cases x)
  note IH = Cons.IH
  from Cons.prems have k: "k \<notin> fst ` set fs" and d: "distinct (map fst fs)"
    and l: "list_all (field_ok [ascii ''privkey'', ascii ''pubkey'']) fs"
    and ok: "field_ok [ascii ''privkey'', ascii ''pubkey''] (k, v)" by (auto simp: x)
  show ?case
    using k ok IH [OF d l] by (auto simp: x dd_field_def field_simps field_ok_def)
qed

lemma dd_entry_dd: "dd_entry (ascii ''dd'', J_object t dfs) self = ofold dd_field dfs self"
  by (simp add: dd_entry_def json_fields_def)

lemma dd_pass:
  "distinct (map fst fs) \<Longrightarrow> map_of fs (ascii ''dd'') = Some (J_object t dfs) \<Longrightarrow> ofold dd_entry fs self = ofold dd_field dfs self"
proof (induction fs)
  case (Cons x fs)
  obtain k v where x: "x = (k, v)" by (cases x)
  have skip: "ascii ''dd'' \<notin> fst ` set fs \<Longrightarrow> ofold dd_entry fs u = Inr (Some u)" for u
    by (induction fs) (auto simp: dd_entry_def)
  show ?case
  proof (cases "k = ascii ''dd''")
    case True
    with Cons.prems have "v = J_object t dfs" "ascii ''dd'' \<notin> fst ` set fs" by (auto simp: x)
    then show ?thesis
      by (auto simp: x True dd_entry_dd skip rbind_def split: sum.split option.split)
  next
    case False
    with Cons show ?thesis by (simp add: x dd_entry_def)
  qed
qed simp

definition tenant_ok :: "keylib \<Rightarrow> bytes \<Rightarrow> (bytes \<times> json) list \<Rightarrow> bool" where
  "tenant_ok K sk tfs \<longleftrightarrow> distinct (map fst tfs) \<and> list_all (field_ok [ascii ''pubkey'']) tfs \<and>
     (\<forall>k. key_of tfs ''pubkey'' None = Some k \<longrightarrow> beforenm K k sk \<noteq> None)"

definition tenant_box :: "keylib \<Rightarrow> bytes \<Rightarrow> (bytes \<times> json) list \<Rightarrow> bytes option \<Rightarrow> bytes option" where
  "tenant_box K sk tfs old = (case key_of tfs ''pubkey'' None of None \<Rightarrow> old | Some k \<Rightarrow> beforenm K k sk)"

lemma tenant_box_other: "k \<noteq> ascii ''pubkey'' \<Longrightarrow> tenant_box K sk ((k, v) # fs) old = tenant_box K sk fs old"
  by (simp add: tenant_box_def key_of_Cons)

lemma tenant_fields_load:
  "tenant_ok K sk tfs \<Longrightarrow> ofold (tenant_field K (Some sk)) tfs ten = Inr (Some (ten\<lparr>
     ti_boxk := tenant_box K sk tfs (ti_boxk ten),
     ti_name := text_of tfs ''r'' (ti_name ten), ti_cookie := number_of tfs ''R'' (ti_cookie ten)\<rparr>))"
proof (induction tfs arbitrary: ten)
  case Nil
  then show ?case by (simp add: key_of_def text_of_def number_of_def tenant_box_def)
next
  case (Cons x fs)
  obtain k v where x: "x = (k, v)" by (cases x)
  from Cons.prems have k: "k \<notin> fst ` set fs" and ok: "field_ok [ascii ''pubkey''] (k, v)"
    by (auto simp: x tenant_ok_def)
  have ten: "tenant_ok K sk fs"
    using Cons.prems k by (cases "k = ascii ''pubkey''") (auto simp: x tenant_ok_def key_of_Cons key_of_absent)
  show ?case
  proof (cases "k = ascii ''pubkey''")
    case True
    then obtain key where v: "decode_key v = Inr (Some key)" using ok by (auto simp: field_ok_def)
    then obtain b where b: "beforenm K key sk = Some b"
      using Cons.prems by (auto simp: x True tenant_ok_def key_of_Cons)
    show ?thesis using k v b Cons.IH [OF ten]
      by (simp add: x True tenant_field_def tenant_box_def field_simps)
  next
    case False
    then show ?thesis using k ok Cons.IH [OF ten]
      by (auto simp: x tenant_field_def tenant_box_other field_simps field_ok_def)
  qed
qed

definition tenant_file :: "keylib \<Rightarrow> bytes \<Rightarrow> json \<Rightarrow> tenantsinfo" where
  "tenant_file K sk v = (let tfs = projr (json_fields v) in
     \<lparr>ti_name = text_of tfs ''r'' None, ti_cookie = number_of tfs ''R'' 0, ti_boxk = tenant_box K sk tfs None\<rparr>)"

lemma tenants_load:
  assumes "distinct (map fst fs)" "fst ` set fs \<inter> fst ` set (bk_tenantkeys self) = {}" "bk_privkey self = Some sk"
    and "\<forall>(k, v)\<in>set fs. k \<noteq> ascii ''dd'' \<longrightarrow> (\<exists>t tfs. v = J_object t tfs \<and> tenant_ok K sk tfs)"
  shows "\<exists>ts. ofold (tenant_entry K) fs self = Inr (Some (self\<lparr>
     bk_tenants := ts,
     bk_tenantkeys := bk_tenantkeys self @
       map (\<lambda>(k, v). (k, tenant_file K sk v)) (filter (\<lambda>(k, v). k \<noteq> ascii ''dd'') fs)\<rparr>))"
  using assms
proof (induction fs arbitrary: self)
  case Nil
  then show ?case by (auto intro: exI [of _ "bk_tenants self"])
next
  case (Cons x fs)
  obtain k v where x: "x = (k, v)" by (cases x)
  show ?case
  proof (cases "k = ascii ''dd''")
    case True
    then show ?thesis using Cons.IH [of self] Cons.prems by (simp add: x tenant_entry_def)
  next
    case False
    then obtain t tfs where v: "v = J_object t tfs" "tenant_ok K sk tfs" using Cons.prems by (auto simp: x)
    let ?ten = "tenant_file K sk v"
    let ?u = "self\<lparr>bk_tenants := bk_tenants self @ (case ti_name ?ten of None \<Rightarrow> [] | Some n \<Rightarrow> [n]),
      bk_tenantkeys := bk_tenantkeys self @ [(k, ?ten)]\<rparr>"
    have "map_of (bk_tenantkeys self) k = None" using Cons.prems by (auto simp: x map_of_eq_None_iff)
    then have "tenant_entry K (k, v) self = Inr (Some ?u)"
      using False v(2) Cons.prems(3)
      by (simp add: tenant_entry_def v(1) json_fields_def tenant_fields_load zhash_insert_def tenant_file_def Let_def)
    moreover have "\<exists>ts. ofold (tenant_entry K) fs ?u = Inr (Some (?u\<lparr>bk_tenants := ts,
        bk_tenantkeys := bk_tenantkeys ?u @ map (\<lambda>(k, v). (k, tenant_file K sk v)) (filter (\<lambda>(k, v). k \<noteq> ascii ''dd'') fs)\<rparr>))"
      using Cons.prems by (intro Cons.IH) (auto simp: x)
    ultimately show ?thesis using False by (simp add: x)
  qed
qed

text \<open>A key written by the encoder is read back.\<close>

lemma decode_key_encoded:
  assumes "base64_encode k = Inr cs" "length k = 32"
  shows "decode_key (J_string cs) = Inr (Some k)"
  using encode_decode_ex [of k] assms by (auto simp: decode_key_def)

section \<open>Files that fit\<close>

definition key_in :: "(bytes \<times> json) list \<Rightarrow> string \<Rightarrow> bytes \<Rightarrow> bool" where
  "key_in fs name k \<longleftrightarrow> length k = 32 \<and>
     (case base64_encode k of Inl f \<Rightarrow> False | Inr cs \<Rightarrow> map_of fs (ascii name) = Some (J_string cs))"

lemma key_in_key_of:
  assumes "key_in fs name k"
  shows "key_of fs name old = Some k"
proof -
  obtain cs where "base64_encode k = Inr cs" "length k = 32" "map_of fs (ascii name) = Some (J_string cs)"
    using assms by (auto simp: key_in_def split: sum.splits)
  then show ?thesis using decode_key_encoded [of k cs] by (simp add: key_of_def)
qed

definition client_file :: "(bytes \<times> json) list \<Rightarrow> bytes \<Rightarrow> bytes \<Rightarrow> bytes \<Rightarrow> bytes \<Rightarrow> bytes \<Rightarrow> bool" where
  "client_file fs publicpub ddpub priv pub h \<longleftrightarrow>
     distinct (map fst fs) \<and> ascii ''public'' \<notin> fst ` set fs \<and> list_all (field_ok client_names) fs \<and>
     key_in fs ''publicpubkey'' publicpub \<and> key_in fs ''ddpubkey'' ddpub \<and> key_in fs ''privkey'' priv \<and>
     key_in fs ''pubkey'' pub \<and> map_of fs (ascii ''hash'') = Some (J_string h) \<and> 0 \<notin> set h"

definition broker_file :: "keylib \<Rightarrow> (bytes \<times> json) list \<Rightarrow> bytes \<Rightarrow> bytes \<Rightarrow> bool" where
  "broker_file K fs ddpub ddpriv \<longleftrightarrow> distinct (map fst fs) \<and>
     (\<exists>t dfs. map_of fs (ascii ''dd'') = Some (J_object t dfs) \<and> distinct (map fst dfs) \<and>
        list_all (field_ok [ascii ''privkey'', ascii ''pubkey'']) dfs \<and>
        key_in dfs ''privkey'' ddpriv \<and> key_in dfs ''pubkey'' ddpub) \<and>
     (\<forall>(k, v)\<in>set fs. k \<noteq> ascii ''dd'' \<longrightarrow> (\<exists>t tfs. v = J_object t tfs \<and> tenant_ok K ddpriv tfs))"

lemma client_file_loads:
  assumes "client_file fs publicpub ddpub priv pub h" "data \<noteq> []" "json_tokener_parse K (c_string data) = J_object t fs"
  shows "\<exists>c ck. dd_keys_new K (Some data) = Inr (Some c) \<and> client_keys c = Some ck \<and> k_hash ck = h \<and>
     shared_key K (Some ddpub) (Some priv) = Inr (k_ddboxk ck) \<and>
     shared_key K (Some pub) (Some priv) = Inr (k_custboxk ck) \<and>
     shared_key K (Some publicpub) (Some priv) = Inr (k_pubboxk ck) \<and> \<not> k_ispublic ck \<and> k_clients ck = []"
proof -
  have np: "\<not> list_ex (\<lambda>(key, val). key = ascii ''public'') fs"
    using assms(1) by (force simp: client_file_def list_ex_iff)
  have t: "text_of fs ''hash'' None = Some h"
    using assms(1) by (simp add: client_file_def text_of_def json_text_def c_string_id)
  have l: "ofold key_field fs (calloc_keys\<lparr>kt_ispublic := False\<rparr>) = Inr (Some (calloc_keys\<lparr>kt_ispublic := False,
      kt_publicpubkey := Some publicpub, kt_ddpubkey := Some ddpub, kt_privkey := Some priv, kt_pubkey := Some pub,
      kt_hash := Some h\<rparr>))"
    using assms(1) key_fields_load [of fs "calloc_keys\<lparr>kt_ispublic := False\<rparr>"]
    by (simp add: client_file_def key_in_key_of t calloc_keys_def)
  have k: "calloc_keys\<lparr>kt_ispublic := list_ex (\<lambda>(key, val). key = ascii ''public'') fs\<rparr> = calloc_keys\<lparr>kt_ispublic := False\<rparr>"
    by (simp only: np)
  have "kt_ispublic (calloc_keys\<lparr>kt_ispublic := False\<rparr>) = False" by simp
  then have "dd_keys_new K (Some data) =
      rbind (precalculate K (calloc_keys\<lparr>kt_ispublic := False, kt_publicpubkey := Some publicpub, kt_ddpubkey := Some ddpub,
        kt_privkey := Some priv, kt_pubkey := Some pub, kt_hash := Some h\<rparr>)) (\<lambda>ddkeys. Inr (Some ddkeys))"
    using assms(2,3) by (simp only: dd_keys_new_def dd_keys_parsed_def json_fields_def k l Let_def option.case json.case
        if_False rbind_Inr)
  then show ?thesis by (simp add: precalculate_def shared_key_def client_keys_def calloc_keys_def)
qed

lemma broker_file_loads:
  assumes "broker_file K fs ddpub ddpriv" "data \<noteq> []" "json_tokener_parse K (c_string data) = J_object t fs"
  shows "\<exists>b. read_ddbrokerkeys K (Some data) = Inr (Some b) \<and>
     bk_tenantkeys b = map (\<lambda>(k, v). (k, tenant_file K ddpriv v)) (filter (\<lambda>(k, v). k \<noteq> ascii ''dd'') fs)"
proof -
  obtain u dfs where dd: "map_of fs (ascii ''dd'') = Some (J_object u dfs)" "distinct (map fst dfs)"
      "list_all (field_ok [ascii ''privkey'', ascii ''pubkey'']) dfs" "key_in dfs ''privkey'' ddpriv" "key_in dfs ''pubkey'' ddpub"
    and fs: "distinct (map fst fs)" "\<forall>(k, v)\<in>set fs. k \<noteq> ascii ''dd'' \<longrightarrow> (\<exists>t tfs. v = J_object t tfs \<and> tenant_ok K ddpriv tfs)"
    using assms(1) unfolding broker_file_def by blast
  define b0 where "b0 = \<lparr>bk_tenants = [], bk_privkey = None, bk_pubkey = None, bk_ddboxk = None,
     bk_tenantkeys = [], bk_hash = None, bk_cookie = 0\<rparr>"
  obtain b1 where b1: "ofold dd_entry fs b0 = Inr (Some b1)" "bk_privkey b1 = Some ddpriv" "bk_pubkey b1 = Some ddpub"
      "bk_tenantkeys b1 = []"
    by (simp add: dd_pass [OF fs(1) dd(1)] dd_fields_load [OF dd(2,3)] key_in_key_of [OF dd(4)] key_in_key_of [OF dd(5)] b0_def)
  obtain k where k: "shared_key K (bk_pubkey b1) (bk_privkey b1) = Inr k" by (simp add: b1 shared_key_def)
  obtain ts where "ofold (tenant_entry K) fs (b1\<lparr>bk_ddboxk := Some k\<rparr>) = Inr (Some (b1\<lparr>bk_ddboxk := Some k,
      bk_tenants := ts, bk_tenantkeys := map (\<lambda>(k, v). (k, tenant_file K ddpriv v)) (filter (\<lambda>(k, v). k \<noteq> ascii ''dd'') fs)\<rparr>))"
    using tenants_load [of fs "b1\<lparr>bk_ddboxk := Some k\<rparr>" ddpriv K] fs b1 by auto
  then show ?thesis
    using assms(2,3) b1(1) k by (simp add: read_ddbrokerkeys_def json_fields_def broker_keys_parsed_def b0_def)
qed

text \<open>
  The key file of a client and the one of the broker fit together, in whatever order their fields are and
  whatever other tenants the broker has: both load, the broker finds the tenant under the client's hash, with the
  name and the cookie of its entry, and the key it shares with the tenant is the client's key with the brokers.
\<close>

lemma key_files_fit:
  assumes "client_file cfs publicpub ddpub priv pub h" "broker_file K bfs ddpub ddpriv"
    and "json_tokener_parse K (c_string cdata) = J_object t cfs" "cdata \<noteq> []"
    and "json_tokener_parse K (c_string bdata) = J_object u bfs" "bdata \<noteq> []"
    and "map_of bfs h = Some (J_object v tfs)" "h \<noteq> ascii ''dd''" "key_in tfs ''pubkey'' pub"
    and "map_of tfs (ascii ''r'') = Some (J_string name)" "map_of tfs (ascii ''R'') = Some (J_string number)"
    and "beforenm K ddpub priv = beforenm K pub ddpriv"
  shows "\<exists>c ck b ten. dd_keys_new K (Some cdata) = Inr (Some c) \<and> client_keys c = Some ck \<and> k_hash ck = h \<and>
     read_ddbrokerkeys K (Some bdata) = Inr (Some b) \<and>
     (\<exists>i. map_of (bk_tenantkeys b) h = Some i \<and> tenant_of i = Some ten) \<and>
     ten = \<lparr>ten_name = c_string name, ten_cookie = strtoull (c_string number), ten_boxk = k_ddboxk ck\<rparr>"
proof -
  obtain c ck where c: "dd_keys_new K (Some cdata) = Inr (Some c)" "client_keys c = Some ck" "k_hash ck = h"
      "shared_key K (Some ddpub) (Some priv) = Inr (k_ddboxk ck)"
    using client_file_loads [OF assms(1,4,3)] by blast
  obtain b where b: "read_ddbrokerkeys K (Some bdata) = Inr (Some b)"
      "bk_tenantkeys b = map (\<lambda>(k, v). (k, tenant_file K ddpriv v)) (filter (\<lambda>(k, v). k \<noteq> ascii ''dd'') bfs)"
    using broker_file_loads [OF assms(2,6,5)] by blast
  have "tenant_ok K ddpriv tfs"
    using assms(2,7,8) unfolding broker_file_def by (fastforce dest: map_of_SomeD)
  then obtain k where k: "beforenm K pub ddpriv = Some k"
    using key_in_key_of [OF assms(9)] by (auto simp: tenant_ok_def)
  then have "k_ddboxk ck = k" using c(4) by (simp add: shared_key_def assms(12))
  moreover have "map_of (bk_tenantkeys b) h = Some (tenant_file K ddpriv (J_object v tfs))"
    using assms(7,8) unfolding b(2) by (induction bfs) (auto split: if_splits)
  moreover have "tenant_of (tenant_file K ddpriv (J_object v tfs)) =
      Some \<lparr>ten_name = c_string name, ten_cookie = strtoull (c_string number), ten_boxk = k\<rparr>"
    using assms(10,11) k
    by (simp add: tenant_of_def tenant_file_def json_fields_def text_of_def number_of_def tenant_box_def
        key_in_key_of [OF assms(9)] json_text_def)
  ultimately show ?thesis using c b(1) by blast
qed

definition key_text :: "bytes \<Rightarrow> json" where
  "key_text k = J_string (projr (base64_encode k))"

lemma key_text_in: "map_of fs (ascii name) = Some (key_text k) \<Longrightarrow> length k = 32 \<Longrightarrow> key_in fs name k"
  using encode_decode_ex [of k] by (auto simp: key_in_def key_text_def)

lemma decode_key_text: "length k = 32 \<Longrightarrow> decode_key (key_text k) = Inr (Some k)"
  using encode_decode_ex [of k] decode_key_encoded [of k] by (auto simp: key_text_def)

lemma json_key_text: "json_text (key_text k) = Some (projr (base64_encode k))"
  by (simp add: key_text_def json_text_def)

lemma json_text_simps [simp]: "json_text (J_string s) = Some s"
  by (simp add: json_text_def)

definition ex_client_file :: "(bytes \<times> json) list" where
  "ex_client_file = [(ascii ''hash'', J_string (ascii ''h1'')), (ascii ''privkey'', key_text (replicate 32 1)),
     (ascii ''pubkey'', key_text (replicate 32 2)), (ascii ''ddpubkey'', key_text (replicate 32 3)),
     (ascii ''publicpubkey'', key_text (replicate 32 4))]"

definition ex_tenant_fields :: "(bytes \<times> json) list" where
  "ex_tenant_fields = [(ascii ''R'', J_string (ascii ''77'')), (ascii ''r'', J_string (ascii ''a'')),
     (ascii ''pubkey'', key_text (replicate 32 2))]"

definition ex_broker_file :: "(bytes \<times> json) list" where
  "ex_broker_file = [(ascii ''h1'', J_object [] ex_tenant_fields),
     (ascii ''dd'', J_object [] [(ascii ''R'', J_string (ascii ''5'')), (ascii ''pubkey'', key_text (replicate 32 3)),
        (ascii ''privkey'', key_text (replicate 32 2))])]"

text \<open>A key agreement in which the public key is the secret one plus one in every byte.\<close>

definition ex_keylib :: keylib where
  "ex_keylib = \<lparr>json_tokener_parse = (\<lambda>d. if d = [1] then J_object [] ex_client_file else J_object [] ex_broker_file),
     beforenm = (\<lambda>pk sk. Some (map2 (+) pk sk))\<rparr>"

lemma ex_client_file_ok: "client_file ex_client_file (replicate 32 4) (replicate 32 3) (replicate 32 1) (replicate 32 2) (ascii ''h1'')"
  unfolding client_file_def
  by (intro conjI key_text_in)
    (simp_all add: ex_client_file_def field_ok_def client_names_def decode_key_text json_key_text, simp add: ascii_def)

lemma ex_broker_file_ok: "broker_file ex_keylib ex_broker_file (replicate 32 3) (replicate 32 2)"
proof -
  have "tenant_ok ex_keylib (replicate 32 2) ex_tenant_fields"
    by (simp add: tenant_ok_def ex_tenant_fields_def field_ok_def decode_key_text json_key_text ex_keylib_def)
  then show ?thesis unfolding broker_file_def
    by (simp add: ex_broker_file_def field_ok_def decode_key_text json_key_text key_text_in)
qed

section \<open>What is loaded is of the right size\<close>

definition sized :: "bytes option \<Rightarrow> bool" where
  "sized k \<longleftrightarrow> (\<forall>b. k = Some b \<longrightarrow> length b = 32)"

lemma decode_key_length: "decode_key v = Inr (Some k) \<Longrightarrow> length k = 32"
  by (auto simp: decode_key_def rbind_eq_Inr Let_def split: if_splits)

definition raw_sized :: "dd_keys_t \<Rightarrow> bool" where
  "raw_sized k \<longleftrightarrow> sized (kt_publicpubkey k) \<and> sized (kt_ddpubkey k) \<and> sized (kt_privkey k) \<and> sized (kt_pubkey k) \<and>
     (\<forall>(n, b)\<in>set (kt_clientkeys k). length b = 32)"

lemma sized_simps [simp]: "sized None" "sized (Some b) \<longleftrightarrow> length b = 32"
  by (auto simp: sized_def)

lemma key_field_sized: "raw_sized s \<Longrightarrow> key_field x s = Inr (Some t) \<Longrightarrow> raw_sized t"
  by (cases x) (auto simp: key_field_def raw_sized_def rbind_eq_Inr dest: decode_key_length split: if_splits)

lemma public_entry_sized: "raw_sized s \<Longrightarrow> public_entry x s = Inr (Some t) \<Longrightarrow> raw_sized t"
  by (cases x) (auto simp: public_entry_def rbind_eq_Inr dest: ofold_invariant [where I = raw_sized, OF _ _ key_field_sized]
      split: if_splits)

lemma shared_key_sized:
  "(\<And>p s k. beforenm K p s = Some k \<Longrightarrow> length k = 32) \<Longrightarrow> shared_key K p s = Inr k \<Longrightarrow> length k = 32"
  by (auto simp: shared_key_def rbind_eq_Inr split: option.splits)

lemma zhash_insert_in: "(n, x) \<in> set (zhash_insert k y t) \<Longrightarrow> (n, x) \<in> set t \<or> x = y"
  by (auto simp: zhash_insert_def split: if_splits)

lemma customer_field_sized:
  assumes "\<And>p s k. beforenm K p s = Some k \<Longrightarrow> length k = 32" "raw_sized (snd (snd s))" "customer_field K x s = Inr t"
  shows "raw_sized (snd (snd t))"
  using assms(2,3) shared_key_sized [OF assms(1)]
  by (cases x; cases s)
    (auto simp: customer_field_def raw_sized_def Let_def rbind_eq_Inr dest!: zhash_insert_in split: option.splits)

lemma customer_entry_sized:
  assumes "\<And>p s k. beforenm K p s = Some k \<Longrightarrow> length k = 32" "raw_sized s" "customer_entry K x s = Inr t"
  shows "raw_sized t"
proof -
  obtain k v where x: "x = (k, v)" by (cases x)
  show ?thesis
  proof (cases "k = ascii ''public''")
    case False
    with assms(3) obtain fs r where "rfold (customer_field K) fs (None, None, s) = Inr r" "t = snd (snd r)"
      by (auto simp: x customer_entry_def rbind_eq_Inr)
    then show ?thesis
      using rfold_invariant [of fs "\<lambda>s. raw_sized (snd (snd s))" "customer_field K" "(None, None, s)" r]
        customer_field_sized [OF assms(1)] assms(2) by fastforce
  qed (use assms in \<open>simp add: x customer_entry_def\<close>)
qed

lemma shared_key_args: "shared_key K p q = Inr k \<Longrightarrow> p \<noteq> None \<and> q \<noteq> None"
  by (cases p; cases q) (auto simp: shared_key_def)

definition complete :: "dd_keys_t \<Rightarrow> bool" where
  "complete ks \<longleftrightarrow>
     (\<forall>k\<in>{kt_publicpubkey ks, kt_ddpubkey ks, kt_privkey ks, kt_pubkey ks, kt_ddboxk ks, kt_custboxk ks, kt_pubboxk ks}.
        map_option length k = Some 32) \<and>
     (\<forall>(n, k)\<in>set (kt_clientkeys ks). length k = 32)"

lemma precalculate_complete:
  assumes "\<And>p s k. beforenm K p s = Some k \<Longrightarrow> length k = 32" "raw_sized s" "precalculate K s = Inr t"
  shows "complete t"
proof -
  obtain dd cust pub where k: "shared_key K (kt_ddpubkey s) (kt_privkey s) = Inr dd"
      "shared_key K (kt_pubkey s) (kt_privkey s) = Inr cust" "shared_key K (kt_publicpubkey s) (kt_privkey s) = Inr pub"
    and t: "t = s\<lparr>kt_ddboxk := Some dd, kt_custboxk := Some cust, kt_pubboxk := Some pub\<rparr>"
    using assms(3) by (auto simp: precalculate_def rbind_eq_Inr)
  have "length dd = 32" "length cust = 32" "length pub = 32"
    by (rule shared_key_sized [OF assms(1)], assumption, rule k)+
  then show ?thesis
    using assms(2) shared_key_args [OF k(1)] shared_key_args [OF k(2)] shared_key_args [OF k(3)]
    unfolding complete_def raw_sized_def t by (auto simp del: split_paired_All)
qed

lemma loaded_raw:
  assumes "dd_keys_new K file = Inr (Some ks)" "\<And>p s k. beforenm K p s = Some k \<Longrightarrow> length k = 32"
  obtains s where "raw_sized s" "precalculate K s = Inr ks"
proof -
  have fresh: "raw_sized (calloc_keys\<lparr>kt_ispublic := p\<rparr>)" for p by (simp add: raw_sized_def calloc_keys_def)
  obtain fs where "dd_keys_parsed K fs = Inr (Some ks)"
    using assms(1) by (auto simp: dd_keys_new_def rbind_eq_Inr split: option.splits if_splits)
  then obtain s where run: "precalculate K s = Inr ks"
    and "(\<exists>p. ofold key_field fs (calloc_keys\<lparr>kt_ispublic := p\<rparr>) = Inr (Some s)) \<or>
      (\<exists>p u. ofold public_entry fs (calloc_keys\<lparr>kt_ispublic := p\<rparr>) = Inr (Some u) \<and> rfold (customer_entry K) fs u = Inr s)"
    unfolding dd_keys_parsed_def Let_def by (fastforce simp: rbind_eq_Inr split: option.splits if_splits)
  then have "raw_sized s"
  proof (elim disjE exE conjE)
    fix p assume "ofold key_field fs (calloc_keys\<lparr>kt_ispublic := p\<rparr>) = Inr (Some s)"
    then show ?thesis by (rule ofold_invariant [where I = raw_sized]) (rule fresh, rule key_field_sized)
  next
    fix p u assume u: "ofold public_entry fs (calloc_keys\<lparr>kt_ispublic := p\<rparr>) = Inr (Some u)" "rfold (customer_entry K) fs u = Inr s"
    have "raw_sized u" by (rule ofold_invariant [where I = raw_sized, OF u(1)]) (rule fresh, rule public_entry_sized)
    from this u(2) show ?thesis
      by (rule rfold_invariant [where I = raw_sized, rotated]) (rule customer_entry_sized [OF assms(2)])
  qed
  with run show ?thesis by (rule that [rotated])
qed

text \<open>
  C32. Every client key structure that \<open>dd_keys_new\<close> returns is complete: its four keys are set and have 32
  bytes, the three shared keys are set and have 32 bytes, and so has the key of every tenant of a public client.
\<close>

theorem loaded_keys_sized:
  assumes "dd_keys_new K file = Inr (Some ks)" "\<And>p s k. beforenm K p s = Some k \<Longrightarrow> length k = 32"
  shows "(\<forall>k\<in>{kt_publicpubkey ks, kt_ddpubkey ks, kt_privkey ks, kt_pubkey ks, kt_ddboxk ks, kt_custboxk ks, kt_pubboxk ks}.
        map_option length k = Some 32) \<and>
     (\<forall>(n, k)\<in>set (kt_clientkeys ks). length k = 32)"
proof -
  obtain s where s: "raw_sized s" "precalculate K s = Inr ks" by (rule loaded_raw [OF assms])
  have "complete ks" by (rule precalculate_complete [OF assms(2) s])
  then show ?thesis unfolding complete_def .
qed

text \<open>A file of a public client with the entry of one tenant, all keys equal.\<close>

definition ex_public_file :: "(bytes \<times> json) list" where
  "ex_public_file = [(ascii ''public'', J_object [] [(ascii ''privkey'', key_text (replicate 32 1)),
       (ascii ''pubkey'', key_text (replicate 32 2)), (ascii ''ddpubkey'', key_text (replicate 32 3)),
       (ascii ''publicpubkey'', key_text (replicate 32 2)), (ascii ''hash'', J_string (ascii ''p1''))]),
     (ascii ''h1'', J_object [] [(ascii ''r'', J_string (ascii ''a'')), (ascii ''x'', J_null)])]"

definition ex_lib32 :: keylib where
  "ex_lib32 = \<lparr>json_tokener_parse = (\<lambda>d. J_object [] ex_public_file), beforenm = (\<lambda>pk sk. Some (take 32 (pk @ replicate 32 0)))\<rparr>"

lemma ex_public_loads: "\<exists>ks. dd_keys_new ex_lib32 (Some [1]) = Inr (Some ks)"
  by (simp add: dd_keys_new_def ex_lib32_def ex_public_file_def json_fields_def dd_keys_parsed_def public_entry_def key_field_def
      decode_key_text json_strdup_def customer_entry_def customer_field_def calloc_keys_def precalculate_def shared_key_def
      json_text_def Let_def)

lemma loaded_keys_sized_witness:
  "\<exists>ks. dd_keys_new ex_lib32 (Some [1]) = Inr (Some ks) \<and> map_option length (kt_ddboxk ks) = Some 32"
proof -
  obtain ks where ks: "dd_keys_new ex_lib32 (Some [1]) = Inr (Some ks)" using ex_public_loads by blast
  have "length k = 32" if "beforenm ex_lib32 p s = Some k" for p s k
    using that by (auto simp: ex_lib32_def)
  with loaded_keys_sized [OF ks] ks show ?thesis by blast
qed

end
