(* ===== verification/Provision.thy ===== *)
theory Provision
  imports Network KeyFiles
begin

text \<open>
  From the key files to the registration: a client that has read its file and a broker that has read its own are
  the two sides of the handshake of the theory Network.
\<close>

text \<open>What the broker takes from its file keeps the tenants under their hashes.\<close>

lemma broker_keys_tenant:
  assumes "broker_keys b = Some ks" "map_of (bk_tenantkeys b) h = Some i"
  shows "map_of (tenantkeys ks) h = tenant_of i"
proof -
  have "tenantkeys ks = map (\<lambda>(h, t). (h, the (tenant_of t))) (bk_tenantkeys b)" "tenant_of i \<noteq> None"
    using assms map_of_SomeD [OF assms(2)] by (auto simp: broker_keys_def split: if_splits option.splits)
  moreover have "map_of (map (\<lambda>(h, t). (h, the (tenant_of t))) (bk_tenantkeys b)) h = map_option (\<lambda>t. the (tenant_of t)) (Some i)"
    unfolding map_of_map assms(2) [symmetric] comp_def ..
  ultimately show ?thesis by auto
qed

text \<open>
  C5. A client and a broker that were given matching key files come to an agreement: when both can load their files, and
  the broker's file has the client's public key, a tenant name and a cookie under the client's hash, then what they load
  takes the client through the handshake, every step from whatever state the two are in: it is registered with the cookie
  of the file, under the tenant name of the file, or refused when a client of its name is known. The name is not
  \<open>public\<close>, and with the tenant's it fits the buffer of the broker.
\<close>

theorem provisioned_client_registers:
  assumes cfile: "client_file cfs publicpub ddpub priv pub h" "json_tokener_parse K (c_string cdata) = J_object t cfs" "cdata \<noteq> []"
    and bfile: "broker_file K bfs ddpub ddpriv" "json_tokener_parse K (c_string bdata) = J_object u bfs" "bdata \<noteq> []"
    and tenant: "map_of bfs h = Some (J_object v tfs)" "h \<noteq> ascii ''dd''" "key_in tfs ''pubkey'' pub"
      "map_of tfs (ascii ''r'') = Some (J_string tname)" "map_of tfs (ascii ''R'') = Some (J_string number)"
    and agree: "beforenm K ddpub priv = beforenm K pub ddpriv" "same_box XC XB"
    and client: "dd_keys_new K (Some cdata) = Inr (Some k)" "client_keys k = Some ck"
    and broker: "read_ddbrokerkeys K (Some bdata) = Inr (Some bk)" "broker_keys bk = Some ks" "h \<noteq> br_hash ks"
    and name: "0 \<notin> set name" "name \<noteq> ascii ''public''" "length (dot_join (c_string tname) name) < MAXTENANTNAME" "length sid = L"
  shows "agreement XB XC L sid ks ck name \<lparr>ten_name = c_string tname, ten_cookie = strtoull (c_string number), ten_boxk = k_ddboxk ck\<rparr>"
proof -
  obtain i' ten where k: "k_hash ck = h" "map_of (bk_tenantkeys bk) h = Some i'" "tenant_of i' = Some ten"
    "ten = \<lparr>ten_name = c_string tname, ten_cookie = strtoull (c_string number), ten_boxk = k_ddboxk ck\<rparr>"
    using key_files_fit [OF cfile(1) bfile(1) cfile(2,3) bfile(2,3) tenant agree(1)] client broker(1) by auto
  have f: "map_of (tenantkeys ks) (k_hash ck) = Some ten" "0 \<notin> set (k_hash ck)" "k_hash ck \<noteq> br_hash ks" "ten_boxk ten = k_ddboxk ck"
    "length (dot_join (ten_name ten) name) < MAXTENANTNAME"
    using broker_keys_tenant [OF broker(2) k(2)] cfile(1) k(1,3,4) broker(3) name(3) by (simp_all add: client_file_def)
  show ?thesis unfolding k(4) [symmetric] by (rule agreement_holds [OF f(1-4) agree(2) name(1,2) f(5) name(4)])
qed

text \<open>The keys that the two files of the theory KeyFiles give.\<close>

definition ex_loaded_client :: dd_keys where
  "ex_loaded_client = the (client_keys (the (projr (dd_keys_new ex_keylib (Some [1])))))"

definition ex_loaded_broker :: ddbrokerkeys where
  "ex_loaded_broker = the (broker_keys (the (projr (read_ddbrokerkeys ex_keylib (Some [2])))))"

lemma ex_parse:
  "json_tokener_parse ex_keylib (c_string [1]) = J_object [] ex_client_file"
  "json_tokener_parse ex_keylib (c_string [2]) = J_object [] ex_broker_file"
  "beforenm ex_keylib (replicate 32 3) (replicate 32 1) = beforenm ex_keylib (replicate 32 2) (replicate 32 2)"
  by (simp_all add: ex_keylib_def c_string_def zip_replicate)

lemma ex_client_loads:
  obtains ck where "dd_keys_new ex_keylib (Some [1]) = Inr (Some ck)" "client_keys ck = Some ex_loaded_client"
  using client_file_loads [OF ex_client_file_ok _ ex_parse(1)] by (auto simp: ex_loaded_client_def)

lemma ex_broker_loads:
  "\<exists>bk. read_ddbrokerkeys ex_keylib (Some [2]) = Inr (Some bk) \<and> broker_keys bk = Some ex_loaded_broker \<and>
     br_hash ex_loaded_broker = c_string (projr (base64_encode (replicate 32 3)))"
proof -
  have "read_ddbrokerkeys ex_keylib (Some [2]) = broker_keys_parsed ex_keylib ex_broker_file"
    unfolding read_ddbrokerkeys_def by (simp add: ex_parse json_fields_def)
  then show ?thesis
    by (simp add: ex_loaded_broker_def ex_keylib_def ex_broker_file_def ex_tenant_fields_def json_fields_def
      broker_keys_parsed_def dd_entry_def dd_field_def tenant_entry_def tenant_field_def zhash_insert_def tenant_of_def
      decode_key_text json_key_text json_strdup_def shared_key_def broker_keys_def Let_def)
qed

lemma ex_hash_differs: "c_string (projr (base64_encode (replicate 32 3))) \<noteq> ascii ''h1''"
  by code_simp

text \<open>The client of the theory Network, with these keys, and a broker with no client yet.\<close>

definition ex_provisioned :: dd where
  "ex_provisioned = ex_asking\<lparr>c_keys := ex_loaded_client\<rparr>"

definition ex_provider :: dd_broker where
  "ex_provider = ex_root\<lparr>keys := ex_loaded_broker\<rparr>"

lemma ex_provider_serves: "serves 5 ex_loaded_broker ex_provider" "clients ex_provider = Map.empty"
  "unknown_here ex_provider name" "unknown_below ex_provider name"
  by (simp_all add: serves_def ex_provider_def reg_inv_def ex_root_empty ex_root_start cli_ok_def dist_ok_def brs_ok_def subs_ok_def
      unknown_here_def unknown_below_def)

lemma ex_provisioned_waits: "waits ex_ext ex_loaded_client (ascii ''w'') ex_provisioned"
  using ex_asking_waits by (simp add: waits_def ex_provisioned_def c_ok_def c_ids_def)

lemma provisioned_client_registers_witness:
  "\<exists>b' c'. handle ex_ext (On_router (Some (ex_sockid 8 # [le32 DD_VERSION, le32 DD_CMD_CHALLOK, le64 77, k_hash ex_loaded_client, ascii ''w'']))) ex_provider = Inr b' \<and>
     clients b' = [next_client ex_provider \<mapsto> newcomer (ex_sockid 8) \<lparr>ten_name = ascii ''a'', ten_cookie = 77, ten_boxk = k_ddboxk ex_loaded_client\<rparr> (ascii ''w'')] \<and>
     c_handle ex_ext (C_dealer (Some [le32 DD_VERSION, le32 DD_CMD_REGOK, le64 77])) ex_provisioned = Inr c' \<and>
     c_state c' = DD_STATE_REGISTERED \<and> c_cookie c' = Some 77"
proof -
  obtain ck where ck: "dd_keys_new ex_keylib (Some [1]) = Inr (Some ck)" "client_keys ck = Some ex_loaded_client"
    by (rule ex_client_loads)
  obtain bk where bk: "read_ddbrokerkeys ex_keylib (Some [2]) = Inr (Some bk)" "broker_keys bk = Some ex_loaded_broker"
    "ascii ''h1'' \<noteq> br_hash ex_loaded_broker"
    using ex_broker_loads ex_hash_differs by (auto simp del: ascii_eq ascii_inject)
  have m: "map_of ex_broker_file (ascii ''h1'') = Some (J_object [] ex_tenant_fields)" "ascii ''h1'' \<noteq> ascii ''dd''"
    "key_in ex_tenant_fields ''pubkey'' (replicate 32 2)"
    "map_of ex_tenant_fields (ascii ''r'') = Some (J_string (ascii ''a''))"
    "map_of ex_tenant_fields (ascii ''R'') = Some (J_string (ascii ''77''))"
    by (simp_all add: ex_broker_file_def ex_tenant_fields_def key_text_in)
  have c: "strtoull (c_string (ascii ''77'')) = 77" "c_string (ascii ''a'') = ascii ''a''"
    by (simp_all add: ascii_def c_string_def strtoull_def)
  have n: "0 \<notin> set (ascii ''w'')" "ascii ''w'' \<noteq> ascii ''public''" "length (dot_join (c_string (ascii ''a'')) (ascii ''w'')) < MAXTENANTNAME"
    "length (ex_sockid 8) = 5" by (simp_all add: c dot_join_def MAXTENANTNAME_def ex_sockid_def) (simp_all add: ascii_def)
  have ne: "[1] \<noteq> ([] :: bytes)" "[2] \<noteq> ([] :: bytes)" by simp_all
  note steps = provisioned_client_registers [OF ex_client_file_ok ex_parse(1) ne(1) ex_broker_file_ok ex_parse(2) ne(2) m ex_parse(3)
      ex_same_box ck bk n, unfolded agreement_def c ddtenant.simps]
  have "\<forall>a lc. clients ex_provider a = Some lc \<longrightarrow> lc_sockid lc \<noteq> ex_sockid 8" by (simp add: ex_provider_serves)
  then obtain b' where b': "handle ex_ext (On_router (Some (ex_sockid 8 # [le32 DD_VERSION, le32 DD_CMD_CHALLOK, le64 77, k_hash ex_loaded_client, ascii ''w'']))) ex_provider = Inr b'"
    "clients b' = (clients ex_provider)(next_client ex_provider \<mapsto> newcomer (ex_sockid 8) \<lparr>ten_name = ascii ''a'', ten_cookie = 77, ten_boxk = k_ddboxk ex_loaded_client\<rparr> (ascii ''w''))"
    using steps ex_provider_serves(1,3,4) by (metis (no_types, lifting))
  obtain c' where "c_handle ex_ext (C_dealer (Some [le32 DD_VERSION, le32 DD_CMD_REGOK, le64 77])) ex_provisioned = Inr c'"
     "c_state c' = DD_STATE_REGISTERED" "c_cookie c' = Some 77"
    using steps ex_provisioned_waits by blast
  with b' show ?thesis unfolding ex_provider_serves(2) by blast
qed

end
