(* ===== verification/KeyGen.thy ===== *)
theory KeyGen
  imports KeyFiles
begin

text \<open>
  The key generator \<open>src/src/ddkeygen.c\<close>: its options, the keys of a client and the file they are written to, and
  what the client library makes of that file.
\<close>

section \<open>The program\<close>

text \<open>
  Libsodium and json-c are parameters, as is the success of \<open>fopen\<close>; the keypair depends on the number of those
  made before. \<open>json_object_to_json_string\<close> is only given objects whose fields are strings.
\<close>

record keygenlib =
  crypto_box_keypair :: "nat \<Rightarrow> bytes \<times> bytes"
  sodium_bin2hex :: "bytes \<Rightarrow> bytes"
  to_json_string :: "(bytes \<times> bytes) list \<Rightarrow> bytes"
  fopen_w :: "bytes \<Rightarrow> bool"

text \<open>Only \<open>base64_encode_block\<close> is called, not \<open>base64_encode_blockend\<close>.\<close>

definition key_chars_of :: "bytes option \<Rightarrow> bytes res" where
  "key_chars_of k = rbind (deref_str k) (\<lambda>k. rbind (base64_encode_block k base64_init_encodestate) (\<lambda>(out, st). Inr out))"

definition generate_client_key :: "keygenlib \<Rightarrow> nat \<Rightarrow> bytes \<Rightarrow> bytes option \<Rightarrow> bytes option \<Rightarrow> (bytes \<times> bytes) res" where
  "generate_client_key G n name broker_pubkey public_pubkey =
     (let (alice_publickey, alice_secretkey) = crypto_box_keypair G n; hash = sodium_bin2hex G alice_publickey in
      rbind (key_chars_of (Some alice_publickey)) (\<lambda>char_pubkey.
      rbind (key_chars_of (Some alice_secretkey)) (\<lambda>char_seckey.
      rbind (key_chars_of broker_pubkey) (\<lambda>char_bropubkey.
      rbind (key_chars_of public_pubkey) (\<lambda>char_pubpubkey.
      let ret = to_json_string G [(ascii ''hash'', hash), (ascii ''privkey'', char_seckey), (ascii ''pubkey'', char_pubkey),
            (ascii ''publicpubkey'', char_pubpubkey), (ascii ''ddpubkey'', char_bropubkey)];
          filename = name @ ascii ''-keys.json''
      in if fopen_w G filename then Inr (filename, ret) else Inl Null_deref)))))"

text \<open>
  What \<open>main\<close> keeps of its options. \<open>getopt\<close> hands over the options one by one, \<open>?\<close> for one it does not know.
\<close>

record keygen_opts =
  broker_key_file :: "bytes option"
  public_key_file :: "bytes option"
  tenant_names :: "bytes option"
  generate_broker :: bool
  generate_public :: bool

definition keygen_opt :: "char \<times> bytes \<Rightarrow> keygen_opts \<Rightarrow> keygen_opts option res" where
  "keygen_opt = (\<lambda>(c, optarg) st.
     if c = CHR ''c'' then Inr (Some (st\<lparr>tenant_names := Some optarg\<rparr>))
     else if c = CHR ''b'' then Inr (Some (st\<lparr>generate_broker := True\<rparr>))
     else if c = CHR ''p'' then Inr (Some (st\<lparr>generate_public := True\<rparr>))
     else if c = CHR ''B'' then Inr (Some (st\<lparr>broker_key_file := Some optarg\<rparr>))
     else if c = CHR ''P'' then Inr (Some (st\<lparr>public_key_file := Some optarg\<rparr>))
     else if c = CHR ''?'' then Inr None
     else Inl Proc_exit)"

text \<open>
  The keys that were loaded, or the string literal that the two unfinished generators return in their place:
  reading a field of that one is outside the literal.
\<close>

datatype 'a loaded = Literal | Loaded "'a option"

definition loaded_pub :: "('a \<Rightarrow> bytes option) \<Rightarrow> 'a loaded \<Rightarrow> bytes option res" where
  "loaded_pub pub l = (case l of Literal \<Rightarrow> Inl Out_of_bounds | Loaded None \<Rightarrow> Inl Null_deref | Loaded (Some k) \<Rightarrow> Inr (pub k))"

definition keygen_token :: "keygenlib \<Rightarrow> ddbrokerkeys_t loaded \<Rightarrow> dd_keys_t loaded \<Rightarrow> bytes \<Rightarrow> (bytes \<times> bytes) list \<Rightarrow>
    (bytes \<times> bytes) list res" where
  "keygen_token G bro_keys pub_keys token written =
     rbind (loaded_pub bk_pubkey bro_keys) (\<lambda>bro.
     rbind (loaded_pub kt_pubkey pub_keys) (\<lambda>pub.
     rbind (generate_client_key G (length written) token bro pub) (\<lambda>f. Inr (written @ [f]))))"

definition keygen_load :: "bool \<Rightarrow> (bytes option \<Rightarrow> 'a option res) \<Rightarrow> (bytes \<Rightarrow> bytes option) \<Rightarrow> bytes option \<Rightarrow> 'a loaded res" where
  "keygen_load generate reader files file =
     (case file of
        Some f \<Rightarrow> if \<not> generate then rbind (reader (files f)) (\<lambda>k. Inr (Loaded k)) else Inr Literal
      | None \<Rightarrow> Inr Literal)"

text \<open>
  \<open>main\<close>, behind the options and as a whole: the exit code and the files written, a name and a text each. \<open>files\<close> is what
  can be read.
\<close>

definition keygen_run :: "keygenlib \<Rightarrow> keylib \<Rightarrow> (bytes \<Rightarrow> bytes option) \<Rightarrow> keygen_opts \<Rightarrow> (bytes \<times> bytes) list res" where
  "keygen_run G K files st =
     rbind (keygen_load (generate_broker st) (read_ddbrokerkeys K) files (broker_key_file st)) (\<lambda>bro_keys.
     rbind (keygen_load (generate_public st) (dd_keys_new K) files (public_key_file st)) (\<lambda>pub_keys.
     case tenant_names st of
       None \<Rightarrow> Inr []
     | Some names \<Rightarrow>
         if broker_key_file st \<noteq> None \<and> public_key_file st \<noteq> None then
           rfold (keygen_token G bro_keys pub_keys) (strtok (of_char (CHR '','')) names) []
         else Inr []))"

definition keygen_main :: "keygenlib \<Rightarrow> keylib \<Rightarrow> (bytes \<Rightarrow> bytes option) \<Rightarrow> (char \<times> bytes) list \<Rightarrow> (int \<times> (bytes \<times> bytes) list) res" where
  "keygen_main G K files opts =
     rbind (ofold keygen_opt opts \<lparr>broker_key_file = None, public_key_file = None, tenant_names = None,
         generate_broker = False, generate_public = False\<rparr>) (\<lambda>r. case r of
       None \<Rightarrow> Inr (1, [])
     | Some st \<Rightarrow> rbind (keygen_run G K files st) (\<lambda>written. Inr (0, written)))"

section \<open>A key without its last character\<close>

text \<open>The step of the encoder after a block tells how many bytes there were, modulo three.\<close>

fun estep_succ :: "base64_encodestep \<Rightarrow> base64_encodestep" where
  "estep_succ step_A = step_B"
| "estep_succ step_B = step_C"
| "estep_succ step_C = step_A"

lemma encode_char_step: "base64_encode_char e b = Inr (cs, e') \<Longrightarrow> estep e' = estep_succ (estep e)"
  by (cases "estep e") (auto simp: base64_encode_char_def rbind_eq_Inr Let_def split: if_splits)

lemma encode_block_step:
  "base64_encode_block bs e = Inr (cs, e') \<Longrightarrow> estep e' = (estep_succ ^^ length bs) (estep e)"
proof (induction bs arbitrary: e cs)
  case (Cons b bs)
  then obtain c1 e1 c2 where "base64_encode_char e b = Inr (c1, e1)" "base64_encode_block bs e1 = Inr (c2, e')"
    by (auto simp: rbind_eq_Inr)
  then show ?case using Cons.IH encode_char_step by (simp add: funpow_swap1)
qed simp

text \<open>What the encoder writes is text.\<close>

definition plain_text :: "bytes \<Rightarrow> bool" where
  "plain_text s \<longleftrightarrow> (\<forall>b\<in>set s. 0 < b \<and> b < 128)"

lemma encoding_plain: "plain_text encoding"
  unfolding plain_text_def by code_simp

lemma encode_value_plain:
  assumes "base64_encode_value v = Inr c"
  shows "0 < c \<and> c < 128"
proof -
  have "encoding ! n \<in> set encoding" if "n < 64" for n
    using that by (intro nth_mem) (simp add: length_encoding)
  then show ?thesis using assms encoding_plain
    by (auto simp: base64_encode_value_def plain_text_def split: if_splits)
qed

lemma encode_block_plain: "base64_encode_block bs e = Inr (cs, e') \<Longrightarrow> plain_text cs"
proof (induction bs arbitrary: e cs)
  case (Cons b bs)
  then obtain c1 e1 c2 where c: "base64_encode_char e b = Inr (c1, e1)" "base64_encode_block bs e1 = Inr (c2, e')" "cs = c1 @ c2"
    by (auto simp: rbind_eq_Inr)
  have "plain_text c1" using c(1)
    by (cases "estep e") (auto simp: base64_encode_char_def rbind_eq_Inr Let_def plain_text_def split: if_splits dest: encode_value_plain)
  then show ?case using Cons.IH [OF c(2)] by (auto simp: c(3) plain_text_def)
qed (simp add: plain_text_def)

text \<open>The encoder's block for a key decodes to one byte less, so it is refused as a key.\<close>

lemma generated_key_short:
  assumes "length k = 32"
  shows "\<exists>cs. key_chars_of (Some k) = Inr cs \<and> decode_key (J_string cs) = Inr None \<and> plain_text cs"
proof -
  have "coupled base64_init_encodestate base64_init_decodestate []"
    by (simp add: coupled_def base64_init_encodestate_def base64_init_decodestate_def)
  then obtain cs e out d pend where 1: "base64_encode_block k base64_init_encodestate = Inr (cs, e)"
    "base64_decode_block cs base64_init_decodestate = Inr (out, d)" "coupled e d pend" "out @ pend = k"
    using coupled_block [of base64_init_encodestate base64_init_decodestate "[]" k] by auto
  have "estep e = step_C"
    using encode_block_step [OF 1(1)] assms by (simp add: base64_init_encodestate_def numeral_eq_Suc)
  then have "length pend = 1" using 1(3) by (auto simp: coupled_def)
  then have "length out = 31" using 1(4) assms by auto
  then show ?thesis using 1(1,2) encode_block_plain [OF 1(1)] by (simp add: key_chars_of_def decode_key_def)
qed

section \<open>The generated file\<close>

text \<open>What json-c prints it reads back, for objects of strings of ASCII characters.\<close>

definition reads_back :: "keygenlib \<Rightarrow> keylib \<Rightarrow> bool" where
  "reads_back G K \<longleftrightarrow> (\<forall>fs. distinct (map fst fs) \<and> (\<forall>(k, s)\<in>set fs. plain_text k \<and> plain_text s) \<longrightarrow>
     to_json_string G fs \<noteq> [] \<and> (\<exists>t. json_tokener_parse K (c_string (to_json_string G fs)) = J_object t (map (\<lambda>(k, s). (k, J_string s)) fs)))"

lemma key_chars_of_plain: "key_chars_of k = Inr cs \<Longrightarrow> plain_text cs"
  by (auto simp: key_chars_of_def rbind_eq_Inr dest: encode_block_plain)

lemma generated_file_refused:
  assumes "generate_client_key G n name bro pub = Inr (f, ret)" "reads_back G K"
    and "length (snd (crypto_box_keypair G n)) = 32" "plain_text (sodium_bin2hex G (fst (crypto_box_keypair G n)))"
  shows "dd_keys_new K (Some ret) = Inr None"
proof -
  let ?h = "sodium_bin2hex G (fst (crypto_box_keypair G n))"
  obtain p q b u where k: "key_chars_of (Some (snd (crypto_box_keypair G n))) = Inr q"
      "key_chars_of (Some (fst (crypto_box_keypair G n))) = Inr p" "key_chars_of bro = Inr b" "key_chars_of pub = Inr u"
    and ret: "ret = to_json_string G [(ascii ''hash'', ?h), (ascii ''privkey'', q), (ascii ''pubkey'', p),
      (ascii ''publicpubkey'', u), (ascii ''ddpubkey'', b)]"
    using assms(1) by (auto simp: generate_client_key_def rbind_eq_Inr Let_def split: prod.splits if_splits)
  note c = k(1) k(2-4) [THEN key_chars_of_plain]
  have q: "decode_key (J_string q) = Inr None" "plain_text q"
    using generated_key_short [OF assms(3)] c(1) by auto
  have names: "plain_text (ascii ''hash'')" "plain_text (ascii ''privkey'')" "plain_text (ascii ''pubkey'')"
    "plain_text (ascii ''publicpubkey'')" "plain_text (ascii ''ddpubkey'')"
    unfolding plain_text_def by code_simp+
  obtain t where j: "ret \<noteq> []" "json_tokener_parse K (c_string ret) = J_object t [(ascii ''hash'', J_string ?h), (ascii ''privkey'', J_string q),
      (ascii ''pubkey'', J_string p), (ascii ''publicpubkey'', J_string u), (ascii ''ddpubkey'', J_string b)]"
    using assms(2) [unfolded reads_back_def, rule_format, of "[(ascii ''hash'', ?h), (ascii ''privkey'', q), (ascii ''pubkey'', p),
      (ascii ''publicpubkey'', u), (ascii ''ddpubkey'', b)]"] names c(2-4) q(2) assms(4) unfolding ret [symmetric] by auto
  show ?thesis
    by (simp add: dd_keys_new_def j json_fields_def dd_keys_parsed_def key_field_def json_strdup_def q Let_def)
qed

lemma keygen_main_written:
  assumes "keygen_main G K files opts = Inr (rc, written)"
  shows "written = [] \<or> (\<exists>bk pk tokens. rfold (keygen_token G bk pk) tokens [] = Inr written)"
proof -
  have "written = [] \<or> (\<exists>st. keygen_run G K files st = Inr written)"
    using assms by (auto simp: keygen_main_def rbind_eq_Inr split: option.splits)
  then show ?thesis
    by (auto simp: keygen_run_def rbind_eq_Inr split: option.splits if_splits)
qed

text \<open>
  C26. No key file that the generator writes can be read: it writes the characters of the encoder's block and leaves
  out the last character of every key, which only the end of the encoding would give, so that \<open>dd_keys_new\<close> decodes
  31 bytes and returns NULL.
\<close>

theorem generated_keys_refused:
  assumes "keygen_main G K files opts = Inr (rc, written)" "(f, ret) \<in> set written"
    and "reads_back G K" "\<forall>n. length (snd (crypto_box_keypair G n)) = 32" "\<forall>b. plain_text (sodium_bin2hex G b)"
  shows "dd_keys_new K (Some ret) = Inr None"
proof -
  have step: "\<forall>(f, ret)\<in>set w. dd_keys_new K (Some ret) = Inr None"
    if "rfold (keygen_token G bk pk) tokens [] = Inr w" for bk pk tokens w
  proof (rule rfold_invariant [where I = "\<lambda>w. \<forall>(f, ret)\<in>set w. dd_keys_new K (Some ret) = Inr None", OF _ _ that])
    fix token v v' assume v: "\<forall>(f, ret)\<in>set v. dd_keys_new K (Some ret) = Inr None" "keygen_token G bk pk token v = Inr v'"
    then obtain bro pub f ret where g: "generate_client_key G (length v) token bro pub = Inr (f, ret)" "v' = v @ [(f, ret)]"
      by (auto simp: keygen_token_def rbind_eq_Inr)
    have "dd_keys_new K (Some ret) = Inr None"
      by (rule generated_file_refused [OF g(1) assms(3)]) (simp_all add: assms(4,5))
    then show "\<forall>(f, ret)\<in>set v'. dd_keys_new K (Some ret) = Inr None" using v(1) g(2) by auto
  qed simp
  show ?thesis using step keygen_main_written [OF assms(1)] assms(2) by fastforce
qed

section \<open>An example\<close>

text \<open>A printer and a reader for objects of text, with bytes that are no text as separators.\<close>

definition ex_print :: "(bytes \<times> bytes) list \<Rightarrow> bytes" where
  "ex_print fs = 202 # concat (map (\<lambda>(k, s). k @ 200 # s @ [201]) fs)"

fun ex_read :: "bytes \<Rightarrow> bytes \<Rightarrow> bytes \<Rightarrow> (bytes \<times> bytes) list" where
  "ex_read acc k [] = []"
| "ex_read acc k (b # bs) =
     (if b = 200 then ex_read [] (rev acc) bs else if b = 201 then (k, rev acc) # ex_read [] [] bs else ex_read (b # acc) k bs)"

lemma ex_read_plain: "plain_text s \<Longrightarrow> ex_read acc k (s @ r) = ex_read (rev s @ acc) k r"
  by (induction s arbitrary: acc) (auto simp: plain_text_def)

lemma ex_read_print:
  "\<forall>(k, s)\<in>set fs. plain_text k \<and> plain_text s \<Longrightarrow> ex_read [] [] (concat (map (\<lambda>(k, s). k @ 200 # s @ [201]) fs)) = fs"
  by (induction fs) (auto simp: ex_read_plain)

definition ex_gen :: keygenlib where
  "ex_gen = \<lparr>crypto_box_keypair = (\<lambda>n. (replicate 32 2, replicate 32 1)), sodium_bin2hex = (\<lambda>b. ascii ''h1''),
     to_json_string = ex_print, fopen_w = (\<lambda>f. True)\<rparr>"

definition ex_genlib :: keylib where
  "ex_genlib = \<lparr>json_tokener_parse = (\<lambda>d. if d = [1] then J_object [] ex_public_file else if d = [2] then J_object [] ex_broker_file
       else J_object [] (map (\<lambda>(k, s). (k, J_string s)) (ex_read [] [] (tl d)))), beforenm = (\<lambda>pk sk. Some (map2 (+) pk sk))\<rparr>"

lemma ex_reads_back: "reads_back ex_gen ex_genlib"
  unfolding reads_back_def
proof (intro allI impI)
  fix fs :: "(bytes \<times> bytes) list" assume fs: "distinct (map fst fs) \<and> (\<forall>(k, s)\<in>set fs. plain_text k \<and> plain_text s)"
  then have "0 \<notin> set (ex_print fs)" by (fastforce simp: ex_print_def plain_text_def)
  then show "to_json_string ex_gen fs \<noteq> [] \<and>
      (\<exists>t. json_tokener_parse ex_genlib (c_string (to_json_string ex_gen fs)) = J_object t (map (\<lambda>(k, s). (k, J_string s)) fs))"
    using fs by (simp add: ex_gen_def ex_genlib_def c_string_id) (simp add: ex_print_def ex_read_print)
qed

lemma key_chars_of_total: "\<exists>cs. key_chars_of (Some k) = Inr cs"
proof -
  have "coupled base64_init_encodestate base64_init_decodestate []"
    by (simp add: coupled_def base64_init_encodestate_def base64_init_decodestate_def)
  then show ?thesis using coupled_block [of base64_init_encodestate base64_init_decodestate "[]" k] by (auto simp: key_chars_of_def)
qed

lemma ex_gen_broker: "\<exists>k. read_ddbrokerkeys ex_genlib (Some [2]) = Inr (Some k) \<and> bk_pubkey k = Some (replicate 32 3)"
proof -
  have "read_ddbrokerkeys ex_genlib (Some [2]) = broker_keys_parsed ex_genlib ex_broker_file"
    by (simp add: read_ddbrokerkeys_def ex_genlib_def json_fields_def c_string_def)
  then show ?thesis
    by (simp add: ex_genlib_def ex_broker_file_def ex_tenant_fields_def json_fields_def broker_keys_parsed_def dd_entry_def dd_field_def
      tenant_entry_def tenant_field_def decode_key_text json_key_text json_strdup_def shared_key_def Let_def)
qed

lemma ex_gen_public: "\<exists>k. dd_keys_new ex_genlib (Some [1]) = Inr (Some k) \<and> kt_pubkey k = Some (replicate 32 2)"
proof -
  have "dd_keys_new ex_genlib (Some [1]) = dd_keys_parsed ex_genlib ex_public_file"
    by (simp add: dd_keys_new_def ex_genlib_def json_fields_def c_string_def)
  then show ?thesis
    by (simp add: ex_genlib_def ex_public_file_def json_fields_def dd_keys_parsed_def public_entry_def key_field_def decode_key_text
      json_strdup_def customer_entry_def customer_field_def calloc_keys_def precalculate_def shared_key_def json_text_def Let_def)
qed

lemma generated_keys_refused_witness:
  "\<exists>ret. keygen_main ex_gen ex_genlib (\<lambda>f. if f = [98] then Some [2] else if f = [112] then Some [1] else None)
       [(CHR ''B'', [98]), (CHR ''P'', [112]), (CHR ''c'', ascii ''x'')] = Inr (0, [(ascii ''x-keys.json'', ret)]) \<and>
     dd_keys_new ex_genlib (Some ret) = Inr None"
proof -
  obtain bk pk where k: "read_ddbrokerkeys ex_genlib (Some [2]) = Inr (Some bk)" "bk_pubkey bk = Some (replicate 32 3)"
    "dd_keys_new ex_genlib (Some [1]) = Inr (Some pk)" "kt_pubkey pk = Some (replicate 32 2)"
    using ex_gen_broker ex_gen_public by blast
  obtain a b c d where e: "key_chars_of (Some (replicate 32 1)) = Inr a" "key_chars_of (Some (replicate 32 2)) = Inr b"
    "key_chars_of (Some (replicate 32 3)) = Inr c" using key_chars_of_total by meson
  have tok: "strtok 44 (ascii ''x'') = [ascii ''x'']" by code_simp
  obtain ret where g: "generate_client_key ex_gen 0 (ascii ''x'') (Some (replicate 32 3)) (Some (replicate 32 2)) =
      Inr (ascii ''x-keys.json'', ret)"
    by (simp add: generate_client_key_def ex_gen_def e Let_def) (simp add: ascii_def)
  have run: "keygen_main ex_gen ex_genlib (\<lambda>f. if f = [98] then Some [2] else if f = [112] then Some [1] else None)
       [(CHR ''B'', [98]), (CHR ''P'', [112]), (CHR ''c'', ascii ''x'')] = Inr (0, [(ascii ''x-keys.json'', ret)])"
    by (simp add: keygen_main_def keygen_opt_def keygen_run_def keygen_load_def k tok keygen_token_def loaded_pub_def g)
  have "plain_text (ascii ''h1'')" unfolding plain_text_def by code_simp
  then show ?thesis
    using generated_keys_refused [OF run _ ex_reads_back] run by (simp add: ex_gen_def)
qed

end
