(* ===== verification/Rest.thy ===== *)
theory Rest
  imports Keys Scenario "HOL-Library.AList"
begin

text \<open>
  The REST interface of the broker (\<open>s_on_http\<close> and the actor \<open>broker_gc_rest\<close> of \<open>src/src/lib/broker.c\<close>): the
  JSON objects it builds from the tables and the keys, the replies, and the loop they are served from.
\<close>

section \<open>JSON objects\<close>

text \<open>
  What the code builds with json-c: strings, arrays and objects. \<open>json_object_object_add\<close> replaces the value of a key
  that is there.
\<close>

datatype rjson = RS bytes | RA "rjson list" | RO "(bytes \<times> rjson) list"

definition json_object_object_add :: "(bytes \<times> rjson) list \<Rightarrow> bytes \<Rightarrow> rjson \<Rightarrow> (bytes \<times> rjson) list" where
  "json_object_object_add obj key val = AList.update key val obj"

lemma map_of_add [simp]: "map_of (json_object_object_add obj key val) = (map_of obj)(key \<mapsto> val)"
  by (simp add: json_object_object_add_def update_conv')

text \<open>
  Outside the repository: the regular expression for the first line of a request (method and route), libsodium's
  hexadecimal text, the version from the build, the date, json-c's text of an object.
\<close>

record restlib =
  http_request :: "bytes \<Rightarrow> (bytes \<times> bytes) option"
  bin2hex :: "bytes \<Rightarrow> bytes"
  package_version :: bytes
  http_date :: bytes
  json_to_string :: "rjson \<Rightarrow> bytes"
  http_bind_ok :: bool

text \<open>Socket ids are shown as text when they are printable, otherwise in hexadecimal, and shortened when long.\<close>

definition hex_digit :: "u8 \<Rightarrow> u8" where
  "hex_digit n = (if n < 10 then 48 + n else 55 + n)"

definition hex2 :: "u8 \<Rightarrow> bytes" where
  "hex2 b = [hex_digit (b div 16), hex_digit (b mod 16)]"

definition zframe_tojson :: "bytes \<Rightarrow> bytes" where
  "zframe_tojson data =
     (let is_bin = list_ex (\<lambda>b. b < 9 \<or> 127 < b) data;
          max_size = (if is_bin then 35 else 70);
          ellipsis = (if max_size < length data then ascii ''...'' else []);
          shown = take max_size data
      in (if is_bin then concat (map hex2 shown) else shown) @ ellipsis)"

section \<open>The replies\<close>

definition json_get_stats :: "restlib \<Rightarrow> dd_broker \<Rightarrow> rjson res" where
  "json_get_stats R self =
     (let jdist_array = map (\<lambda>(h, mp). RS (dc_name mp)) (dist_cli_ht self) in
      rbind (rfold (\<lambda>(h, a) jlocal_obj. rbind (get_client self a) (\<lambda>lp.
          Inr (json_object_object_add jlocal_obj (zframe_tojson (lc_sockid lp)) (RS (lc_prefix_name lp)))))
        (rev_lcl_cli_ht self) []) (\<lambda>jlocal_obj.
      let jbr_array = map (\<lambda>(h, br). RS (zframe_tojson (lb_sockid br))) (lcl_br_ht self);
          jsub_dict = fold (\<lambda>(h, sn) jsub_dict. json_object_object_add jsub_dict (zframe_tojson (sn_sockid sn)) (RA (map RS (sn_topics sn))))
            (subscribe_ht self) []
      in Inr (RO [(ascii ''brokers'', RA jbr_array), (ascii ''local'', RO jlocal_obj), (ascii ''distant'', RA jdist_array),
           (ascii ''subs'', RO jsub_dict), (ascii ''version'', RS (package_version R))])))"

definition json_get_stop :: rjson where
  "json_get_stop = RO [(ascii ''stop'', RS (ascii ''OK''))]"

definition json_get_keys :: "restlib \<Rightarrow> ddbrokerkeys_t \<Rightarrow> rjson res" where
  "json_get_keys R k =
     rbind (deref_str (bk_privkey k)) (\<lambda>privkey.
     rbind (deref_str (bk_pubkey k)) (\<lambda>pubkey.
     rbind (deref_str (bk_ddboxk k)) (\<lambda>ddboxk.
     rbind (deref_str (bk_hash k)) (\<lambda>hash.
     rbind (rfold (\<lambda>(h, ten) jten. rbind (deref_str (ti_boxk ten)) (\<lambda>boxk. rbind (deref_str (ti_name ten)) (\<lambda>name.
         Inr (json_object_object_add jten name (RS (bin2hex R boxk)))))) (bk_tenantkeys k) []) (\<lambda>jten.
     Inr (RO [(ascii ''version'', RS (package_version R)), (ascii ''privkey'', RS (bin2hex R privkey)),
       (ascii ''pubkey'', RS (bin2hex R pubkey)), (ascii ''ddboxk'', RS (bin2hex R ddboxk)), (ascii ''hash'', RS hash),
       (ascii ''tenants'', RO jten)]))))))"

definition crlf :: bytes where "crlf = [13, 10]"

definition http_stat :: bytes where
  "http_stat = ascii ''Access-Control-Allow-Origin: *'' @ crlf @ ascii ''Access-Control-Allow-Methods: GET'' @ crlf @
     ascii ''Access-Control-Allow-Headers: Content-Type'' @ crlf @ ascii ''Content-Type: application/json'' @ crlf @
     ascii ''Server: DoubleDecker'' @ crlf"

definition http_ok :: "restlib \<Rightarrow> rjson \<Rightarrow> bytes" where
  "http_ok R jobj =
     (let json = c_string (json_to_string R jobj) in
      ascii ''HTTP/1.1 200 OK'' @ crlf @ http_date R @ crlf @ http_stat @ ascii ''Connection: close'' @ crlf @
      ascii ''Content-Length: '' @ decimal (length json) @ crlf @ crlf @ json)"

definition http_not_found :: bytes where
  "http_not_found = ascii ''HTTP/1.1 404 Not Found'' @ crlf @ ascii ''Date: Fri, 22 Apr 2016 19:04:59 GMT'' @ crlf @ http_stat @ crlf"

text \<open>
  The handler of a message on the HTTP socket: the messages sent back, and the result that the loop gets, -1 to end it.
  The broker and its keys are only read. The data of the frame is taken for a C string, which it is only when the client
  has sent a NUL byte: any other request is read beyond the frame. And a request that is not answered is logged from its
  first carriage return on: without one, the NULL of \<open>strchr\<close> is passed to \<open>%s\<close>.
\<close>

definition s_on_http :: "restlib \<Rightarrow> dd_broker \<Rightarrow> ddbrokerkeys_t \<Rightarrow> bytes list option \<Rightarrow> (bytes list list \<times> int) res" where
  "s_on_http R self k msg =
     (case msg of
        Some (sid # data # frames) \<Rightarrow>
          if data = [] then Inr ([], 0)
          else if 0 \<notin> set data then Inl Out_of_bounds
          else
            rbind (case http_request R (c_string data) of
                Some (method, route) \<Rightarrow>
                  if method = ascii ''GET'' then
                    if route = ascii ''/'' \<or> route = ascii ''/stats'' then rbind (json_get_stats R self) (\<lambda>j. Inr (Some j, 0))
                    else if route = ascii ''/keys'' then rbind (json_get_keys R k) (\<lambda>j. Inr (Some j, 0))
                    else if route = ascii ''/stop'' then Inr (Some json_get_stop, - 1)
                    else Inr (None, 0)
                  else Inr (None, 0)
              | None \<Rightarrow> Inr (None, 0)) (\<lambda>(jobj, retval).
            case jobj of
              Some j \<Rightarrow> Inr ([[sid, http_ok R j], [sid, []]], retval)
            | None \<Rightarrow> if 13 \<notin> set (c_string data) then Inl Null_deref else Inr ([[sid, http_not_found], [sid, []]], retval))
      | _ \<Rightarrow> Inl Assert_fail)"

text \<open>What an ordinary client sends, a request without a NUL byte, is read beyond its end.\<close>

lemma request_overreads: "data \<noteq> [] \<Longrightarrow> 0 \<notin> set data \<Longrightarrow> s_on_http R self k (Some (sid # data # frames)) = Inl Out_of_bounds"
  by (simp add: s_on_http_def)

text \<open>The actor: the socket is read when it could be bound, and the loop ends with the handler's result or on \<open>$TERM\<close>.\<close>

record gc_rest =
  gc_http :: bool
  gc_running :: bool
  gc_sent :: "bytes list list"

datatype gc_input = Gc_http "bytes list option" | Gc_pipe "bytes option"

definition s_gc_pipe_msg :: "bytes option \<Rightarrow> int res" where
  "s_gc_pipe_msg command = rbind (deref_str command) (\<lambda>command. Inr (if command = ascii ''$TERM'' then - 1 else 0))"

definition start_httpd_gc :: "restlib \<Rightarrow> gc_rest \<Rightarrow> gc_rest" where
  "start_httpd_gc R g = g\<lparr>gc_http := http_bind_ok R\<rparr>"

definition broker_gc_rest :: "restlib \<Rightarrow> bytes option \<Rightarrow> gc_rest" where
  "broker_gc_rest R reststr =
     (let g = \<lparr>gc_http = False, gc_running = True, gc_sent = []\<rparr> in
      if reststr \<noteq> None then start_httpd_gc R g else g)"

definition gc_handle :: "restlib \<Rightarrow> dd_broker \<Rightarrow> ddbrokerkeys_t \<Rightarrow> gc_input \<Rightarrow> gc_rest \<Rightarrow> gc_rest res" where
  "gc_handle R self k i g =
     (case i of
        Gc_http msg \<Rightarrow> rbind (s_on_http R self k msg) (\<lambda>(out, rc). Inr (g\<lparr>gc_sent := gc_sent g @ out, gc_running := rc \<noteq> - 1\<rparr>))
      | Gc_pipe command \<Rightarrow> rbind (s_gc_pipe_msg command) (\<lambda>rc. Inr (g\<lparr>gc_running := rc \<noteq> - 1\<rparr>)))"

section \<open>Socket ids as text\<close>

lemma hex_digit_nat: "\<forall>m < 16. \<forall>n < 16. hex_digit (of_nat m) = hex_digit (of_nat n) \<longrightarrow> m = n"
  unfolding all_nat_less_code by code_simp

lemma hex_digit_inject:
  assumes "unat a < 16" "unat b < 16" "hex_digit a = hex_digit b"
  shows "a = b"
  using hex_digit_nat [rule_format, of "unat a" "unat b"] assms by (simp add: word_unat_eq_iff)

lemma hex2_inject: "hex2 a = hex2 b \<longleftrightarrow> a = b"
proof
  assume h: "hex2 a = hex2 b"
  have l: "unat (c mod 16) < 16" "unat (c div 16) < 16" for c :: u8
    using unat_less_256 [of c] by (simp_all add: unat_mod unat_div)
  have "a div 16 = b div 16" "a mod 16 = b mod 16"
    using h by (auto simp: hex2_def intro!: hex_digit_inject l)
  then show "a = b" by (metis div_mult_mod_eq)
qed simp

lemma hex2_length [simp]: "length (hex2 b) = 2"
  by (simp add: hex2_def)

lemma hex_inject: "concat (map hex2 xs) = concat (map hex2 ys) \<longleftrightarrow> xs = ys"
proof (induction xs arbitrary: ys)
  case Nil
  then show ?case by (cases ys) (auto simp: hex2_def)
next
  case (Cons x xs)
  then show ?case by (cases ys) (auto simp: hex2_inject, simp add: hex2_def)
qed

lemma hex_length: "length (concat (map hex2 xs)) = 2 * length xs"
  by (induction xs) simp_all

lemma zframe_tojson_short:
  "length d \<le> 35 \<Longrightarrow> zframe_tojson d = (if list_ex (\<lambda>b. b < 9 \<or> 127 < b) d then concat (map hex2 d) else d)"
  by (simp add: zframe_tojson_def Let_def)

lemma zframe_tojson_inject:
  assumes "length c = length d" "length d \<le> 35"
  shows "zframe_tojson c = zframe_tojson d \<longleftrightarrow> c = d"
proof -
  define H where "H d = concat (map hex2 d)" for d
  define P where "P = list_ex (\<lambda>b :: u8. b < 9 \<or> 127 < b)"
  have ne: "H xs \<noteq> ys \<and> ys \<noteq> H xs" if "length xs = length ys" "P xs" for xs ys
  proof -
    have "xs \<noteq> []" using that(2) by (auto simp: P_def)
    moreover have "length (H xs) = 2 * length xs" unfolding H_def by (rule hex_length)
    ultimately show ?thesis using that(1) by auto
  qed
  have "zframe_tojson e = (if P e then H e else e)" if "length e \<le> 35" for e
    using zframe_tojson_short [OF that] by (simp add: P_def H_def)
  moreover have "H c = H d \<longleftrightarrow> c = d" unfolding H_def by (rule hex_inject)
  ultimately show ?thesis using assms ne [of c d] ne [of d c] by (cases "P c"; cases "P d") auto
qed

section \<open>The statistics\<close>

text \<open>A loop that adds one entry for every item, under its socket id.\<close>

abbreviation add_entry :: "('a \<Rightarrow> bytes) \<Rightarrow> ('a \<Rightarrow> rjson) \<Rightarrow> 'a \<Rightarrow> (bytes \<times> rjson) list \<Rightarrow> (bytes \<times> rjson) list" where
  "add_entry f v x obj \<equiv> json_object_object_add obj (zframe_tojson (f x)) (v x)"

lemma entries_exact:
  assumes "\<forall>x\<in>set xs. length (f x) = L" "inj_on f (set xs)" "L \<le> 35" "length s = L"
  shows "map_of (fold (add_entry f v) xs obj) (zframe_tojson s) = Some w \<longleftrightarrow>
    (\<exists>x\<in>set xs. f x = s \<and> w = v x) \<or> s \<notin> f ` set xs \<and> map_of obj (zframe_tojson s) = Some w"
  using assms(1,2)
proof (induction xs arbitrary: obj)
  case (Cons x xs)
  have "map_of (add_entry f v x obj) (zframe_tojson s) = (if s = f x then Some (v x) else map_of obj (zframe_tojson s))"
    using zframe_tojson_inject [of s "f x"] Cons.prems(1) assms(3,4) by auto
  moreover have "y = x" if "y \<in> set xs" "f y = f x" for y
    using Cons.prems(2) that by (auto simp: inj_on_def)
  ultimately show ?case using Cons.IH [of "add_entry f v x obj"] Cons.prems by auto
qed simp

lemma stats_local:
  assumes "\<forall>(h, a)\<in>set rvl. clients self a \<noteq> None"
  shows "rfold (\<lambda>(h, a) o'. rbind (get_client self a) (\<lambda>lp.
        Inr (json_object_object_add o' (zframe_tojson (lc_sockid lp)) (RS (lc_prefix_name lp))))) rvl obj =
    Inr (fold (add_entry lc_sockid (\<lambda>lc. RS (lc_prefix_name lc))) (map (\<lambda>(h, a). the (clients self a)) rvl) obj)"
  using assms by (induction rvl arbitrary: obj) (auto simp: get_client_def)

lemma stats_subs:
  "fold (\<lambda>(h, sn) o'. json_object_object_add o' (zframe_tojson (sn_sockid sn)) (RA (map RS (sn_topics sn)))) t obj =
    fold (add_entry sn_sockid (\<lambda>sn. RA (map RS (sn_topics sn)))) (map snd t) obj"
  by (induction t arbitrary: obj) auto

lemma stats_clients:
  assumes "reg_inv L self"
  shows "\<forall>(h, a)\<in>set (rev_lcl_cli_ht self). clients self a \<noteq> None" (is ?nodes)
    and "set (map (\<lambda>(h, a). the (clients self a)) (rev_lcl_cli_ht self)) = {lc. \<exists>a. clients self a = Some lc}" (is "set ?lcs = _")
proof -
  have cl: "cli_ok L (keys self) (clients self) (next_client self) (lcl_cli_ht self) (rev_lcl_cli_ht self)"
    using assms by (simp add: reg_inv_def)
  have node: "(\<exists>h. (h, a) \<in> set (rev_lcl_cli_ht self)) \<longleftrightarrow> clients self a \<noteq> None" for a
  proof -
    have "snd ` set (rev_lcl_cli_ht self) = dom (clients self)" using cl by (simp add: cli_ok_def)
    then have "a \<in> snd ` set (rev_lcl_cli_ht self) \<longleftrightarrow> a \<in> dom (clients self)" by simp
    then show ?thesis by (force simp: dom_def)
  qed
  show nodes: ?nodes using node by blast
  show "set ?lcs = {lc. \<exists>a. clients self a = Some lc}"
  proof (intro set_eqI iffI)
    fix lc assume "lc \<in> set ?lcs"
    then obtain h a where "(h, a) \<in> set (rev_lcl_cli_ht self)" "lc = the (clients self a)" by auto
    with nodes show "lc \<in> {lc. \<exists>a. clients self a = Some lc}" by fastforce
  next
    fix lc assume "lc \<in> {lc. \<exists>a. clients self a = Some lc}"
    then obtain a where "clients self a = Some lc" by blast
    moreover from this obtain h where "(h, a) \<in> set (rev_lcl_cli_ht self)" using node [of a] by auto
    ultimately show "lc \<in> set ?lcs" by force
  qed
qed

text \<open>
  C29. The statistics show the tables as they are, when no two clients are registered on one socket: for every socket, the
  name of the client that is registered there, under the socket's id and no other, and the topics it has subscribed to;
  every lower broker, and every client announced from below. They are the answer to a GET that ends with a NUL byte.
\<close>

theorem rest_stats_exact:
  assumes inv: "reg_inv L self" "L \<le> 35"
    and one: "\<forall>a b la lb. clients self a = Some la \<longrightarrow> clients self b = Some lb \<longrightarrow> lc_sockid la = lc_sockid lb \<longrightarrow> a = b"
    and req: "http_request R (c_string data) = Some (ascii ''GET'', ascii ''/stats'')" "0 \<in> set data"
  shows "\<exists>fs gs. s_on_http R self k (Some [sid, data]) = Inr ([[sid, http_ok R (RO
      [(ascii ''brokers'', RA (map (\<lambda>(h, lb). RS (zframe_tojson (lb_sockid lb))) (lcl_br_ht self))), (ascii ''local'', RO fs),
       (ascii ''distant'', RA (map (\<lambda>(h, dc). RS (dc_name dc)) (dist_cli_ht self))), (ascii ''subs'', RO gs),
       (ascii ''version'', RS (package_version R))])], [sid, []]], 0) \<and>
    (\<forall>s v. length s = L \<longrightarrow> (map_of fs (zframe_tojson s) = Some v \<longleftrightarrow>
       (\<exists>a lc. clients self a = Some lc \<and> lc_sockid lc = s \<and> v = RS (lc_prefix_name lc)))) \<and>
    (\<forall>s v. length s = L \<longrightarrow> (map_of gs (zframe_tojson s) = Some v \<longleftrightarrow>
       (\<exists>h sn. (h, sn) \<in> set (subscribe_ht self) \<and> sn_sockid sn = s \<and> v = RA (map RS (sn_topics sn)))))"
proof -
  let ?lcs = "map (\<lambda>(h, a). the (clients self a)) (rev_lcl_cli_ht self)"
  let ?sns = "map snd (subscribe_ht self)"
  have neq: "data \<noteq> []" using req(2) by auto
  have cl: "cli_ok L (keys self) (clients self) (next_client self) (lcl_cli_ht self) (rev_lcl_cli_ht self)" "subs_ok L (subscribe_ht self)"
    using inv(1) by (simp_all add: reg_inv_def)
  note nodes = stats_clients(1) [OF inv(1)] and lcs = stats_clients(2) [OF inv(1)]
  have "length (lc_sockid lc) = L" if "clients self a = Some lc" for a lc
    using cl(1) that unfolding cli_ok_def client_ok_def by blast
  then have l1: "\<forall>lc\<in>set ?lcs. length (lc_sockid lc) = L" unfolding lcs by blast
  have l2: "inj_on lc_sockid (set ?lcs)"
  proof (rule inj_onI)
    fix la lb assume "la \<in> set ?lcs" "lb \<in> set ?lcs" "lc_sockid la = lc_sockid lb"
    then obtain a b where "clients self a = Some la" "clients self b = Some lb" unfolding lcs by blast
    with one \<open>lc_sockid la = lc_sockid lb\<close> show "la = lb" by force
  qed
  have g: "\<forall>sn\<in>set ?sns. length (sn_sockid sn) = L" "inj_on sn_sockid (set ?sns)"
    using cl(2) by (force simp: subs_ok_def distinct_map inj_on_def)+
  note fs = entries_exact [OF l1 l2 inv(2), where obj = "[]" and v = "\<lambda>lc. RS (lc_prefix_name lc)", unfolded lcs]
  note gs = entries_exact [OF g inv(2), where obj = "[]" and v = "\<lambda>sn. RA (map RS (sn_topics sn))"]
  show ?thesis
  proof (intro exI conjI allI impI)
    show "s_on_http R self k (Some [sid, data]) = Inr ([[sid, http_ok R (RO
      [(ascii ''brokers'', RA (map (\<lambda>(h, lb). RS (zframe_tojson (lb_sockid lb))) (lcl_br_ht self))),
       (ascii ''local'', RO (fold (add_entry lc_sockid (\<lambda>lc. RS (lc_prefix_name lc))) ?lcs [])),
       (ascii ''distant'', RA (map (\<lambda>(h, dc). RS (dc_name dc)) (dist_cli_ht self))),
       (ascii ''subs'', RO (fold (add_entry sn_sockid (\<lambda>sn. RA (map RS (sn_topics sn)))) ?sns [])),
       (ascii ''version'', RS (package_version R))])], [sid, []]], 0)"
      using req(2) neq by (simp add: s_on_http_def req(1) json_get_stats_def Let_def stats_local [OF nodes] stats_subs del: ascii_eq)
  next
    fix s :: bytes and v assume "length s = L"
    from fs [OF this] show "map_of (fold (add_entry lc_sockid (\<lambda>lc. RS (lc_prefix_name lc))) ?lcs []) (zframe_tojson s) = Some v \<longleftrightarrow>
       (\<exists>a lc. clients self a = Some lc \<and> lc_sockid lc = s \<and> v = RS (lc_prefix_name lc))" by auto
  next
    fix s :: bytes and v assume "length s = L"
    from gs [OF this] show "map_of (fold (add_entry sn_sockid (\<lambda>sn. RA (map RS (sn_topics sn)))) ?sns []) (zframe_tojson s) = Some v \<longleftrightarrow>
       (\<exists>h sn. (h, sn) \<in> set (subscribe_ht self) \<and> sn_sockid sn = s \<and> v = RA (map RS (sn_topics sn)))" by force
  qed
qed

definition ex_rest_keys :: ddbrokerkeys_t where
  "ex_rest_keys = \<lparr>bk_tenants = [], bk_privkey = Some [9], bk_pubkey = Some [8], bk_ddboxk = Some [7],
     bk_tenantkeys = [(ascii ''ha'', \<lparr>ti_name = Some (ascii ''a''), ti_cookie = 7, ti_boxk = Some [1]\<rparr>)], bk_hash = Some [6], bk_cookie = 5\<rparr>"

definition ex_rest :: "bytes \<Rightarrow> restlib" where
  "ex_rest route = \<lparr>http_request = (\<lambda>d. Some (ascii ''GET'', route)), bin2hex = id, package_version = [], http_date = [],
     json_to_string = (\<lambda>j. []), http_bind_ok = True\<rparr>"

lemma ex_sockets_differ:
  "\<forall>a b la lb. clients ex_busy a = Some la \<longrightarrow> clients ex_busy b = Some lb \<longrightarrow> lc_sockid la = lc_sockid lb \<longrightarrow> a = b"
  by (auto elim!: ex_clientsE)

lemma rest_stats_exact_witness:
  "\<exists>j fs js. s_on_http (ex_rest (ascii ''/stats'')) ex_busy ex_rest_keys (Some [[1], [71, 0]]) =
       Inr ([[[1], http_ok (ex_rest (ascii ''/stats'')) (RO (j # (ascii ''local'', RO fs) # js))], [[1], []]], 0) \<and>
     map_of fs (zframe_tojson (ex_sockid 1)) = Some (RS (ascii ''a.x''))"
proof -
  let ?R = "ex_rest (ascii ''/stats'')"
  have x: "clients ex_busy 0 = Some (ex_client ''a'' ''x'' 7 1)" "length (ex_sockid 1) = 5"
    "lc_sockid (ex_client ''a'' ''x'' 7 1) = ex_sockid 1" "lc_prefix_name (ex_client ''a'' ''x'' 7 1) = ascii ''a.x''"
    by (simp_all add: ex_client_def ex_sockid_def dot_join_def ascii_def)
  have r: "(5::nat) \<le> 35" "http_request ?R (c_string [71, 0]) = Some (ascii ''GET'', ascii ''/stats'')" "0 \<in> set ([71, 0] :: bytes)"
    by (simp_all add: ex_rest_def)
  from rest_stats_exact [OF ex_busy_ok(1) r(1) ex_sockets_differ r(2,3), of ex_rest_keys "[1]"]
  show ?thesis
  proof (elim exE conjE)
    fix fs gs
    assume out: "s_on_http ?R ex_busy ex_rest_keys (Some [[1], [71, 0]]) = Inr ([[[1], http_ok ?R (RO
      [(ascii ''brokers'', RA (map (\<lambda>(h, lb). RS (zframe_tojson (lb_sockid lb))) (lcl_br_ht ex_busy))), (ascii ''local'', RO fs),
       (ascii ''distant'', RA (map (\<lambda>(h, dc). RS (dc_name dc)) (dist_cli_ht ex_busy))), (ascii ''subs'', RO gs),
       (ascii ''version'', RS (package_version ?R))])], [[1], []]], 0)"
      and fs: "\<forall>s v. length s = 5 \<longrightarrow> (map_of fs (zframe_tojson s) = Some v \<longleftrightarrow>
       (\<exists>a lc. clients ex_busy a = Some lc \<and> lc_sockid lc = s \<and> v = RS (lc_prefix_name lc)))"
    have "map_of fs (zframe_tojson (ex_sockid 1)) = Some (RS (ascii ''a.x''))"
      unfolding fs [rule_format, OF x(2)] using x by metis
    with out show ?thesis by blast
  qed
qed

section \<open>The keys\<close>

lemma keys_tenants:
  assumes "\<forall>(h, t)\<in>set tks. tenant_of t \<noteq> None" "distinct (map (\<lambda>(h, t). ten_name (the (tenant_of t))) tks)"
  shows "\<exists>ts. rfold (\<lambda>(h, ten) jten. rbind (deref_str (ti_boxk ten)) (\<lambda>boxk. rbind (deref_str (ti_name ten)) (\<lambda>name.
         Inr (json_object_object_add jten name (RS (bin2hex R boxk)))))) tks obj = Inr ts \<and>
     (\<forall>(h, t)\<in>set tks. map_of ts (ten_name (the (tenant_of t))) = Some (RS (bin2hex R (ten_boxk (the (tenant_of t)))))) \<and>
     (\<forall>name. name \<notin> (\<lambda>(h, t). ten_name (the (tenant_of t))) ` set tks \<longrightarrow> map_of ts name = map_of obj name)"
  using assms
proof (induction tks arbitrary: obj)
  case (Cons x tks)
  obtain h t ten where x: "x = (h, t)" "tenant_of t = Some ten" using Cons.prems(1) by (cases x) auto
  then have t: "ti_boxk t = Some (ten_boxk ten)" "ti_name t = Some (ten_name ten)"
    by (auto simp: tenant_of_def split: option.splits)
  show ?case using Cons.IH [of "json_object_object_add obj (ten_name ten) (RS (bin2hex R (ten_boxk ten)))"] Cons.prems
    by (auto simp: x t)
qed simp

text \<open>
  C27. Whoever can reach the REST socket gets the secrets of the broker: a GET of the keys that ends with a NUL byte,
  without any credential, is answered with the broker's private key, and for every tenant the key that the tenant shares
  with the broker; without the NUL byte the handler reads beyond the request, and its behaviour is not defined.
\<close>

theorem rest_discloses_keys:
  assumes "broker_keys k = Some ks" "bk_privkey k = Some sk" "bk_pubkey k = Some pk"
    and "distinct (map (\<lambda>(h, ten). ten_name ten) (tenantkeys ks))"
    and "http_request R (c_string data) = Some (ascii ''GET'', ascii ''/keys'')" "0 \<in> set data"
  shows "\<exists>fs ts. s_on_http R self k (Some [sid, data]) = Inr ([[sid, http_ok R (RO fs)], [sid, []]], 0) \<and>
     map_of fs (ascii ''privkey'') = Some (RS (bin2hex R sk)) \<and> map_of fs (ascii ''tenants'') = Some (RO ts) \<and>
     (\<forall>(h, ten)\<in>set (tenantkeys ks). map_of ts (ten_name ten) = Some (RS (bin2hex R (ten_boxk ten))))"
proof -
  have k: "\<forall>(h, t)\<in>set (bk_tenantkeys k). tenant_of t \<noteq> None" "bk_ddboxk k = Some (ddboxk ks)" "bk_hash k = Some (br_hash ks)"
    "tenantkeys ks = map (\<lambda>(h, t). (h, the (tenant_of t))) (bk_tenantkeys k)"
    using assms(1) by (auto simp: broker_keys_def split: if_splits option.splits)
  have d: "distinct (map (\<lambda>(h, t). ten_name (the (tenant_of t))) (bk_tenantkeys k))"
    using assms(4) unfolding k(4) by (simp add: comp_def case_prod_unfold)
  obtain ts where ts: "rfold (\<lambda>(h, ten) jten. rbind (deref_str (ti_boxk ten)) (\<lambda>boxk. rbind (deref_str (ti_name ten)) (\<lambda>name.
         Inr (json_object_object_add jten name (RS (bin2hex R boxk)))))) (bk_tenantkeys k) [] = Inr ts"
    "\<forall>(h, t)\<in>set (bk_tenantkeys k). map_of ts (ten_name (the (tenant_of t))) = Some (RS (bin2hex R (ten_boxk (the (tenant_of t)))))"
    using keys_tenants [OF k(1) d] by blast
  have ne: "ascii ''/keys'' \<noteq> ascii ''/''" "ascii ''/keys'' \<noteq> ascii ''/stats''" by (simp_all add: ascii_def)
  have "data \<noteq> []" using assms(6) by auto
  have "s_on_http R self k (Some [sid, data]) = Inr ([[sid, http_ok R (RO [(ascii ''version'', RS (package_version R)),
      (ascii ''privkey'', RS (bin2hex R sk)), (ascii ''pubkey'', RS (bin2hex R pk)), (ascii ''ddboxk'', RS (bin2hex R (ddboxk ks))),
      (ascii ''hash'', RS (br_hash ks)), (ascii ''tenants'', RO ts)])], [sid, []]], 0)"
    using assms(6) \<open>data \<noteq> []\<close> ne by (simp add: s_on_http_def assms(2,3,5) json_get_keys_def k(2,3) ts(1) del: ascii_eq)
  then show ?thesis using ts(2) k(4) by - (intro exI conjI, assumption, auto simp: ascii_def)
qed

lemma rest_discloses_keys_witness:
  "\<exists>fs. s_on_http (ex_rest (ascii ''/keys'')) ex_busy ex_rest_keys (Some [[1], [71, 0]]) =
       Inr ([[[1], http_ok (ex_rest (ascii ''/keys'')) (RO fs)], [[1], []]], 0) \<and> map_of fs (ascii ''privkey'') = Some (RS [9])"
proof -
  let ?R = "ex_rest (ascii ''/keys'')"
  have b: "broker_keys ex_rest_keys = Some \<lparr>tenants = [], ddboxk = [7],
      tenantkeys = [(ascii ''ha'', \<lparr>ten_name = ascii ''a'', ten_cookie = 7, ten_boxk = [1]\<rparr>)], br_hash = [6], br_cookie = 5\<rparr>"
    and k: "bk_privkey ex_rest_keys = Some [9]" "bk_pubkey ex_rest_keys = Some [8]"
    by (simp_all add: ex_rest_keys_def broker_keys_def tenant_of_def)
  have r: "http_request ?R (c_string [71, 0]) = Some (ascii ''GET'', ascii ''/keys'')" "0 \<in> set ([71, 0] :: bytes)" "bin2hex ?R [9] = [9]"
    by (simp_all add: ex_rest_def)
  show ?thesis
    using rest_discloses_keys [OF b k, of ?R "[71, 0]" ex_busy "[1]"] r by (simp del: ascii_eq) blast
qed

end
