(* ===== verification/Daemon.thy ===== *)
theory Daemon
  imports Keys Scenario
begin

text \<open>
  The broker program \<open>src/src/ddbroker.c\<close>: its options and its configuration file, which fill in the configuration of
  the theory Config, and the start of the broker; and \<open>dd_broker_set_loglevel\<close> of \<open>broker.c\<close>.
\<close>

section \<open>The program\<close>

datatype dd_loglevel = DD_LOG_ERROR | DD_LOG_WARNING | DD_LOG_NOTICE | DD_LOG_INFO | DD_LOG_DEBUG | DD_LOG_NONE

text \<open>The macros of \<open>ddlog.h\<close> compare levels by their numbers, which makes the levels a linear order.\<close>

fun level_number :: "dd_loglevel \<Rightarrow> nat" where
  "level_number DD_LOG_NONE = 0"
| "level_number DD_LOG_ERROR = 1"
| "level_number DD_LOG_WARNING = 2"
| "level_number DD_LOG_NOTICE = 3"
| "level_number DD_LOG_INFO = 4"
| "level_number DD_LOG_DEBUG = 5"

instantiation dd_loglevel :: linorder
begin

definition less_eq_dd_loglevel :: "dd_loglevel \<Rightarrow> dd_loglevel \<Rightarrow> bool" where
  "less_eq_dd_loglevel a b \<longleftrightarrow> level_number a \<le> level_number b"

definition less_dd_loglevel :: "dd_loglevel \<Rightarrow> dd_loglevel \<Rightarrow> bool" where
  "less_dd_loglevel a b \<longleftrightarrow> level_number a < level_number b"

instance
proof
  fix a b :: dd_loglevel
  show "a \<le> b \<Longrightarrow> b \<le> a \<Longrightarrow> a = b"
    by (cases a; cases b) (simp_all add: less_eq_dd_loglevel_def)
qed (auto simp: less_eq_dd_loglevel_def less_dd_loglevel_def)

end

text \<open>Whether a message of a level is written: for the default, errors, warnings and notices.\<close>

definition logged :: "dd_loglevel \<Rightarrow> dd_loglevel \<Rightarrow> bool" where
  "logged loglevel l \<longleftrightarrow> l \<noteq> DD_LOG_NONE \<and> l \<le> loglevel"

lemma logged_mono: "logged a l \<Longrightarrow> a \<le> b \<Longrightarrow> k \<le> l \<Longrightarrow> k \<noteq> DD_LOG_NONE \<Longrightarrow> logged b k"
  unfolding logged_def by (meson order_trans)

lemma logged_quiet: "\<not> logged DD_LOG_NONE l"
  by (cases l) (simp_all add: logged_def less_eq_dd_loglevel_def)

definition dd_broker_set_loglevel :: "bytes \<Rightarrow> dd_loglevel \<Rightarrow> int \<times> dd_loglevel" where
  "dd_broker_set_loglevel logstr loglevel =
     (if logstr = ascii ''e'' then (0, DD_LOG_ERROR)
      else if logstr = ascii ''w'' then (0, DD_LOG_WARNING)
      else if logstr = ascii ''n'' then (0, DD_LOG_NOTICE)
      else if logstr = ascii ''i'' then (0, DD_LOG_INFO)
      else if logstr = ascii ''d'' then (0, DD_LOG_DEBUG)
      else if logstr = ascii ''q'' then (0, DD_LOG_NONE)
      else (- 1, loglevel))"

text \<open>
  What the program finds outside: the items of a configuration file as CZMQ loads it (an item without a value has
  none), the keys that \<open>read_ddbrokerkeys\<close> makes of a file, whether a file can be opened for writing and whether
  a socket can be created.
\<close>

record host =
  zconfig_load :: "bytes \<Rightarrow> (bytes \<times> bytes option) list option"
  key_file :: "bytes \<Rightarrow> ddbrokerkeys option"
  log_open :: "bytes \<Rightarrow> bool"
  zsock_created :: bool

record daemon =
  d_broker :: broker_setup
  d_loglevel :: dd_loglevel
  d_daemonize :: bool
  d_syslog :: bool
  d_logfp :: "bytes option"

definition d_start :: daemon where
  "d_start = \<lparr>d_broker = dd_broker_new, d_loglevel = DD_LOG_NOTICE, d_daemonize = False, d_syslog = False, d_logfp = None\<rparr>"

text \<open>The calls that both the options and the file lead to. Their results are not looked at.\<close>

definition set_dealer :: "host \<Rightarrow> bytes \<Rightarrow> daemon \<Rightarrow> daemon res" where
  "set_dealer E v d = rbind (dd_broker_set_dealer (zsock_created E) v (d_broker d)) (\<lambda>cf. Inr (d\<lparr>d_broker := cf\<rparr>))"

definition set_scope :: "ext \<Rightarrow> bytes \<Rightarrow> daemon \<Rightarrow> daemon res" where
  "set_scope X v d = rbind (dd_broker_set_scope X v (d_broker d)) (\<lambda>(rc, cf). Inr (d\<lparr>d_broker := cf\<rparr>))"

definition set_keyfile :: "host \<Rightarrow> bytes \<Rightarrow> daemon \<Rightarrow> daemon res" where
  "set_keyfile E v d = rbind (dd_broker_set_keyfile (key_file E v) (d_broker d)) (\<lambda>(rc, cf). Inr (d\<lparr>d_broker := cf\<rparr>))"

definition set_logfile :: "host \<Rightarrow> bytes \<Rightarrow> daemon \<Rightarrow> daemon res" where
  "set_logfile E v d = (if log_open E v then Inr (d\<lparr>d_logfp := Some v\<rparr>) else Inl Proc_exit)"

definition config_item :: "ext \<Rightarrow> host \<Rightarrow> bytes \<times> bytes option \<Rightarrow> daemon \<Rightarrow> daemon res" where
  "config_item X E = (\<lambda>(name, val) d.
     if name = ascii ''dealer'' then rbind (deref_str val) (\<lambda>v. set_dealer E v d)
     else if name = ascii ''scope'' then rbind (deref_str val) (\<lambda>v. set_scope X v d)
     else if name = ascii ''router'' then rbind (deref_str val) (\<lambda>v. Inr (d\<lparr>d_broker := dd_broker_add_router v (d_broker d)\<rparr>))
     else if name = ascii ''rest'' then rbind (deref_str val) (\<lambda>v. Inr (d\<lparr>d_broker := dd_broker_set_rest v (d_broker d)\<rparr>))
     else if name = ascii ''loglevel'' then rbind (deref_str val) (\<lambda>v. Inr (d\<lparr>d_loglevel := snd (dd_broker_set_loglevel v (d_loglevel d))\<rparr>))
     else if name = ascii ''keyfile'' then rbind (deref_str val) (\<lambda>v. set_keyfile E v d)
     else if name = ascii ''syslog'' then Inr (d\<lparr>d_syslog := True\<rparr>)
     else if name = ascii ''daemonize'' then Inr (d\<lparr>d_daemonize := True\<rparr>)
     else if name = ascii ''logfile'' then
       rbind (deref_str val) (\<lambda>v. if v = ascii ''off'' then Inr (d\<lparr>d_logfp := None\<rparr>) else set_logfile E v d)
     else Inr d)"

definition get_config :: "ext \<Rightarrow> host \<Rightarrow> bytes \<Rightarrow> daemon \<Rightarrow> daemon res" where
  "get_config X E conffile d =
     (case zconfig_load E conffile of
        None \<Rightarrow> Inl Proc_exit
      | Some items \<Rightarrow> rfold (config_item X E) items d)"

text \<open>
  One option of the command line, as \<open>getopt\<close> gives it; for \<open>?\<close> the argument is the option that it does not know.
  None is the return from \<open>main\<close>.
\<close>

definition broker_opt :: "ext \<Rightarrow> host \<Rightarrow> char \<times> bytes \<Rightarrow> daemon \<Rightarrow> daemon option res" where
  "broker_opt X E = (\<lambda>(c, optarg) d.
     let next = (\<lambda>m. rbind m (\<lambda>d. Inr (Some d))) in
     if c = CHR ''r'' then Inr (Some (d\<lparr>d_broker := dd_broker_add_router optarg (d_broker d)\<rparr>))
     else if c = CHR ''s'' then next (set_scope X optarg d)
     else if c = CHR ''k'' then next (set_keyfile E optarg d)
     else if c = CHR ''h'' then Inl Proc_exit
     else if c = CHR ''d'' then next (set_dealer E optarg d)
     else if c = CHR ''l'' then Inr (Some (d\<lparr>d_loglevel := snd (dd_broker_set_loglevel optarg (d_loglevel d))\<rparr>))
     else if c = CHR ''w'' then Inr (Some (d\<lparr>d_broker := dd_broker_set_rest optarg (d_broker d)\<rparr>))
     else if c = CHR ''f'' then next (get_config X E optarg d)
     else if c = CHR ''S'' then Inr (Some (d\<lparr>d_syslog := True\<rparr>))
     else if c = CHR ''L'' then next (set_logfile E optarg d)
     else if c = CHR ''D'' then Inr (Some (d\<lparr>d_daemonize := True\<rparr>))
     else if c = CHR ''?'' then
       (if (\<exists>b\<in>set optarg. 32 \<le> b \<and> b < 127) then Inl Proc_exit else Inr None)
     else Inr (Some d))"

text \<open>\<open>main\<close> up to the start of the broker's thread; \<open>n\<close> is the broker's first nonce.\<close>

definition broker_main :: "ext \<Rightarrow> host \<Rightarrow> bytes \<Rightarrow> (char \<times> bytes) list \<Rightarrow> (daemon \<times> dd_broker) option res" where
  "broker_main X E n opts =
     rbind (ofold (broker_opt X E) opts d_start) (\<lambda>r. case r of
       None \<Rightarrow> Inr None
     | Some d \<Rightarrow>
         rbind (dd_broker_actor X n (d_broker d)) (\<lambda>actor. case actor of
           None \<Rightarrow> Inl Proc_exit
         | Some self \<Rightarrow> Inr (Some (d, self))))"

section \<open>File and options\<close>

text \<open>The item of a configuration file that says what an option says.\<close>

definition item_of :: "char \<times> bytes \<Rightarrow> (bytes \<times> bytes option) option" where
  "item_of = (\<lambda>(c, v).
     if c = CHR ''r'' then Some (ascii ''router'', Some v) else if c = CHR ''s'' then Some (ascii ''scope'', Some v)
     else if c = CHR ''k'' then Some (ascii ''keyfile'', Some v) else if c = CHR ''d'' then Some (ascii ''dealer'', Some v)
     else if c = CHR ''l'' then Some (ascii ''loglevel'', Some v) else if c = CHR ''w'' then Some (ascii ''rest'', Some v)
     else if c = CHR ''S'' then Some (ascii ''syslog'', None) else if c = CHR ''D'' then Some (ascii ''daemonize'', None)
     else if c = CHR ''L'' \<and> v \<noteq> ascii ''off'' then Some (ascii ''logfile'', Some v) else None)"

lemma option_as_item:
  assumes "item_of x = Some item"
  shows "broker_opt X E x d = rbind (config_item X E item d) (\<lambda>d. Inr (Some d))"
proof -
  obtain c v where x: "x = (c, v)" by (cases x)
  show ?thesis using assms
    by (auto simp: x item_of_def broker_opt_def config_item_def Let_def ascii_def split: if_splits)
qed

lemma ofold_append: "ofold f (xs @ ys) s = rbind (ofold f xs s) (\<lambda>r. case r of None \<Rightarrow> Inr None | Some s \<Rightarrow> ofold f ys s)"
  by (induction xs arbitrary: s) (auto simp: rbind_def split: sum.splits option.splits)

lemma options_as_file:
  assumes "map item_of opts = map Some items"
  shows "ofold (broker_opt X E) opts d = rbind (rfold (config_item X E) items d) (\<lambda>d. Inr (Some d))"
  using assms
proof (induction opts arbitrary: items d)
  case (Cons x opts)
  then obtain i items' where i: "items = i # items'" "item_of x = Some i" "map item_of opts = map Some items'" by auto
  show ?case using Cons.IH [OF i(3)] by (simp add: i(1) option_as_item [OF i(2)] rbind_def split: sum.split)
qed simp

text \<open>
  C30. A configuration file does what the options would do: at any place of the command line, an option that names a
  file whose items say what some options say, in their order, can be replaced by these options.
\<close>

theorem config_file_as_options:
  assumes "zconfig_load E file = Some items" "map item_of opts = map Some items"
  shows "broker_main X E n (before @ (CHR ''f'', file) # after) = broker_main X E n (before @ opts @ after)"
proof -
  have "ofold (broker_opt X E) [(CHR ''f'', file)] d = ofold (broker_opt X E) opts d" for d
  proof -
    have "broker_opt X E (CHR ''f'', file) d = rbind (rfold (config_item X E) items d) (\<lambda>d. Inr (Some d))"
      by (simp add: broker_opt_def Let_def get_config_def assms(1))
    then show ?thesis by (simp add: options_as_file [OF assms(2)]) (simp add: rbind_def split: sum.split)
  qed
  then have "ofold (broker_opt X E) (before @ [(CHR ''f'', file)] @ after) d = ofold (broker_opt X E) (before @ opts @ after) d" for d
    by (simp only: ofold_append)
  then show ?thesis by (simp add: broker_main_def)
qed

text \<open>The root broker of the theory Examples, started from its options and from a file.\<close>

definition ex_host :: host where
  "ex_host = \<lparr>zconfig_load = (\<lambda>f. if f = ascii ''br0.cfg''
       then Some [(ascii ''router'', Some (ascii ''tcp://h:1001'')), (ascii ''scope'', Some (ascii ''/1/2/3/'')), (ascii ''syslog'', None)]
       else None), key_file = (\<lambda>f. Some ex_keys), log_open = (\<lambda>f. True), zsock_created = True\<rparr>"

abbreviation ex_opts :: "(char \<times> bytes) list" where
  "ex_opts \<equiv> [(CHR ''r'', ascii ''tcp://h:1001''), (CHR ''s'', ascii ''/1/2/3/''), (CHR ''S'', [])]"

lemma ex_options: "ofold (broker_opt ex_ext ex_host) (ex_opts @ [(CHR ''k'', [107])]) d_start =
    Inr (Some (d_start\<lparr>d_broker := ex_setup, d_syslog := True\<rparr>))"
  by code_simp

lemma config_file_as_options_witness:
  "broker_main ex_ext ex_host (replicate NONCEBYTES 0) [(CHR ''f'', ascii ''br0.cfg''), (CHR ''k'', [107])] =
     Inr (Some (d_start\<lparr>d_broker := ex_setup, d_syslog := True\<rparr>, ex_root))"
proof -
  have "zconfig_load ex_host (ascii ''br0.cfg'') =
      Some [(ascii ''router'', Some (ascii ''tcp://h:1001'')), (ascii ''scope'', Some (ascii ''/1/2/3/'')), (ascii ''syslog'', None)]"
    by (simp add: ex_host_def)
  from config_file_as_options [OF this, of ex_opts ex_ext "replicate NONCEBYTES 0" "[]" "[(CHR ''k'', [107])]"]
  have "broker_main ex_ext ex_host (replicate NONCEBYTES 0) [(CHR ''f'', ascii ''br0.cfg''), (CHR ''k'', [107])] =
      broker_main ex_ext ex_host (replicate NONCEBYTES 0) (ex_opts @ [(CHR ''k'', [107])])"
    by (simp add: item_of_def del: ascii_eq)
  then show ?thesis unfolding broker_main_def ex_options by (simp add: ex_root_starts)
qed

end
