(* ===== verification/XXHash64.thy ===== *)
theory XXHash64
  imports XXHash
begin

text \<open>
  The 64-bit hash of \<open>src/src/hash/xxhash.c\<close>: the one-shot \<open>XXH64\<close> and the streaming \<open>XXH64_reset\<close> /
  \<open>XXH64_update\<close> / \<open>XXH64_digest\<close>, as compiled for a little-endian CPU. The library has it, the broker
  does not call it. The two locales of the theory Stripes are interpreted on it as on the 32-bit hash.
\<close>

section \<open>Arithmetic\<close>

definition XXH_rotl64 :: "u64 \<Rightarrow> nat \<Rightarrow> u64" where
  "XXH_rotl64 x r = (push_bit r x OR drop_bit (64 - r) x)"

definition PRIME64_1 :: u64 where "PRIME64_1 = 11400714785074694791"
definition PRIME64_2 :: u64 where "PRIME64_2 = 14029467366897019727"
definition PRIME64_3 :: u64 where "PRIME64_3 = 1609587929392839161"
definition PRIME64_4 :: u64 where "PRIME64_4 = 9650029242287828579"
definition PRIME64_5 :: u64 where "PRIME64_5 = 2870177450012600261"

definition XXH_readLE64 :: "bytes \<Rightarrow> u64" where
  "XXH_readLE64 p = read_le (take 8 p)"

type_synonym lanes64 = "u64 \<times> u64 \<times> u64 \<times> u64"

definition xxh64_init :: "u64 \<Rightarrow> lanes64" where
  "xxh64_init seed = (seed + PRIME64_1 + PRIME64_2, seed + PRIME64_2, seed + 0, seed - PRIME64_1)"

definition xxh64_round :: "u64 \<Rightarrow> bytes \<Rightarrow> u64" where
  "xxh64_round v p = XXH_rotl64 (v + XXH_readLE64 p * PRIME64_2) 31 * PRIME64_1"

fun xxh64_stripe :: "lanes64 \<Rightarrow> bytes \<Rightarrow> lanes64" where
  "xxh64_stripe (v1, v2, v3, v4) p =
     (xxh64_round v1 p, xxh64_round v2 (drop 8 p), xxh64_round v3 (drop 16 p), xxh64_round v4 (drop 24 p))"

definition xxh64_stripes :: "lanes64 \<Rightarrow> bytes \<Rightarrow> lanes64 \<times> bytes" where
  "xxh64_stripes = stripes 32 xxh64_stripe"

text \<open>The lanes are first added up and then mixed in one after the other.\<close>

definition xxh64_mix :: "u64 \<Rightarrow> u64 \<Rightarrow> u64" where
  "xxh64_mix h v = (h XOR XXH_rotl64 (v * PRIME64_2) 31 * PRIME64_1) * PRIME64_1 + PRIME64_4"

fun xxh64_merge :: "lanes64 \<Rightarrow> u64" where
  "xxh64_merge (v1, v2, v3, v4) =
     (let h = XXH_rotl64 v1 1 + XXH_rotl64 v2 7 + XXH_rotl64 v3 12 + XXH_rotl64 v4 18
      in xxh64_mix (xxh64_mix (xxh64_mix (xxh64_mix h v1) v2) v3) v4)"

text \<open>The tail: whole 64-bit words, at most one 32-bit word, single bytes.\<close>

function xxh64_tail8 :: "u64 \<Rightarrow> bytes \<Rightarrow> u64 \<times> bytes" where
  "xxh64_tail8 h p =
     (if 8 \<le> length p
      then let k1 = XXH_rotl64 (XXH_readLE64 p * PRIME64_2) 31 * PRIME64_1
           in xxh64_tail8 (XXH_rotl64 (h XOR k1) 27 * PRIME64_1 + PRIME64_4) (drop 8 p)
      else (h, p))"
  by pat_completeness auto
termination
  by (relation "measure (\<lambda>(h, p). length p)") auto

declare xxh64_tail8.simps [simp del]

definition xxh64_tail4 :: "u64 \<Rightarrow> bytes \<Rightarrow> u64 \<times> bytes" where
  "xxh64_tail4 h p =
     (if 4 \<le> length p
      then (XXH_rotl64 (h XOR ucast (XXH_readLE32 p) * PRIME64_1) 23 * PRIME64_2 + PRIME64_3, drop 4 p)
      else (h, p))"

fun xxh64_tail1 :: "u64 \<Rightarrow> bytes \<Rightarrow> u64" where
  "xxh64_tail1 h [] = h"
| "xxh64_tail1 h (b # p) = xxh64_tail1 (XXH_rotl64 (h XOR ucast b * PRIME64_5) 11 * PRIME64_1) p"

definition xxh64_avalanche :: "u64 \<Rightarrow> u64" where
  "xxh64_avalanche h =
     (let h = h XOR drop_bit 33 h; h = h * PRIME64_2;
          h = h XOR drop_bit 29 h; h = h * PRIME64_3
      in h XOR drop_bit 32 h)"

definition xxh64_finish :: "u64 \<Rightarrow> bytes \<Rightarrow> u64" where
  "xxh64_finish h p =
     (case xxh64_tail8 h p of (h, p) \<Rightarrow> case xxh64_tail4 h p of (h, p) \<Rightarrow> xxh64_avalanche (xxh64_tail1 h p))"

section \<open>One-shot hash\<close>

definition XXH64 :: "bytes \<Rightarrow> u64 \<Rightarrow> u64" where
  "XXH64 input seed =
     (let (vs, p) = (if 32 \<le> length input then xxh64_stripes (xxh64_init seed) input
                     else (xxh64_init seed, input));
          h = (if 32 \<le> length input then xxh64_merge vs else seed + PRIME64_5)
      in xxh64_finish (h + of_nat (length input)) p)"

text \<open>The published hash of the empty input.\<close>

lemma XXH64_empty: "XXH64 [] 0 = 0xEF46DB3751D8E999"
  by code_simp

section \<open>Streaming hash\<close>

record xxh64_state =
  total_len64 :: u64
  xseed64 :: u64
  lanes64 :: lanes64
  mem64 :: bytes
  memsize64 :: u32

definition XXH64_reset :: "xxh64_state \<Rightarrow> u64 \<Rightarrow> xxh64_state" where
  "XXH64_reset st seed =
     st\<lparr>xseed64 := seed, lanes64 := xxh64_init seed, total_len64 := 0, memsize64 := 0\<rparr>"

definition XXH64_update :: "xxh64_state \<Rightarrow> bytes \<Rightarrow> xxh64_state" where
  "XXH64_update st input =
     (let len = length input;
          ms = unat (memsize64 st);
          st = st\<lparr>total_len64 := total_len64 st + of_nat len\<rparr>
      in if ms + len < 32 then
           st\<lparr>mem64 := buf_write (mem64 st) ms input, memsize64 := memsize64 st + of_nat len\<rparr>
         else
           let (st, p) =
                 (if memsize64 st \<noteq> 0 then
                    (let mem = buf_write (mem64 st) ms (take (32 - ms) input)
                     in (st\<lparr>mem64 := mem, lanes64 := xxh64_stripe (lanes64 st) mem, memsize64 := 0\<rparr>,
                         drop (32 - ms) input))
                  else (st, input));
               (st, p) =
                 (if 32 \<le> length p then
                    (let (vs, p') = xxh64_stripes (lanes64 st) p in (st\<lparr>lanes64 := vs\<rparr>, p'))
                  else (st, p))
           in if p \<noteq> [] then
                st\<lparr>mem64 := buf_write (mem64 st) 0 p, memsize64 := of_nat (length p)\<rparr>
              else st)"

definition XXH64_digest :: "xxh64_state \<Rightarrow> u64" where
  "XXH64_digest st =
     (let h = (if 32 \<le> total_len64 st then xxh64_merge (lanes64 st) else xseed64 st + PRIME64_5)
      in xxh64_finish (h + total_len64 st) (take (unat (memsize64 st)) (mem64 st)))"

section \<open>Streaming in pieces\<close>

lemma xxh64_stripe_append: "32 \<le> length p \<Longrightarrow> xxh64_stripe vs (p @ q) = xxh64_stripe vs p"
proof -
  assume "32 \<le> length p"
  then have "xxh64_round v (drop n p @ q) = xxh64_round v (drop n p)" if "n \<le> 24" for v n
    using that by (simp add: xxh64_round_def XXH_readLE64_def)
  from this [of 0] this [of 8] this [of 16] this [of 24] \<open>32 \<le> length p\<close> show ?thesis
    by (cases vs) simp
qed

interpretation xxh64_blocks: striped 32 xxh64_stripe
  by unfold_locales (simp_all add: xxh64_stripe_append)

text \<open>An update is the update of lanes and buffer of the theory Stripes.\<close>

lemma XXH64_update_stripes:
  fixes st y
  defines "ms \<equiv> unat (memsize64 st)"
  defines "m \<equiv> (if memsize64 st \<noteq> 0 then buf_write (mem64 st) ms (take (32 - ms) y) else mem64 st)"
  defines "vs \<equiv> (if memsize64 st \<noteq> 0 then xxh64_stripe (lanes64 st) m else lanes64 st)"
    and "p \<equiv> (if memsize64 st \<noteq> 0 then drop (32 - ms) y else y)"
  assumes "\<not> ms + length y < 32" and "xxh64_stripes vs p = (ws, q)" and "\<not> 32 \<le> length p \<Longrightarrow> ws = vs \<and> q = p"
  shows "XXH64_update st y =
    st\<lparr>total_len64 := total_len64 st + of_nat (length y), lanes64 := ws, mem64 := (if q \<noteq> [] then buf_write m 0 q else m),
       memsize64 := of_nat (length q)\<rparr>"
proof (cases "32 \<le> length p")
  case True
  then show ?thesis
    using assms(1-6) by (cases "memsize64 st = 0"; cases "q = []") (simp_all add: XXH64_update_def Let_def)
next
  case False
  then have "ws = vs" "q = p" using assms(7) by simp_all
  with False show ?thesis
    using assms(1-5) by (cases "memsize64 st = 0"; cases "p = []") (simp_all add: XXH64_update_def Let_def)
qed

lemma XXH64_update_absorb:
  "XXH64_update st y = (case absorb 32 xxh64_stripe (lanes64 st, mem64 st, unat (memsize64 st)) y of (vs, m, n) \<Rightarrow>
     st\<lparr>total_len64 := total_len64 st + of_nat (length y), lanes64 := vs, mem64 := m, memsize64 := of_nat n\<rparr>)"
proof (cases "unat (memsize64 st) + length y < 32")
  case True
  then show ?thesis by (simp add: XXH64_update_def absorb_def Let_def)
next
  case False
  let ?z = "memsize64 st \<noteq> 0"
  define m where "m = (if ?z then buf_write (mem64 st) (unat (memsize64 st)) (take (32 - unat (memsize64 st)) y) else mem64 st)"
  define p where "p = (if ?z then drop (32 - unat (memsize64 st)) y else y)"
  define vs where "vs = (if ?z then xxh64_stripe (lanes64 st) m else lanes64 st)"
  obtain ws q where wq: "xxh64_stripes vs p = (ws, q)" by (cases "xxh64_stripes vs p")
  have short: "ws = vs \<and> q = p" if "\<not> 32 \<le> length p"
    using wq that by (simp add: xxh64_stripes_def stripes_short)
  have nz: "unat (memsize64 st) \<noteq> 0 \<longleftrightarrow> ?z" by (simp add: unat_eq_0)
  have a: "absorb 32 xxh64_stripe (lanes64 st, mem64 st, unat (memsize64 st)) y = (ws, if q \<noteq> [] then buf_write m 0 q else m, length q)"
    unfolding absorb_def prod.case if_not_P [OF False] nz Let_def m_def [symmetric] p_def [symmetric] vs_def [symmetric]
      wq [unfolded xxh64_stripes_def] ..
  show ?thesis unfolding a prod.case
    using XXH64_update_stripes [of st y ws q] False wq short unfolding m_def p_def vs_def by blast
qed

definition xxh64_rep :: "u64 \<Rightarrow> xxh64_state \<Rightarrow> bytes \<Rightarrow> bool" where
  "xxh64_rep seed st x \<longleftrightarrow> xseed64 st = seed \<and> total_len64 st = of_nat (length x) \<and>
     absorbed 32 xxh64_stripe (xxh64_init seed) (lanes64 st, mem64 st, unat (memsize64 st)) x"

lemma xxh64_rep_reset: "length (mem64 st) = 32 \<Longrightarrow> xxh64_rep seed (XXH64_reset st seed) []"
  by (simp add: xxh64_rep_def XXH64_reset_def xxh64_blocks.absorbed_start)

lemma xxh64_rep_update:
  assumes "xxh64_rep seed st x"
  shows "xxh64_rep seed (XXH64_update st y) (x @ y)"
proof -
  obtain vs m n where a: "absorb 32 xxh64_stripe (lanes64 st, mem64 st, unat (memsize64 st)) y = (vs, m, n)"
    by (cases "absorb 32 xxh64_stripe (lanes64 st, mem64 st, unat (memsize64 st)) y")
  have "absorbed 32 xxh64_stripe (xxh64_init seed) (lanes64 st, mem64 st, unat (memsize64 st)) x" using assms by (simp only: xxh64_rep_def)
  from xxh64_blocks.absorbed_step [OF this, of y] have ab: "absorbed 32 xxh64_stripe (xxh64_init seed) (vs, m, n) (x @ y)"
    unfolding a .
  then have "unat (of_nat n :: u32) = n" by (simp add: absorbed_def unat_of_nat take_bit_nat_eq_self)
  then show ?thesis using assms a ab by (simp add: xxh64_rep_def XXH64_update_absorb)
qed

lemma xxh64_digest_rep:
  assumes rep: "xxh64_rep seed st x" and len: "length x < 2 ^ 64"
  shows "XXH64_digest st = XXH64 x seed"
proof -
  from rep have tl: "total_len64 st = of_nat (length x)" and sd: "xseed64 st = seed"
    and strip: "xxh64_stripes (xxh64_init seed) x = (lanes64 st, take (unat (memsize64 st)) (mem64 st))"
    by (simp_all add: xxh64_rep_def absorbed_def xxh64_stripes_def)
  have le: "32 \<le> total_len64 st \<longleftrightarrow> 32 \<le> length x"
    using len by (simp add: tl word_le_nat_alt unat_of_nat take_bit_nat_eq_self)
  have short: "xxh64_stripes (xxh64_init seed) x = (xxh64_init seed, x)" if "\<not> 32 \<le> length x"
    using that by (simp add: xxh64_stripes_def stripes_short)
  show ?thesis
  proof (cases "32 \<le> length x")
    case True
    then show ?thesis using strip le by (simp add: XXH64_digest_def XXH64_def tl Let_def)
  next
    case False
    then have "take (unat (memsize64 st)) (mem64 st) = x" using strip short by simp
    with False le show ?thesis by (simp add: XXH64_digest_def XXH64_def tl sd Let_def)
  qed
qed

interpretation xxh64: stream_hash XXH64_update XXH64_digest "\<lambda>x. XXH64 x seed" "xxh64_rep seed"
  "2 ^ 64" for seed
  by unfold_locales (simp_all add: xxh64_rep_update xxh64_digest_rep)

text \<open>The 64-bit hash of any chunks is the one of their concatenation.\<close>

lemma XXH64_stream_eq_oneshot:
  assumes "length (mem64 st) = 32" and "length (concat chunks) < 2 ^ 64"
  shows "XXH64_digest (fold (\<lambda>c st. XXH64_update st c) chunks (XXH64_reset st seed)) = XXH64 (concat chunks) seed"
  by (rule xxh64.digest_fold [OF xxh64_rep_reset [OF assms(1)] assms(2)])

end
