(* ===== verification/Murmur.thy ===== *)
theory Murmur
  imports Stripes
begin

text \<open>
  The other hash of the library, \<open>murmurhash\<close> of \<open>src/src/hash/murmurhash.c\<close>, which the broker does not call: a loop
  over words of four bytes, a tail of at most three bytes, and a final mix, on a little-endian CPU.
\<close>

definition rotl :: "u32 \<Rightarrow> nat \<Rightarrow> u32" where
  "rotl x r = (push_bit r x OR drop_bit (32 - r) x)"

definition murmur_encode :: "u32 \<Rightarrow> u32" where
  "murmur_encode k = rotl (k * 0xcc9e2d51) 15 * 0x1b873593"

definition murmur_round :: "u32 \<Rightarrow> bytes \<Rightarrow> u32" where
  "murmur_round h p = rotl (h XOR murmur_encode (read_le (take 4 p))) 13 * 5 + 0xe6546b64"

definition murmur_tail :: "u32 \<Rightarrow> bytes \<Rightarrow> u32" where
  "murmur_tail h p =
     (if p = [] then h
      else
        let k = (if 3 \<le> length p then push_bit 16 (ucast (p ! 2)) else 0);
            k = (if 2 \<le> length p then k XOR push_bit 8 (ucast (p ! 1)) else k)
        in h XOR murmur_encode (k XOR ucast (p ! 0)))"

definition murmur_avalanche :: "u32 \<Rightarrow> u32" where
  "murmur_avalanche h =
     (let h = (h XOR drop_bit 16 h) * 0x85ebca6b;
          h = (h XOR drop_bit 13 h) * 0xc2b2ae35
      in h XOR drop_bit 16 h)"

text \<open>The hash of the first \<open>len\<close> bytes of \<open>key\<close>; with fewer there, memory behind them is read.\<close>

definition murmurhash :: "bytes \<Rightarrow> u32 \<Rightarrow> u32 \<Rightarrow> u32 res" where
  "murmurhash key len seed =
     (if length key < unat len then Inl Out_of_bounds
      else case stripes 4 murmur_round seed (take (unat len) key) of
        (h, p) \<Rightarrow> Inr (murmur_avalanche (murmur_tail h p XOR len)))"

interpretation murmur: striped 4 murmur_round
  by unfold_locales (simp_all add: murmur_round_def)

text \<open>The published hashes of the empty input.\<close>

lemma murmurhash_empty: "murmurhash [] 0 0 = Inr 0" "murmurhash [] 0 1 = Inr 0x514E28B7"
  by code_simp+

text \<open>Only the first \<open>len\<close> bytes count.\<close>

lemma murmurhash_prefix:
  assumes "length key = unat len"
  shows "murmurhash (key @ junk) len seed = murmurhash key len seed"
  using assms by (simp add: murmurhash_def)

text \<open>Hashing can be split at any multiple of the word size.\<close>

lemma murmurhash_split:
  assumes "length key = unat len"
  shows "murmurhash key len seed =
    (case stripes 4 murmur_round seed (take n key) of (h, r) \<Rightarrow> case stripes 4 murmur_round h (r @ drop n key) of
       (h, p) \<Rightarrow> Inr (murmur_avalanche (murmur_tail h p XOR len)))"
  using assms murmur.stripes_append [of seed "take n key" "drop n key"]
  by (simp add: murmurhash_def split: prod.split)

end
