(* ===== verification/Threaded.thy ===== *)
theory Threaded
  imports ClientProps
begin

text \<open>
  The client with C callbacks: \<open>dd_new\<close> returns at once, and \<open>ddthread\<close> sets the structure up and runs the
  loop in a thread of its own (\<open>src/src/lib/client.c\<close>). The application calls \<open>dd_subscribe\<close> and the others itself,
  through the pointer that it got; here between two turns of the loop.
\<close>

section \<open>Start and use\<close>

text \<open>
  What is behind the pointer: a structure whose thread has not set it up yet, one that the thread has freed because
  there was no socket or no connection, one without keys, in which socket and subscriptions were not used yet, or a
  running client.
\<close>

datatype dd_handle = Starting | Freed | No_keys | Running dd

definition dd_new :: dd_handle where "dd_new = Starting"

definition ddthread :: "ext \<Rightarrow> bytes \<Rightarrow> bytes \<Rightarrow> dd_keys option \<Rightarrow> bytes \<Rightarrow> bool \<Rightarrow> dd_handle" where
  "ddthread X client_name endpoint ks n created =
     (if \<not> created then Freed
      else if \<not> connect_ok X Dsock endpoint then Freed
      else case ks of
          None \<Rightarrow> No_keys
        | Some ks \<Rightarrow>
            let self = \<lparr>c_socket = True, c_endpoint = endpoint, c_name = client_name, c_timeout = 0,
              c_state = DD_STATE_UNREG, c_registration_loop = 0, c_heartbeat_loop = None, c_cookie = None,
              c_keys = ks, c_sublist = sublist_new, c_nonce = n, c_timers = [], c_timer_count = 0,
              c_running = True, c_out = [CConnect endpoint]\<rparr>
            in case c_timer X 1000 0 Ask_registration self of (i, self) \<Rightarrow>
              Running (c_emit CReader (self\<lparr>c_registration_loop := i\<rparr>)))"

text \<open>The calls of the application.\<close>

datatype user_call =
    U_subscribe bytes bytes
  | U_unsubscribe bytes bytes
  | U_publish bytes bytes
  | U_notify bytes bytes

definition user_call :: "ext \<Rightarrow> user_call \<Rightarrow> dd \<Rightarrow> dd res" where
  "user_call X u self =
     (case u of
        U_subscribe t s \<Rightarrow> rbind (dd_subscribe self t s) (\<lambda>(rc, self). Inr self)
      | U_unsubscribe t s \<Rightarrow> rbind (dd_unsubscribe self t s) (\<lambda>(rc, self). Inr self)
      | U_publish t m \<Rightarrow> rbind (dd_publish X self t m (length m)) (\<lambda>(rc, t, self). Inr self)
      | U_notify t m \<Rightarrow> rbind (dd_notify X self t m (length m)) (\<lambda>(rc, self). Inr self))"

text \<open>
  A call through the pointer. Subscribing starts with the list of subscriptions, publishing and notifying with the keys;
  before the thread has come to it neither is set, and without keys only they are, to NULL.
\<close>

definition handle_call :: "ext \<Rightarrow> user_call \<Rightarrow> dd_handle \<Rightarrow> dd_handle res" where
  "handle_call X u h =
     (case h of
        Starting \<Rightarrow> Inl Uninit_read
      | Freed \<Rightarrow> Inl Use_after_free
      | No_keys \<Rightarrow> (case u of U_publish t m \<Rightarrow> Inl Null_deref | U_notify t m \<Rightarrow> Inl Null_deref | _ \<Rightarrow> Inl Uninit_read)
      | Running self \<Rightarrow> rbind (user_call X u self) (\<lambda>self. Inr (Running self)))"

text \<open>Turns of the loop, without a pipe, and calls of the application.\<close>

inductive threaded_run :: "ext \<Rightarrow> dd \<Rightarrow> dd \<Rightarrow> bool" for X where
  threaded_start: "threaded_run X self self"
| threaded_turn: "threaded_run X self s \<Longrightarrow> c_enabled s inp \<Longrightarrow> \<forall>m. inp \<noteq> C_pipe m \<Longrightarrow> c_handle X inp s = Inr t \<Longrightarrow> threaded_run X self t"
| threaded_call: "threaded_run X self s \<Longrightarrow> c_running s \<Longrightarrow> user_call X u s = Inr t \<Longrightarrow> threaded_run X self t"

section \<open>The same client\<close>

lemma threaded_as_actor:
  "ddthread X name endpoint ks n created = Running self \<longleftrightarrow> dd_actor X name endpoint ks n created = Inr (Some self)"
  by (auto simp: ddthread_def dd_actor_def Let_def split: option.splits prod.splits)

lemma user_call_keeps:
  assumes "c_ok X self"
  shows "defined (user_call X u self) (c_ok X)"
  using keeps_subscribe [OF assms] keeps_messages [OF assms]
  by (cases u) (auto simp: user_call_def case_prod_unfold)

text \<open>Whatever the application calls between the turns, the client keeps the invariant of the actor.\<close>

lemma threaded_keeps:
  assumes "threaded_run X self0 self" "ddthread X name endpoint ks n created = Running self0" "inj (timer_id X)"
  shows "c_ok X self"
  using assms
proof (induction rule: threaded_run.induct)
  case (threaded_start self)
  then show ?case by (auto simp: threaded_as_actor intro: c_ok_start)
next
  case (threaded_turn self s inp t)
  then show ?case using client_keeps [of X s inp] by force
next
  case (threaded_call self s u t)
  then show ?case using user_call_keeps [of X s u] by force
qed

lemma threaded_calls_defined:
  assumes "threaded_run X self0 self" "ddthread X name endpoint ks n created = Running self0" "inj (timer_id X)"
  shows "handle_call X u (Running self) \<noteq> Inl Uninit_read"
  using user_call_keeps [OF threaded_keeps [OF assms], of u] by (auto simp: handle_call_def defined_def rbind_def split: sum.splits)

end
