(* ===== verification/BrokerEnd.thy ===== *)
theory BrokerEnd
  imports Rest Config BrokerInv
begin

text \<open>
  The other way to start a broker, \<open>dd_broker_start\<close>, which runs the loop in the thread of the caller, and the end of a
  broker: the command that stops the actor, and \<open>s_self_destroy\<close> with the release of the tables (\<open>broker.c\<close>,
  \<open>htable.c\<close>).
\<close>

section \<open>Start in the thread of the caller\<close>

text \<open>Whether the REST socket could be bound; without it the broker goes on.\<close>

definition start_httpd :: "restlib \<Rightarrow> bool" where
  "start_httpd R = http_bind_ok R"

text \<open>
  Up to the loop. The configuration is not checked; \<open>ks\<close> are the keys, if there are any. The broker and whether it has the
  REST socket.
\<close>

definition dd_broker_start :: "ext \<Rightarrow> restlib \<Rightarrow> ddbrokerkeys \<Rightarrow> bytes \<Rightarrow> broker_setup \<Rightarrow> (dd_broker \<times> bool) res" where
  "dd_broker_start X R ks n cf =
     rbind (bind_router X cf) (\<lambda>rstrings.
     let self = emit (Reader Rsock) ((broker_fresh ks n cf)\<lparr>rsock := True\<rparr>) in
     rbind (if dealer_connect self \<noteq> None
            then if \<not> dsock self then Inl Assert_fail
                 else case zloop_timer X 1000 Register (emit (Reader Dsock) self) of
                        (i, self) \<Rightarrow> Inr (self\<lparr>reg_loop := i\<rparr>)
            else Inr (self\<lparr>state := DD_STATE_ROOT\<rparr>)) (\<lambda>self.
     let self = snd (zloop_timer X 3000 Check_cli self);
         self = snd (zloop_timer X 1000 Check_br self)
     in rbind (start_pubsub X rstrings self) (\<lambda>self.
        Inr (self, if cf_reststr cf \<noteq> None then start_httpd R else False))))"

text \<open>Both ways lead to the same broker.\<close>

lemma start_as_actor:
  "dd_broker_start X R ks n cf =
     rbind (broker_actor X ks n cf) (\<lambda>self. Inr (self, cf_reststr cf \<noteq> None \<and> start_httpd R))"
  by (simp add: dd_broker_start_def broker_actor_def Let_def rbind_assoc rbind_def split: sum.split)

section \<open>The command to stop\<close>

text \<open>\<open>streq\<close> on the data of a frame, which has no terminator of its own.\<close>

fun frame_streq :: "bytes \<Rightarrow> bytes \<Rightarrow> bool res" where
  "frame_streq [] k = Inl Out_of_bounds"
| "frame_streq (c # d) [] = Inr (c = 0)"
| "frame_streq (c # d) (k # ks) = (if c = k then frame_streq d ks else Inr False)"

definition broker_pipe_msg :: "bytes list \<Rightarrow> int res" where
  "broker_pipe_msg msg =
     rbind (zframe_data (fst (zmsg_pop msg))) (\<lambda>command.
     rbind (frame_streq command (ascii ''$TERM'')) (\<lambda>t.
     if t then Inr (- 1) else if 0 \<in> set command then Inr 0 else Inl Out_of_bounds))"

text \<open>Any command without a terminator is read beyond its end, and \<open>$TERM\<close>, as CZMQ sends it, is one.\<close>

lemma frame_streq_inside: "frame_streq d k = Inr b \<Longrightarrow> b = prefix (k @ [0]) d"
  by (induction d k rule: frame_streq.induct) (auto split: if_splits)

lemma pipe_overreads: "0 \<notin> set command \<Longrightarrow> broker_pipe_msg [command] = Inl Out_of_bounds"
proof -
  assume "0 \<notin> set command"
  then have "frame_streq command k = Inl Out_of_bounds \<or> frame_streq command k = Inr False" for k
    by (induction command k rule: frame_streq.induct) auto
  from this [of "ascii ''$TERM''"] show ?thesis
  proof
    assume "frame_streq command (ascii ''$TERM'') = Inl Out_of_bounds"
    then show ?thesis by (simp add: broker_pipe_msg_def zmsg_pop_def)
  next
    assume "frame_streq command (ascii ''$TERM'') = Inr False"
    then show ?thesis using \<open>0 \<notin> set command\<close> by (simp add: broker_pipe_msg_def zmsg_pop_def)
  qed
qed

section \<open>A client entered by its socket id alone\<close>

text \<open>
  \<open>malloced\<close> is what the new structure contains before the fields are set: the code sets the socket id (without a copy),
  the name and the counter. Nothing calls this operation; it stands here because the release below would meet its node.
\<close>

definition hashtable_insert_local_node :: "ext \<Rightarrow> local_client \<Rightarrow> dd_broker \<Rightarrow> bytes \<Rightarrow> bytes \<Rightarrow> dd_broker" where
  "hashtable_insert_local_node X malloced self sockid name =
     (let a = next_client self in
      self\<lparr>clients := (clients self)(a \<mapsto> malloced\<lparr>lc_sockid := sockid, lc_name := name, lc_timeout := 0\<rparr>),
           next_client := Suc a, lcl_cli_ht := ht_add X (name_hash sockid) a (lcl_cli_ht self)\<rparr>)"

section \<open>Teardown\<close>

text \<open>
  \<open>cds_lfht_destroy\<close> of liburcu destroys a table that is empty and returns an error for another one. The code takes no
  node off the tables before.
\<close>

definition cds_lfht_destroy :: "'a ht \<Rightarrow> int" where
  "cds_lfht_destroy t = (if t = [] then 0 else - 1)"

text \<open>The fields of every client are freed, its structure is not: the result is the structures that stay.\<close>

definition hashtable_local_client_destroy :: "dd_broker \<Rightarrow> (nat list \<times> int) res" where
  "hashtable_local_client_destroy self =
     rbind (rfold (\<lambda>(h, a) left. case clients self a of None \<Rightarrow> Inl Use_after_free | Some lc \<Rightarrow> Inr (left @ [a])) (lcl_cli_ht self) [])
       (\<lambda>left. Inr (left, cds_lfht_destroy (lcl_cli_ht self)))"

definition hashtable_subscribe_destroy :: "dd_broker \<Rightarrow> int" where
  "hashtable_subscribe_destroy self = cds_lfht_destroy (subscribe_ht self)"

text \<open>What is still allocated after \<open>s_self_destroy\<close>: the structures of clients, and the tables by their fields.\<close>

definition s_self_destroy :: "dd_broker \<Rightarrow> (nat list \<times> string list) res" where
  "s_self_destroy self =
     rbind (nn_trie_term (topics_trie self)) (\<lambda>u.
     rbind (hashtable_local_client_destroy self) (\<lambda>(left, rc).
     Inr (left, map fst (filter (\<lambda>(n, rc). rc \<noteq> 0)
       [(''lcl_cli_ht'', rc), (''rev_lcl_cli_ht'', cds_lfht_destroy (rev_lcl_cli_ht self)),
        (''dist_cli_ht'', cds_lfht_destroy (dist_cli_ht self)), (''lcl_br_ht'', cds_lfht_destroy (lcl_br_ht self)),
        (''subscribe_ht'', hashtable_subscribe_destroy self)]))))"

text \<open>
  In a state that the loop reaches, the end is clean: nothing is freed twice or used after it was freed, and what stays
  allocated are the structures of the registered clients and the tables that are not empty.
\<close>

lemma clients_left:
  assumes "\<forall>(h, a)\<in>set t. cl a \<noteq> None"
  shows "rfold (\<lambda>(h, a) left. case cl a of None \<Rightarrow> Inl Use_after_free | Some lc \<Rightarrow> Inr (left @ [a])) t ls = Inr (ls @ map snd t)"
  using assms by (induction t arbitrary: ls) auto

theorem teardown_safe:
  assumes "reg_inv L self" "slot_ok (topics_trie self)"
  shows "\<exists>left tabs. s_self_destroy self = Inr (left, tabs) \<and> set left = dom (clients self) \<and> distinct left \<and>
    (tabs = [] \<longleftrightarrow> clients self = Map.empty \<and> dist_cli_ht self = [] \<and> lcl_br_ht self = [] \<and> subscribe_ht self = [])"
proof -
  have c: "cli_ok L (keys self) (clients self) (next_client self) (lcl_cli_ht self) (rev_lcl_cli_ht self)"
    using assms(1) by (simp add: reg_inv_def)
  note d = cli_okD(1,3,4) [OF c]
  have "\<forall>(h, a)\<in>set (lcl_cli_ht self). clients self a \<noteq> None" using d(2) by (force simp: dom_def)
  then have l: "hashtable_local_client_destroy self = Inr (map snd (lcl_cli_ht self), cds_lfht_destroy (lcl_cli_ht self))"
    using clients_left [of "lcl_cli_ht self" "clients self" "[]"] by (simp add: hashtable_local_client_destroy_def)
  have t: "nn_trie_term (topics_trie self) = Inr ()"
    using assms(2) by (cases "topics_trie self") (simp_all add: nn_trie_term_def node_term_ok)
  have "lcl_cli_ht self = [] \<longleftrightarrow> clients self = Map.empty" "rev_lcl_cli_ht self = [] \<longleftrightarrow> clients self = Map.empty"
    using d(2,3) by (auto simp flip: dom_eq_empty_conv)
  then show ?thesis
    using d(1,2) by (auto simp: s_self_destroy_def t l cds_lfht_destroy_def hashtable_subscribe_destroy_def simp del: dom_eq_empty_conv)
qed

end
