(* ===== verification/CliLine.thy ===== *)
theory CliLine
  imports DD_Prelude
begin

text \<open>
  The line editor of the command-line parser, \<open>src/src/cli_parser/cparser_line.c\<close>: the lines with their cursors, the
  history as a ring of lines, and what each operation writes to the terminal. The editor is related to a line as two
  texts, before and behind the cursor, and the written bytes to what a terminal then shows.
\<close>

section \<open>Lines\<close>

definition CPARSER_MAX_LINES :: nat where "CPARSER_MAX_LINES = 10"
definition CPARSER_MAX_LINE_SIZE :: nat where "CPARSER_MAX_LINE_SIZE = 383"

datatype cparser_result =
    CPARSER_OK
  | CPARSER_NOT_OK
  | CPARSER_ERR_INVALID_PARAMS
  | CPARSER_ERR_NOT_EXIST
  | CPARSER_ERR_OUT_OF_RES
  | CPARSER_ERR_PARSE_ERR
  | CPARSER_ERR_INCOMP_CMD

record cparser_line =
  ln_last :: nat
  ln_current :: nat
  ln_buf :: bytes

text \<open>The line buffering states of \<open>struct cparser_\<close>.\<close>

record cparser_lines =
  max_line :: nat
  cur_line :: nat
  the_lines :: "cparser_line list"

definition this_line :: "cparser_lines \<Rightarrow> cparser_line" where
  "this_line ls = the_lines ls ! cur_line ls"

definition set_line :: "cparser_line \<Rightarrow> cparser_lines \<Rightarrow> cparser_lines" where
  "set_line l ls = ls\<lparr>the_lines := (the_lines ls)[cur_line ls := l]\<rparr>"

abbreviation backspace :: u8 where "backspace \<equiv> 8"
abbreviation bell :: u8 where "bell \<equiv> 7"
abbreviation newline :: u8 where "newline \<equiv> 10"
abbreviation space :: u8 where "space \<equiv> 32"

definition cparser_line_reset :: cparser_line where
  "cparser_line_reset = \<lparr>ln_last = 0, ln_current = 0, ln_buf = replicate (CPARSER_MAX_LINE_SIZE + 1) 0\<rparr>"

section \<open>Operations\<close>

text \<open>\<open>for (n = last; n > current; n--) buf[n] = buf[n - 1]\<close>\<close>

fun shift_up :: "nat \<Rightarrow> nat \<Rightarrow> bytes \<Rightarrow> bytes" where
  "shift_up n cur buf = (if cur < n then shift_up (n - 1) cur (buf[n := buf ! (n - 1)]) else buf)"

text \<open>\<open>for (n = current; n < last; n++) buf[n - 1] = buf[n]\<close>\<close>

function shift_down :: "nat \<Rightarrow> nat \<Rightarrow> bytes \<Rightarrow> bytes" where
  "shift_down n m buf = (if n < m then shift_down (Suc n) m (buf[n - 1 := buf ! n]) else buf)"
  by pat_completeness auto
termination by (relation "measure (\<lambda>(n, m, buf). m - n)") auto

declare shift_up.simps [simp del] shift_down.simps [simp del]

text \<open>The operations return the line and what they write. The character 0 is not inserted.\<close>

definition cparser_line_insert :: "u8 \<Rightarrow> cparser_line \<Rightarrow> cparser_result \<times> cparser_line \<times> bytes" where
  "cparser_line_insert ch l =
     (if ch = 0 then (CPARSER_ERR_INVALID_PARAMS, l, [])
      else if CPARSER_MAX_LINE_SIZE \<le> ln_last l then (CPARSER_ERR_OUT_OF_RES, l, [])
      else
        let buf = shift_up (ln_last l) (ln_current l) (ln_buf l);
            last = Suc (ln_last l);
            buf = buf[last := 0];
            buf = buf[ln_current l := ch];
            current = Suc (ln_current l)
        in (CPARSER_OK, \<lparr>ln_last = last, ln_current = current, ln_buf = buf\<rparr>,
            ch # c_string (drop current buf) @ replicate (last - current) backspace))"

definition cparser_line_delete :: "cparser_line \<Rightarrow> (cparser_result \<times> cparser_line \<times> bytes) res" where
  "cparser_line_delete l =
     (if \<not> ln_current l \<le> ln_last l then Inl Assert_fail
      else if ln_last l = 0 \<or> ln_current l = 0 then Inr (CPARSER_ERR_NOT_EXIST, l, [])
      else
        let buf = shift_down (ln_current l) (ln_last l) (ln_buf l);
            current = ln_current l - 1;
            last = ln_last l - 1;
            buf = buf[last := 0]
        in Inr (CPARSER_OK, \<lparr>ln_last = last, ln_current = current, ln_buf = buf\<rparr>,
            backspace # c_string (drop current buf) @ [space, backspace] @ replicate (last - current) backspace))"

text \<open>\<open>prompt\<close>: what \<open>cparser_print_prompt\<close> writes, when it is to be printed.\<close>

definition cparser_line_print :: "cparser_line \<Rightarrow> bytes option \<Rightarrow> bool \<Rightarrow> bytes" where
  "cparser_line_print l prompt new_line =
     (if new_line then [newline] else []) @ (case prompt of None \<Rightarrow> [] | Some s \<Rightarrow> s) @
     c_string (ln_buf l) @ replicate (ln_last l - ln_current l) backspace"

definition cparser_line_current :: "cparser_lines \<Rightarrow> nat" where
  "cparser_line_current ls = ln_current (this_line ls)"

definition cparser_line_last :: "cparser_lines \<Rightarrow> nat" where
  "cparser_line_last ls = ln_last (this_line ls)"

definition cparser_line_current_char :: "cparser_lines \<Rightarrow> u8" where
  "cparser_line_current_char ls = ln_buf (this_line ls) ! ln_current (this_line ls)"

definition cparser_line_char :: "nat \<Rightarrow> cparser_lines \<Rightarrow> u8 res" where
  "cparser_line_char pos ls =
     (if pos < ln_last (this_line ls) then Inr (ln_buf (this_line ls) ! pos) else Inl Assert_fail)"

definition cparser_line_next_char :: "cparser_line \<Rightarrow> u8 \<times> cparser_line \<times> bytes" where
  "cparser_line_next_char l =
     (if ln_last l = ln_current l then (0, l, [])
      else let retval = ln_buf l ! ln_current l in (retval, l\<lparr>ln_current := Suc (ln_current l)\<rparr>, [retval]))"

definition cparser_line_prev_char :: "cparser_line \<Rightarrow> u8 \<times> cparser_line \<times> bytes" where
  "cparser_line_prev_char l =
     (if ln_current l = 0 then (0, l, [])
      else (backspace, l\<lparr>ln_current := ln_current l - 1\<rparr>, [backspace]))"

text \<open>The history. Every cell of the line is erased with a backspace, a space and a backspace.\<close>

definition erase_line :: "cparser_lines \<Rightarrow> bytes" where
  "erase_line ls = concat (replicate (cparser_line_last ls) [backspace, space, backspace])"

definition cparser_line_next_line :: "cparser_lines \<Rightarrow> cparser_lines \<times> bytes" where
  "cparser_line_next_line ls =
     (let n = Suc (cur_line ls); ls' = ls\<lparr>cur_line := (if max_line ls < n then 0 else n)\<rparr>
      in (ls', erase_line ls @ cparser_line_print (this_line ls') None False))"

definition cparser_line_prev_line :: "cparser_lines \<Rightarrow> cparser_lines \<times> bytes" where
  "cparser_line_prev_line ls =
     (let ls' = ls\<lparr>cur_line := (if cur_line ls = 0 then max_line ls else cur_line ls - 1)\<rparr>
      in (ls', erase_line ls @ cparser_line_print (this_line ls') None False))"

definition cparser_line_advance :: "cparser_lines \<Rightarrow> cparser_lines" where
  "cparser_line_advance ls =
     (let n = Suc (cur_line ls); n = (if CPARSER_MAX_LINES \<le> n then 0 else n);
          ls = ls\<lparr>cur_line := n, max_line := (if max_line ls < n then n else max_line ls)\<rparr>
      in set_line cparser_line_reset ls)"

definition lines_new :: cparser_lines where
  "lines_new = \<lparr>max_line = 0, cur_line = 0, the_lines = replicate CPARSER_MAX_LINES cparser_line_reset\<rparr>"

section \<open>The line as two texts\<close>

text \<open>A line holds a text without NUL, then NULs; the cursor is within the text.\<close>

definition line_ok :: "cparser_line \<Rightarrow> bool" where
  "line_ok l \<longleftrightarrow> ln_current l \<le> ln_last l \<and> ln_last l \<le> CPARSER_MAX_LINE_SIZE \<and>
     length (ln_buf l) = CPARSER_MAX_LINE_SIZE + 1 \<and> 0 \<notin> set (take (ln_last l) (ln_buf l)) \<and>
     drop (ln_last l) (ln_buf l) = replicate (CPARSER_MAX_LINE_SIZE + 1 - ln_last l) 0"

definition before_cursor :: "cparser_line \<Rightarrow> bytes" where
  "before_cursor l = take (ln_current l) (ln_buf l)"

definition after_cursor :: "cparser_line \<Rightarrow> bytes" where
  "after_cursor l = take (ln_last l - ln_current l) (drop (ln_current l) (ln_buf l))"

definition line_text :: "cparser_line \<Rightarrow> bytes" where
  "line_text l = take (ln_last l) (ln_buf l)"

text \<open>The line that holds the two texts.\<close>

definition line_of :: "bytes \<Rightarrow> bytes \<Rightarrow> cparser_line" where
  "line_of a b = \<lparr>ln_last = length a + length b, ln_current = length a,
     ln_buf = a @ b @ replicate (CPARSER_MAX_LINE_SIZE + 1 - (length a + length b)) 0\<rparr>"

lemma line_of_ok: "line_ok (line_of a b) \<longleftrightarrow> length a + length b \<le> CPARSER_MAX_LINE_SIZE \<and> 0 \<notin> set a \<and> 0 \<notin> set b"
  by (auto simp: line_ok_def line_of_def)

lemma line_of_texts [simp]:
  "before_cursor (line_of a b) = a" "after_cursor (line_of a b) = b" "line_text (line_of a b) = a @ b"
  by (simp_all add: before_cursor_def after_cursor_def line_text_def line_of_def)

lemma line_of_fields [simp]: "ln_last (line_of a b) = length a + length b" "ln_current (line_of a b) = length a"
  by (simp_all add: line_of_def)

lemma line_split:
  assumes "line_ok l"
  shows "l = line_of (before_cursor l) (after_cursor l)"
proof -
  have la: "length (before_cursor l) = ln_current l" using assms by (simp add: before_cursor_def line_ok_def)
  have lb: "length (after_cursor l) = ln_last l - ln_current l"
    using assms by (auto simp: after_cursor_def line_ok_def)
  have t: "before_cursor l @ after_cursor l = take (ln_last l) (ln_buf l)"
    using assms by (simp add: before_cursor_def after_cursor_def line_ok_def flip: take_add)
  have "ln_buf l = take (ln_last l) (ln_buf l) @ drop (ln_last l) (ln_buf l)" by simp
  also have "\<dots> = before_cursor l @ after_cursor l @ replicate (CPARSER_MAX_LINE_SIZE + 1 - ln_last l) 0"
    using assms t by (simp add: line_ok_def)
  finally show ?thesis using assms la lb by (simp add: line_of_def line_ok_def)
qed

lemma line_cases:
  assumes "line_ok l"
  obtains a b where "l = line_of a b" "length a + length b \<le> CPARSER_MAX_LINE_SIZE" "0 \<notin> set a" "0 \<notin> set b"
  using assms line_split [OF assms] line_of_ok by metis

lemma line_reset_of: "cparser_line_reset = line_of [] []"
  by (simp add: cparser_line_reset_def line_of_def)

lemma line_reset_ok [simp]: "line_ok cparser_line_reset"
  by (simp add: line_reset_of line_of_ok)

lemma length_shift_up [simp]: "length (shift_up n cur buf) = length buf"
  by (induction n cur buf rule: shift_up.induct) (subst shift_up.simps, auto)

text \<open>Shifting makes room for one character at the cursor.\<close>


lemma shift_up_moves:
  "\<exists>y. shift_up (length a + length b) (length a) (a @ b @ z # zs) = a @ y # b @ zs"
proof (induction b arbitrary: z zs rule: rev_induct)
  case Nil
  then show ?case by (subst shift_up.simps) simp
next
  case (snoc c b)
  have "(a @ (b @ [c]) @ z # zs)[length a + length (b @ [c]) := c] = a @ b @ c # c # zs"
    by (simp add: list_update_append)
  moreover have "(a @ (b @ [c]) @ z # zs) ! (length a + length b) = c" by (simp add: nth_append)
  ultimately have "shift_up (length a + length (b @ [c])) (length a) (a @ (b @ [c]) @ z # zs) =
      shift_up (length a + length b) (length a) (a @ b @ c # c # zs)"
    by (subst shift_up.simps) simp
  then show ?case using snoc.IH [of c "c # zs"] by simp
qed

lemma shift_down_moves:
  "\<exists>y. shift_down (Suc (length a)) (Suc (length a) + length b) (a @ c # b @ zs) = a @ b @ y # zs"
proof (induction b arbitrary: a c)
  case Nil
  then show ?case by (subst shift_down.simps) simp
next
  case (Cons d b)
  have "(a @ c # (d # b) @ zs)[length a := d] = (a @ [d]) @ d # b @ zs" by simp
  moreover have "(a @ c # (d # b) @ zs) ! Suc (length a) = d" by (simp add: nth_append)
  ultimately have "shift_down (Suc (length a)) (Suc (length a) + length (d # b)) (a @ c # (d # b) @ zs) =
      shift_down (Suc (length (a @ [d]))) (Suc (length (a @ [d])) + length b) ((a @ [d]) @ d # b @ zs)"
    by (subst shift_down.simps) simp
  then show ?case using Cons.IH [of "a @ [d]" d] by simp
qed

lemma c_string_text: "0 \<notin> set b \<Longrightarrow> c_string (b @ replicate n 0) = b"
  unfolding c_string_def by (induction b) (cases n; simp)+

text \<open>What the operations do to the two texts.\<close>

lemma insert_text:
  assumes "length a + length b < CPARSER_MAX_LINE_SIZE" "0 \<notin> set b" "ch \<noteq> 0"
  shows "cparser_line_insert ch (line_of a b) =
    (CPARSER_OK, line_of (a @ [ch]) b, ch # b @ replicate (length b) backspace)"
proof -
  define n where "n = CPARSER_MAX_LINE_SIZE - (length a + length b) - 1"
  have n: "CPARSER_MAX_LINE_SIZE + 1 - (length a + length b) = Suc (Suc n)"
    "CPARSER_MAX_LINE_SIZE + 1 - (length (a @ [ch]) + length b) = Suc n"
    using assms(1) by (simp_all add: n_def)
  obtain y where y: "shift_up (length a + length b) (length a) (a @ b @ 0 # replicate (Suc n) 0) = a @ y # b @ replicate (Suc n) 0"
    using shift_up_moves by blast
  have "(a @ y # b @ replicate (Suc n) 0)[Suc (length a + length b) := 0] = a @ y # b @ replicate (Suc n) 0"
    by (simp add: list_update_append)
  with y n assms show ?thesis
    by (simp add: cparser_line_insert_def line_of_def Let_def c_string_text flip: replicate_Suc)
qed

lemma insert_full:
  assumes "CPARSER_MAX_LINE_SIZE \<le> length a + length b" "ch \<noteq> 0"
  shows "cparser_line_insert ch (line_of a b) = (CPARSER_ERR_OUT_OF_RES, line_of a b, [])"
  using assms by (simp add: cparser_line_insert_def line_of_def)

lemma delete_text:
  assumes "length a + length b < CPARSER_MAX_LINE_SIZE" "0 \<notin> set b"
  shows "cparser_line_delete (line_of (a @ [c]) b) =
    Inr (CPARSER_OK, line_of a b, backspace # b @ [space, backspace] @ replicate (length b) backspace)"
proof -
  define n where "n = CPARSER_MAX_LINE_SIZE - (length a + length b) - 1"
  have n: "CPARSER_MAX_LINE_SIZE + 1 - (length a + length b) = Suc (Suc n)"
    "CPARSER_MAX_LINE_SIZE + 1 - (length (a @ [c]) + length b) = Suc n"
    using assms(1) by (simp_all add: n_def)
  obtain y where y: "shift_down (Suc (length a)) (Suc (length a) + length b) (a @ c # b @ replicate (Suc n) 0) =
      a @ b @ y # replicate (Suc n) 0"
    using shift_down_moves by blast
  then have "(shift_down (Suc (length a)) (Suc (length a + length b)) (a @ c # b @ replicate (Suc n) 0))[length a + length b := 0] =
      a @ b @ replicate (Suc (Suc n)) 0"
    by (simp add: list_update_append)
  with n assms show ?thesis
    by (simp add: cparser_line_delete_def line_of_def Let_def c_string_text flip: replicate_Suc)
qed

lemma delete_start: "cparser_line_delete (line_of [] b) = Inr (CPARSER_ERR_NOT_EXIST, line_of [] b, [])"
  by (simp add: cparser_line_delete_def)

lemma next_char_text: "cparser_line_next_char (line_of a (c # b)) = (c, line_of (a @ [c]) b, [c])"
  by (simp add: cparser_line_next_char_def line_of_def nth_append)

lemma next_char_end: "cparser_line_next_char (line_of a []) = (0, line_of a [], [])"
  by (simp add: cparser_line_next_char_def)

lemma prev_char_text: "cparser_line_prev_char (line_of (a @ [c]) b) = (backspace, line_of a (c # b), [backspace])"
  by (simp add: cparser_line_prev_char_def line_of_def)

lemma prev_char_start: "cparser_line_prev_char (line_of [] b) = (0, line_of [] b, [])"
  by (simp add: cparser_line_prev_char_def)

lemmas line_texts = insert_text insert_full delete_text delete_start next_char_text next_char_end prev_char_text prev_char_start

end
