(* ===== verification/CliDisplay.thy ===== *)
theory CliDisplay
  imports CliLine
begin

text \<open>
  What the user sees while editing: the bytes that the line editor writes, as a terminal shows them. The editor knows
  only the backspace, which moves the cursor; it redraws the rest of the line and goes back.
\<close>

section \<open>A terminal\<close>

text \<open>The cells of the row with the cursor, as far as they were written, and the column of the cursor.\<close>

record screen =
  cells :: bytes
  column :: nat

definition screen_put :: "u8 \<Rightarrow> screen \<Rightarrow> screen" where
  "screen_put c s =
     (if c = backspace then s\<lparr>column := column s - 1\<rparr>
      else if c = bell then s
      else if c = newline then \<lparr>cells = [], column = 0\<rparr>
      else \<lparr>cells = take (column s) (cells s) @ c # drop (Suc (column s)) (cells s), column = Suc (column s)\<rparr>)"

definition screen_write :: "bytes \<Rightarrow> screen \<Rightarrow> screen" where
  "screen_write w s = fold screen_put w s"

definition shown :: "bytes \<Rightarrow> bool" where
  "shown w \<longleftrightarrow> (\<forall>c\<in>set w. c \<noteq> backspace \<and> c \<noteq> bell \<and> c \<noteq> newline)"

lemma shown_simps [simp]: "shown []" "shown (c # w) \<longleftrightarrow> c \<noteq> backspace \<and> c \<noteq> bell \<and> c \<noteq> newline \<and> shown w"
  "shown (v @ w) \<longleftrightarrow> shown v \<and> shown w"
  by (auto simp: shown_def)

lemma screen_write_append [simp]: "screen_write (v @ w) s = screen_write w (screen_write v s)"
  by (simp add: screen_write_def)

lemma screen_write_Nil [simp]: "screen_write [] s = s"
  by (simp add: screen_write_def)

lemma screen_write_Cons [simp]: "screen_write (c # w) s = screen_write w (screen_put c s)"
  by (simp add: screen_write_def)

lemma screen_text:
  "shown w \<Longrightarrow> screen_write w \<lparr>cells = p @ old, column = length p\<rparr> =
     \<lparr>cells = p @ w @ drop (length w) old, column = length p + length w\<rparr>"
proof (induction w arbitrary: p old)
  case (Cons c w)
  have "screen_put c \<lparr>cells = p @ old, column = length p\<rparr> = \<lparr>cells = (p @ [c]) @ drop 1 old, column = length (p @ [c])\<rparr>"
    using Cons.prems by (simp add: screen_put_def)
  then show ?case using Cons.IH [of "p @ [c]" "drop 1 old"] Cons.prems by (simp only: screen_write_Cons) simp
qed simp

lemma screen_back: "screen_write (replicate n backspace) s = s\<lparr>column := column s - n\<rparr>"
proof (induction n arbitrary: s)
  case (Suc n)
  show ?case by (simp add: Suc.IH screen_put_def)
qed simp

section \<open>The line on the screen\<close>

text \<open>The row shows what precedes the line, the line and blanks, and the cursor is where the line has it.\<close>

definition shows_line :: "bytes \<Rightarrow> cparser_line \<Rightarrow> screen \<Rightarrow> bool" where
  "shows_line p l s \<longleftrightarrow> (\<exists>k. s = \<lparr>cells = p @ line_text l @ replicate k space, column = length p + ln_current l\<rparr>)"

lemma shows_line_of:
  "shows_line p (line_of a b) s \<longleftrightarrow> (\<exists>k. s = \<lparr>cells = (p @ a) @ b @ replicate k space, column = length (p @ a)\<rparr>)"
  by (simp add: shows_line_def)

text \<open>A line that is shown, in two parts, and the screen that shows it.\<close>

lemma shown_line:
  assumes "line_ok l" "shows_line p l s" "shown (line_text l)"
  obtains a b k where "l = line_of a b" "length a + length b \<le> CPARSER_MAX_LINE_SIZE" "0 \<notin> set a" "0 \<notin> set b" "shown b"
    "s = \<lparr>cells = (p @ a) @ b @ replicate k space, column = length (p @ a)\<rparr>"
proof -
  obtain a b where l: "l = line_of a b" "length a + length b \<le> CPARSER_MAX_LINE_SIZE" "0 \<notin> set a" "0 \<notin> set b"
    using assms(1) by (rule line_cases)
  moreover obtain k where "s = \<lparr>cells = (p @ a) @ b @ replicate k space, column = length (p @ a)\<rparr>"
    using assms(2) by (auto simp: l(1) shows_line_of)
  moreover have "shown b" using assms(3) by (simp add: l(1))
  ultimately show ?thesis using that by blast
qed

lemma insert_shown:
  assumes "line_ok l" "shows_line p l s" "shown (line_text l)" "shown [ch]"
  shows "shows_line p (fst (snd (cparser_line_insert ch l))) (screen_write (snd (snd (cparser_line_insert ch l))) s)"
proof -
  obtain a b k where l: "l = line_of a b" and len: "length a + length b \<le> CPARSER_MAX_LINE_SIZE" and nz: "0 \<notin> set a" "0 \<notin> set b"
    and sb: "shown b" and s: "s = \<lparr>cells = (p @ a) @ b @ replicate k space, column = length (p @ a)\<rparr>"
    using assms(1-3) by (rule shown_line)
  show ?thesis
  proof (cases "ch = 0 \<or> CPARSER_MAX_LINE_SIZE \<le> length a + length b")
    case True
    then have "snd (cparser_line_insert ch l) = (l, [])" by (auto simp: l cparser_line_insert_def)
    then show ?thesis using assms(2) by simp
  next
    case False
    have "screen_write (ch # b) s = \<lparr>cells = (p @ a) @ (ch # b) @ drop (length (ch # b)) (b @ replicate k space), column = length (p @ a) + length (ch # b)\<rparr>"
      unfolding s using assms(4) sb by (intro screen_text) simp
    then have "screen_write (ch # b @ replicate (length b) backspace) s =
        \<lparr>cells = (p @ a @ [ch]) @ b @ replicate (k - 1) space, column = length (p @ a @ [ch])\<rparr>"
      by (simp only: append_Cons [symmetric] screen_write_append screen_back) simp
    then show ?thesis using False nz by (auto simp: l insert_text shows_line_of simp del: screen_write_Cons screen_write_append)
  qed
qed

lemma delete_shown:
  assumes "line_ok l" "shows_line p l s" "shown (line_text l)"
  shows "\<exists>rc l' w. cparser_line_delete l = Inr (rc, l', w) \<and> shows_line p l' (screen_write w s)"
proof -
  obtain a b k where l: "l = line_of a b" and len: "length a + length b \<le> CPARSER_MAX_LINE_SIZE" and nz: "0 \<notin> set a" "0 \<notin> set b"
    and sb: "shown b" and s: "s = \<lparr>cells = (p @ a) @ b @ replicate k space, column = length (p @ a)\<rparr>"
    using assms(1-3) by (rule shown_line)
  show ?thesis
  proof (cases a rule: rev_cases)
    case Nil
    then show ?thesis using assms(2) by (simp add: l delete_start)
  next
    case (snoc a' c)
    have bk: "screen_put backspace s = \<lparr>cells = (p @ a') @ (c # b @ replicate k space), column = length (p @ a')\<rparr>"
      by (simp add: s snoc screen_put_def)
    have "screen_write (b @ [space]) (screen_put backspace s) =
        \<lparr>cells = (p @ a') @ (b @ [space]) @ drop (length (b @ [space])) (c # b @ replicate k space), column = length (p @ a') + length (b @ [space])\<rparr>"
      unfolding bk using sb by (intro screen_text) simp
    then have "screen_write (replicate (Suc (length b)) backspace) (screen_write (b @ [space]) (screen_put backspace s)) =
        \<lparr>cells = (p @ a') @ b @ replicate (Suc k) space, column = length (p @ a')\<rparr>"
      by (simp only: screen_back) simp
    then have "screen_write (backspace # b @ [space, backspace] @ replicate (length b) backspace) s =
        \<lparr>cells = (p @ a') @ b @ replicate (Suc k) space, column = length (p @ a')\<rparr>"
      by simp
    then have "shows_line p (line_of a' b) (screen_write (backspace # b @ [space, backspace] @ replicate (length b) backspace) s)"
      unfolding shows_line_of by blast
    then show ?thesis using len nz(2) by (simp add: l snoc delete_text del: screen_write_Cons screen_write_append)
  qed
qed

lemma next_shown:
  assumes "line_ok l" "shows_line p l s" "shown (line_text l)"
  shows "shows_line p (fst (snd (cparser_line_next_char l))) (screen_write (snd (snd (cparser_line_next_char l))) s)"
proof -
  obtain a b k where l: "l = line_of a b" and len: "length a + length b \<le> CPARSER_MAX_LINE_SIZE" and nz: "0 \<notin> set a" "0 \<notin> set b"
    and sb: "shown b" and s: "s = \<lparr>cells = (p @ a) @ b @ replicate k space, column = length (p @ a)\<rparr>"
    using assms(1-3) by (rule shown_line)
  show ?thesis
  proof (cases b)
    case Nil
    then show ?thesis using assms(2) by (simp add: l next_char_end)
  next
    case (Cons c b')
    then have "screen_write [c] s = \<lparr>cells = (p @ a @ [c]) @ b' @ replicate k space, column = length (p @ a @ [c])\<rparr>"
      using sb by (simp add: s screen_put_def)
    then show ?thesis by (auto simp: l Cons next_char_text shows_line_of simp del: screen_write_Cons)
  qed
qed

lemma prev_shown:
  assumes "line_ok l" "shows_line p l s" "shown (line_text l)"
  shows "shows_line p (fst (snd (cparser_line_prev_char l))) (screen_write (snd (snd (cparser_line_prev_char l))) s)"
proof -
  obtain a b k where l: "l = line_of a b" and len: "length a + length b \<le> CPARSER_MAX_LINE_SIZE" and nz: "0 \<notin> set a" "0 \<notin> set b"
    and sb: "shown b" and s: "s = \<lparr>cells = (p @ a) @ b @ replicate k space, column = length (p @ a)\<rparr>"
    using assms(1-3) by (rule shown_line)
  show ?thesis
  proof (cases a rule: rev_cases)
    case Nil
    then show ?thesis using assms(2) by (simp add: l prev_char_start)
  next
    case (snoc a' c)
    then have "screen_write [backspace] s = \<lparr>cells = (p @ a') @ (c # b) @ replicate k space, column = length (p @ a')\<rparr>"
      by (simp add: s screen_put_def)
    then show ?thesis by (simp only: l snoc prev_char_text shows_line_of fst_conv snd_conv) blast
  qed
qed

text \<open>
  C22. The screen follows the editor: whatever is inserted, deleted or passed over with the arrow keys, anywhere in the
  line, the row keeps showing the line, with the cursor at its place.
\<close>

theorem display_follows:
  assumes "line_ok l" "shows_line p l s" "shown (line_text l)" "shown [ch]"
  shows "shows_line p (fst (snd (cparser_line_insert ch l))) (screen_write (snd (snd (cparser_line_insert ch l))) s) \<and>
    (\<exists>rc l' w. cparser_line_delete l = Inr (rc, l', w) \<and> shows_line p l' (screen_write w s)) \<and>
    shows_line p (fst (snd (cparser_line_next_char l))) (screen_write (snd (snd (cparser_line_next_char l))) s) \<and>
    shows_line p (fst (snd (cparser_line_prev_char l))) (screen_write (snd (snd (cparser_line_prev_char l))) s)"
  using insert_shown [OF assms] delete_shown [OF assms(1-3)] next_shown [OF assms(1-3)] prev_shown [OF assms(1-3)] by blast

lemma display_follows_witness:
  "shows_line [62] (fst (snd (cparser_line_insert 99 (line_of [97] [98]))))
     (screen_write (snd (snd (cparser_line_insert 99 (line_of [97] [98])))) \<lparr>cells = [62, 97, 98], column = 2\<rparr>)"
  using display_follows [of "line_of [97] [98]" "[62]" "\<lparr>cells = [62, 97, 98], column = 2\<rparr>" 99]
  by (simp add: line_of_ok CPARSER_MAX_LINE_SIZE_def shows_line_of)

text \<open>Recalling a line from the end of another: the row shows the recalled line.\<close>

definition rubout :: bytes where "rubout = [backspace, space, backspace]"

lemma screen_rubout:
  "screen_write rubout \<lparr>cells = p @ (t @ [c]) @ replicate k space, column = length p + length (t @ [c])\<rparr> =
     \<lparr>cells = p @ t @ replicate (Suc k) space, column = length p + length t\<rparr>"
  by (simp add: rubout_def screen_put_def)

lemma screen_erase:
  "screen_write (concat (replicate (length t) rubout)) \<lparr>cells = p @ t @ replicate k space, column = length p + length t\<rparr> =
     \<lparr>cells = p @ replicate (length t + k) space, column = length p\<rparr>"
proof (induction t arbitrary: k rule: rev_induct)
  case (snoc c t)
  have "concat (replicate (length (t @ [c])) rubout) = rubout @ concat (replicate (length t) rubout)" by simp
  then show ?case using snoc.IH [of "Suc k"] by (simp only: screen_write_append screen_rubout) simp
qed simp

lemma recall_shown:
  assumes "line_ok l'" "shown (line_text l')" "shows_line p (line_of t []) s"
  shows "shows_line p l' (screen_write (concat (replicate (length t) rubout) @ cparser_line_print l' None False) s)"
proof -
  obtain a b where l: "l' = line_of a b" and nz: "0 \<notin> set (a @ b)" using assms(1) by (auto elim: line_cases)
  obtain k where s: "s = \<lparr>cells = p @ t @ replicate k space, column = length p + length t\<rparr>"
    using assms(3) by (auto simp: shows_line_of)
  have pr: "cparser_line_print l' None False = (a @ b) @ replicate (length b) backspace"
    using c_string_text [OF nz] by (simp add: l cparser_line_print_def line_of_def)
  have "screen_write (a @ b) \<lparr>cells = p @ replicate (length t + k) space, column = length p\<rparr> =
      \<lparr>cells = p @ (a @ b) @ drop (length (a @ b)) (replicate (length t + k) space), column = length p + length (a @ b)\<rparr>"
    using assms(2) by (intro screen_text) (simp add: l)
  then show ?thesis
    by (simp only: pr s screen_write_append screen_erase screen_back) (auto simp: l shows_line_of)
qed

text \<open>
  From another place of the line, the cells to the left of the cursor are erased, those before the line among them,
  and what is to the right stays: here with the cursor on the first of two characters, behind a prompt.
\<close>

lemma recall_from_start:
  "shows_line [62] (line_of [] [97, 98]) \<lparr>cells = [62, 97, 98], column = 1\<rparr> \<and>
   screen_write (rubout @ rubout) \<lparr>cells = [62, 97, 98], column = 1\<rparr> = \<lparr>cells = [space, 97, 98], column = 0\<rparr>"
  by (simp add: shows_line_of rubout_def screen_put_def)

end
