(* ===== verification/CliTokens.thy ===== *)
theory CliTokens
  imports CliLine
begin

text \<open>
  The nodes of a command tree (\<open>cparser_priv.h\<close>, \<open>cparser_token.h\<close>) and the functions of
  \<open>src/src/cli_parser/cparser_token.c\<close> that match a token against a node and read its value. A token is the
  characters typed so far.
\<close>

section \<open>The command tree\<close>

datatype cparser_node_type =
    CPARSER_NODE_ROOT
  | CPARSER_NODE_END
  | CPARSER_NODE_KEYWORD
  | CPARSER_NODE_STRING
  | CPARSER_NODE_UINT
  | CPARSER_NODE_UINT64
  | CPARSER_NODE_INT
  | CPARSER_NODE_INT64
  | CPARSER_NODE_HEX
  | CPARSER_NODE_HEX64
  | CPARSER_NODE_FLOAT
  | CPARSER_NODE_MACADDR
  | CPARSER_NODE_IPV4ADDR
  | CPARSER_NODE_FILE
  | CPARSER_NODE_LIST

text \<open>
  What \<open>param\<close> points to: a text, the keywords of a list, or, at the end of a command, its glue function, which is
  given by name. The children of a node are in the order of their sibling pointers.
\<close>

datatype 'g node_param = No_param | Text bytes | Keywords "bytes list" | Glue 'g

datatype 'g cparser_node =
  Node (n_type: cparser_node_type) (n_flags: u32) (n_param: "'g node_param") (n_desc: "bytes option")
    (n_children: "'g cparser_node list")

definition CPARSER_NODE_FLAGS_OPT_START :: u32 where "CPARSER_NODE_FLAGS_OPT_START = 1"
definition CPARSER_NODE_FLAGS_OPT_END :: u32 where "CPARSER_NODE_FLAGS_OPT_END = 2"
definition CPARSER_NODE_FLAGS_OPT_PARTIAL :: u32 where "CPARSER_NODE_FLAGS_OPT_PARTIAL = 4"
definition CPARSER_NODE_FLAGS_HIDDEN :: u32 where "CPARSER_NODE_FLAGS_HIDDEN = 8"

text \<open>\<open>NODE_USABLE\<close>: hidden nodes are for the privileged mode only.\<close>

definition node_usable :: "bool \<Rightarrow> 'g cparser_node \<Rightarrow> bool" where
  "node_usable priv n \<longleftrightarrow> priv \<or> n_flags n AND CPARSER_NODE_FLAGS_HIDDEN = 0"

text \<open>\<open>param\<close> read as a string; the pointer to something else would be read as characters.\<close>

definition param_text :: "'g cparser_node \<Rightarrow> bytes res" where
  "param_text n = (case n_param n of Text s \<Rightarrow> Inr s | No_param \<Rightarrow> Inl Null_deref | _ \<Rightarrow> Inl Out_of_bounds)"

definition param_keywords :: "'g cparser_node \<Rightarrow> bytes list res" where
  "param_keywords n =
     (case n_param n of Keywords [] \<Rightarrow> Inl Assert_fail | Keywords ks \<Rightarrow> Inr ks | No_param \<Rightarrow> Inl Assert_fail | _ \<Rightarrow> Inl Out_of_bounds)"

section \<open>Characters and comparisons\<close>

definition isdigit :: "u8 \<Rightarrow> bool" where "isdigit c \<longleftrightarrow> 48 \<le> c \<and> c \<le> 57"

definition isxdigit :: "u8 \<Rightarrow> bool" where
  "isxdigit c \<longleftrightarrow> isdigit c \<or> 97 \<le> c \<and> c \<le> 102 \<or> 65 \<le> c \<and> c \<le> 70"

text \<open>\<open>strncmp(a, b, n) == 0\<close>\<close>

definition strncmp_eq :: "nat \<Rightarrow> bytes \<Rightarrow> bytes \<Rightarrow> bool" where
  "strncmp_eq n a b \<longleftrightarrow> take n (c_string a) = take n (c_string b)"

lemma strncmp_prefix: "0 \<notin> set a \<Longrightarrow> 0 \<notin> set b \<Longrightarrow> strncmp_eq (length a) a b \<longleftrightarrow> prefix a b"
  by (auto simp: strncmp_eq_def c_string_id take_is_prefix prefix_def) (metis append_take_drop_id)

section \<open>Matching\<close>

text \<open>Each function returns its result and \<open>is_complete\<close>.\<close>

type_synonym match_result = "(cparser_result \<times> bool) res"

definition cparser_match_root :: "bytes \<Rightarrow> match_result" where
  "cparser_match_root token = Inl Assert_fail"

definition cparser_match_end :: "bytes \<Rightarrow> match_result" where
  "cparser_match_end token = Inr (CPARSER_NOT_OK, False)"

definition cparser_match_keyword :: "bytes \<Rightarrow> 'g cparser_node \<Rightarrow> match_result" where
  "cparser_match_keyword token node =
     rbind (param_text node) (\<lambda>param.
     if length token > length param then Inr (CPARSER_NOT_OK, False)
     else if strncmp_eq (length token) token param then Inr (CPARSER_OK, length token = length param)
     else Inr (CPARSER_NOT_OK, False))"

definition cparser_match_string :: "bytes \<Rightarrow> match_result" where
  "cparser_match_string token = Inr (CPARSER_OK, True)"

abbreviation ch_x :: u8 where "ch_x \<equiv> 120"
abbreviation ch_0 :: u8 where "ch_0 \<equiv> 48"
abbreviation ch_plus :: u8 where "ch_plus \<equiv> 43"
abbreviation ch_minus :: u8 where "ch_minus \<equiv> 45"
abbreviation ch_dot :: u8 where "ch_dot \<equiv> 46"
abbreviation ch_colon :: u8 where "ch_colon \<equiv> 58"

definition cparser_match_uint :: "bytes \<Rightarrow> match_result" where
  "cparser_match_uint token =
     (if token = [] then Inl Assert_fail
      else if \<not> isdigit (token ! 0) then Inr (CPARSER_NOT_OK, False)
      else if length token = 1 then Inr (CPARSER_OK, True)
      else if token ! 1 = ch_x \<and> token ! 0 \<noteq> ch_0 then Inr (CPARSER_NOT_OK, False)
      else if token ! 1 \<noteq> ch_x \<and> \<not> isdigit (token ! 1) then Inr (CPARSER_NOT_OK, False)
      else let is_dec = (token ! 1 \<noteq> ch_x) in
        if length token = 2 then Inr (CPARSER_OK, is_dec)
        else if list_all (if is_dec then isdigit else isxdigit) (drop 2 token) then Inr (CPARSER_OK, True)
        else Inr (CPARSER_NOT_OK, False))"

definition cparser_match_int :: "bytes \<Rightarrow> match_result" where
  "cparser_match_int token =
     (if token = [] then Inl Assert_fail
      else if \<not> isdigit (token ! 0) \<and> token ! 0 \<noteq> ch_minus \<and> token ! 0 \<noteq> ch_plus then Inr (CPARSER_NOT_OK, False)
      else if length token = 1 then Inr (CPARSER_OK, isdigit (token ! 0))
      else if list_all isdigit (drop 1 token) then Inr (CPARSER_OK, True)
      else Inr (CPARSER_NOT_OK, False))"

definition cparser_match_hex :: "bytes \<Rightarrow> match_result" where
  "cparser_match_hex token =
     (if token = [] then Inl Assert_fail
      else if token ! 0 \<noteq> ch_0 then Inr (CPARSER_NOT_OK, False)
      else if length token = 1 then Inr (CPARSER_OK, False)
      else if token ! 1 \<noteq> ch_x then Inr (CPARSER_NOT_OK, False)
      else if length token = 2 then Inr (CPARSER_OK, False)
      else if list_all isxdigit (drop 2 token) then Inr (CPARSER_OK, True)
      else Inr (CPARSER_NOT_OK, False))"

text \<open>The loop over the digits; the point may come once.\<close>

fun float_digits :: "bool \<Rightarrow> bytes \<Rightarrow> cparser_result \<times> bool" where
  "float_digits has_dec_pt [] = (CPARSER_OK, True)"
| "float_digits has_dec_pt (c # cs) =
     (if c = ch_dot then (if has_dec_pt then (CPARSER_NOT_OK, False) else float_digits True cs)
      else if \<not> isdigit c then (CPARSER_NOT_OK, True)
      else float_digits has_dec_pt cs)"

definition cparser_match_float :: "bytes \<Rightarrow> match_result" where
  "cparser_match_float token =
     (if token = [] then Inl Assert_fail
      else
        let signed = (token ! 0 = ch_plus \<or> token ! 0 = ch_minus); rest = (if signed then drop 1 token else token) in
        if signed \<and> length token = 1 then Inr (CPARSER_OK, False)
        else if rest ! 0 = ch_dot then
          (if length token = 2 then Inr (CPARSER_OK, False) else Inr (float_digits True rest))
        else if \<not> isdigit (rest ! 0) then Inr (CPARSER_NOT_OK, False)
        else Inr (float_digits False rest))"

text \<open>Digits and colons seen; None when the token does not match, else whether it is complete.\<close>

fun mac_digits :: "nat \<Rightarrow> nat \<Rightarrow> bytes \<Rightarrow> bool option" where
  "mac_digits num_digit num_colon [] = Some (num_colon = 5 \<and> 0 < num_digit)"
| "mac_digits num_digit num_colon (c # cs) =
     (if num_digit = 0 then (if isxdigit c then mac_digits 1 num_colon cs else None)
      else if c = ch_colon then (if Suc num_colon > 5 then None else mac_digits 0 (Suc num_colon) cs)
      else if num_digit = 1 \<and> isxdigit c then mac_digits 2 num_colon cs
      else None)"

definition of_scan :: "bool option \<Rightarrow> match_result" where
  "of_scan r = Inr (case r of None \<Rightarrow> (CPARSER_NOT_OK, False) | Some c \<Rightarrow> (CPARSER_OK, c))"

definition cparser_match_macaddr :: "bytes \<Rightarrow> match_result" where
  "cparser_match_macaddr token = of_scan (mac_digits 0 0 token)"

text \<open>\<open>strncmp(a, "255", 3) > 0\<close> for three characters\<close>

definition above_255 :: "bytes \<Rightarrow> bool" where
  "above_255 a \<longleftrightarrow> a ! 0 > 50 \<or> a ! 0 = 50 \<and> (a ! 1 > 53 \<or> a ! 1 = 53 \<and> a ! 2 > 53)"

text \<open>\<open>grp\<close>: the digits since the last dot.\<close>

fun ipv4_digits :: "bytes \<Rightarrow> nat \<Rightarrow> bytes \<Rightarrow> bool option" where
  "ipv4_digits grp num_dot [] = Some (num_dot = 3 \<and> grp \<noteq> [])"
| "ipv4_digits grp num_dot (c # cs) =
     (if grp \<noteq> [] \<and> c = ch_dot then (if Suc num_dot > 3 then None else ipv4_digits [] (Suc num_dot) cs)
      else if \<not> isdigit c \<or> length grp = 3 then None
      else if length grp = 2 \<and> above_255 (grp @ [c]) then None
      else ipv4_digits (grp @ [c]) num_dot cs)"

definition cparser_match_ipv4addr :: "bytes \<Rightarrow> match_result" where
  "cparser_match_ipv4addr token = of_scan (ipv4_digits [] 0 token)"

definition cparser_match_file :: "bytes \<Rightarrow> match_result" where
  "cparser_match_file token = Inr (CPARSER_OK, True)"

definition cparser_match_list :: "bytes \<Rightarrow> 'g cparser_node \<Rightarrow> match_result" where
  "cparser_match_list token node =
     rbind (param_keywords node) (\<lambda>ks.
     let num_matches = length (filter (strncmp_eq (length token) token) ks) in
     Inr (if num_matches \<noteq> 0 then CPARSER_OK else CPARSER_NOT_OK, num_matches = 1))"

text \<open>\<open>cparser_match_fn_tbl\<close>\<close>

definition cparser_match_fn :: "bytes \<Rightarrow> 'g cparser_node \<Rightarrow> match_result" where
  "cparser_match_fn token node =
     (case n_type node of
        CPARSER_NODE_ROOT \<Rightarrow> cparser_match_root token
      | CPARSER_NODE_END \<Rightarrow> cparser_match_end token
      | CPARSER_NODE_KEYWORD \<Rightarrow> cparser_match_keyword token node
      | CPARSER_NODE_STRING \<Rightarrow> cparser_match_string token
      | CPARSER_NODE_UINT \<Rightarrow> cparser_match_uint token
      | CPARSER_NODE_UINT64 \<Rightarrow> cparser_match_uint token
      | CPARSER_NODE_INT \<Rightarrow> cparser_match_int token
      | CPARSER_NODE_INT64 \<Rightarrow> cparser_match_int token
      | CPARSER_NODE_HEX \<Rightarrow> cparser_match_hex token
      | CPARSER_NODE_HEX64 \<Rightarrow> cparser_match_hex token
      | CPARSER_NODE_FLOAT \<Rightarrow> cparser_match_float token
      | CPARSER_NODE_MACADDR \<Rightarrow> cparser_match_macaddr token
      | CPARSER_NODE_IPV4ADDR \<Rightarrow> cparser_match_ipv4addr token
      | CPARSER_NODE_FILE \<Rightarrow> cparser_match_file token
      | CPARSER_NODE_LIST \<Rightarrow> cparser_match_list token node)"

section \<open>Values\<close>

text \<open>
  The decimal and hexadecimal loops over a word of 32 or of 64 bits: \<open>new\<close> as they leave it, or None when the check for
  overflow fails. The result of the functions below is the return code and what they store.
\<close>

fun uint_digits :: "bytes \<Rightarrow> 'w::len word \<Rightarrow> 'w word option res" where
  "uint_digits [] old = Inr (Some old)"
| "uint_digits (c # cs) old =
     (if \<not> isdigit c then Inl Assert_fail
      else let d = ucast (c - 48); new = old * 10 + d in
        if (new - d) div 10 \<noteq> old then Inr None else uint_digits cs new)"

definition cparser_get_uint_internal :: "bytes \<Rightarrow> (cparser_result \<times> 'w::len word) res" where
  "cparser_get_uint_internal token =
     rbind (uint_digits token 0) (\<lambda>r. Inr (case r of None \<Rightarrow> (CPARSER_NOT_OK, 0) | Some v \<Rightarrow> (CPARSER_OK, v)))"

definition hex_value :: "u8 \<Rightarrow> 'w::len word res" where
  "hex_value c =
     (if isdigit c then Inr (ucast (c - 48)) else if 97 \<le> c \<and> c \<le> 102 then Inr (ucast (c - 97) + 10)
      else if 65 \<le> c \<and> c \<le> 70 then Inr (ucast (c - 65) + 10) else Inl Assert_fail)"

fun hex_digits :: "bytes \<Rightarrow> 'w::len word \<Rightarrow> 'w word option res" where
  "hex_digits [] old = Inr (Some old)"
| "hex_digits (c # cs) old =
     rbind (hex_value c) (\<lambda>d.
     let new = push_bit 4 old + d in
     if drop_bit 4 (new - d) \<noteq> old then Inr None else hex_digits cs new)"

definition cparser_get_hex :: "bytes \<Rightarrow> (cparser_result \<times> 'w::len word) res" where
  "cparser_get_hex token =
     (if token = [] then Inr (CPARSER_NOT_OK, 0)
      else if \<not> (length token > 2 \<and> token ! 0 = ch_0 \<and> token ! 1 = ch_x) then Inl Assert_fail
      else rbind (hex_digits (drop 2 token) 0)
        (\<lambda>r. Inr (case r of None \<Rightarrow> (CPARSER_NOT_OK, 0) | Some v \<Rightarrow> (CPARSER_OK, v))))"

definition cparser_get_uint :: "bytes \<Rightarrow> (cparser_result \<times> 'w::len word) res" where
  "cparser_get_uint token =
     (if token = [] then Inr (CPARSER_NOT_OK, 0)
      else if 1 < length token \<and> token ! 1 = ch_x then cparser_get_hex token
      else cparser_get_uint_internal token)"

text \<open>
  \<open>limit\<close> is the largest negative magnitude, \<open>0x80000000\<close> for 32 bits; converted to a signed integer it is its own
  negation, which overflows.
\<close>

definition cparser_get_int :: "'w::len itself \<Rightarrow> bytes \<Rightarrow> (cparser_result \<times> int) res" where
  "cparser_get_int w token =
     (if token = [] then Inr (CPARSER_NOT_OK, 0)
      else
        let neg = (token ! 0 = ch_minus); init_pos = (if neg \<or> token ! 0 = ch_plus then 1 else 0);
            limit = 2 ^ (LENGTH('w) - 1) in
        rbind (cparser_get_uint_internal (drop init_pos token) :: (cparser_result \<times> 'w word) res) (\<lambda>(rc, tmp).
        if rc \<noteq> CPARSER_OK then Inr (CPARSER_NOT_OK, 0)
        else if \<not> neg then (if uint tmp > limit - 1 then Inr (CPARSER_NOT_OK, 0) else Inr (CPARSER_OK, uint tmp))
        else if uint tmp > limit then Inr (CPARSER_NOT_OK, 0)
        else if uint tmp = limit then Inl Signed_overflow
        else Inr (CPARSER_OK, - uint tmp)))"

text \<open>\<open>cparser_get_string\<close>: the buffer of the token, which is then read as a string.\<close>

definition cparser_get_string :: "nat \<Rightarrow> bytes \<Rightarrow> cparser_result \<times> bytes option" where
  "cparser_get_string token_len buf =
     (if token_len = 0 then (CPARSER_NOT_OK, None) else (CPARSER_OK, Some buf))"

text \<open>\<open>cparser_get_list\<close>; None when nothing is stored, NULL when no keyword fits.\<close>

definition cparser_get_list :: "bytes \<Rightarrow> 'g cparser_node option \<Rightarrow> (cparser_result \<times> bytes option option) res" where
  "cparser_get_list token node =
     (case node of
        None \<Rightarrow> Inr (CPARSER_NOT_OK, None)
      | Some node \<Rightarrow>
          if n_type node \<noteq> CPARSER_NODE_LIST then Inl Assert_fail
          else
            rbind (case n_param node of Keywords ks \<Rightarrow> Inr ks | No_param \<Rightarrow> Inr [] | _ \<Rightarrow> Inl Out_of_bounds) (\<lambda>ks.
            case filter (\<lambda>k. strncmp_eq (min (length k) (length token)) token k) ks of
              [] \<Rightarrow> Inr (CPARSER_NOT_OK, Some None)
            | k # _ \<Rightarrow> Inr (CPARSER_OK, Some (Some k))))"

end
