(* ===== verification/CliValues.thy ===== *)
theory CliValues
  imports CliTokens
begin

text \<open>
  What the value functions of the command-line parser compute, against the numbers that their tokens denote; and tokens
  that no input can complete.
\<close>

section \<open>Unsigned numbers\<close>

definition dec_value :: "bytes \<Rightarrow> nat" where
  "dec_value ds = fold (\<lambda>c n. 10 * n + unat (c - 48)) ds 0"

lemma dec_value_snoc [simp]: "dec_value (ds @ [c]) = 10 * dec_value ds + unat (c - 48)"
  by (simp add: dec_value_def)

lemma digit_value: "isdigit c \<Longrightarrow> unat (c - 48) < 10"
proof -
  assume "isdigit c"
  then have "48 \<le> unat c" "unat c \<le> 57" "unat (c - 48) = unat c - 48"
    by (simp_all add: isdigit_def word_le_nat_alt unat_sub)
  then show ?thesis by linarith
qed

lemma times_10_check:
  fixes old d :: "'w::len word"
  assumes "4 \<le> LENGTH('w)"
  shows "(old * 10 + d - d) div 10 = old \<longleftrightarrow> 10 * unat old < 2 ^ LENGTH('w)"
proof -
  have p: "(16::nat) \<le> 2 ^ LENGTH('w)" using power_increasing [OF assms, of "2::nat"] by simp
  have ten: "take_bit LENGTH('w) (10 :: nat) = 10" using p by (simp add: take_bit_eq_mod)
  have e: "unat (old * 10 div 10) = (10 * unat old) mod 2 ^ LENGTH('w) div 10"
    by (simp add: unat_div unat_word_ariths ten mult.commute)
  show ?thesis
  proof
    assume "(old * 10 + d - d) div 10 = old"
    then have u: "(10 * unat old) mod 2 ^ LENGTH('w) div 10 = unat old" using e by simp
    show "10 * unat old < 2 ^ LENGTH('w)"
    proof (rule ccontr)
      assume "\<not> 10 * unat old < 2 ^ LENGTH('w)"
      then have "(10 * unat old) mod 2 ^ LENGTH('w) \<le> 10 * unat old - 2 ^ LENGTH('w)"
        by (metis le_mod_geq linorder_not_less mod_less_eq_dividend)
      then have "(10 * unat old) mod 2 ^ LENGTH('w) < 10 * unat old" using p \<open>\<not> _\<close> by linarith
      then show False using u by (metis div_less_iff_less_mult less_irrefl mult.commute zero_less_numeral)
    qed
  next
    assume "10 * unat old < 2 ^ LENGTH('w)"
    then have "unat (old * 10 div 10) = unat old" using e by simp
    then show "(old * 10 + d - d) div 10 = old" by (simp add: word_unat_eq_iff)
  qed
qed

lemma uint_digits_snoc:
  assumes "list_all isdigit ds" "isdigit c"
  shows "uint_digits (ds @ [c]) (old :: 'w::len word) =
    rbind (uint_digits ds old) (\<lambda>r. case r of None \<Rightarrow> Inr None | Some v \<Rightarrow> uint_digits [c] v)"
  using assms by (induction ds arbitrary: old) (auto simp: Let_def)

lemma uint_digits_step:
  assumes "4 \<le> LENGTH('w::len)" "isdigit c"
  shows "uint_digits [c] (old :: 'w word) =
    Inr (if 10 * unat old < 2 ^ LENGTH('w) then Some (old * 10 + of_nat (unat (c - 48))) else None)"
proof -
  have "ucast (c - 48) = (of_nat (unat (c - 48)) :: 'w word)" by simp
  then show ?thesis using assms(2) times_10_check [OF assms(1), of old "ucast (c - 48)"] by (simp add: Let_def)
qed

lemma uint_digits_value:
  assumes "4 \<le> LENGTH('w::len)" "list_all isdigit ds" "dec_value ds < 2 ^ LENGTH('w)"
  shows "uint_digits ds (0 :: 'w word) = Inr (Some (of_nat (dec_value ds)))"
  using assms(2,3)
proof (induction ds rule: rev_induct)
  case (snoc c ds)
  have c: "isdigit c" and ds: "list_all isdigit ds" and small: "10 * dec_value ds < 2 ^ LENGTH('w)"
    using snoc.prems by auto
  then have u: "unat (of_nat (dec_value ds) :: 'w word) = dec_value ds" by (simp add: unat_of_nat)
  have "of_nat (dec_value ds) * 10 + of_nat (unat (c - 48)) = (of_nat (dec_value (ds @ [c])) :: 'w word)"
    by (simp only: dec_value_snoc of_nat_add of_nat_mult of_nat_numeral mult.commute)
  then show ?case
    using uint_digits_snoc [OF ds c, of "0 :: 'w word"] snoc.IH [OF ds] small uint_digits_step [OF assms(1) c, of "of_nat (dec_value ds)"] u
    by simp
qed (simp add: dec_value_def)

text \<open>
  One digit more than fits: the check looks at the product with ten only, so that the last digit can still wrap.
\<close>

lemma get_uint_exact:
  assumes "4 \<le> LENGTH('w::len)" "list_all isdigit ds" "ds \<noteq> []" "dec_value ds div 10 < 2 ^ LENGTH('w)"
  shows "cparser_get_uint_internal ds =
    Inr (if 10 * (dec_value ds div 10) < 2 ^ LENGTH('w) then (CPARSER_OK, of_nat (dec_value ds) :: 'w word) else (CPARSER_NOT_OK, 0))"
proof -
  obtain es c where ds: "ds = es @ [c]" using assms(3) by (cases ds rule: rev_cases) auto
  have c: "isdigit c" and es: "list_all isdigit es" using assms(2) ds by auto
  have v: "dec_value ds div 10 = dec_value es" using digit_value [OF c] by (simp add: ds)
  have u: "unat (of_nat (dec_value es) :: 'w word) = dec_value es" using assms(4) v by (simp add: unat_of_nat)
  have "of_nat (dec_value es) * 10 + of_nat (unat (c - 48)) = (of_nat (dec_value ds) :: 'w word)"
    by (simp only: ds dec_value_snoc of_nat_add of_nat_mult of_nat_numeral mult.commute)
  moreover have "uint_digits es (0 :: 'w word) = Inr (Some (of_nat (dec_value es)))"
    using uint_digits_value [OF assms(1) es] assms(4) v by simp
  ultimately have "uint_digits ds (0 :: 'w word) =
      Inr (if 10 * dec_value es < 2 ^ LENGTH('w) then Some (of_nat (dec_value ds)) else None)"
    using uint_digits_snoc [OF es c, of "0 :: 'w word"] uint_digits_step [OF assms(1) c, of "of_nat (dec_value es)"] u
    by (simp add: ds)
  then show ?thesis by (simp add: cparser_get_uint_internal_def v)
qed

text \<open>
  C34. A decimal number is read exactly, or refused, up to one digit more than 32 and 64 bits hold, with one exception:
  the four numbers from 2 to the 32 (to the 64) on are accepted as 0 to 3.
\<close>

theorem decimal_range:
  assumes "list_all isdigit ds" "ds \<noteq> []"
  shows "(dec_value ds < 10 * 2 ^ 32 \<longrightarrow> cparser_get_uint_internal ds =
      Inr (if dec_value ds < 2 ^ 32 + 4 then (CPARSER_OK, of_nat (dec_value ds) :: u32) else (CPARSER_NOT_OK, 0))) \<and>
    (dec_value ds < 10 * 2 ^ 64 \<longrightarrow> cparser_get_uint_internal ds =
      Inr (if dec_value ds < 2 ^ 64 + 4 then (CPARSER_OK, of_nat (dec_value ds) :: u64) else (CPARSER_NOT_OK, 0)))"
proof -
  have ten: "10 * (n div 10) < 10 * k + 6 \<longleftrightarrow> n < 10 * k + 10" for n k :: nat
    using div_less_iff_less_mult [of 10 n "Suc k"] by auto
  have "10 * (n div 10) < (2::nat) ^ 32 \<longleftrightarrow> n < 2 ^ 32 + 4" for n using ten [of n 429496729] by simp
  moreover have "10 * (n div 10) < (2::nat) ^ 64 \<longleftrightarrow> n < 2 ^ 64 + 4" for n using ten [of n 1844674407370955161] by simp
  moreover have "dec_value ds < 10 * 2 ^ k \<Longrightarrow> dec_value ds div 10 < 2 ^ k" for k
    by (simp add: less_mult_imp_div_less mult.commute)
  ultimately show ?thesis
    using get_uint_exact [where 'w = 32, OF _ assms] get_uint_exact [where 'w = 64, OF _ assms] by simp
qed

lemma decimal_range_witness:
  "(cparser_get_uint_internal (ascii ''4294967295'') :: (cparser_result \<times> u32) res) = Inr (CPARSER_OK, 4294967295) \<and>
   (cparser_get_uint_internal (ascii ''4294967297'') :: (cparser_result \<times> u32) res) = Inr (CPARSER_OK, 1)"
  using decimal_range [of "ascii ''4294967295''"] decimal_range [of "ascii ''4294967297''"]
  by (simp add: ascii_def isdigit_def dec_value_def)

text \<open>Further digits go on from the wrapped value.\<close>

lemma decimal_wraps: "(cparser_get_uint_internal (ascii ''42949672965'') :: (cparser_result \<times> u32) res) = Inr (CPARSER_OK, 5)"
  by (simp add: cparser_get_uint_internal_def ascii_def isdigit_def)

text \<open>The least number of 32 bits overflows when its sign is put back.\<close>

lemma least_int:
  "cparser_get_int TYPE(32) (ascii ''-2147483648'') = Inl Signed_overflow \<and>
   cparser_get_int TYPE(32) (ascii ''-2147483647'') = Inr (CPARSER_OK, - 2147483647)"
  by (simp add: cparser_get_int_def cparser_get_uint_internal_def ascii_def isdigit_def Let_def)

section \<open>Hexadecimal numbers\<close>

text \<open>Four bits are shifted out and in, so that here the check is exact.\<close>

lemma hex_check:
  fixes old d :: "'w::len word"
  assumes "4 < LENGTH('w)"
  shows "drop_bit 4 (push_bit 4 old + d - d) = old \<longleftrightarrow> uint old < 2 ^ (LENGTH('w) - 4)"
proof -
  have "drop_bit 4 (push_bit 4 old) = take_bit (LENGTH('w) - 4) old"
    by (rule bit_word_eqI) (auto simp: bit_simps)
  then show ?thesis by (simp add: word_uint_eq_iff unsigned_take_bit_eq take_bit_int_eq_self_iff)
qed

section \<open>Tokens that cannot be completed\<close>

text \<open>
  A number of the form .5: the point is seen twice, once before the loop and once in it, so that the third character,
  or a point alone, is refused.
\<close>

lemma point_first:
  "cparser_match_float (ch_dot # c # d # cs) = Inr (CPARSER_NOT_OK, False)" "cparser_match_float [ch_dot] = Inr (CPARSER_NOT_OK, False)"
  by (simp_all add: cparser_match_float_def Let_def)

text \<open>Of two keywords of a list the one that starts the other is never unique, and is what the other is read as.\<close>

lemma list_prefix_keyword:
  assumes "0 \<notin> set k" "0 \<notin> set r" "r \<noteq> []" "n_param node = Keywords [k, k @ r]" "n_type node = CPARSER_NODE_LIST"
  shows "cparser_match_list k node = Inr (CPARSER_OK, False)"
    and "cparser_match_list (k @ r) node = Inr (CPARSER_OK, True)"
    and "cparser_get_list (k @ r) (Some node) = Inr (CPARSER_OK, Some (Some k))"
  using assms by (auto simp: cparser_match_list_def param_keywords_def Let_def cparser_get_list_def strncmp_eq_def c_string_id)

end
