(* ===== verification/CliFsm.thy ===== *)
theory CliFsm
  imports CliTokens
begin

text \<open>
  The state machine that takes a command line apart as it is typed, \<open>src/src/cli_parser/cparser_fsm.c\<close>: a stack of
  tokens, the node reached in the command tree, and a state for each of the nine combinations with erasing, a space and
  another character.
\<close>

section \<open>State\<close>

definition CPARSER_MAX_TOKEN_SIZE :: nat where "CPARSER_MAX_TOKEN_SIZE = 256"
definition CPARSER_MAX_NUM_TOKENS :: nat where "CPARSER_MAX_NUM_TOKENS = 32"

datatype cparser_state = CPARSER_STATE_WHITESPACE | CPARSER_STATE_TOKEN | CPARSER_STATE_ERROR

record 'g cparser_token =
  begin_ptr :: int
  token_len :: nat
  tk_buf :: bytes
  tk_parent :: "'g cparser_node option"
  tk_node :: "'g cparser_node option"

text \<open>The FSM states of \<open>struct cparser_\<close>, with the current node.\<close>

record 'g cparser_fsm =
  cur_node :: "'g cparser_node option"
  fsm_state :: cparser_state
  token_tos :: nat
  current_pos :: nat
  last_good :: int
  tokens :: "'g cparser_token list"

text \<open>The special characters of the configuration.\<close>

record cparser_chars =
  ch_complete :: u8
  ch_erase :: u8
  ch_del :: u8
  ch_help :: u8

definition token_new :: "'g cparser_token" where
  "token_new = \<lparr>begin_ptr = - 1, token_len = 0, tk_buf = replicate CPARSER_MAX_TOKEN_SIZE 0, tk_parent = None, tk_node = None\<rparr>"

definition cur_token :: "'g cparser_fsm \<Rightarrow> 'g cparser_token" where
  "cur_token f = tokens f ! token_tos f"

definition set_token :: "nat \<Rightarrow> 'g cparser_token \<Rightarrow> 'g cparser_fsm \<Rightarrow> 'g cparser_fsm" where
  "set_token n t f = f\<lparr>tokens := (tokens f)[n := t]\<rparr>"

definition token_text :: "'g cparser_token \<Rightarrow> bytes" where
  "token_text t = take (token_len t) (tk_buf t)"

text \<open>A write into the buffer of a token.\<close>

definition token_put :: "nat \<Rightarrow> u8 \<Rightarrow> 'g cparser_token \<Rightarrow> 'g cparser_token res" where
  "token_put i c t = (if i < length (tk_buf t) then Inr (t\<lparr>tk_buf := (tk_buf t)[i := c]\<rparr>) else Inl Out_of_bounds)"

definition INSERT_TOK_STK :: "u8 \<Rightarrow> 'g cparser_token \<Rightarrow> 'g cparser_token res" where
  "INSERT_TOK_STK ch t = rbind (token_put (token_len t) ch t) (\<lambda>t. Inr (t\<lparr>token_len := token_len t + 1\<rparr>))"

definition DELETE_TOK_STK :: "'g cparser_token \<Rightarrow> 'g cparser_token res" where
  "DELETE_TOK_STK t = (let t = t\<lparr>token_len := token_len t - 1\<rparr> in token_put (token_len t) 0 t)"

section \<open>Matching among the children\<close>

text \<open>
  The loop over the children: the number of matches, the node that is kept and whether it is complete. A later match
  takes the place of an earlier one when it is complete and the earlier is not.
\<close>

definition match_child :: "bool \<Rightarrow> bytes \<Rightarrow> 'g cparser_node \<Rightarrow> nat \<times> 'g cparser_node option \<times> bool \<Rightarrow>
    (nat \<times> 'g cparser_node option \<times> bool) res" where
  "match_child priv token child = (\<lambda>(num_matches, match, is_complete).
     if \<not> node_usable priv child then Inr (num_matches, match, is_complete)
     else
       rbind (cparser_match_fn token child) (\<lambda>(rc, local_is_complete).
       if rc \<noteq> CPARSER_OK then Inr (num_matches, match, is_complete)
       else if match = None \<or> \<not> is_complete \<and> local_is_complete then Inr (Suc num_matches, Some child, local_is_complete)
       else Inr (Suc num_matches, match, is_complete)))"

text \<open>A keyword that is the only match counts as complete (\<open>SHORTEST_UNIQUE_KEYWORD\<close>).\<close>

definition cparser_match :: "bool \<Rightarrow> bytes \<Rightarrow> 'g cparser_node option \<Rightarrow> (nat \<times> 'g cparser_node option \<times> bool) res" where
  "cparser_match priv token parent =
     (case parent of
        None \<Rightarrow> Inl Assert_fail
      | Some parent \<Rightarrow>
          rbind (rfold (match_child priv token) (n_children parent) (0, None, False)) (\<lambda>(num_matches, match, is_complete).
          Inr (num_matches, match, is_complete \<or>
            num_matches = 1 \<and> (case match of None \<Rightarrow> False | Some m \<Rightarrow> n_type m = CPARSER_NODE_KEYWORD))))"

section \<open>The nine steps\<close>

text \<open>Each returns the new state, whether the character was processed, and the machine.\<close>

type_synonym 'g fsm_step = "(cparser_state \<times> bool \<times> 'g cparser_fsm) res"

definition cparser_ws_erase :: "'g cparser_fsm \<Rightarrow> 'g fsm_step" where
  "cparser_ws_erase f =
     (if 0 < current_pos f then
        let f = f\<lparr>current_pos := current_pos f - 1\<rparr>; n = token_tos f - 1; token = tokens f ! n in
        if 0 < token_tos f \<and> begin_ptr token + int (token_len token) \<ge> int (current_pos f) then
          let f = set_token n (token\<lparr>tk_parent := None\<rparr>) (f\<lparr>cur_node := tk_parent token\<rparr>);
              token = cur_token f in
          rbind (token_put 0 0 (token\<lparr>begin_ptr := - 1, token_len := 0, tk_parent := None, tk_node := None\<rparr>)) (\<lambda>token.
          Inr (CPARSER_STATE_TOKEN, True, (set_token (token_tos f) token f)\<lparr>token_tos := n\<rparr>))
        else Inr (CPARSER_STATE_WHITESPACE, True, f)
      else Inr (CPARSER_STATE_WHITESPACE, False, f))"

definition cparser_ws_space :: "'g cparser_fsm \<Rightarrow> 'g fsm_step" where
  "cparser_ws_space f = Inr (CPARSER_STATE_WHITESPACE, True, f)"

definition cparser_ws_char :: "bool \<Rightarrow> u8 \<Rightarrow> 'g cparser_fsm \<Rightarrow> 'g fsm_step" where
  "cparser_ws_char priv ch f =
     rbind (cparser_match priv [ch] (cur_node f)) (\<lambda>(num_matches, match, is_complete).
     if num_matches = 0 then Inr (CPARSER_STATE_ERROR, True, f)
     else
       rbind (INSERT_TOK_STK ch ((cur_token f)\<lparr>begin_ptr := int (current_pos f)\<rparr>)) (\<lambda>token.
       Inr (CPARSER_STATE_TOKEN, True, set_token (token_tos f) token f)))"

definition cparser_tok_erase :: "'g cparser_fsm \<Rightarrow> 'g fsm_step" where
  "cparser_tok_erase f =
     rbind (DELETE_TOK_STK (cur_token f)) (\<lambda>token.
     let f = f\<lparr>current_pos := current_pos f - 1\<rparr> in
     if token_len token = 0 then
       Inr (CPARSER_STATE_WHITESPACE, True, set_token (token_tos f) (token\<lparr>begin_ptr := - 1\<rparr>) f)
     else Inr (CPARSER_STATE_TOKEN, True, set_token (token_tos f) token f))"

definition cparser_tok_space :: "bool \<Rightarrow> 'g cparser_fsm \<Rightarrow> 'g fsm_step" where
  "cparser_tok_space priv f =
     rbind (cparser_match priv (token_text (cur_token f)) (cur_node f)) (\<lambda>(num_matches, match, is_complete).
     if 1 \<le> num_matches \<and> is_complete then
       let token = (cur_token f)\<lparr>tk_parent := cur_node f, tk_node := match\<rparr> in
       rbind (token_put (token_len token) 0 token) (\<lambda>token.
       let f = (set_token (token_tos f) token f)\<lparr>token_tos := Suc (token_tos f)\<rparr> in
       if \<not> token_tos f < CPARSER_MAX_NUM_TOKENS then Inl Assert_fail
       else if begin_ptr (cur_token f) \<noteq> - 1 \<or> token_len (cur_token f) \<noteq> 0 \<or> tk_parent (cur_token f) \<noteq> None then Inl Assert_fail
       else Inr (CPARSER_STATE_WHITESPACE, True, f\<lparr>cur_node := match\<rparr>))
     else Inr (CPARSER_STATE_ERROR, True, f))"

definition cparser_tok_char :: "bool \<Rightarrow> u8 \<Rightarrow> 'g cparser_fsm \<Rightarrow> 'g fsm_step" where
  "cparser_tok_char priv ch f =
     (let token = cur_token f in
      if token_len token < CPARSER_MAX_TOKEN_SIZE then
        rbind (INSERT_TOK_STK ch token) (\<lambda>token.
        rbind (cparser_match priv (token_text token) (cur_node f)) (\<lambda>(num_matches, match, is_complete).
        if num_matches = 0 then
          rbind (DELETE_TOK_STK token) (\<lambda>token. Inr (CPARSER_STATE_ERROR, True, set_token (token_tos f) token f))
        else Inr (CPARSER_STATE_TOKEN, True, set_token (token_tos f) token f)))
      else Inr (CPARSER_STATE_ERROR, True, f))"

definition cparser_err_erase :: "'g cparser_fsm \<Rightarrow> 'g fsm_step" where
  "cparser_err_erase f =
     (if \<not> 0 < current_pos f then Inl Assert_fail
      else
        let f = f\<lparr>current_pos := current_pos f - 1\<rparr>; token = cur_token f in
        if last_good f + 1 = int (current_pos f) then
          (if begin_ptr token + int (token_len token) \<ge> int (current_pos f) then Inr (CPARSER_STATE_TOKEN, True, f)
           else Inr (CPARSER_STATE_WHITESPACE, True, f))
        else Inr (CPARSER_STATE_ERROR, True, f))"

definition cparser_err_space :: "'g cparser_fsm \<Rightarrow> 'g fsm_step" where
  "cparser_err_space f = Inr (CPARSER_STATE_ERROR, True, f)"

definition cparser_err_char :: "'g cparser_fsm \<Rightarrow> 'g fsm_step" where
  "cparser_err_char f = Inr (CPARSER_STATE_ERROR, True, f)"

datatype input_type = In_erase | In_space | In_char

text \<open>\<open>cparser_state_func_tbl\<close>\<close>

definition cparser_state_func :: "bool \<Rightarrow> u8 \<Rightarrow> cparser_state \<Rightarrow> input_type \<Rightarrow> 'g cparser_fsm \<Rightarrow> 'g fsm_step" where
  "cparser_state_func priv ch s i f =
     (case (s, i) of
        (CPARSER_STATE_WHITESPACE, In_erase) \<Rightarrow> cparser_ws_erase f
      | (CPARSER_STATE_WHITESPACE, In_space) \<Rightarrow> cparser_ws_space f
      | (CPARSER_STATE_WHITESPACE, In_char) \<Rightarrow> cparser_ws_char priv ch f
      | (CPARSER_STATE_TOKEN, In_erase) \<Rightarrow> cparser_tok_erase f
      | (CPARSER_STATE_TOKEN, In_space) \<Rightarrow> cparser_tok_space priv f
      | (CPARSER_STATE_TOKEN, In_char) \<Rightarrow> cparser_tok_char priv ch f
      | (CPARSER_STATE_ERROR, In_erase) \<Rightarrow> cparser_err_erase f
      | (CPARSER_STATE_ERROR, In_space) \<Rightarrow> cparser_err_space f
      | (CPARSER_STATE_ERROR, In_char) \<Rightarrow> cparser_err_char f)"

definition erases :: "cparser_chars \<Rightarrow> u8 \<Rightarrow> bool" where
  "erases cs ch \<longleftrightarrow> ch = ch_erase cs \<or> ch = ch_del cs"

text \<open>The state function and what follows it in \<open>cparser_fsm_input\<close>.\<close>

definition fsm_apply :: "bool \<Rightarrow> u8 \<Rightarrow> input_type \<Rightarrow> 'g cparser_fsm \<Rightarrow> 'g cparser_fsm res" where
  "fsm_apply priv ch i f =
     rbind (cparser_state_func priv ch (fsm_state f) i f) (\<lambda>(s, ch_processed, f).
     let f = f\<lparr>fsm_state := s\<rparr>;
         f = (if ch_processed \<and> i \<noteq> In_erase then f\<lparr>current_pos := Suc (current_pos f)\<rparr> else f)
     in Inr (if ch_processed \<and> s \<noteq> CPARSER_STATE_ERROR then f\<lparr>last_good := int (current_pos f) - 1\<rparr> else f))"

text \<open>The machine and what it writes: a bell when its line is full.\<close>

definition cparser_fsm_input :: "cparser_chars \<Rightarrow> bool \<Rightarrow> u8 \<Rightarrow> 'g cparser_fsm \<Rightarrow> ('g cparser_fsm \<times> bytes) res" where
  "cparser_fsm_input cs priv ch f =
     (if erases cs ch then
        (if \<not> 0 < current_pos f then Inl Assert_fail else rbind (fsm_apply priv ch In_erase f) (\<lambda>f. Inr (f, [])))
      else if current_pos f \<ge> CPARSER_MAX_LINE_SIZE - 1 then Inr (f, [bell])
      else rbind (fsm_apply priv ch (if ch = space then In_space else In_char) f) (\<lambda>f. Inr (f, [])))"

definition cparser_token_stack_reset :: "'g cparser_fsm \<Rightarrow> 'g cparser_fsm" where
  "cparser_token_stack_reset f =
     f\<lparr>last_good := - 1, current_pos := 0, token_tos := 0, tokens := replicate CPARSER_MAX_NUM_TOKENS token_new\<rparr>"

definition cparser_fsm_reset :: "'g cparser_node \<Rightarrow> 'g cparser_fsm \<Rightarrow> 'g cparser_fsm" where
  "cparser_fsm_reset root f =
     (cparser_token_stack_reset f)\<lparr>cur_node := Some root, fsm_state := CPARSER_STATE_WHITESPACE\<rparr>"

lemma fsm_reset_any: "cparser_fsm_reset root f = cparser_fsm_reset root g"
  by (cases f; cases g) (simp add: cparser_fsm_reset_def cparser_token_stack_reset_def)

end
