(* ===== verification/CliUndo.thy ===== *)
theory CliUndo
  imports CliFsm
begin

text \<open>
  Erasing undoes typing in the state machine of the command line: after any text, the machine is in the state that the
  text leads to, however it was typed. The states are described by the stack of closed tokens and the token being typed;
  the node that a closed token records, which the machine itself does not read, is left out of the comparison.
\<close>

section \<open>The reachable states\<close>

definition forget :: "'g cparser_fsm \<Rightarrow> 'g cparser_fsm" where
  "forget f = f\<lparr>tokens := map (\<lambda>t. t\<lparr>tk_node := None\<rparr>) (tokens f)\<rparr>"

definition typed_token :: "int \<Rightarrow> bytes \<Rightarrow> 'g cparser_token" where
  "typed_token b w = \<lparr>begin_ptr = b, token_len = length w, tk_buf = w @ replicate (CPARSER_MAX_TOKEN_SIZE - length w) 0,
     tk_parent = None, tk_node = None\<rparr>"

definition closed_token :: "int \<times> bytes \<times> 'g cparser_node option \<Rightarrow> 'g cparser_token" where
  "closed_token = (\<lambda>(b, w, n). (typed_token b w)\<lparr>tk_parent := n\<rparr>)"

text \<open>The last closed token comes first in \<open>st\<close>.\<close>

definition machine :: "'g cparser_node option \<Rightarrow> cparser_state \<Rightarrow> (int \<times> bytes \<times> 'g cparser_node option) list \<Rightarrow>
    int \<times> bytes \<Rightarrow> nat \<Rightarrow> int \<Rightarrow> 'g cparser_fsm" where
  "machine n s st = (\<lambda>(b, w) p g. \<lparr>cur_node = n, fsm_state = s, token_tos = length st, current_pos = p, last_good = g,
     tokens = map closed_token (rev st) @ typed_token b w # replicate (CPARSER_MAX_NUM_TOKENS - 1 - length st) token_new\<rparr>)"

abbreviation no_token :: "int \<times> bytes" where "no_token \<equiv> (- 1, [])"

text \<open>The tokens end before the position, and each before the next begins.\<close>

fun stack_ok :: "int \<Rightarrow> (int \<times> bytes \<times> 'g cparser_node option) list \<Rightarrow> bool" where
  "stack_ok p [] = True"
| "stack_ok p ((b, w, n) # st) \<longleftrightarrow> w \<noteq> [] \<and> length w < CPARSER_MAX_TOKEN_SIZE \<and> b + int (length w) < p \<and> stack_ok b st"

lemma stack_ok_mono: "stack_ok p st \<Longrightarrow> p \<le> q \<Longrightarrow> stack_ok q st"
  by (cases "(p, st)" rule: stack_ok.cases) auto

definition word_ok :: "nat \<Rightarrow> int \<times> bytes \<Rightarrow> bool" where
  "word_ok p = (\<lambda>(b, w). w \<noteq> [] \<and> length w \<le> CPARSER_MAX_TOKEN_SIZE \<and> b + int (length w) = int p)"

inductive fsm_inv :: "'g cparser_fsm \<Rightarrow> bool" where
  inv_ws: "length st < CPARSER_MAX_NUM_TOKENS \<Longrightarrow> stack_ok (int p) st \<Longrightarrow>
    fsm_inv (machine n CPARSER_STATE_WHITESPACE st no_token p (int p - 1))"
| inv_token: "length st < CPARSER_MAX_NUM_TOKENS \<Longrightarrow> stack_ok b st \<Longrightarrow> word_ok p (b, w) \<Longrightarrow>
    fsm_inv (machine n CPARSER_STATE_TOKEN st (b, w) p (int p - 1))"
| inv_error_ws: "length st < CPARSER_MAX_NUM_TOKENS \<Longrightarrow> stack_ok (int p) st \<Longrightarrow> p < q \<Longrightarrow>
    fsm_inv (machine n CPARSER_STATE_ERROR st no_token q (int p - 1))"
| inv_error_token: "length st < CPARSER_MAX_NUM_TOKENS \<Longrightarrow> stack_ok b st \<Longrightarrow> word_ok p (b, w) \<Longrightarrow> p < q \<Longrightarrow>
    fsm_inv (machine n CPARSER_STATE_ERROR st (b, w) q (int p - 1))"

lemma token_new_typed: "token_new = typed_token (- 1) []"
  by (simp add: token_new_def typed_token_def)

lemma reset_machine: "cparser_fsm_reset root f = machine (Some root) CPARSER_STATE_WHITESPACE [] no_token 0 (- 1)"
  by (cases f) (simp add: cparser_fsm_reset_def cparser_token_stack_reset_def machine_def CPARSER_MAX_NUM_TOKENS_def
      token_new_typed flip: replicate_Suc)

lemma reset_inv: "fsm_inv (cparser_fsm_reset root f)"
  using inv_ws [of "[]" 0] by (simp add: reset_machine CPARSER_MAX_NUM_TOKENS_def)

section \<open>The machine at work\<close>

lemma machine_fields [simp]:
  "cur_node (machine n s st t p g) = n" "fsm_state (machine n s st t p g) = s" "token_tos (machine n s st t p g) = length st"
  "current_pos (machine n s st t p g) = p" "last_good (machine n s st t p g) = g"
  by (simp_all add: machine_def case_prod_unfold)

lemma cur_token_machine [simp]: "cur_token (machine n s st (b, w) p g) = typed_token b w"
  by (simp add: cur_token_def machine_def nth_append)

lemma top_token_machine: "tokens (machine n s (c # st) t p g) ! length st = closed_token c"
  by (simp add: machine_def case_prod_unfold nth_append)

lemma machine_updates [simp]:
  "(machine n s st t p g)\<lparr>cur_node := n'\<rparr> = machine n' s st t p g"
  "(machine n s st t p g)\<lparr>fsm_state := s'\<rparr> = machine n s' st t p g"
  "(machine n s st t p g)\<lparr>current_pos := p'\<rparr> = machine n s st t p' g"
  "(machine n s st t p g)\<lparr>last_good := g'\<rparr> = machine n s st t p g'"
  by (simp_all add: machine_def case_prod_unfold)

lemma set_token_machine [simp]:
  "set_token (length st) (typed_token b' w') (machine n s st (b, w) p g) = machine n s st (b', w') p g"
  by (simp add: set_token_def machine_def list_update_append)

lemma typed_fields [simp]:
  "begin_ptr (typed_token b w) = b" "token_len (typed_token b w) = length w" "tk_parent (typed_token b w) = None"
  "token_text (typed_token b w) = w"
  by (simp_all add: typed_token_def token_text_def)

lemma typed_begin [simp]: "(typed_token b w)\<lparr>begin_ptr := b'\<rparr> = typed_token b' w"
  by (simp add: typed_token_def)

lemma insert_typed:
  "length w < CPARSER_MAX_TOKEN_SIZE \<Longrightarrow> INSERT_TOK_STK ch (typed_token b w) = Inr (typed_token b (w @ [ch]))"
  by (cases "CPARSER_MAX_TOKEN_SIZE - length w")
    (auto simp: INSERT_TOK_STK_def token_put_def typed_token_def list_update_append)

lemma delete_typed:
  "length w < CPARSER_MAX_TOKEN_SIZE \<Longrightarrow> DELETE_TOK_STK (typed_token b (w @ [ch])) = Inr (typed_token b w)"
  by (cases "CPARSER_MAX_TOKEN_SIZE - length w")
    (auto simp: DELETE_TOK_STK_def token_put_def typed_token_def list_update_append Let_def)

lemma delete_one: "DELETE_TOK_STK (typed_token b [ch]) = Inr (typed_token b [])"
  using delete_typed [of "[]" b ch] by (simp add: CPARSER_MAX_TOKEN_SIZE_def)

lemma insert_one: "INSERT_TOK_STK ch (typed_token b []) = Inr (typed_token b [ch])"
  using insert_typed [of "[]" ch b] by (simp add: CPARSER_MAX_TOKEN_SIZE_def)

lemma forget_machine [simp]: "forget (machine n s st t p g) = machine n s st t p g"
  by (simp add: forget_def machine_def case_prod_unfold token_new_def typed_token_def closed_token_def)

lemma forget_fields [simp]:
  "cur_node (forget f) = cur_node f" "fsm_state (forget f) = fsm_state f" "token_tos (forget f) = token_tos f"
  "current_pos (forget f) = current_pos f" "last_good (forget f) = last_good f"
  by (simp_all add: forget_def)

lemma forget_updates [simp]:
  "forget (f\<lparr>cur_node := n\<rparr>) = (forget f)\<lparr>cur_node := n\<rparr>" "forget (f\<lparr>fsm_state := s\<rparr>) = (forget f)\<lparr>fsm_state := s\<rparr>"
  "forget (f\<lparr>current_pos := p\<rparr>) = (forget f)\<lparr>current_pos := p\<rparr>" "forget (f\<lparr>last_good := g\<rparr>) = (forget f)\<lparr>last_good := g\<rparr>"
  "forget (f\<lparr>token_tos := m\<rparr>) = (forget f)\<lparr>token_tos := m\<rparr>"
  "forget (set_token m t f) = set_token m (t\<lparr>tk_node := None\<rparr>) (forget f)"
  "forget (forget f) = forget f"
  by (simp_all add: forget_def set_token_def map_update)

lemma length_forget [simp]: "length (tokens (forget f)) = length (tokens f)"
  by (simp add: forget_def)

lemma forget_token: "n < length (tokens f) \<Longrightarrow> tokens (forget f) ! n = (tokens f ! n)\<lparr>tk_node := None\<rparr>"
  by (simp add: forget_def)

section \<open>The node of a token is not read\<close>

definition forgets :: "('g cparser_fsm \<times> bytes) res \<Rightarrow> ('g cparser_fsm \<times> bytes) res" where
  "forgets r = rbind r (\<lambda>(f, w). Inr (forget f, w))"

definition forgets_step :: "'g fsm_step \<Rightarrow> 'g fsm_step" where
  "forgets_step r = rbind r (\<lambda>(s, d, f). Inr (s, d, forget f))"

definition in_range :: "'g cparser_fsm \<Rightarrow> bool" where
  "in_range f \<longleftrightarrow> token_tos f < CPARSER_MAX_NUM_TOKENS \<and> length (tokens f) = CPARSER_MAX_NUM_TOKENS"

lemma forgets_step_simps [simp]:
  "forgets_step (Inl e) = Inl e" "forgets_step (Inr (s, d, f)) = Inr (s, d, forget f)"
  "forgets_step (rbind m h) = rbind m (\<lambda>x. forgets_step (h x))"
  "forgets_step (if c then r else r') = (if c then forgets_step r else forgets_step r')"
  by (cases m; simp add: forgets_step_def)+

lemma token_put_node: "token_put i c (t\<lparr>tk_node := n\<rparr>) = rbind (token_put i c t) (\<lambda>t. Inr (t\<lparr>tk_node := n\<rparr>))"
  by (simp add: token_put_def)

lemma insert_node: "INSERT_TOK_STK c (t\<lparr>tk_node := n\<rparr>) = rbind (INSERT_TOK_STK c t) (\<lambda>t. Inr (t\<lparr>tk_node := n\<rparr>))"
  by (simp add: INSERT_TOK_STK_def token_put_def)

lemma delete_node: "DELETE_TOK_STK (t\<lparr>tk_node := n\<rparr>) = rbind (DELETE_TOK_STK t) (\<lambda>t. Inr (t\<lparr>tk_node := n\<rparr>))"
  by (simp add: DELETE_TOK_STK_def token_put_def Let_def)

lemma cur_token_forget: "in_range f \<Longrightarrow> cur_token (forget f) = (cur_token f)\<lparr>tk_node := None\<rparr>"
  by (simp add: cur_token_def forget_token in_range_def)

lemma token_text_node [simp]: "token_text (t\<lparr>tk_node := n\<rparr>) = token_text t" "token_text (t\<lparr>begin_ptr := b\<rparr>) = token_text t"
  by (simp_all add: token_text_def)

lemma set_token_fields [simp]:
  "cur_node (set_token n t f) = cur_node f" "fsm_state (set_token n t f) = fsm_state f" "token_tos (set_token n t f) = token_tos f"
  "current_pos (set_token n t f) = current_pos f" "last_good (set_token n t f) = last_good f"
  "length (tokens (set_token n t f)) = length (tokens f)"
  by (simp_all add: set_token_def)

lemma in_range_updates [simp]:
  "in_range (f\<lparr>cur_node := n\<rparr>) = in_range f" "in_range (f\<lparr>fsm_state := s\<rparr>) = in_range f"
  "in_range (f\<lparr>current_pos := p\<rparr>) = in_range f" "in_range (f\<lparr>last_good := g\<rparr>) = in_range f"
  "in_range (set_token m t f) = in_range f" "in_range (forget f) = in_range f"
  by (simp_all add: in_range_def)

lemma cur_token_updates [simp]:
  "cur_token (f\<lparr>current_pos := p\<rparr>) = cur_token f" "cur_token (f\<lparr>cur_node := n\<rparr>) = cur_token f"
  by (simp_all add: cur_token_def)

lemma node_last [simp]:
  "t\<lparr>tk_node := n, begin_ptr := b\<rparr> = t\<lparr>begin_ptr := b, tk_node := n\<rparr>"
  "t\<lparr>tk_node := n, token_len := l\<rparr> = t\<lparr>token_len := l, tk_node := n\<rparr>"
  "t\<lparr>tk_node := n, tk_parent := m\<rparr> = t\<lparr>tk_parent := m, tk_node := n\<rparr>"
  by simp_all

lemmas forget_steps = cur_token_forget forget_token token_put_node insert_node delete_node rbind_assoc Let_def
  prod.case_distrib [of forgets_step]

lemma ws_char_forget:
  "in_range f \<Longrightarrow> forgets_step (cparser_ws_char priv ch f) = forgets_step (cparser_ws_char priv ch (forget f))"
  by (simp add: cparser_ws_char_def forget_steps cong: if_cong)

lemma tok_erase_forget:
  "in_range f \<Longrightarrow> forgets_step (cparser_tok_erase f) = forgets_step (cparser_tok_erase (forget f))"
  by (simp add: cparser_tok_erase_def forget_steps cong: if_cong)

lemma tok_char_forget:
  "in_range f \<Longrightarrow> forgets_step (cparser_tok_char priv ch f) = forgets_step (cparser_tok_char priv ch (forget f))"
  by (simp add: cparser_tok_char_def forget_steps cong: if_cong)

lemma err_erase_forget:
  "in_range f \<Longrightarrow> forgets_step (cparser_err_erase f) = forgets_step (cparser_err_erase (forget f))"
  by (simp add: cparser_err_erase_def forget_steps cong: if_cong)

lemma next_token: "cur_token ((set_token (token_tos f) t f)\<lparr>token_tos := Suc (token_tos f)\<rparr>) = tokens f ! Suc (token_tos f)"
  by (simp add: cur_token_def set_token_def)

lemma other_token: "n \<noteq> token_tos f \<Longrightarrow> cur_token (set_token n t f) = cur_token f"
  by (simp add: cur_token_def set_token_def)

lemma forget_in_range: "in_range f \<Longrightarrow> n < CPARSER_MAX_NUM_TOKENS \<Longrightarrow> tokens (forget f) ! n = (tokens f ! n)\<lparr>tk_node := None\<rparr>"
  by (simp add: forget_token in_range_def)

lemma tok_space_forget:
  assumes "in_range f"
  shows "forgets_step (cparser_tok_space priv f) = forgets_step (cparser_tok_space priv (forget f))"
proof -
  have nt: "cur_token ((set_token (token_tos f) t (forget f))\<lparr>token_tos := Suc (token_tos f)\<rparr>) = tokens (forget f) ! Suc (token_tos f)" for t
    using next_token [of "forget f"] by simp
  show ?thesis
  proof (cases "Suc (token_tos f) < CPARSER_MAX_NUM_TOKENS")
    case True
    show ?thesis using assms forget_in_range [OF assms True] True
      by (simp add: cparser_tok_space_def forget_steps next_token nt cong: if_cong)
  next
    case False
    then show ?thesis using assms by (simp add: cparser_tok_space_def forget_steps cong: if_cong)
  qed
qed

lemma ws_erase_forget:
  assumes "in_range f"
  shows "forgets_step (cparser_ws_erase f) = forgets_step (cparser_ws_erase (forget f))"
proof (cases "token_tos f")
  case (Suc n)
  then have "n < length (tokens f)" "Suc n < length (tokens f)" using assms by (auto simp: in_range_def)
  with Suc show ?thesis
    by (simp add: cparser_ws_erase_def forget_steps other_token cur_token_def [of "forget _"] cur_token_def [of f] cong: if_cong)
qed (simp add: cparser_ws_erase_def forget_steps cong: if_cong)

lemma step_forget:
  assumes "in_range f"
  shows "forgets_step (cparser_state_func priv ch s i f) = forgets_step (cparser_state_func priv ch s i (forget f))"
  using assms ws_char_forget [of f] tok_erase_forget [of f] tok_char_forget [of f] err_erase_forget [of f]
    tok_space_forget [of f] ws_erase_forget [of f]
  by (cases s; cases i) (simp_all add: cparser_state_func_def cparser_ws_space_def cparser_err_space_def cparser_err_char_def)

lemma step_range:
  "in_range f \<Longrightarrow> cparser_state_func priv ch s i f = Inr (s', d, g) \<Longrightarrow> in_range g"
  by (cases s; cases i)
    (auto simp: cparser_state_func_def cparser_ws_erase_def cparser_ws_space_def cparser_ws_char_def cparser_tok_erase_def
      cparser_tok_space_def cparser_tok_char_def cparser_err_erase_def cparser_err_space_def cparser_err_char_def
      rbind_eq_Inr Let_def in_range_def split: if_splits)

lemma apply_forget:
  assumes "in_range f"
  shows "rbind (fsm_apply priv ch i f) (\<lambda>f. Inr (forget f)) = rbind (fsm_apply priv ch i (forget f)) (\<lambda>f. Inr (forget f))"
proof -
  define h where "h = (\<lambda>(s, ch_processed, f).
     let f = f\<lparr>fsm_state := s\<rparr>;
         f = (if ch_processed \<and> i \<noteq> In_erase then f\<lparr>current_pos := Suc (current_pos f)\<rparr> else f)
     in if ch_processed \<and> s \<noteq> CPARSER_STATE_ERROR then f\<lparr>last_good := int (current_pos f) - 1\<rparr> else (f :: 'a cparser_fsm))"
  have h: "forget (h (s, d, g)) = h (s, d, forget g)" for s d g by (simp add: h_def Let_def)
  have "rbind (fsm_apply priv ch i g) (\<lambda>f. Inr (forget f)) =
      rbind (forgets_step (cparser_state_func priv ch (fsm_state g) i g)) (\<lambda>r. Inr (h r))" for g
    by (cases "cparser_state_func priv ch (fsm_state g) i g") (auto simp: fsm_apply_def forgets_step_def h_def Let_def)
  then show ?thesis using step_forget [OF assms] by simp
qed

lemma forgets_simps [simp]:
  "forgets (Inl e) = Inl e" "forgets (Inr (f, w)) = Inr (forget f, w)" "forgets (if c then r else r') = (if c then forgets r else forgets r')"
  by (simp_all add: forgets_def)

lemma input_forget:
  assumes "in_range f"
  shows "forgets (cparser_fsm_input cs priv ch f) = forgets (cparser_fsm_input cs priv ch (forget f))"
proof -
  have e: "forgets (rbind (fsm_apply priv ch i g) (\<lambda>f. Inr (f, w))) = rbind (rbind (fsm_apply priv ch i g) (\<lambda>f. Inr (forget f))) (\<lambda>f. Inr (f, w))" for i g w
    by (cases "fsm_apply priv ch i g") auto
  have k: "forgets (rbind (fsm_apply priv ch i f) (\<lambda>f. Inr (f, w))) = forgets (rbind (fsm_apply priv ch i (forget f)) (\<lambda>f. Inr (f, w)))" for i w
    by (simp only: e apply_forget [OF assms])
  show ?thesis unfolding cparser_fsm_input_def forgets_simps k forget_fields by (simp only: forget_updates)
qed

section \<open>Typing and erasing\<close>

lemma machine_in_range [simp]: "length st < CPARSER_MAX_NUM_TOKENS \<Longrightarrow> in_range (machine n s st t p g)"
  by (simp add: in_range_def machine_def case_prod_unfold)

lemma fsm_inv_normal: "fsm_inv f \<Longrightarrow> forget f = f" "fsm_inv f \<Longrightarrow> in_range f"
  by (auto elim: fsm_inv.cases)

lemma erase_far:
  "stack_ok (int p) st \<Longrightarrow> cparser_ws_erase (machine n s st no_token (Suc p) g) = Inr (CPARSER_STATE_WHITESPACE, True, machine n s st no_token p g)"
proof (cases st)
  case (Cons c st')
  obtain b w m where c: "c = (b, w, m)" by (cases c)
  assume "stack_ok (int p) st"
  then show ?thesis using Cons c top_token_machine [of n s c st' no_token p g]
    by (simp add: cparser_ws_erase_def Let_def closed_token_def)
qed (simp add: cparser_ws_erase_def Let_def)

lemma zeros: "(replicate k (0 :: u8))[0 := 0] = replicate k 0"
  by (cases k) auto

lemma put_blank:
  "token_put 0 0 ((typed_token (- 1) [])\<lparr>token_len := 0, tk_parent := None, tk_node := None\<rparr>) = Inr (typed_token (- 1) [])"
  using zeros [of CPARSER_MAX_TOKEN_SIZE] by (simp add: token_put_def typed_token_def) (simp add: CPARSER_MAX_TOKEN_SIZE_def)

lemma typed_parent [simp]: "(typed_token b w)\<lparr>tk_parent := None\<rparr> = typed_token b w"
  by (simp add: typed_token_def)

lemma erase_near:
  assumes "Suc (length st) < CPARSER_MAX_NUM_TOKENS" "b + int (length w) = int p"
  shows "cparser_ws_erase (machine n s ((b, w, m) # st) no_token (Suc p) g) = Inr (CPARSER_STATE_TOKEN, True, machine m s st (b, w) p g)"
proof -
  define k where "k = CPARSER_MAX_NUM_TOKENS - 2 - length st"
  have k: "CPARSER_MAX_NUM_TOKENS - Suc (length st) = Suc k" "CPARSER_MAX_NUM_TOKENS - Suc (Suc (length st)) = k"
    using assms(1) by (simp_all add: k_def)
  let ?M = "machine n s ((b, w, m) # st) no_token p g"
  have top: "tokens ?M ! length st = closed_token (b, w, m)" by (rule top_token_machine)
  have one: "cur_token (set_token (length st) t (?M\<lparr>cur_node := m\<rparr>)) = typed_token (- 1) []" for t
    by (simp add: other_token)
  have two: "(set_token (Suc (length st)) (typed_token (- 1) []) (set_token (length st) (typed_token b w) (?M\<lparr>cur_node := m\<rparr>)))\<lparr>token_tos := length st\<rparr> =
      machine m s st (b, w) p g"
    using k by (simp add: machine_def set_token_def list_update_append closed_token_def token_new_typed)
  show ?thesis
    using assms(2) top one two by (simp add: cparser_ws_erase_def Let_def closed_token_def put_blank del: machine_updates(1))
qed

lemma put_end:
  "token_put (length w) 0 ((typed_token b w)\<lparr>tk_parent := n, tk_node := m\<rparr>) =
     (if length w < CPARSER_MAX_TOKEN_SIZE then Inr ((typed_token b w)\<lparr>tk_parent := n, tk_node := m\<rparr>) else Inl Out_of_bounds)"
  by (auto simp: token_put_def typed_token_def list_update_append zeros)

lemma match_close:
  assumes "cparser_tok_space priv (machine n s st (b, w) p g) = Inr (s', d, f)" "length st < CPARSER_MAX_NUM_TOKENS"
  obtains "s' = CPARSER_STATE_ERROR" "d" "f = machine n s st (b, w) p g"
  | m where "s' = CPARSER_STATE_WHITESPACE" "d" "length w < CPARSER_MAX_TOKEN_SIZE" "Suc (length st) < CPARSER_MAX_NUM_TOKENS"
      "forget f = machine m s ((b, w, n) # st) no_token p g"
proof -
  define k where "k = CPARSER_MAX_NUM_TOKENS - 2 - length st"
  obtain num match complete where m: "cparser_match priv w n = Inr (num, match, complete)"
    using assms(1) by (auto simp: cparser_tok_space_def rbind_eq_Inr)
  let ?t = "(typed_token b w)\<lparr>tk_parent := n, tk_node := match\<rparr>" and ?M = "machine n s st (b, w) p g"
  show ?thesis
  proof (cases "1 \<le> num \<and> complete")
    case False
    then show ?thesis using assms(1) m by (intro that(1)) (auto simp: cparser_tok_space_def)
  next
    case True
    then have lw: "length w < CPARSER_MAX_TOKEN_SIZE" and n: "Suc (length st) < CPARSER_MAX_NUM_TOKENS" and
      r: "s' = CPARSER_STATE_WHITESPACE" "d" "f = (set_token (length st) ?t ?M)\<lparr>token_tos := Suc (length st), cur_node := match\<rparr>"
      using assms(1) m by (auto simp: cparser_tok_space_def put_end Let_def split: if_splits)
    have k: "CPARSER_MAX_NUM_TOKENS - Suc (length st) = Suc k" "CPARSER_MAX_NUM_TOKENS - Suc (Suc (length st)) = k"
      using n by (simp_all add: k_def)
    have "forget f = machine match s ((b, w, n) # st) no_token p g"
      using k by (simp add: r(3)) (simp add: machine_def set_token_def list_update_append closed_token_def token_new_typed forget_def typed_token_def case_prod_unfold)
    then show ?thesis using that(2) r lw n by blast
  qed
qed

text \<open>
  A character, then an erasure: from every reachable state the machine is back where it was. And what the character
  leads to is a reachable state.
\<close>

lemma input_space: "\<not> erases cs space \<Longrightarrow> current_pos f < CPARSER_MAX_LINE_SIZE - 1 \<Longrightarrow>
    cparser_fsm_input cs priv space f = rbind (fsm_apply priv space In_space f) (\<lambda>f. Inr (f, []))"
  by (simp add: cparser_fsm_input_def)

lemma input_char: "\<not> erases cs ch \<Longrightarrow> ch \<noteq> space \<Longrightarrow> current_pos f < CPARSER_MAX_LINE_SIZE - 1 \<Longrightarrow>
    cparser_fsm_input cs priv ch f = rbind (fsm_apply priv ch In_char f) (\<lambda>f. Inr (f, []))"
  by (simp add: cparser_fsm_input_def)

lemma input_erase: "erases cs ch \<Longrightarrow> 0 < current_pos f \<Longrightarrow>
    cparser_fsm_input cs priv ch f = rbind (fsm_apply priv ch In_erase f) (\<lambda>f. Inr (f, []))"
  by (simp add: cparser_fsm_input_def)

definition undone :: "'g cparser_fsm \<Rightarrow> 'g cparser_fsm \<Rightarrow> bool" where
  "undone f g \<longleftrightarrow> fsm_inv (forget g) \<and> current_pos g = Suc (current_pos f) \<and> (\<forall>priv ch. fsm_apply priv ch In_erase (forget g) = Inr f)"

lemma undone_ws:
  assumes "length st < CPARSER_MAX_NUM_TOKENS" "stack_ok (int p) st" "i \<noteq> In_erase"
    "fsm_apply priv ch i (machine n CPARSER_STATE_WHITESPACE st no_token p (int p - 1)) = Inr g"
  shows "undone (machine n CPARSER_STATE_WHITESPACE st no_token p (int p - 1)) g"
proof -
  let ?f = "machine n CPARSER_STATE_WHITESPACE st no_token p (int p - 1)"
  consider "g = machine n CPARSER_STATE_WHITESPACE st no_token (Suc p) (int p)"
    | "g = machine n CPARSER_STATE_ERROR st no_token (Suc p) (int p - 1)"
    | "g = machine n CPARSER_STATE_TOKEN st (int p, [ch]) (Suc p) (int p)"
    using assms(3,4)
    by (cases i) (auto simp: fsm_apply_def cparser_state_func_def cparser_ws_space_def cparser_ws_char_def rbind_eq_Inr
        insert_one Let_def split: if_splits)
  then show ?thesis
  proof cases
    case 1
    have "fsm_inv (machine n CPARSER_STATE_WHITESPACE st no_token (Suc p) (int (Suc p) - 1))"
      using assms(1,2) stack_ok_mono [of "int p" st "int (Suc p)"] by (intro inv_ws) auto
    then show ?thesis using 1 erase_far [OF assms(2)] by (simp add: undone_def fsm_apply_def cparser_state_func_def)
  next
    case 2
    then show ?thesis using inv_error_ws [OF assms(1,2), of "Suc p"]
      by (simp add: undone_def fsm_apply_def cparser_state_func_def cparser_err_erase_def Let_def)
  next
    case 3
    have "fsm_inv (machine n CPARSER_STATE_TOKEN st (int p, [ch]) (Suc p) (int (Suc p) - 1))"
      using assms(1,2) by (intro inv_token) (auto simp: word_ok_def CPARSER_MAX_TOKEN_SIZE_def)
    then show ?thesis using 3
      by (simp add: undone_def fsm_apply_def cparser_state_func_def cparser_tok_erase_def Let_def delete_one)
  qed
qed

lemma undone_token:
  assumes "length st < CPARSER_MAX_NUM_TOKENS" "stack_ok b st" "word_ok p (b, w)" "i \<noteq> In_erase"
    "fsm_apply priv ch i (machine n CPARSER_STATE_TOKEN st (b, w) p (int p - 1)) = Inr g"
  shows "undone (machine n CPARSER_STATE_TOKEN st (b, w) p (int p - 1)) g"
proof -
  let ?f = "machine n CPARSER_STATE_TOKEN st (b, w) p (int p - 1)"
  have e: "undone ?f (machine n CPARSER_STATE_ERROR st (b, w) (Suc p) (int p - 1))"
    using inv_error_token [OF assms(1-3), of "Suc p"] assms(3)
    by (simp add: undone_def fsm_apply_def cparser_state_func_def cparser_err_erase_def Let_def word_ok_def)
  show ?thesis
  proof (cases i)
    case In_space
    obtain s' d f where f: "cparser_tok_space priv ?f = Inr (s', d, f)"
      "g = (let f = f\<lparr>fsm_state := s'\<rparr>; f = (if d then f\<lparr>current_pos := Suc (current_pos f)\<rparr> else f)
           in if d \<and> s' \<noteq> CPARSER_STATE_ERROR then f\<lparr>last_good := int (current_pos f) - 1\<rparr> else f)"
      using assms(5) In_space by (auto simp: fsm_apply_def cparser_state_func_def rbind_eq_Inr Let_def)
    from f(1) assms(1) show ?thesis
    proof (rule match_close)
      assume "s' = CPARSER_STATE_ERROR" "d" "f = ?f"
      then show ?thesis using f(2) e by (simp add: Let_def)
    next
      fix m
      assume c: "s' = CPARSER_STATE_WHITESPACE" "d" "length w < CPARSER_MAX_TOKEN_SIZE" "Suc (length st) < CPARSER_MAX_NUM_TOKENS"
        "forget f = machine m CPARSER_STATE_TOKEN ((b, w, n) # st) no_token p (int p - 1)"
      have p: "current_pos f = p" using arg_cong [OF c(5), of current_pos] by simp
      have g: "forget g = machine m CPARSER_STATE_WHITESPACE ((b, w, n) # st) no_token (Suc p) (int p)"
        using f(2) c p by (simp add: Let_def)
      have "fsm_inv (machine m CPARSER_STATE_WHITESPACE ((b, w, n) # st) no_token (Suc p) (int (Suc p) - 1))"
        using c(3,4) assms(2,3) by (intro inv_ws) (auto simp: word_ok_def)
      moreover have "current_pos g = Suc p" using arg_cong [OF g, of current_pos] by simp
      ultimately show ?thesis
        using erase_near [OF c(4), of b w p m CPARSER_STATE_WHITESPACE n "int p"] assms(3) g
        by (simp add: undone_def fsm_apply_def cparser_state_func_def word_ok_def)
    qed
  next
    case In_char
    show ?thesis
    proof (cases "length w < CPARSER_MAX_TOKEN_SIZE")
      case False
      then show ?thesis using assms(5) In_char e by (simp add: fsm_apply_def cparser_state_func_def cparser_tok_char_def Let_def)
    next
      case True
      note d = delete_typed [OF True, of b ch] and t = insert_typed [OF True, of ch b]
      consider "g = machine n CPARSER_STATE_ERROR st (b, w) (Suc p) (int p - 1)"
        | "g = machine n CPARSER_STATE_TOKEN st (b, w @ [ch]) (Suc p) (int p)"
        using assms(5) In_char True
        by (auto simp: fsm_apply_def cparser_state_func_def cparser_tok_char_def rbind_eq_Inr Let_def d t split: if_splits)
      then show ?thesis
      proof cases
        case 2
        have "fsm_inv (machine n CPARSER_STATE_TOKEN st (b, w @ [ch]) (Suc p) (int (Suc p) - 1))"
          using assms(1-3) True by (intro inv_token) (auto simp: word_ok_def)
        then show ?thesis using 2 assms(3)
          by (simp add: undone_def fsm_apply_def cparser_state_func_def cparser_tok_erase_def Let_def word_ok_def d)
      qed (use e in simp)
    qed
  qed (use assms in simp)
qed

lemma undone_error:
  assumes "fsm_inv f" "fsm_state f = CPARSER_STATE_ERROR" "i \<noteq> In_erase" "fsm_apply priv ch i f = Inr g"
  shows "undone f g"
proof -
  have g: "g = f\<lparr>current_pos := Suc (current_pos f)\<rparr>"
    using assms(2-4) by (cases i) (auto simp: fsm_apply_def cparser_state_func_def cparser_err_space_def cparser_err_char_def Let_def)
  from assms(1,2) show ?thesis
  proof cases
    case (inv_error_ws st p q n)
    then show ?thesis using g fsm_inv.inv_error_ws [of st p "Suc q" n]
      by (auto simp: undone_def fsm_apply_def cparser_state_func_def cparser_err_erase_def Let_def)
  next
    case (inv_error_token st b p w q n)
    then show ?thesis using g fsm_inv.inv_error_token [of st b p w "Suc q" n]
      by (auto simp: undone_def fsm_apply_def cparser_state_func_def cparser_err_erase_def Let_def)
  qed simp_all
qed

lemma apply_undone:
  assumes "fsm_inv f" "i \<noteq> In_erase" "fsm_apply priv ch i f = Inr g"
  shows "undone f g"
  using assms(1)
proof cases
  case inv_ws
  then show ?thesis using undone_ws assms(2,3) by blast
next
  case inv_token
  then show ?thesis using undone_token assms(2,3) by blast
qed (use undone_error [OF assms(1) _ assms(2,3)] in simp_all)

section \<open>The machine after a text\<close>

definition fsm_feed :: "cparser_chars \<Rightarrow> bool \<Rightarrow> bytes \<Rightarrow> 'g cparser_fsm \<Rightarrow> 'g cparser_fsm res" where
  "fsm_feed cs priv line f = rfold (\<lambda>c f. rbind (cparser_fsm_input cs priv c f) (\<lambda>(f, w). Inr f)) line f"

text \<open>The machine is where a text leads that fits, up to the nodes recorded with tokens.\<close>

definition fsm_at :: "cparser_chars \<Rightarrow> bool \<Rightarrow> 'g cparser_node \<Rightarrow> bytes \<Rightarrow> 'g cparser_fsm \<Rightarrow> bool" where
  "fsm_at cs priv root line f \<longleftrightarrow>
     (\<exists>g. fsm_feed cs priv line (cparser_fsm_reset root f) = Inr g \<and> forget g = forget f) \<and>
     (\<forall>c\<in>set line. \<not> erases cs c) \<and> length line < CPARSER_MAX_LINE_SIZE"

lemma input_range:
  assumes "in_range f" "cparser_fsm_input cs priv ch f = Inr (g, w)"
  shows "in_range g"
proof -
  have "in_range g" if a: "fsm_apply priv ch i f = Inr g" for i
  proof -
    obtain s d h where "cparser_state_func priv ch (fsm_state f) i f = Inr (s, d, h)"
      "g = (let f = h\<lparr>fsm_state := s\<rparr>; f = (if d \<and> i \<noteq> In_erase then f\<lparr>current_pos := Suc (current_pos f)\<rparr> else f)
        in if d \<and> s \<noteq> CPARSER_STATE_ERROR then f\<lparr>last_good := int (current_pos f) - 1\<rparr> else f)"
      using a by (auto simp: fsm_apply_def rbind_eq_Inr Let_def)
    then show ?thesis using step_range [OF assms(1)] by (auto simp: Let_def)
  qed
  then show ?thesis using assms by (auto simp: cparser_fsm_input_def rbind_eq_Inr split: if_splits)
qed

lemma input_undone:
  assumes "fsm_inv (forget f)" "in_range f" "\<not> erases cs ch" "current_pos f < CPARSER_MAX_LINE_SIZE - 1"
    and "cparser_fsm_input cs priv ch f = Inr (g, w)"
  shows "fsm_inv (forget g)" "current_pos g = Suc (current_pos f)" "w = []"
    and "erases cs e \<Longrightarrow> \<exists>h. cparser_fsm_input cs priv' e g = Inr (h, []) \<and> forget h = forget f"
proof -
  let ?i = "if ch = space then In_space else In_char"
  have "forgets (cparser_fsm_input cs priv ch (forget f)) = Inr (forget g, w)"
    using input_forget [OF assms(2), of cs priv ch] assms(5) by simp
  then obtain g' where g': "cparser_fsm_input cs priv ch (forget f) = Inr (g', w)" "forget g' = forget g"
    by (cases "cparser_fsm_input cs priv ch (forget f)") (auto simp: forgets_def)
  then have a: "fsm_apply priv ch ?i (forget f) = Inr g'" and w: "w = []"
    using assms(3,4) by (auto simp: cparser_fsm_input_def rbind_eq_Inr split: if_splits)
  have u: "undone (forget f) g'" using apply_undone [OF assms(1) _ a] by simp
  then show "fsm_inv (forget g)" and w: "w = []" using g'(2) w by (simp_all add: undone_def)
  show p: "current_pos g = Suc (current_pos f)"
    using u arg_cong [OF g'(2), of current_pos] by (simp add: undone_def)
  show "\<exists>h. cparser_fsm_input cs priv' e g = Inr (h, []) \<and> forget h = forget f" if e: "erases cs e"
  proof -
    have "in_range g" using input_range [OF assms(2,5)] .
    moreover have "cparser_fsm_input cs priv' e (forget g) = Inr (forget f, [])"
      using u p e g'(2) by (simp add: input_erase undone_def)
    ultimately have "forgets (cparser_fsm_input cs priv' e g) = Inr (forget f, [])"
      using input_forget [of g cs priv' e] by simp
    then show ?thesis by (cases "cparser_fsm_input cs priv' e g") (auto simp: forgets_def)
  qed
qed

lemma feed_snoc:
  "fsm_feed cs priv (line @ [c]) f = rbind (fsm_feed cs priv line f) (\<lambda>f. rbind (cparser_fsm_input cs priv c f) (\<lambda>(f, w). Inr f))"
  by (simp add: fsm_feed_def rfold_append) (simp add: rbind_def case_prod_unfold split: sum.split)

lemma feed_inv:
  assumes "fsm_feed cs priv line (cparser_fsm_reset root f) = Inr g" "\<forall>c\<in>set line. \<not> erases cs c" "length line < CPARSER_MAX_LINE_SIZE"
  shows "fsm_inv (forget g) \<and> in_range g \<and> current_pos g = length line"
  using assms
proof (induction line arbitrary: g rule: rev_induct)
  case Nil
  have "g = cparser_fsm_reset root f" using Nil by (simp add: fsm_feed_def)
  then show ?case using reset_inv [of root f] fsm_inv_normal [OF reset_inv [of root f]] by (simp add: reset_machine)
next
  case (snoc c line)
  then obtain h w where h: "fsm_feed cs priv line (cparser_fsm_reset root f) = Inr h" "cparser_fsm_input cs priv c h = Inr (g, w)"
    by (auto simp: feed_snoc rbind_eq_Inr)
  have ih: "fsm_inv (forget h)" "in_range h" "current_pos h = length line" using snoc.IH [OF h(1)] snoc.prems by auto
  show ?case using input_undone(1,2) [OF ih(1,2) _ _ h(2)] input_range [OF ih(2) h(2)] snoc.prems ih(3) by simp
qed

lemma fsm_at_inv:
  assumes "fsm_at cs priv root line f"
  shows "fsm_inv (forget f)" "in_range f" "current_pos f = length line"
proof -
  obtain g where g: "fsm_feed cs priv line (cparser_fsm_reset root f) = Inr g" "forget g = forget f"
    using assms by (auto simp: fsm_at_def)
  have i: "fsm_inv (forget g)" "in_range g" "current_pos g = length line"
    using feed_inv [OF g(1)] assms by (auto simp: fsm_at_def)
  show "fsm_inv (forget f)" using i g(2) by simp
  have "in_range (forget g)" using i(2) by simp
  then show "in_range f" using g(2) by simp
  show "current_pos f = length line" using i(3) arg_cong [OF g(2), of current_pos] by simp
qed

lemma fsm_at_reset: "fsm_at cs priv root [] (cparser_fsm_reset root f)"
  by (simp add: fsm_at_def fsm_feed_def CPARSER_MAX_LINE_SIZE_def fsm_reset_any [of root "cparser_fsm_reset root f" f])

lemma fsm_at_input:
  assumes "fsm_at cs priv root line f" "\<not> erases cs c" "Suc (length line) < CPARSER_MAX_LINE_SIZE"
    and "cparser_fsm_input cs priv c f = Inr (g, w)"
  shows "fsm_at cs priv root (line @ [c]) g" "w = []"
proof -
  obtain h where h: "fsm_feed cs priv line (cparser_fsm_reset root f) = Inr h" "forget h = forget f"
    using assms(1) by (auto simp: fsm_at_def)
  note i = fsm_at_inv [OF assms(1)]
  show "w = []" using input_undone(3) [OF i(1,2) assms(2) _ assms(4)] i(3) assms(3) by simp
  have "in_range h" using i(2) h(2) by (metis in_range_updates(6))
  then have "forgets (cparser_fsm_input cs priv c h) = Inr (forget g, w)"
    using input_forget [of h cs priv c] input_forget [OF i(2), of cs priv c] h(2) assms(4) by simp
  then obtain k where "cparser_fsm_input cs priv c h = Inr (k, w)" "forget k = forget g"
    by (cases "cparser_fsm_input cs priv c h") (auto simp: forgets_def)
  then show "fsm_at cs priv root (line @ [c]) g"
    using h(1) assms(1,2,3) fsm_reset_any [of root g f] by (auto simp: fsm_at_def feed_snoc)
qed

lemma fsm_at_erase:
  assumes "fsm_at cs priv root (line @ [c]) f" "erases cs e"
  shows "\<exists>g. cparser_fsm_input cs priv e f = Inr (g, []) \<and> fsm_at cs priv root line g"
proof -
  obtain h where h: "fsm_feed cs priv (line @ [c]) (cparser_fsm_reset root f) = Inr h" "forget h = forget f"
    using assms(1) by (auto simp: fsm_at_def)
  then obtain k w where k: "fsm_feed cs priv line (cparser_fsm_reset root f) = Inr k" "cparser_fsm_input cs priv c k = Inr (h, w)"
    by (auto simp: feed_snoc rbind_eq_Inr)
  have line: "\<forall>c\<in>set line. \<not> erases cs c" "\<not> erases cs c" "Suc (length line) < CPARSER_MAX_LINE_SIZE"
    using assms(1) by (auto simp: fsm_at_def)
  have i: "fsm_inv (forget k)" "in_range k" "current_pos k = length line" using feed_inv [OF k(1) line(1)] line(3) by auto
  obtain m where m: "cparser_fsm_input cs priv e h = Inr (m, [])" "forget m = forget k"
    using input_undone(4) [OF i(1,2) line(2) _ k(2) assms(2), of priv] i(3) line(3) by fastforce
  have "in_range h" using input_range [OF i(2) k(2)] .
  then have "forgets (cparser_fsm_input cs priv e f) = Inr (forget k, [])"
    using input_forget [of h cs priv e] input_forget [OF fsm_at_inv(2) [OF assms(1)], of cs priv e] h(2) m by simp
  then obtain g where "cparser_fsm_input cs priv e f = Inr (g, [])" "forget g = forget k"
    by (cases "cparser_fsm_input cs priv e f") (auto simp: forgets_def)
  then show ?thesis using k(1) line fsm_reset_any [of root g f] by (auto simp: fsm_at_def)
qed

text \<open>The state after a text is one state.\<close>

lemma fsm_at_same:
  assumes "fsm_at cs priv root line f" "fsm_at cs priv root line g"
  shows "forget f = forget g"
  using assms fsm_reset_any [of root f g] by (auto simp: fsm_at_def)

text \<open>
  Erasing undoes typing: a character typed after any text, whether it goes on a token, closes one or is an error, and
  then erased, leaves the machine as it was.
\<close>

theorem erase_undoes:
  assumes "fsm_feed cs priv line (cparser_fsm_reset root f0) = Inr f" "\<forall>c\<in>set (line @ [c]). \<not> erases cs c"
    and "length line < CPARSER_MAX_LINE_SIZE - 1" "cparser_fsm_input cs priv c f = Inr (g, w)" "erases cs e"
  shows "\<exists>h. cparser_fsm_input cs priv e g = Inr (h, []) \<and> forget h = forget f"
proof -
  have "fsm_inv (forget f)" "in_range f" "current_pos f = length line" using feed_inv [OF assms(1)] assms(2,3) by auto
  then show ?thesis using input_undone(4) [OF _ _ _ _ assms(4,5)] assms(2,3) by simp
qed

end
