(* ===== verification/CliParser.thy ===== *)
theory CliParser
  imports CliFsm
begin

text \<open>
  The command-line parser itself, \<open>src/src/cli_parser/cparser.c\<close>: what a key does, completion, help, and the execution
  of a command through its glue function. The structure of the parser holds the line editor of the theory CliLine and the
  state machine of CliFsm.
\<close>

section \<open>Computations that may not return\<close>

text \<open>
  Some loops of the parser do not end on some lines. Such a computation takes fuel: None stands for its exhaustion, and
  otherwise it faults or has a result. One unit of fuel is one turn of a loop, or one level of the calls of
  \<open>cparser_input\<close> from within completion.
\<close>

type_synonym 'a run = "'a res option"

definition bind :: "'a run \<Rightarrow> ('a \<Rightarrow> 'b run) \<Rightarrow> 'b run" where
  "bind m f = (case m of None \<Rightarrow> None | Some (Inl e) \<Rightarrow> Some (Inl e) | Some (Inr x) \<Rightarrow> f x)"

abbreviation ok :: "'a \<Rightarrow> 'a run" where "ok x \<equiv> Some (Inr x)"

lemma bind_simps [simp]: "bind None f = None" "bind (Some (Inl e)) f = Some (Inl e)" "bind (ok x) f = f x"
  by (simp_all add: bind_def)

lemma bind_ok: "bind m f = ok y \<longleftrightarrow> (\<exists>x. m = ok x \<and> f x = ok y)"
  by (auto simp: bind_def split: option.splits sum.splits)

lemma bind_eq_Some: "bind m f = Some r \<longleftrightarrow> (\<exists>e. m = Some (Inl e) \<and> r = Inl e) \<or> (\<exists>x. m = ok x \<and> f x = Some r)"
  by (auto simp: bind_def split: option.splits sum.splits)

lemma bind_Some: "bind (Some m) f = (case m of Inl e \<Rightarrow> Some (Inl e) | Inr x \<Rightarrow> f x)"
  by (simp add: bind_def)

section \<open>The parser\<close>

datatype cparser_char =
    CPARSER_CHAR_UNKNOWN
  | CPARSER_CHAR_REGULAR
  | CPARSER_CHAR_UP_ARROW
  | CPARSER_CHAR_DOWN_ARROW
  | CPARSER_CHAR_LEFT_ARROW
  | CPARSER_CHAR_RIGHT_ARROW
  | CPARSER_CHAR_FIRST
  | CPARSER_CHAR_LAST

text \<open>Input that an action asks the user for: the size of the buffer, whether it is echoed, what was typed, the callback.\<close>

record 'g user_input =
  user_buf_size :: nat
  user_do_echo :: bool
  user_typed :: bytes
  user_input_cb :: "'g option"

text \<open>
  \<open>struct cparser_\<close>. The nested levels are a stack of roots and prompts, the current level first. \<open>p_out\<close> is what was
  written to the terminal, \<open>p_app\<close> the state of the application that the actions work on. The contexts of the levels
  are opaque to the parser and left out, and so are the debugging flag and the descriptor.
\<close>

record ('g, 'a) cparser =
  p_chars :: cparser_chars
  p_levels :: "('g cparser_node \<times> bytes) list"
  p_fsm :: "'g cparser_fsm"
  p_privileged :: bool
  p_lines :: cparser_lines
  p_done :: bool
  p_user :: "'g user_input option"
  p_last :: "(nat \<times> cparser_result \<times> 'g cparser_node option) option"
  p_out :: bytes
  p_app :: 'a

text \<open>The functions behind the pointers: glue functions, callbacks of user input; and \<open>glob\<close>.\<close>

record ('g, 'a) cparser_env =
  glue_fn :: "'g \<Rightarrow> ('g, 'a) cparser \<Rightarrow> (cparser_result \<times> ('g, 'a) cparser) res"
  input_cb :: "'g \<Rightarrow> bytes \<Rightarrow> ('g, 'a) cparser \<Rightarrow> (cparser_result \<times> ('g, 'a) cparser) res"
  glob :: "bytes \<Rightarrow> bytes list option"

definition p_root :: "('g, 'a) cparser \<Rightarrow> 'g cparser_node" where
  "p_root p = fst (hd (p_levels p))"

definition p_prompt :: "('g, 'a) cparser \<Rightarrow> bytes" where
  "p_prompt p = snd (hd (p_levels p))"

definition p_write :: "bytes \<Rightarrow> ('g, 'a) cparser \<Rightarrow> ('g, 'a) cparser" where
  "p_write w p = p\<lparr>p_out := p_out p @ w\<rparr>"

definition p_set_line :: "cparser_line \<Rightarrow> ('g, 'a) cparser \<Rightarrow> ('g, 'a) cparser" where
  "p_set_line l p = p\<lparr>p_lines := set_line l (p_lines p)\<rparr>"

section \<open>Printing\<close>

definition prompt_text :: "('g, 'a) cparser \<Rightarrow> bytes" where
  "prompt_text p = (if p_privileged p then [43] else []) @ p_prompt p"

definition cparser_print_prompt :: "('g, 'a) cparser \<Rightarrow> ('g, 'a) cparser" where
  "cparser_print_prompt p = p_write (prompt_text p) p"

fun join_keywords :: "bytes list \<Rightarrow> bytes" where
  "join_keywords [] = []"
| "join_keywords [k] = k"
| "join_keywords (k # ks) = k @ ascii '' | '' @ join_keywords ks"

definition help_node_text :: "'g cparser_node \<Rightarrow> bool \<Rightarrow> bytes res" where
  "help_node_text node print_desc =
     (case n_type node of
        CPARSER_NODE_ROOT \<Rightarrow> Inl Assert_fail
      | CPARSER_NODE_END \<Rightarrow> Inr (ascii ''<LF>'')
      | CPARSER_NODE_LIST \<Rightarrow> rbind (param_keywords node) (\<lambda>ks. Inr (ascii ''[ '' @ join_keywords ks @ ascii '' ]''))
      | _ \<Rightarrow>
          rbind (case n_param node of No_param \<Rightarrow> Inr [] | Text s \<Rightarrow> Inr s | _ \<Rightarrow> Inl Out_of_bounds) (\<lambda>s.
          Inr (s @ (case n_desc node of Some d \<Rightarrow> (if print_desc then ascii '' - '' @ d else []) | None \<Rightarrow> []))))"

definition cparser_help_print_node :: "'g cparser_node \<Rightarrow> bool \<Rightarrow> bool \<Rightarrow> ('g, 'a) cparser \<Rightarrow> ('g, 'a) cparser res" where
  "cparser_help_print_node node add_lf print_desc p =
     (if \<not> node_usable (p_privileged p) node then Inr p
      else rbind (help_node_text node print_desc) (\<lambda>s. Inr (p_write ((if add_lf then [newline] else []) @ s) p)))"

definition cparser_print_error :: "bytes \<Rightarrow> ('g, 'a) cparser \<Rightarrow> ('g, 'a) cparser" where
  "cparser_print_error msg p =
     p_write (newline # replicate (nat (int (length (p_prompt p)) + 1 + last_good (p_fsm p))) space @ 94 # msg) p"

section \<open>The current token and the machine\<close>

definition p_fsm_reset :: "('g, 'a) cparser \<Rightarrow> ('g, 'a) cparser" where
  "p_fsm_reset p = p\<lparr>p_fsm := cparser_fsm_reset (p_root p) (p_fsm p)\<rparr>"

definition p_fsm_input :: "u8 \<Rightarrow> ('g, 'a) cparser \<Rightarrow> ('g, 'a) cparser res" where
  "p_fsm_input ch p =
     rbind (cparser_fsm_input (p_chars p) (p_privileged p) ch (p_fsm p)) (\<lambda>(f, w). Inr (p_write w (p\<lparr>p_fsm := f\<rparr>)))"

definition cparser_record_command :: "cparser_result \<Rightarrow> ('g, 'a) cparser \<Rightarrow> ('g, 'a) cparser" where
  "cparser_record_command rc p = p\<lparr>p_last := Some (cur_line (p_lines p), rc, cur_node (p_fsm p))\<rparr>"

definition p_children :: "('g, 'a) cparser \<Rightarrow> 'g cparser_node list res" where
  "p_children p = (case cur_node (p_fsm p) of None \<Rightarrow> Inl Null_deref | Some n \<Rightarrow> Inr (n_children n))"

definition p_match :: "('g, 'a) cparser \<Rightarrow> (nat \<times> 'g cparser_node option \<times> bool) res" where
  "p_match p = cparser_match (p_privileged p) (token_text (cur_token (p_fsm p))) (cur_node (p_fsm p))"

section \<open>Help\<close>

fun help_matching :: "bytes \<Rightarrow> 'g cparser_node list \<Rightarrow> ('g, 'a) cparser \<Rightarrow> ('g, 'a) cparser res" where
  "help_matching token [] p = Inr p"
| "help_matching token (node # nodes) p =
     (if \<not> node_usable (p_privileged p) node then help_matching token nodes p
      else
        rbind (cparser_match_fn token node) (\<lambda>(rc, c).
        rbind (if rc = CPARSER_OK then cparser_help_print_node node True True p else Inr p) (help_matching token nodes)))"

definition cparser_help :: "('g, 'a) cparser \<Rightarrow> ('g, 'a) cparser res" where
  "cparser_help p =
     rbind (p_children p) (\<lambda>nodes.
     rbind (case fsm_state (p_fsm p) of
         CPARSER_STATE_WHITESPACE \<Rightarrow> rfold (\<lambda>node. cparser_help_print_node node True True) nodes p
       | CPARSER_STATE_ERROR \<Rightarrow>
           rfold (\<lambda>node. cparser_help_print_node node True True) nodes (cparser_print_error (ascii ''Last known good parse point.'') p)
       | CPARSER_STATE_TOKEN \<Rightarrow> help_matching (token_text (cur_token (p_fsm p))) nodes p) (\<lambda>p.
     Inr (p_write (cparser_line_print (this_line (p_lines p)) (Some (prompt_text p)) True) p)))"

section \<open>Completion\<close>

text \<open>
  The parser types for the user. \<open>inp\<close> is \<open>cparser_input\<close> with a regular character; its result has to be OK.
\<close>

type_synonym ('g, 'a) typist = "u8 \<Rightarrow> ('g, 'a) cparser \<Rightarrow> (cparser_result \<times> ('g, 'a) cparser) run"

definition type_char :: "('g, 'a) typist \<Rightarrow> u8 \<Rightarrow> ('g, 'a) cparser \<Rightarrow> ('g, 'a) cparser run" where
  "type_char inp ch p = bind (inp ch p) (\<lambda>(rc, p). if rc = CPARSER_OK then ok p else Some (Inl Assert_fail))"

fun type_text :: "('g, 'a) typist \<Rightarrow> bytes \<Rightarrow> ('g, 'a) cparser \<Rightarrow> ('g, 'a) cparser run" where
  "type_text inp [] p = ok p"
| "type_text inp (c # cs) p = bind (type_char inp c p) (type_text inp cs)"

text \<open>The rest of a text behind the token; a pointer behind its end is out of bounds.\<close>

definition text_behind :: "nat \<Rightarrow> bytes \<Rightarrow> bytes res" where
  "text_behind n s = (if n \<le> length s then Inr (drop n s) else Inl Out_of_bounds)"

definition cparser_complete_keyword :: "('g, 'a) typist \<Rightarrow> 'g cparser_node \<Rightarrow> bytes \<Rightarrow> ('g, 'a) cparser \<Rightarrow> ('g, 'a) cparser run" where
  "cparser_complete_keyword inp node token p =
     bind (Some (rbind (param_text node) (text_behind (length token)))) (\<lambda>s. type_text inp s p)"

text \<open>The only file that fits is completed.\<close>

definition cparser_complete_file :: "(bytes \<Rightarrow> bytes list option) \<Rightarrow> ('g, 'a) typist \<Rightarrow> bytes \<Rightarrow> ('g, 'a) cparser \<Rightarrow> ('g, 'a) cparser run" where
  "cparser_complete_file gl inp token p =
     (if token = [] then Some (Inl Assert_fail)
      else case gl token of Some [f] \<Rightarrow> type_text inp (drop (length token) f) p | _ \<Rightarrow> ok p)"

text \<open>The longest text that all fitting keywords share with the first one.\<close>

definition common_end :: "nat \<Rightarrow> bytes \<Rightarrow> bytes \<Rightarrow> nat \<Rightarrow> nat" where
  "common_end n k0 k m = n + length (takeWhile (\<lambda>(a, b). a = b) (zip (drop n (take m k0)) (drop n k @ [0])))"

definition cparser_complete_list :: "('g, 'a) typist \<Rightarrow> 'g cparser_node \<Rightarrow> bytes \<Rightarrow> ('g, 'a) cparser \<Rightarrow> ('g, 'a) cparser run" where
  "cparser_complete_list inp node token p =
     (if token = [] then Some (Inl Assert_fail)
      else
        bind (Some (param_keywords node)) (\<lambda>ks.
        case filter (\<lambda>k. strncmp_eq (length token) k token) ks of
          [] \<Rightarrow> ok p
        | k0 # others \<Rightarrow>
            let match_len = fold (common_end (length token) k0) others (length k0) in
            type_text inp (drop (length token) (take match_len k0)) p))"

text \<open>\<open>cparser_complete_fn_tbl\<close>, with the call, whose result is not looked at.\<close>

definition cparser_complete_fn :: "('g, 'a) cparser_env \<Rightarrow> ('g, 'a) typist \<Rightarrow> 'g cparser_node \<Rightarrow> bytes \<Rightarrow> ('g, 'a) cparser \<Rightarrow> ('g, 'a) cparser run" where
  "cparser_complete_fn E inp node token p =
     (case n_type node of
        CPARSER_NODE_KEYWORD \<Rightarrow> cparser_complete_keyword inp node token p
      | CPARSER_NODE_FILE \<Rightarrow> cparser_complete_file (glob E) inp token p
      | CPARSER_NODE_LIST \<Rightarrow> cparser_complete_list inp node token p
      | _ \<Rightarrow> ok p)"

text \<open>Whether all nodes that match the token are keywords that go on with \<open>ch\<close>.\<close>

fun cparser_match_prefix :: "bool \<Rightarrow> bytes \<Rightarrow> 'g cparser_node list \<Rightarrow> u8 \<Rightarrow> nat \<Rightarrow> bool res" where
  "cparser_match_prefix priv token [] ch offset = Inr True"
| "cparser_match_prefix priv token (child # children) ch offset =
     (if \<not> node_usable priv child then cparser_match_prefix priv token children ch offset
      else
        rbind (cparser_match_fn token child) (\<lambda>(rc, c).
        if rc = CPARSER_NOT_OK then cparser_match_prefix priv token children ch offset
        else if n_type child \<noteq> CPARSER_NODE_KEYWORD then Inr False
        else
          rbind (param_text child) (\<lambda>s.
          if length s < offset then Inl Out_of_bounds
          else if (s @ [0]) ! offset \<noteq> ch then Inr False
          else cparser_match_prefix priv token children ch offset)))"

text \<open>
  Typing on as long as all matches agree; \<open>n\<close> is the place of the token on the stack. The result says how far it got.
\<close>

fun type_common :: "('g, 'a) typist \<Rightarrow> nat \<Rightarrow> bytes \<Rightarrow> nat \<Rightarrow> ('g, 'a) cparser \<Rightarrow> (nat \<times> ('g, 'a) cparser) run" where
  "type_common inp n [] offset p = ok (offset, p)"
| "type_common inp n (c # cs) offset p =
     bind (Some (rbind (p_children p) (\<lambda>nodes.
       cparser_match_prefix (p_privileged p) (token_text (tokens (p_fsm p) ! n)) nodes c offset))) (\<lambda>agree.
     if agree then bind (type_char inp c p) (type_common inp n cs (Suc offset)) else ok (offset, p))"

definition cparser_complete_one_level :: "('g, 'a) cparser_env \<Rightarrow> ('g, 'a) typist \<Rightarrow> ('g, 'a) cparser \<Rightarrow> (bool \<times> ('g, 'a) cparser) run" where
  "cparser_complete_one_level E inp p =
     (case fsm_state (p_fsm p) of
        CPARSER_STATE_ERROR \<Rightarrow> ok (False, p_write [bell] p)
      | CPARSER_STATE_WHITESPACE \<Rightarrow>
          (case p_children p of
             Inr [child] \<Rightarrow>
               if n_type child = CPARSER_NODE_KEYWORD then
                 bind (Some (param_text child)) (\<lambda>s.
                 bind (type_text inp s p) (\<lambda>p.
                 bind (type_char inp space p) (\<lambda>p. ok (False, p))))
               else bind (Some (cparser_help p)) (\<lambda>p. ok (False, p))
           | _ \<Rightarrow> bind (Some (cparser_help p)) (\<lambda>p. ok (False, p)))
      | CPARSER_STATE_TOKEN \<Rightarrow>
          let n = token_tos (p_fsm p); token = token_text (cur_token (p_fsm p)) in
          bind (Some (p_match p)) (\<lambda>(num_matches, match, is_complete).
          bind (Some (case match of None \<Rightarrow> Inl Null_deref | Some m \<Rightarrow> Inr m)) (\<lambda>match.
          if num_matches = 1 \<and> is_complete then
            bind (cparser_complete_fn E inp match token p) (\<lambda>p.
            bind (type_char inp space p) (\<lambda>p. ok (True, p)))
          else
            bind (Some (rbind (param_text match) (text_behind (length token)))) (\<lambda>s.
            bind (type_common inp n s (length token) p) (\<lambda>(offset, p).
            if offset = length token then bind (Some (cparser_help p)) (\<lambda>p. ok (False, p)) else ok (False, p))))))"

text \<open>\<open>while (cparser_complete_one_level(parser))\<close>\<close>

primrec complete_levels :: "nat \<Rightarrow> ('g, 'a) cparser_env \<Rightarrow> ('g, 'a) typist \<Rightarrow> ('g, 'a) cparser \<Rightarrow> ('g, 'a) cparser run" where
  "complete_levels 0 E inp p = None"
| "complete_levels (Suc n) E inp p =
     bind (cparser_complete_one_level E inp p) (\<lambda>(keep_going, p). if keep_going then complete_levels n E inp p else ok p)"

section \<open>Execution\<close>

text \<open>While the current node has a single child and this is a keyword, the keyword is typed.\<close>

primrec single_keywords :: "nat \<Rightarrow> ('g, 'a) typist \<Rightarrow> ('g, 'a) cparser \<Rightarrow> ('g, 'a) cparser run" where
  "single_keywords 0 inp p = None"
| "single_keywords (Suc n) inp p =
     bind (Some (p_children p)) (\<lambda>nodes.
     case nodes of
       [] \<Rightarrow> Some (Inl Assert_fail)
     | child # others \<Rightarrow>
         if n_type child = CPARSER_NODE_KEYWORD \<and> node_usable (p_privileged p) child \<and> others = [] then
           bind (cparser_complete_keyword inp child (token_text (cur_token (p_fsm p))) p) (\<lambda>p.
           bind (type_char inp space p) (single_keywords n inp))
         else ok p)"

definition call_glue :: "('g, 'a) cparser_env \<Rightarrow> 'g cparser_node \<Rightarrow> ('g, 'a) cparser \<Rightarrow> (cparser_result \<times> ('g, 'a) cparser) res" where
  "call_glue E node p = (case n_param node of Glue g \<Rightarrow> glue_fn E g p | No_param \<Rightarrow> Inl Null_deref | _ \<Rightarrow> Inl Out_of_bounds)"

text \<open>The end of most branches: the command is recorded and the machine reset.\<close>

definition finish_command :: "cparser_result \<Rightarrow> ('g, 'a) cparser \<Rightarrow> ('g, 'a) cparser" where
  "finish_command rc p = p_fsm_reset (cparser_record_command rc p)"

definition is_end :: "bool \<Rightarrow> 'g cparser_node \<Rightarrow> bool" where
  "is_end priv n \<longleftrightarrow> n_type n = CPARSER_NODE_END \<and> node_usable priv n"

definition cparser_is_user_input :: "('g, 'a) cparser \<Rightarrow> bool res" where
  "cparser_is_user_input p =
     (case p_user p of None \<Rightarrow> Inr False
      | Some u \<Rightarrow> if user_input_cb u = None \<or> user_buf_size u = 0 then Inl Assert_fail else Inr True)"

text \<open>What follows the glue function or a parse error.\<close>

definition command_done :: "cparser_result \<Rightarrow> ('g, 'a) cparser \<Rightarrow> (cparser_result \<times> ('g, 'a) cparser) res" where
  "command_done rc p =
     (let p = finish_command rc p in
      rbind (cparser_is_user_input p) (\<lambda>u. Inr (rc, if u then p else cparser_print_prompt p)))"

definition incomplete_command :: "('g, 'a) cparser \<Rightarrow> cparser_result \<times> ('g, 'a) cparser" where
  "incomplete_command p =
     (CPARSER_ERR_INCOMP_CMD,
      cparser_print_prompt (finish_command CPARSER_ERR_INCOMP_CMD (cparser_print_error (ascii ''Incomplete command'' @ [newline]) p)))"

text \<open>The command up to the current node: its glue function, or what is missing.\<close>

definition execute_node :: "('g, 'a) cparser_env \<Rightarrow> ('g, 'a) cparser \<Rightarrow> (cparser_result \<times> ('g, 'a) cparser) res" where
  "execute_node E p =
     rbind (p_children p) (\<lambda>nodes.
     case filter (is_end (p_privileged p)) nodes of
       child # _ \<Rightarrow>
         rbind (call_glue E child (p_write [newline] (p\<lparr>p_fsm := (p_fsm p)\<lparr>cur_node := Some child\<rparr>\<rparr>))) (\<lambda>(rc, p). command_done rc p)
     | [] \<Rightarrow>
         if token_tos (p_fsm p) \<noteq> 0 then Inr (incomplete_command p)
         else Inr (CPARSER_OK, cparser_print_prompt (p_write [newline] (finish_command CPARSER_OK p))))"

definition cparser_execute_cmd :: "('g, 'a) cparser_env \<Rightarrow> ('g, 'a) typist \<Rightarrow> nat \<Rightarrow> ('g, 'a) cparser \<Rightarrow> (cparser_result \<times> ('g, 'a) cparser) run" where
  "cparser_execute_cmd E inp n p =
     (case fsm_state (p_fsm p) of
        CPARSER_STATE_ERROR \<Rightarrow>
          Some (command_done CPARSER_ERR_PARSE_ERR (cparser_print_error (ascii ''Parse error'' @ [newline]) p))
      | CPARSER_STATE_WHITESPACE \<Rightarrow> bind (single_keywords n inp p) (\<lambda>p. Some (execute_node E p))
      | CPARSER_STATE_TOKEN \<Rightarrow>
          bind (Some (p_match p)) (\<lambda>(num_matches, match, is_complete).
          if 1 \<le> num_matches \<and> is_complete then
            bind (Some (case match of None \<Rightarrow> Inl Null_deref | Some m \<Rightarrow> Inr m)) (\<lambda>match.
            bind (cparser_complete_fn E inp match (token_text (cur_token (p_fsm p))) p) (\<lambda>p.
            bind (type_char inp space p) (\<lambda>p.
            bind (single_keywords n inp p) (\<lambda>p. Some (execute_node E p)))))
          else ok (incomplete_command p)))"

section \<open>Keys\<close>

text \<open>A key while an action waits for input.\<close>

definition user_key :: "('g, 'a) cparser_env \<Rightarrow> 'g user_input \<Rightarrow> u8 \<Rightarrow> cparser_char \<Rightarrow> ('g, 'a) cparser \<Rightarrow> (cparser_result \<times> ('g, 'a) cparser) res" where
  "user_key E u ch ch_type p =
     (if ch_type \<noteq> CPARSER_CHAR_REGULAR then Inr (CPARSER_OK, p)
      else if ch = newline then
        (case user_input_cb u of
           None \<Rightarrow> Inl Assert_fail
         | Some g \<Rightarrow> rbind (input_cb E g (user_typed u) p) (\<lambda>(rc, p). Inr (rc, cparser_print_prompt (p\<lparr>p_user := None\<rparr>))))
      else if erases (p_chars p) ch then
        Inr (CPARSER_OK, p_write (if user_do_echo u then [backspace] else []) (p\<lparr>p_user := Some (u\<lparr>user_typed := butlast (user_typed u)\<rparr>)\<rparr>))
      else if length (user_typed u) + 1 < user_buf_size u then
        Inr (CPARSER_OK, p_write (if user_do_echo u then [ch] else []) (p\<lparr>p_user := Some (u\<lparr>user_typed := user_typed u @ [ch]\<rparr>)\<rparr>))
      else Inr (CPARSER_OK, p))"

text \<open>The characters of the current line from one index to another go into the machine.\<close>

definition feed_line :: "nat \<Rightarrow> nat \<Rightarrow> ('g, 'a) cparser \<Rightarrow> ('g, 'a) cparser res" where
  "feed_line m n p = rfold (\<lambda>i p. rbind (cparser_line_char i (p_lines p)) (\<lambda>c. p_fsm_input c p)) [m..<n] p"

text \<open>Recalling another line: the machine starts again and gets what precedes the cursor there.\<close>

definition recall_line :: "cparser_lines \<times> bytes \<Rightarrow> ('g, 'a) cparser \<Rightarrow> (cparser_result \<times> ('g, 'a) cparser) res" where
  "recall_line = (\<lambda>(ls, w) p.
     let p = p_fsm_reset (p_write w (p\<lparr>p_lines := ls\<rparr>)) in
     rbind (feed_line 0 (cparser_line_current (p_lines p)) p) (\<lambda>p. Inr (CPARSER_OK, p)))"

text \<open>One move of the cursor: the character, which is 0 at the end.\<close>

definition move_cursor :: "(cparser_line \<Rightarrow> u8 \<times> cparser_line \<times> bytes) \<Rightarrow> ('g, 'a) cparser \<Rightarrow> u8 \<times> ('g, 'a) cparser" where
  "move_cursor f p = (case f (this_line (p_lines p)) of (ch, l, w) \<Rightarrow> (ch, p_write w (p_set_line l p)))"

text \<open>Moving on to one end of the line; no more than \<open>k\<close> moves are needed.\<close>

primrec move_all :: "nat \<Rightarrow> (cparser_line \<Rightarrow> u8 \<times> cparser_line \<times> bytes) \<Rightarrow> ('g, 'a) cparser \<Rightarrow> ('g, 'a) cparser res" where
  "move_all 0 f p = Inr p"
| "move_all (Suc k) f p = (case move_cursor f p of (ch, p) \<Rightarrow> if ch = 0 then Inr p else rbind (p_fsm_input ch p) (move_all k f))"

text \<open>The first switch of \<open>cparser_input\<close>: it returns, or goes on with a character.\<close>

datatype ('g, 'a) key_done = Returns cparser_result "('g, 'a) cparser" | Goes_on u8 "('g, 'a) cparser"

definition edit_key :: "u8 \<Rightarrow> cparser_char \<Rightarrow> ('g, 'a) cparser \<Rightarrow> ('g, 'a) key_done res" where
  "edit_key ch ch_type p =
     (let line = this_line (p_lines p); returned = (\<lambda>m. rbind m (\<lambda>(rc, p). Inr (Returns rc p)));
          moved = (\<lambda>f. case move_cursor f p of (ch, p) \<Rightarrow>
            if ch = 0 then Inr (Returns CPARSER_OK (p_write [bell] p)) else Inr (Goes_on ch p)) in
      case ch_type of
        CPARSER_CHAR_REGULAR \<Rightarrow>
          if ch = ch_complete (p_chars p) \<or> ch = ch_help (p_chars p) then Inr (Goes_on ch p)
          else if erases (p_chars p) ch then
            rbind (cparser_line_delete line) (\<lambda>(rc, l, w).
            if rc = CPARSER_ERR_NOT_EXIST then Inr (Returns CPARSER_OK p)
            else Inr (Goes_on ch (p_write w (p_set_line l p))))
          else if ch = newline then
            rbind (feed_line (ln_current line) (ln_last line) p) (\<lambda>p. Inr (Goes_on ch p))
          else (case cparser_line_insert ch line of (rc, l, w) \<Rightarrow> Inr (Goes_on ch (p_write w (p_set_line l p))))
      | CPARSER_CHAR_UP_ARROW \<Rightarrow> returned (recall_line (cparser_line_prev_line (p_lines p)) p)
      | CPARSER_CHAR_DOWN_ARROW \<Rightarrow> returned (recall_line (cparser_line_next_line (p_lines p)) p)
      | CPARSER_CHAR_LEFT_ARROW \<Rightarrow> moved cparser_line_prev_char
      | CPARSER_CHAR_RIGHT_ARROW \<Rightarrow> moved cparser_line_next_char
      | CPARSER_CHAR_FIRST \<Rightarrow> rbind (move_all (Suc (ln_current line)) cparser_line_prev_char p) (\<lambda>p. Inr (Returns CPARSER_OK p))
      | CPARSER_CHAR_LAST \<Rightarrow> rbind (move_all (Suc (ln_last line)) cparser_line_next_char p) (\<lambda>p. Inr (Returns CPARSER_OK p))
      | CPARSER_CHAR_UNKNOWN \<Rightarrow> Inr (Returns CPARSER_NOT_OK (p_write [bell] p)))"

text \<open>The special characters, and the others, which go into the machine.\<close>

definition act_on :: "('g, 'a) cparser_env \<Rightarrow> ('g, 'a) typist \<Rightarrow> nat \<Rightarrow> u8 \<Rightarrow> ('g, 'a) cparser \<Rightarrow> (cparser_result \<times> ('g, 'a) cparser) run" where
  "act_on E inp n ch p =
     (if ch = ch_complete (p_chars p) then bind (complete_levels n E inp p) (\<lambda>p. ok (CPARSER_OK, p))
      else if ch = ch_help (p_chars p) then Some (rbind (cparser_help p) (\<lambda>p. Inr (CPARSER_OK, p)))
      else if ch = newline then
        bind (cparser_execute_cmd E inp n p) (\<lambda>(rc, p). ok (rc, p\<lparr>p_lines := cparser_line_advance (p_lines p)\<rparr>))
      else Some (rbind (p_fsm_input ch p) (\<lambda>p. Inr (CPARSER_OK, p))))"

definition input_body :: "('g, 'a) cparser_env \<Rightarrow> ('g, 'a) typist \<Rightarrow> nat \<Rightarrow> u8 \<Rightarrow> cparser_char \<Rightarrow> ('g, 'a) cparser \<Rightarrow>
    (cparser_result \<times> ('g, 'a) cparser) run" where
  "input_body E inp n ch ch_type p =
     bind (Some (cparser_is_user_input p)) (\<lambda>u.
     if u then Some (case p_user p of None \<Rightarrow> Inl Null_deref | Some u \<Rightarrow> user_key E u ch ch_type p)
     else
       bind (Some (edit_key ch ch_type p)) (\<lambda>r.
       case r of Returns rc p \<Rightarrow> ok (rc, p) | Goes_on ch p \<Rightarrow> act_on E inp n ch p))"

primrec cparser_input :: "nat \<Rightarrow> ('g, 'a) cparser_env \<Rightarrow> u8 \<Rightarrow> cparser_char \<Rightarrow> ('g, 'a) cparser \<Rightarrow> (cparser_result \<times> ('g, 'a) cparser) run" where
  "cparser_input 0 E ch ch_type p = None"
| "cparser_input (Suc n) E ch ch_type p = input_body E (\<lambda>c. cparser_input n E c CPARSER_CHAR_REGULAR) n ch ch_type p"

end
