(* ===== verification/CliApi.thy ===== *)
theory CliApi
  imports CliParser
begin

text \<open>
  The calls around the parser: reading keys from a terminal (\<open>src/src/cli_parser/cparser_io_unix.c\<close>), the loop over
  them, initialisation, nested levels, input for an action, and the walk over the tree that prints all commands
  (\<open>cparser.c\<close>).
\<close>

section \<open>Keys from the terminal\<close>

definition CTRL_A :: u8 where "CTRL_A = 1"
definition CTRL_E :: u8 where "CTRL_E = 5"
definition CTRL_N :: u8 where "CTRL_N = 14"
definition CTRL_P :: u8 where "CTRL_P = 16"

fun getchar :: "bytes \<Rightarrow> u8 option \<times> bytes" where
  "getchar [] = (None, [])"
| "getchar (c # s) = (Some c, s)"

text \<open>\<open>isalnum(c) || c == '\n' || ispunct(c) || c == ' '\<close>, or a character of the configuration.\<close>

definition regular_char :: "cparser_chars \<Rightarrow> u8 \<Rightarrow> bool" where
  "regular_char cs c \<longleftrightarrow> 33 \<le> c \<and> c \<le> 126 \<or> c = newline \<or> c = space \<or> erases cs c \<or> c = ch_help cs \<or> c = ch_complete cs"

definition arrow :: "u8 \<Rightarrow> cparser_char" where
  "arrow c =
     (if c = 65 then CPARSER_CHAR_UP_ARROW else if c = 66 then CPARSER_CHAR_DOWN_ARROW
      else if c = 67 then CPARSER_CHAR_RIGHT_ARROW else if c = 68 then CPARSER_CHAR_LEFT_ARROW else CPARSER_CHAR_UNKNOWN)"

text \<open>The end of the input is read as the character -1, of unknown type.\<close>

definition cparser_unix_getch :: "cparser_chars \<Rightarrow> bytes \<Rightarrow> u8 \<times> cparser_char \<times> bytes" where
  "cparser_unix_getch cs s =
     (case getchar s of
        (None, s) \<Rightarrow> (- 1, CPARSER_CHAR_UNKNOWN, s)
      | (Some c, s) \<Rightarrow>
          if c = 27 then
            (case getchar s of
               (None, s) \<Rightarrow> (- 1, CPARSER_CHAR_UNKNOWN, s)
             | (Some c, s) \<Rightarrow>
                 if c = 91 then
                   (case getchar s of (None, s) \<Rightarrow> (- 1, CPARSER_CHAR_UNKNOWN, s) | (Some c, s) \<Rightarrow> (c, arrow c, s))
                 else (c, CPARSER_CHAR_UNKNOWN, s))
          else if c = CTRL_P then (c, CPARSER_CHAR_UP_ARROW, s)
          else if c = CTRL_N then (c, CPARSER_CHAR_DOWN_ARROW, s)
          else if c = CTRL_A then (c, CPARSER_CHAR_FIRST, s)
          else if c = CTRL_E then (c, CPARSER_CHAR_LAST, s)
          else if regular_char cs c then (c, CPARSER_CHAR_REGULAR, s)
          else (c, CPARSER_CHAR_UNKNOWN, s))"

text \<open>\<open>n\<close> bounds the turns of the loop, \<open>m\<close> is the fuel of each key.\<close>

primrec cparser_loop :: "nat \<Rightarrow> nat \<Rightarrow> ('g, 'a) cparser_env \<Rightarrow> bytes \<Rightarrow> ('g, 'a) cparser \<Rightarrow> ('g, 'a) cparser run" where
  "cparser_loop 0 m E s p = None"
| "cparser_loop (Suc n) m E s p =
     (if p_done p then ok p
      else case cparser_unix_getch (p_chars p) s of (ch, ch_type, s) \<Rightarrow>
        bind (cparser_input m E ch ch_type p) (\<lambda>(rc, p). cparser_loop n m E s p))"

definition cparser_run :: "nat \<Rightarrow> nat \<Rightarrow> ('g, 'a) cparser_env \<Rightarrow> bytes \<Rightarrow> ('g, 'a) cparser \<Rightarrow> ('g, 'a) cparser run" where
  "cparser_run n m E s p = cparser_loop n m E s ((cparser_print_prompt p)\<lparr>p_done := False\<rparr>)"

section \<open>Initialisation and levels\<close>

definition CPARSER_MAX_PROMPT :: nat where "CPARSER_MAX_PROMPT = 16"
definition CPARSER_MAX_NESTED_LEVELS :: nat where "CPARSER_MAX_NESTED_LEVELS = 4"

text \<open>A root and an erasing character have to be configured; None when they are not. The prompt is cut to 15 characters.\<close>

definition cparser_init :: "cparser_chars \<Rightarrow> 'g cparser_node option \<Rightarrow> bytes \<Rightarrow> 'a \<Rightarrow> ('g, 'a) cparser option" where
  "cparser_init cs root prompt app =
     (case root of
        None \<Rightarrow> None
      | Some root \<Rightarrow>
          if ch_erase cs = 0 then None
          else Some \<lparr>p_chars = cs, p_levels = [(root, snprintf CPARSER_MAX_PROMPT prompt)],
            p_fsm = cparser_fsm_reset root \<lparr>cur_node = None, fsm_state = CPARSER_STATE_WHITESPACE, token_tos = 0, current_pos = 0, last_good = 0, tokens = []\<rparr>,
            p_privileged = False, p_lines = lines_new, p_done = False, p_user = None, p_last = None, p_out = [], p_app = app\<rparr>)"

definition cparser_quit :: "('g, 'a) cparser \<Rightarrow> ('g, 'a) cparser" where
  "cparser_quit p = p\<lparr>p_done := True\<rparr>"

definition cparser_submode_enter :: "bytes \<Rightarrow> ('g, 'a) cparser \<Rightarrow> (cparser_result \<times> ('g, 'a) cparser) res" where
  "cparser_submode_enter prompt p =
     (if length (p_levels p) = CPARSER_MAX_NESTED_LEVELS then Inr (CPARSER_NOT_OK, p)
      else
        rbind (p_children p) (\<lambda>nodes.
        case nodes of
          [] \<Rightarrow> Inl Assert_fail
        | new_root # _ \<Rightarrow>
            if n_type new_root \<noteq> CPARSER_NODE_ROOT then Inl Assert_fail
            else Inr (CPARSER_OK, p\<lparr>p_levels := (new_root, snprintf CPARSER_MAX_PROMPT prompt) # p_levels p\<rparr>)))"

definition cparser_submode_exit :: "('g, 'a) cparser \<Rightarrow> cparser_result \<times> ('g, 'a) cparser" where
  "cparser_submode_exit p =
     (if length (p_levels p) \<le> 1 then (CPARSER_NOT_OK, p) else (CPARSER_OK, p\<lparr>p_levels := tl (p_levels p)\<rparr>))"

definition cparser_set_privileged_mode :: "bool \<Rightarrow> ('g, 'a) cparser \<Rightarrow> ('g, 'a) cparser" where
  "cparser_set_privileged_mode enable p = p\<lparr>p_privileged := enable\<rparr>"

section \<open>Input for an action\<close>

definition cparser_user_input :: "bytes option \<Rightarrow> bool \<Rightarrow> nat \<Rightarrow> 'g option \<Rightarrow> ('g, 'a) cparser \<Rightarrow> (cparser_result \<times> ('g, 'a) cparser) res" where
  "cparser_user_input prompt do_echo buf_size cb p =
     (if buf_size = 0 then Inr (CPARSER_ERR_INVALID_PARAMS, p)
      else
        rbind (cparser_is_user_input p) (\<lambda>u.
        if u then Inr (CPARSER_NOT_OK, p)
        else Inr (CPARSER_OK, (p_write (case prompt of None \<Rightarrow> [] | Some s \<Rightarrow> s) p)
          \<lparr>p_user := Some \<lparr>user_buf_size = buf_size, user_do_echo = do_echo, user_typed = [], user_input_cb = cb\<rparr>\<rparr>)))"

definition cparser_abort_user_input :: "('g, 'a) cparser_env \<Rightarrow> ('g, 'a) cparser \<Rightarrow> (cparser_result \<times> ('g, 'a) cparser) res" where
  "cparser_abort_user_input E p =
     rbind (cparser_is_user_input p) (\<lambda>u.
     case p_user p of
       None \<Rightarrow> Inr (CPARSER_ERR_NOT_EXIST, p)
     | Some u \<Rightarrow>
         (case user_input_cb u of
            None \<Rightarrow> Inl Null_deref
          | Some g \<Rightarrow> rbind (input_cb E g [] p) (\<lambda>(rc, p). Inr (CPARSER_OK, cparser_print_prompt (p\<lparr>p_user := None\<rparr>)))))"

text \<open>The last command: its line, its result and whether its node is for the privileged mode.\<close>

definition cparser_last_command :: "('g, 'a) cparser \<Rightarrow> (bytes \<times> cparser_result \<times> bool) res" where
  "cparser_last_command p =
     (case p_last p of
        None \<Rightarrow> Inl Uninit_read
      | Some (i, rc, node) \<Rightarrow>
          Inr (c_string (ln_buf (the_lines (p_lines p) ! i)), rc,
            case node of None \<Rightarrow> False | Some n \<Rightarrow> n_flags n AND CPARSER_NODE_FLAGS_HIDDEN \<noteq> 0))"

section \<open>Walking over the tree\<close>

type_synonym ('g, 's) walker = "'g cparser_node \<Rightarrow> 's \<Rightarrow> (cparser_result \<times> 's) res"

text \<open>The result of the walk below a child is not looked at.\<close>

lemma child_smaller [termination_simp]: "c \<in> set (n_children n) \<Longrightarrow> size c < size n"
  by (cases n) (auto simp: less_Suc_eq_le intro: trans_le_add2 size_list_estimation' [OF _ order_refl])

fun cparser_walk_internal :: "('g, 's) walker option \<Rightarrow> ('g, 's) walker option \<Rightarrow> 'g cparser_node \<Rightarrow> 's \<Rightarrow> (cparser_result \<times> 's) res" where
  "cparser_walk_internal pre_fn post_fn node s =
     rbind (case pre_fn of None \<Rightarrow> Inr (CPARSER_OK, s) | Some f \<Rightarrow> f node s) (\<lambda>(rc, s).
     if rc \<noteq> CPARSER_OK then Inr (rc, s)
     else
       rbind (if n_type node = CPARSER_NODE_END then Inr s
         else rfold (\<lambda>c s. rbind (cparser_walk_internal pre_fn post_fn c s) (\<lambda>(rc, s). Inr s)) (n_children node) s) (\<lambda>s.
       case post_fn of None \<Rightarrow> Inr (CPARSER_OK, s) | Some f \<Rightarrow> f node s))"

definition cparser_walk :: "('g, 's) walker option \<Rightarrow> ('g, 's) walker option \<Rightarrow> ('g, 'a) cparser \<Rightarrow> 's \<Rightarrow> (cparser_result \<times> 's) res" where
  "cparser_walk pre_fn post_fn p s =
     (if pre_fn = None \<and> post_fn = None then Inr (CPARSER_ERR_INVALID_PARAMS, s)
      else cparser_walk_internal pre_fn post_fn (p_root p) s)"

text \<open>The help stack is the path to the current node; what the walkers write is kept with it.\<close>

definition cparser_help_pre_walker :: "('g, 'g cparser_node list \<times> ('g, 'a) cparser) walker" where
  "cparser_help_pre_walker node = (\<lambda>(st, p).
     if length st < CPARSER_MAX_NUM_TOKENS + 2 then Inr (CPARSER_OK, st @ [node], p) else Inl Out_of_bounds)"

definition filter_fits :: "bytes \<Rightarrow> 'g cparser_node \<Rightarrow> bool res" where
  "filter_fits flt node =
     (if n_type node = CPARSER_NODE_LIST then rbind (param_keywords node) (\<lambda>ks. Inr (\<exists>k\<in>set ks. sublist flt k))
      else if n_type node = CPARSER_NODE_KEYWORD then rbind (param_text node) (\<lambda>s. Inr (sublist flt s))
      else Inr False)"

fun any_fits :: "bytes \<Rightarrow> 'g cparser_node list \<Rightarrow> bool res" where
  "any_fits flt [] = Inr False"
| "any_fits flt (n # ns) = rbind (filter_fits flt n) (\<lambda>b. if b then Inr True else any_fits flt ns)"

text \<open>The nodes of a command, with braces around its optional parts.\<close>

definition help_path_node :: "'g cparser_node \<Rightarrow> nat \<times> ('g, 'a) cparser \<Rightarrow> (nat \<times> ('g, 'a) cparser) res" where
  "help_path_node node = (\<lambda>(num_braces, p).
     if n_type node = CPARSER_NODE_ROOT \<or> n_type node = CPARSER_NODE_END then Inr (num_braces, p)
     else
       let start = (n_flags node AND CPARSER_NODE_FLAGS_OPT_START \<noteq> 0);
           p = p_write (if start then ascii ''{ '' else []) p;
           num_braces = (if start then Suc num_braces else num_braces) in
       rbind (cparser_help_print_node node False False p) (\<lambda>p.
       Inr (num_braces, p_write (space # (if n_flags node AND CPARSER_NODE_FLAGS_OPT_END \<noteq> 0
         then concat (replicate num_braces (ascii ''} '')) else [])) p)))"

definition cparser_help_post_walker :: "bytes option \<Rightarrow> ('g, 'g cparser_node list \<times> ('g, 'a) cparser) walker" where
  "cparser_help_post_walker flt node = (\<lambda>(st, p).
     rbind (if n_type node = CPARSER_NODE_END \<and> n_flags node AND CPARSER_NODE_FLAGS_OPT_PARTIAL = 0
         then rbind (case flt of None \<Rightarrow> Inr True | Some s \<Rightarrow> any_fits s st) (\<lambda>b. Inr (b \<and> node_usable (p_privileged p) node))
         else Inr False) (\<lambda>do_print.
     rbind (if do_print
         then
           rbind (rfold help_path_node st
             (0, p_write (case n_desc node of Some d \<Rightarrow> d @ [13, newline] @ ascii ''  '' | None \<Rightarrow> 13 # ascii ''  '') p)) (\<lambda>(k, p).
           Inr (p_write [13, newline, newline] p))
         else Inr p) (\<lambda>p.
     Inr (CPARSER_OK, butlast st, p))))"

definition cparser_help_cmd :: "bytes option \<Rightarrow> ('g, 'a) cparser \<Rightarrow> (cparser_result \<times> ('g, 'a) cparser) res" where
  "cparser_help_cmd str p =
     rbind (cparser_walk (Some cparser_help_pre_walker) (Some (cparser_help_post_walker str)) p ([], p)) (\<lambda>(rc, st, p). Inr (rc, p))"

end
