(* ===== verification/CliEdit.thy ===== *)
theory CliEdit
  imports CliUndo CliApi
begin

text \<open>
  The line editor and the state machine in step: however a line was typed, moved in, erased and recalled, the machine is
  in the state to which the text before the cursor leads. What Enter executes is then a matter of the text of the line.
\<close>

section \<open>In step\<close>

text \<open>Characters that stand in a line.\<close>

definition plain_char :: "cparser_chars \<Rightarrow> u8 \<Rightarrow> bool" where
  "plain_char cs c \<longleftrightarrow> c \<noteq> 0 \<and> \<not> erases cs c \<and> c \<noteq> ch_complete cs \<and> c \<noteq> ch_help cs \<and> c \<noteq> newline"

text \<open>A line that the machine can hold: one character less than the editor allows.\<close>

definition good_line :: "cparser_chars \<Rightarrow> cparser_line \<Rightarrow> bool" where
  "good_line cs l \<longleftrightarrow> line_ok l \<and> ln_last l < CPARSER_MAX_LINE_SIZE \<and> (\<forall>c\<in>set (line_text l). plain_char cs c)"

definition lines_ok :: "cparser_chars \<Rightarrow> cparser_lines \<Rightarrow> bool" where
  "lines_ok cs ls \<longleftrightarrow> length (the_lines ls) = CPARSER_MAX_LINES \<and> cur_line ls < CPARSER_MAX_LINES \<and> max_line ls < CPARSER_MAX_LINES \<and>
     (\<forall>l\<in>set (the_lines ls). good_line cs l)"

definition in_step :: "('g, 'a) cparser \<Rightarrow> bool" where
  "in_step p \<longleftrightarrow> p_user p = None \<and> erases (p_chars p) backspace \<and> lines_ok (p_chars p) (p_lines p) \<and>
     fsm_at (p_chars p) (p_privileged p) (p_root p) (before_cursor (this_line (p_lines p))) (p_fsm p)"

lemma good_line_of:
  "good_line cs (line_of a b) \<longleftrightarrow> length a + length b < CPARSER_MAX_LINE_SIZE \<and> (\<forall>c\<in>set (a @ b). plain_char cs c)"
  by (auto simp: good_line_def line_of_ok plain_char_def)

lemma good_line_cases:
  assumes "good_line cs l"
  obtains a b where "l = line_of a b" "length a + length b < CPARSER_MAX_LINE_SIZE" "\<forall>c\<in>set (a @ b). plain_char cs c"
  using assms good_line_of by (metis good_line_def line_cases)

lemma this_line_good: "lines_ok cs ls \<Longrightarrow> good_line cs (this_line ls)"
  by (auto simp: lines_ok_def this_line_def)

lemma set_line_this [simp]: "lines_ok cs ls \<Longrightarrow> this_line (set_line l ls) = l"
  by (simp add: lines_ok_def this_line_def set_line_def)

lemma set_line_ok: "lines_ok cs ls \<Longrightarrow> good_line cs l \<Longrightarrow> lines_ok cs (set_line l ls)"
  by (auto simp: lines_ok_def set_line_def dest: set_update_subset_insert [THEN subsetD])

lemma p_write_fields [simp]:
  "p_chars (p_write w p) = p_chars p" "p_levels (p_write w p) = p_levels p" "p_fsm (p_write w p) = p_fsm p"
  "p_privileged (p_write w p) = p_privileged p" "p_lines (p_write w p) = p_lines p" "p_user (p_write w p) = p_user p"
  "p_done (p_write w p) = p_done p" "p_last (p_write w p) = p_last p" "p_app (p_write w p) = p_app p"
  "p_root (p_write w p) = p_root p" "p_prompt (p_write w p) = p_prompt p"
  by (simp_all add: p_write_def p_root_def p_prompt_def)

lemma p_set_line_fields [simp]:
  "p_chars (p_set_line l p) = p_chars p" "p_levels (p_set_line l p) = p_levels p" "p_fsm (p_set_line l p) = p_fsm p"
  "p_privileged (p_set_line l p) = p_privileged p" "p_user (p_set_line l p) = p_user p" "p_root (p_set_line l p) = p_root p"
  "p_lines (p_set_line l p) = set_line l (p_lines p)" "p_app (p_set_line l p) = p_app p"
  by (simp_all add: p_set_line_def p_root_def)

lemma p_root_updates [simp]:
  "p_root (p\<lparr>p_fsm := f\<rparr>) = p_root p" "p_root (p\<lparr>p_lines := ls\<rparr>) = p_root p" "p_root (p\<lparr>p_last := l\<rparr>) = p_root p"
  by (simp_all add: p_root_def)

text \<open>One character into the machine changes the machine and the output.\<close>

lemma p_fsm_inputE:
  assumes "p_fsm_input c p = Inr q"
  obtains f w where "cparser_fsm_input (p_chars p) (p_privileged p) c (p_fsm p) = Inr (f, w)" "q = p_write w (p\<lparr>p_fsm := f\<rparr>)"
  using assms by (auto simp: p_fsm_input_def rbind_eq_Inr)

lemma in_step_write [simp]: "in_step (p_write w p) = in_step p"
  by (simp add: in_step_def)

section \<open>Feeding a line\<close>

definition same_but_fsm :: "('g, 'a) cparser \<Rightarrow> ('g, 'a) cparser \<Rightarrow> bool" where
  "same_but_fsm p q \<longleftrightarrow> (\<exists>f w. q = p_write w (p\<lparr>p_fsm := f\<rparr>))"

lemma same_but_fsm_fields:
  assumes "same_but_fsm p q"
  shows "p_chars q = p_chars p" "p_levels q = p_levels p" "p_privileged q = p_privileged p" "p_lines q = p_lines p"
    "p_user q = p_user p" "p_root q = p_root p" "p_app q = p_app p" "p_done q = p_done p"
  using assms by (auto simp: same_but_fsm_def)

lemma same_but_fsm_refl: "same_but_fsm p p"
  unfolding same_but_fsm_def by (rule exI [of _ "p_fsm p"], rule exI [of _ "[]"]) (simp add: p_write_def)

lemma same_but_fsm_trans: "same_but_fsm p q \<Longrightarrow> same_but_fsm q r \<Longrightarrow> same_but_fsm p r"
proof -
  assume "same_but_fsm p q" "same_but_fsm q r"
  then obtain f v g w where "q = p_write v (p\<lparr>p_fsm := f\<rparr>)" "r = p_write w (q\<lparr>p_fsm := g\<rparr>)"
    by (auto simp: same_but_fsm_def)
  then have "r = p_write (v @ w) (p\<lparr>p_fsm := g\<rparr>)" by (simp add: p_write_def)
  then show ?thesis unfolding same_but_fsm_def by blast
qed

lemma same_but_fsm_input: "p_fsm_input c p = Inr q \<Longrightarrow> same_but_fsm p q"
  by (erule p_fsm_inputE) (auto simp: same_but_fsm_def)

lemma feed_line_at:
  assumes "feed_line m n p = Inr q" "m \<le> n" "n \<le> ln_last (this_line (p_lines p))" "lines_ok (p_chars p) (p_lines p)"
    and "fsm_at (p_chars p) (p_privileged p) (p_root p) (take m (ln_buf (this_line (p_lines p)))) (p_fsm p)"
  shows "fsm_at (p_chars p) (p_privileged p) (p_root p) (take n (ln_buf (this_line (p_lines p)))) (p_fsm q) \<and> same_but_fsm p q"
  using assms(2,1,3)
proof (induction n arbitrary: q rule: dec_induct)
  case base
  then have "q = p" by (simp add: feed_line_def)
  then show ?case using assms(5) same_but_fsm_refl by simp
next
  case (step n)
  let ?l = "this_line (p_lines p)" and ?cs = "p_chars p"
  have good: "good_line ?cs ?l" using this_line_good [OF assms(4)] .
  have "[m..<Suc n] = [m..<n] @ [n]" using step.hyps(1) by simp
  then obtain r c where r: "feed_line m n p = Inr r" and c: "cparser_line_char n (p_lines r) = Inr c" "p_fsm_input c r = Inr q"
    using step.prems(1) by (auto simp: feed_line_def rfold_append rbind_eq_Inr)
  have ih: "fsm_at ?cs (p_privileged p) (p_root p) (take n (ln_buf ?l)) (p_fsm r)" "same_but_fsm p r"
    using step.IH [OF r] step.prems(2) by auto
  note f = same_but_fsm_fields [OF ih(2)]
  have n: "n < length (ln_buf ?l)" "n < ln_last ?l" using good step.prems(2) by (auto simp: good_line_def line_ok_def)
  have ch: "c = ln_buf ?l ! n" using c(1) n(2) by (simp add: f cparser_line_char_def)
  then have "c \<in> set (line_text ?l)" using n by (auto simp: line_text_def in_set_conv_nth)
  then have pc: "plain_char ?cs c" using good by (simp add: good_line_def)
  obtain g w where g: "cparser_fsm_input ?cs (p_privileged p) c (p_fsm r) = Inr (g, w)" "q = p_write w (r\<lparr>p_fsm := g\<rparr>)"
    using c(2) by (auto elim: p_fsm_inputE simp: f)
  have "fsm_at ?cs (p_privileged p) (p_root p) (take n (ln_buf ?l) @ [c]) g"
    using ih(1) pc n good g(1) by (intro fsm_at_input(1)) (auto simp: plain_char_def good_line_def)
  then show ?case
    using n(1) ch g(2) same_but_fsm_trans [OF ih(2) same_but_fsm_input [OF c(2)]] by (simp add: take_Suc_conv_app_nth)
qed

section \<open>Every key keeps them in step\<close>

lemma recall_keeps:
  assumes "in_step p" "lines_ok (p_chars p) ls" "recall_line (ls, w) p = Inr (rc, q)"
  shows "in_step q"
proof -
  let ?p = "p_fsm_reset (p_write w (p\<lparr>p_lines := ls\<rparr>))"
  have pf: "p_lines ?p = ls" "p_chars ?p = p_chars p" "p_user ?p = p_user p" "p_privileged ?p = p_privileged p" "p_root ?p = p_root p"
    by (simp_all add: p_fsm_reset_def)
  have f: "feed_line 0 (ln_current (this_line ls)) ?p = Inr q"
    using assms(3) by (auto simp: recall_line_def Let_def rbind_eq_Inr cparser_line_current_def pf(1))
  have good: "good_line (p_chars p) (this_line ls)" using this_line_good [OF assms(2)] .
  have z: "fsm_at (p_chars p) (p_privileged p) (p_root p) [] (p_fsm ?p)" by (simp add: p_fsm_reset_def fsm_at_reset)
  have "fsm_at (p_chars p) (p_privileged p) (p_root p) (take (ln_current (this_line ls)) (ln_buf (this_line ls))) (p_fsm q) \<and> same_but_fsm ?p q"
    using feed_line_at [OF f] good assms(2) z by (simp add: pf good_line_def line_ok_def)
  then show ?thesis
    using assms(1,2) same_but_fsm_fields [of ?p q] by (auto simp: in_step_def pf before_cursor_def)
qed

lemma recalled_lines_ok:
  assumes "lines_ok cs ls"
  shows "lines_ok cs (fst (cparser_line_next_line ls))" "lines_ok cs (fst (cparser_line_prev_line ls))"
  using assms unfolding lines_ok_def cparser_line_next_line_def cparser_line_prev_line_def Let_def
  by auto

text \<open>Moving to the right and to the left, by the character moved over.\<close>

lemma in_step_line:
  assumes "in_step p"
  obtains a b where "this_line (p_lines p) = line_of a b" "length a + length b < CPARSER_MAX_LINE_SIZE"
    "\<forall>c\<in>set (a @ b). plain_char (p_chars p) c" "fsm_at (p_chars p) (p_privileged p) (p_root p) a (p_fsm p)"
  using assms this_line_good [of "p_chars p" "p_lines p"]
  by (auto simp: in_step_def elim: good_line_cases)

lemma in_step_set:
  assumes "in_step p" "length a + length b < CPARSER_MAX_LINE_SIZE" "\<forall>c\<in>set (a @ b). plain_char (p_chars p) c"
    "fsm_at (p_chars p) (p_privileged p) (p_root p) a f"
  shows "in_step (p_write w ((p_set_line (line_of a b) p)\<lparr>p_fsm := f\<rparr>))"
proof -
  have "good_line (p_chars p) (line_of a b)" using assms(2,3) by (simp add: good_line_of)
  then have "lines_ok (p_chars p) (set_line (line_of a b) (p_lines p))"
    using assms(1) set_line_ok by (auto simp: in_step_def)
  then show ?thesis using assms(1,4) set_line_this [of "p_chars p" "p_lines p"] by (auto simp: in_step_def)
qed

text \<open>A character into the machine after the line was changed.\<close>

lemma input_after:
  assumes "p_fsm_input c (p_write w (p_set_line l p)) = Inr q"
  obtains f v where "cparser_fsm_input (p_chars p) (p_privileged p) c (p_fsm p) = Inr (f, v)" "q = p_write (w @ v) ((p_set_line l p)\<lparr>p_fsm := f\<rparr>)"
  using assms by (auto simp: p_fsm_input_def rbind_eq_Inr p_write_def)

lemma typed_in_step:
  assumes "in_step p" "plain_char (p_chars p) c" "this_line (p_lines p) = line_of a b" "Suc (length a + length b) < CPARSER_MAX_LINE_SIZE"
    and "p_fsm_input c (p_write w (p_set_line (line_of (a @ [c]) b) p)) = Inr q"
  shows "in_step q"
proof -
  obtain f v where f: "cparser_fsm_input (p_chars p) (p_privileged p) c (p_fsm p) = Inr (f, v)"
    "q = p_write (w @ v) ((p_set_line (line_of (a @ [c]) b) p)\<lparr>p_fsm := f\<rparr>)"
    using assms(5) by (rule input_after)
  have l: "\<forall>c\<in>set (a @ b). plain_char (p_chars p) c" "fsm_at (p_chars p) (p_privileged p) (p_root p) a (p_fsm p)"
    using in_step_line [OF assms(1)] assms(3) by (metis line_of_texts(1,3))+
  have "fsm_at (p_chars p) (p_privileged p) (p_root p) (a @ [c]) f"
    using fsm_at_input(1) [OF l(2) _ _ f(1)] assms(2,4) by (simp add: plain_char_def)
  then show ?thesis using in_step_set [OF assms(1)] assms(2,4) l(1) by (simp add: f(2))
qed

lemma erased_in_step:
  assumes "in_step p" "erases (p_chars p) e" "this_line (p_lines p) = line_of (a @ [c]) b"
    and "p_fsm_input e (p_write w (p_set_line (line_of a b') p)) = Inr q" "b' = b \<or> b' = c # b"
  shows "in_step q"
proof -
  obtain f v where f: "cparser_fsm_input (p_chars p) (p_privileged p) e (p_fsm p) = Inr (f, v)"
    "q = p_write (w @ v) ((p_set_line (line_of a b') p)\<lparr>p_fsm := f\<rparr>)"
    using assms(4) by (rule input_after)
  have l: "\<forall>d\<in>set ((a @ [c]) @ b). plain_char (p_chars p) d" "fsm_at (p_chars p) (p_privileged p) (p_root p) (a @ [c]) (p_fsm p)"
    "length (a @ [c]) + length b < CPARSER_MAX_LINE_SIZE"
    using in_step_line [OF assms(1)] assms(3) by (metis line_of_texts(1,2,3))+
  have "fsm_at (p_chars p) (p_privileged p) (p_root p) a f"
    using fsm_at_erase [OF l(2) assms(2)] f(1) by auto
  moreover have "\<forall>d\<in>set (a @ b'). plain_char (p_chars p) d" "length a + length b' < CPARSER_MAX_LINE_SIZE"
    using l(1,3) assms(5) by auto
  ultimately show ?thesis using in_step_set [OF assms(1)] by (simp add: f(2))
qed

lemma move_left:
  assumes "in_step p" "move_cursor cparser_line_prev_char p = (ch, q)"
  shows "ch = 0 \<and> in_step q \<or> ch = backspace \<and> (\<forall>r. p_fsm_input ch q = Inr r \<longrightarrow> in_step r)"
proof -
  obtain a b where l: "this_line (p_lines p) = line_of a b" using in_step_line [OF assms(1)] by metis
  have er: "erases (p_chars p) backspace" using assms(1) by (simp add: in_step_def)
  show ?thesis
  proof (cases a rule: rev_cases)
    case Nil
    then have "q = p_write [] (p_set_line (this_line (p_lines p)) p)" "ch = 0" using assms(2) l by (auto simp: move_cursor_def prev_char_start)
    moreover have "p_set_line (this_line (p_lines p)) p = p" by (cases "p_lines p") (simp add: p_set_line_def set_line_def this_line_def)
    ultimately show ?thesis using assms(1) by simp
  next
    case (snoc a' c)
    then have "q = p_write [backspace] (p_set_line (line_of a' (c # b)) p)" "ch = backspace"
      using assms(2) l by (auto simp: move_cursor_def prev_char_text)
    then show ?thesis using erased_in_step [OF assms(1) er, of a' c b "[backspace]" "c # b"] l snoc by auto
  qed
qed

lemma move_right:
  assumes "in_step p" "move_cursor cparser_line_next_char p = (ch, q)"
  shows "ch = 0 \<and> in_step q \<or> plain_char (p_chars p) ch \<and> (\<forall>r. p_fsm_input ch q = Inr r \<longrightarrow> in_step r)"
proof -
  obtain a b where l: "this_line (p_lines p) = line_of a b" "length a + length b < CPARSER_MAX_LINE_SIZE"
    "\<forall>c\<in>set (a @ b). plain_char (p_chars p) c" "fsm_at (p_chars p) (p_privileged p) (p_root p) a (p_fsm p)"
    using in_step_line [OF assms(1)] by metis
  show ?thesis
  proof (cases b)
    case Nil
    then have "q = p_write [] (p_set_line (this_line (p_lines p)) p)" "ch = 0" using assms(2) l by (auto simp: move_cursor_def next_char_end)
    moreover have "p_set_line (this_line (p_lines p)) p = p" by (cases "p_lines p") (simp add: p_set_line_def set_line_def this_line_def)
    ultimately show ?thesis using assms(1) by simp
  next
    case (Cons c b')
    then have q: "q = p_write [c] (p_set_line (line_of (a @ [c]) b') p)" "ch = c"
      using assms(2) l by (auto simp: move_cursor_def next_char_text)
    have c: "plain_char (p_chars p) c" using l(3) Cons by simp
    have "in_step r" if r: "p_fsm_input ch q = Inr r" for r
    proof -
      obtain f v where f: "cparser_fsm_input (p_chars p) (p_privileged p) c (p_fsm p) = Inr (f, v)"
        "r = p_write ([c] @ v) ((p_set_line (line_of (a @ [c]) b') p)\<lparr>p_fsm := f\<rparr>)"
        using r unfolding q by (rule input_after)
      have "fsm_at (p_chars p) (p_privileged p) (p_root p) (a @ [c]) f"
        using fsm_at_input(1) [OF l(4) _ _ f(1)] c l(2) Cons by (simp add: plain_char_def)
      then show ?thesis using in_step_set [OF assms(1), of "a @ [c]" b' f] l(2,3) Cons by (simp add: f(2))
    qed
    then show ?thesis using c q(2) by simp
  qed
qed

lemma move_all_keeps:
  assumes "\<And>p ch q. in_step (p :: ('g, 'a) cparser) \<Longrightarrow> move_cursor f p = (ch, q) \<Longrightarrow> ch = 0 \<and> in_step q \<or> ch \<noteq> 0 \<and> (\<forall>r. p_fsm_input ch q = Inr r \<longrightarrow> in_step r)"
    and "in_step (p :: ('g, 'a) cparser)" "move_all k f p = Inr q"
  shows "in_step q"
  using assms(2,3)
proof (induction k arbitrary: p)
  case (Suc k)
  obtain ch r where r: "move_cursor f p = (ch, r)" by fastforce
  from assms(1) [OF Suc.prems(1) r] show ?case
    using Suc.prems(2) Suc.IH by (auto simp: r rbind_eq_Inr split: if_splits)
qed simp

text \<open>The keys of editing: all but completion, Enter, and characters that no longer fit.\<close>

definition editing :: "('g, 'a) cparser \<Rightarrow> u8 \<Rightarrow> cparser_char \<Rightarrow> bool" where
  "editing p ch ty \<longleftrightarrow>
     ty \<noteq> CPARSER_CHAR_REGULAR \<or> erases (p_chars p) ch \<and> ch \<noteq> ch_complete (p_chars p) \<and> ch \<noteq> ch_help (p_chars p) \<and> ch \<noteq> newline \<or>
     ch = ch_help (p_chars p) \<and> ch \<noteq> ch_complete (p_chars p) \<or>
     plain_char (p_chars p) ch \<and> Suc (cparser_line_last (p_lines p)) < CPARSER_MAX_LINE_SIZE"

text \<open>A backspace is an erasing character only.\<close>

definition chars_ok :: "cparser_chars \<Rightarrow> bool" where
  "chars_ok cs \<longleftrightarrow> backspace \<noteq> ch_complete cs \<and> backspace \<noteq> ch_help cs"

lemma help_fields:
  assumes "cparser_help p = Inr q"
  shows "\<exists>w. q = p_write w p"
proof -
  have n: "cparser_help_print_node node l d r = Inr s \<Longrightarrow> \<exists>w. s = p_write w r" for node l d and r s :: "('a, 'b) cparser"
    by (auto simp: cparser_help_print_node_def rbind_eq_Inr p_write_def split: if_splits intro: exI [of _ "[]"])
  have ww: "p_write w (p_write v r) = p_write (v @ w) r" for v w and r :: "('a, 'b) cparser" by (simp add: p_write_def)
  have nil: "r = p_write [] r" for r :: "('a, 'b) cparser" by (simp add: p_write_def)
  have f: "rfold (\<lambda>node. cparser_help_print_node node True True) ns r = Inr s \<Longrightarrow> \<exists>w. s = p_write w r" for ns and r s :: "('a, 'b) cparser"
  proof (induction ns arbitrary: r)
    case Nil
    then show ?case using nil by auto
  next
    case (Cons m ns)
    then obtain t where t: "cparser_help_print_node m True True r = Inr t" "rfold (\<lambda>node. cparser_help_print_node node True True) ns t = Inr s"
      by (auto simp: rbind_eq_Inr)
    then show ?case using n [OF t(1)] Cons.IH [OF t(2)] ww by metis
  qed
  have m: "help_matching tok ns r = Inr s \<Longrightarrow> \<exists>w. s = p_write w r" for tok ns and r s :: "('a, 'b) cparser"
  proof (induction tok ns r rule: help_matching.induct)
    case (1 tok r)
    then show ?case using nil by auto
  next
    case (2 tok m ns r)
    show ?case
    proof (cases "node_usable (p_privileged r) m")
      case False
      then show ?thesis using 2(1,3) by simp
    next
      case True
      then obtain rc c t where t: "cparser_match_fn tok m = Inr (rc, c)"
        "(if rc = CPARSER_OK then cparser_help_print_node m True True r else Inr r) = Inr t" "help_matching tok ns t = Inr s"
        using 2(3) by (auto simp: rbind_eq_Inr)
      then have "\<exists>w. t = p_write w r" using n nil by (metis sum.inject(2))
      moreover have "\<exists>w. s = p_write w t" using 2(2) True t by auto
      ultimately show ?thesis using ww by metis
    qed
  qed
  obtain ns r where r: "(case fsm_state (p_fsm p) of
         CPARSER_STATE_WHITESPACE \<Rightarrow> rfold (\<lambda>node. cparser_help_print_node node True True) ns p
       | CPARSER_STATE_ERROR \<Rightarrow>
           rfold (\<lambda>node. cparser_help_print_node node True True) ns (cparser_print_error (ascii ''Last known good parse point.'') p)
       | CPARSER_STATE_TOKEN \<Rightarrow> help_matching (token_text (cur_token (p_fsm p))) ns p) = Inr r"
     "q = p_write (cparser_line_print (this_line (p_lines r)) (Some (prompt_text r)) True) r"
    using assms by (auto simp: cparser_help_def rbind_eq_Inr)
  have "\<exists>w. r = p_write w p"
  proof (cases "fsm_state (p_fsm p)")
    case CPARSER_STATE_WHITESPACE
    then show ?thesis using r(1) f by auto
  next
    case CPARSER_STATE_TOKEN
    then show ?thesis using r(1) m by auto
  next
    case CPARSER_STATE_ERROR
    then show ?thesis using r(1) f [of ns "cparser_print_error _ p"] ww by (fastforce simp: cparser_print_error_def)
  qed
  then show ?thesis using r(2) ww by metis
qed

lemma act_plain:
  assumes "act_on E inp n c q = ok (rc, r)" "c \<noteq> ch_complete (p_chars q)" "c \<noteq> ch_help (p_chars q)" "c \<noteq> newline"
  shows "p_fsm_input c q = Inr r"
  using assms by (auto simp: act_on_def rbind_eq_Inr)

text \<open>The three ways on from the line editor, for the keys that move the cursor, erase and insert.\<close>

lemma moved_key:
  assumes "in_step p" "chars_ok (p_chars p)" "move_cursor f p = (c, r)"
    and "k = (if c = 0 then Returns CPARSER_OK (p_write [bell] r) else Goes_on c r)"
    and "c = 0 \<and> in_step r \<or> (c = backspace \<or> plain_char (p_chars p) c) \<and> (\<forall>s. p_fsm_input c r = Inr s \<longrightarrow> in_step s)"
    and "(case k of Returns rc p \<Rightarrow> ok (rc, p) | Goes_on ch p \<Rightarrow> act_on E inp n ch p) = ok (rc, q)"
  shows "in_step q"
proof -
  have "p_chars r = p_chars p" using assms(3) by (auto simp: move_cursor_def split: prod.splits)
  then show ?thesis
    using assms(2,4-6) act_plain [of E inp n c r rc q] by (auto simp: plain_char_def chars_ok_def split: if_splits)
qed

lemma erase_key:
  assumes "in_step p" "erases (p_chars p) ch" "ch \<noteq> ch_complete (p_chars p)" "ch \<noteq> ch_help (p_chars p)" "ch \<noteq> newline"
    and "edit_key ch CPARSER_CHAR_REGULAR p = Inr k" "(case k of Returns rc p \<Rightarrow> ok (rc, p) | Goes_on ch p \<Rightarrow> act_on E inp n ch p) = ok (rc, q)"
  shows "in_step q"
proof -
  have lo: "lines_ok (p_chars p) (p_lines p)" using assms(1) by (simp add: in_step_def)
  obtain a b where l: "this_line (p_lines p) = line_of a b" "length a + length b < CPARSER_MAX_LINE_SIZE"
    using in_step_line [OF assms(1)] by metis
  show ?thesis
  proof (cases a rule: rev_cases)
    case Nil
    then show ?thesis using assms l(1) by (auto simp: edit_key_def Let_def delete_start)
  next
    case (snoc a' c)
    let ?w = "backspace # b @ [space, backspace] @ replicate (length b) backspace"
    have nz: "length a' + length b < CPARSER_MAX_LINE_SIZE" "0 \<notin> set b"
      using l(2) snoc this_line_good [OF lo] by (auto simp: l(1) good_line_of plain_char_def)
    have "k = Goes_on ch (p_write ?w (p_set_line (line_of a' b) p))"
      using assms l(1) snoc delete_text [OF nz, of c] by (simp add: edit_key_def Let_def)
    then have "p_fsm_input ch (p_write ?w (p_set_line (line_of a' b) p)) = Inr q"
      using assms(3-5,7) act_plain [of E inp n ch "p_write ?w (p_set_line (line_of a' b) p)" rc q] by simp
    then show ?thesis using erased_in_step [OF assms(1,2), of a' c b ?w b q] l(1) snoc by simp
  qed
qed

lemma plain_key:
  assumes "in_step p" "plain_char (p_chars p) ch" "Suc (cparser_line_last (p_lines p)) < CPARSER_MAX_LINE_SIZE"
    and "edit_key ch CPARSER_CHAR_REGULAR p = Inr k" "(case k of Returns rc p \<Rightarrow> ok (rc, p) | Goes_on ch p \<Rightarrow> act_on E inp n ch p) = ok (rc, q)"
  shows "in_step q"
proof -
  have lo: "lines_ok (p_chars p) (p_lines p)" using assms(1) by (simp add: in_step_def)
  obtain a b where l: "this_line (p_lines p) = line_of a b" "length a + length b < CPARSER_MAX_LINE_SIZE"
    using in_step_line [OF assms(1)] by metis
  have room: "Suc (length a + length b) < CPARSER_MAX_LINE_SIZE" using assms(3) by (simp add: cparser_line_last_def l(1))
  let ?w = "ch # b @ replicate (length b) backspace"
  have nz: "0 \<notin> set b" "ch \<noteq> 0" using this_line_good [OF lo] assms(2) by (auto simp: l(1) good_line_of plain_char_def)
  have "k = Goes_on ch (p_write ?w (p_set_line (line_of (a @ [ch]) b) p))"
    using assms(2,4) l insert_text [OF l(2) nz] by (simp add: edit_key_def Let_def plain_char_def)
  then have "p_fsm_input ch (p_write ?w (p_set_line (line_of (a @ [ch]) b) p)) = Inr q"
    using assms(2,5) act_plain [of E inp n ch "p_write ?w (p_set_line (line_of (a @ [ch]) b) p)" rc q] by (simp add: plain_char_def)
  then show ?thesis using typed_in_step [OF assms(1,2) l(1) room] by simp
qed

lemma regular_key:
  assumes "in_step p" "editing p ch CPARSER_CHAR_REGULAR" "edit_key ch CPARSER_CHAR_REGULAR p = Inr k" "(case k of Returns rc p \<Rightarrow> ok (rc, p) | Goes_on ch p \<Rightarrow> act_on E inp n ch p) = ok (rc, q)"
  shows "in_step q"
proof -
  let ?cs = "p_chars p"
  consider "ch = ch_help ?cs" "ch \<noteq> ch_complete ?cs"
    | "erases ?cs ch" "ch \<noteq> ch_complete ?cs" "ch \<noteq> ch_help ?cs" "ch \<noteq> newline"
    | "plain_char ?cs ch" "Suc (cparser_line_last (p_lines p)) < CPARSER_MAX_LINE_SIZE"
    using assms(2) by (auto simp: editing_def)
  then show ?thesis
  proof cases
    case 1
    then have "Some (rbind (cparser_help p) (\<lambda>p. Inr (CPARSER_OK, p))) = ok (rc, q)"
      using assms(3,4) by (auto simp: edit_key_def Let_def act_on_def)
    then show ?thesis using help_fields [of p q] assms(1) by (auto simp: rbind_eq_Inr)
  qed (use erase_key [OF assms(1)] plain_key [OF assms(1)] assms(3,4) in blast)+
qed

text \<open>Every other key.\<close>

lemma other_key:
  assumes "in_step p" "chars_ok (p_chars p)" "ty \<noteq> CPARSER_CHAR_REGULAR" "edit_key ch ty p = Inr k" "(case k of Returns rc p \<Rightarrow> ok (rc, p) | Goes_on ch p \<Rightarrow> act_on E inp n ch p) = ok (rc, q)"
  shows "in_step q"
proof -
  have lo: "lines_ok (p_chars p) (p_lines p)" using assms(1) by (simp add: in_step_def)
  note k = assms(4,5)
  note moved = moved_key [OF assms(1,2) _ _ _ assms(5)]
  show ?thesis
  proof (cases ty)
    case CPARSER_CHAR_UNKNOWN
    then show ?thesis using k assms(1) by (auto simp: edit_key_def Let_def)
  next
    case CPARSER_CHAR_UP_ARROW
    then show ?thesis using k recall_keeps [OF assms(1) recalled_lines_ok(2) [OF lo]]
      by (cases "cparser_line_prev_line (p_lines p)") (auto simp: edit_key_def Let_def rbind_eq_Inr)
  next
    case CPARSER_CHAR_DOWN_ARROW
    then show ?thesis using k recall_keeps [OF assms(1) recalled_lines_ok(1) [OF lo]]
      by (cases "cparser_line_next_line (p_lines p)") (auto simp: edit_key_def Let_def rbind_eq_Inr)
  next
    case CPARSER_CHAR_LEFT_ARROW
    obtain c r where r: "move_cursor cparser_line_prev_char p = (c, r)" by fastforce
    show ?thesis using moved [OF r] move_left [OF assms(1) r] k(1) CPARSER_CHAR_LEFT_ARROW r
      by (auto simp: edit_key_def Let_def split: if_splits)
  next
    case CPARSER_CHAR_RIGHT_ARROW
    obtain c r where r: "move_cursor cparser_line_next_char p = (c, r)" by fastforce
    show ?thesis using moved [OF r] move_right [OF assms(1) r] k(1) CPARSER_CHAR_RIGHT_ARROW r
      by (auto simp: edit_key_def Let_def split: if_splits)
  next
    case CPARSER_CHAR_FIRST
    have "in_step q" if "move_all j cparser_line_prev_char p = Inr q" for j q
      using move_all_keeps [OF _ assms(1) that] move_left by fastforce
    then show ?thesis using k CPARSER_CHAR_FIRST by (auto simp: edit_key_def Let_def rbind_eq_Inr simp del: move_all.simps)
  next
    case CPARSER_CHAR_LAST
    have "in_step q" if "move_all j cparser_line_next_char p = Inr q" for j q
      using move_all_keeps [OF _ assms(1) that] move_right by (fastforce simp: plain_char_def)
    then show ?thesis using k CPARSER_CHAR_LAST by (auto simp: edit_key_def Let_def rbind_eq_Inr simp del: move_all.simps)
  qed (use assms(3) in simp)
qed

text \<open>
  C11. While a line is edited, the state machine stays with the text before the cursor: typing and erasing in any place,
  moving by a character or to the ends, asking for help and recalling other lines of the history.
\<close>

theorem editing_in_step:
  assumes "in_step p" "editing p ch ty" "chars_ok (p_chars p)" "cparser_input n E ch ty p = ok (rc, q)"
  shows "in_step q"
proof -
  have u: "cparser_is_user_input p = Inr False" using assms(1) by (simp add: in_step_def cparser_is_user_input_def)
  obtain m where n: "n = Suc m" using assms(4) by (cases n) auto
  obtain k where k: "edit_key ch ty p = Inr k"
    "(case k of Returns rc p \<Rightarrow> ok (rc, p) | Goes_on ch p \<Rightarrow> act_on E (\<lambda>c. cparser_input m E c CPARSER_CHAR_REGULAR) m ch p) = ok (rc, q)"
    using assms(4) by (auto simp: n input_body_def u bind_ok)
  show ?thesis
    using regular_key [OF assms(1) _ _ k(2)] other_key [OF assms(1,3) _ k] assms(2) k(1) by (cases "ty = CPARSER_CHAR_REGULAR") auto
qed

end
