(* ===== verification/CliCommand.thy ===== *)
theory CliCommand
  imports CliEdit
begin

text \<open>
  What Enter executes: when the words of a line lead through the command tree, the glue function at their end is called,
  and it finds the words on the token stack. And what it does on a line that is full.
\<close>

section \<open>Words that lead through the tree\<close>

text \<open>Every beginning of the word fits some child.\<close>

definition typable :: "bool \<Rightarrow> 'g cparser_node \<Rightarrow> bytes \<Rightarrow> bool" where
  "typable priv n w \<longleftrightarrow> w \<noteq> [] \<and> length w \<le> CPARSER_MAX_TOKEN_SIZE \<and> space \<notin> set w \<and>
     (\<forall>u. prefix u w \<longrightarrow> u \<noteq> [] \<longrightarrow> (\<exists>num m c. cparser_match priv u (Some n) = Inr (num, m, c) \<and> num \<noteq> 0))"

inductive leads :: "bool \<Rightarrow> 'g cparser_node \<Rightarrow> bytes list \<Rightarrow> 'g cparser_node \<Rightarrow> bool" for priv where
  leads_here: "leads priv n [] n"
| leads_on: "typable priv n w \<Longrightarrow> length w < CPARSER_MAX_TOKEN_SIZE \<Longrightarrow> cparser_match priv w (Some n) = Inr (num, Some c, True) \<Longrightarrow> 1 \<le> num \<Longrightarrow>
    leads priv c ws m \<Longrightarrow> leads priv n (w # ws) m"

inductive_cases leads_Nil: "leads priv n [] m"
inductive_cases leads_Cons: "leads priv n (w # ws) m"

lemma leads_append: "leads priv n vs k \<Longrightarrow> leads priv k ws m \<Longrightarrow> leads priv n (vs @ ws) m"
  by (induction rule: leads.induct) (auto intro: leads_on)

lemma leads_snoc:
  assumes "leads priv n (ws @ [w]) m"
  obtains k num where "leads priv n ws k" "typable priv k w" "cparser_match priv w (Some k) = Inr (num, Some m, True)" "1 \<le> num"
    "length w < CPARSER_MAX_TOKEN_SIZE"
  using assms
proof (induction ws arbitrary: n thesis)
  case Nil
  then show ?case by (auto elim!: leads_Nil leads_Cons intro: leads_here)
next
  case (Cons v ws)
  from Cons.prems(2) obtain num c where c: "typable priv n v" "length v < CPARSER_MAX_TOKEN_SIZE" "cparser_match priv v (Some n) = Inr (num, Some c, True)" "1 \<le> num"
    "leads priv c (ws @ [w]) m" by (auto elim: leads_Cons)
  from Cons.IH [OF _ c(5)] obtain k num' where "leads priv c ws k" "typable priv k w"
    "cparser_match priv w (Some k) = Inr (num', Some m, True)" "1 \<le> num'" "length w < CPARSER_MAX_TOKEN_SIZE" by metis
  then show ?case using Cons.prems(1) leads_on [OF c(1-4)] by blast
qed

section \<open>The machine over words\<close>

text \<open>The machine in a state described by its stack.\<close>

definition is_machine :: "'g cparser_node \<Rightarrow> cparser_state \<Rightarrow> (int \<times> bytes \<times> 'g cparser_node option) list \<Rightarrow> int \<times> bytes \<Rightarrow> nat \<Rightarrow>
    'g cparser_fsm \<Rightarrow> bool" where
  "is_machine n s st t p f \<longleftrightarrow> in_range f \<and> forget f = machine (Some n) s st t p (int p - 1)"

lemma is_machine_pos: "is_machine n s st t p f \<Longrightarrow> current_pos f = p"
  by (metis forget_fields(4) is_machine_def machine_fields(4))

lemma is_machine_input:
  assumes "is_machine n s st t p f" "cparser_fsm_input cs priv c (machine (Some n) s st t p (int p - 1)) = Inr (g, w)"
  obtains h where "cparser_fsm_input cs priv c f = Inr (h, w)" "forget h = forget g" "in_range h"
proof -
  have "forgets (cparser_fsm_input cs priv c f) = Inr (forget g, w)"
    using input_forget [of f cs priv c] assms by (simp add: is_machine_def)
  then obtain h where h: "cparser_fsm_input cs priv c f = Inr (h, w)" "forget h = forget g"
    by (cases "cparser_fsm_input cs priv c f") (auto simp: forgets_def)
  have "in_range f" using assms(1) by (simp add: is_machine_def)
  then show ?thesis using that [OF h] input_range [OF _ h(1)] by blast
qed

lemma feed_char:
  assumes "is_machine n CPARSER_STATE_TOKEN st (b, w) p f" "typable priv n v" "prefix (w @ [c]) v" "\<not> erases cs c"
    "Suc p < CPARSER_MAX_LINE_SIZE"
  obtains g where "cparser_fsm_input cs priv c f = Inr (g, [])" "is_machine n CPARSER_STATE_TOKEN st (b, w @ [c]) (Suc p) g"
proof -
  have len: "length w < CPARSER_MAX_TOKEN_SIZE"
    using prefix_length_le [OF assms(3)] assms(2) by (simp add: typable_def)
  obtain num m cc where "cparser_match priv (w @ [c]) (Some n) = Inr (num, m, cc)" "num \<noteq> 0"
    using assms(2,3) unfolding typable_def by (metis snoc_eq_iff_butlast)
  moreover have "c \<noteq> space" "p < CPARSER_MAX_LINE_SIZE - 1"
    using assms(2,3,5) by (auto simp: typable_def prefix_def)
  ultimately have s: "cparser_fsm_input cs priv c (machine (Some n) CPARSER_STATE_TOKEN st (b, w) p (int p - 1)) =
      Inr (machine (Some n) CPARSER_STATE_TOKEN st (b, w @ [c]) (Suc p) (int p), [])"
    using len assms(4)
    by (simp add: input_char fsm_apply_def cparser_state_func_def cparser_tok_char_def Let_def insert_typed [OF len])
  obtain h where h: "cparser_fsm_input cs priv c f = Inr (h, [])" "in_range h"
    "forget h = forget (machine (Some n) CPARSER_STATE_TOKEN st (b, w @ [c]) (Suc p) (int p))"
    using is_machine_input [OF assms(1) s] by blast
  then have "is_machine n CPARSER_STATE_TOKEN st (b, w @ [c]) (Suc p) h" by (simp add: is_machine_def)
  then show ?thesis using that h(1) by blast
qed

lemma feed_first:
  assumes "is_machine n CPARSER_STATE_WHITESPACE st no_token p f" "typable priv n v" "prefix [c] v" "\<not> erases cs c"
    "Suc p < CPARSER_MAX_LINE_SIZE"
  obtains g where "cparser_fsm_input cs priv c f = Inr (g, [])" "is_machine n CPARSER_STATE_TOKEN st (int p, [c]) (Suc p) g"
proof -
  obtain num m cc where "cparser_match priv [c] (Some n) = Inr (num, m, cc)" "num \<noteq> 0"
    using assms(2,3) unfolding typable_def by (metis not_Cons_self2)
  moreover have "c \<noteq> space" "p < CPARSER_MAX_LINE_SIZE - 1"
    using assms(2,3,5) by (auto simp: typable_def prefix_def)
  ultimately have s: "cparser_fsm_input cs priv c (machine (Some n) CPARSER_STATE_WHITESPACE st no_token p (int p - 1)) =
      Inr (machine (Some n) CPARSER_STATE_TOKEN st (int p, [c]) (Suc p) (int p), [])"
    using assms(4)
    by (simp add: input_char fsm_apply_def cparser_state_func_def cparser_ws_char_def Let_def insert_one)
  obtain h where h: "cparser_fsm_input cs priv c f = Inr (h, [])" "in_range h"
    "forget h = forget (machine (Some n) CPARSER_STATE_TOKEN st (int p, [c]) (Suc p) (int p))"
    using is_machine_input [OF assms(1) s] by blast
  then have "is_machine n CPARSER_STATE_TOKEN st (int p, [c]) (Suc p) h" by (simp add: is_machine_def)
  then show ?thesis using that h(1) by blast
qed

lemma feed_append: "fsm_feed cs priv (v @ w) f = rbind (fsm_feed cs priv v f) (fsm_feed cs priv w)"
  by (simp add: fsm_feed_def rfold_append) (simp add: rbind_def fsm_feed_def split: sum.split)

lemma feed_rest:
  assumes "is_machine n CPARSER_STATE_TOKEN st (b, w) p f" "typable priv n (w @ v)" "\<forall>c\<in>set v. \<not> erases cs c"
    "p + length v < CPARSER_MAX_LINE_SIZE"
  obtains g where "fsm_feed cs priv v f = Inr g" "is_machine n CPARSER_STATE_TOKEN st (b, w @ v) (p + length v) g"
  using assms
proof (induction v arbitrary: w p f thesis)
  case Nil
  then show ?case by (simp add: fsm_feed_def)
next
  case (Cons c v)
  obtain g where g: "cparser_fsm_input cs priv c f = Inr (g, [])" "is_machine n CPARSER_STATE_TOKEN st (b, w @ [c]) (Suc p) g"
    using feed_char [OF Cons.prems(2,3), of c cs] Cons.prems(4,5) by auto
  have "fsm_feed cs priv (c # v) f = fsm_feed cs priv v g" by (simp add: fsm_feed_def g(1))
  then show ?case using Cons.IH [OF Cons.prems(1) g(2)] Cons.prems by simp
qed

lemma feed_word:
  assumes "is_machine n CPARSER_STATE_WHITESPACE st no_token p f" "typable priv n v" "\<forall>c\<in>set v. \<not> erases cs c"
    "p + length v < CPARSER_MAX_LINE_SIZE"
  obtains g where "fsm_feed cs priv v f = Inr g" "is_machine n CPARSER_STATE_TOKEN st (int p, v) (p + length v) g"
proof -
  obtain c u where v: "v = c # u" using assms(2) by (cases v) (auto simp: typable_def)
  obtain g where g: "cparser_fsm_input cs priv c f = Inr (g, [])" "is_machine n CPARSER_STATE_TOKEN st (int p, [c]) (Suc p) g"
    using feed_first [OF assms(1,2), of c cs] assms(3,4) v by auto
  have "fsm_feed cs priv v f = fsm_feed cs priv u g" by (simp add: fsm_feed_def v g(1))
  then show ?thesis using feed_rest [OF g(2), of priv u cs] assms that v by auto
qed

lemma feed_space:
  assumes "is_machine n CPARSER_STATE_TOKEN st (b, w) p f" "cparser_match priv w (Some n) = Inr (num, Some m, True)" "1 \<le> num"
    "length w < CPARSER_MAX_TOKEN_SIZE" "Suc (length st) < CPARSER_MAX_NUM_TOKENS" "\<not> erases cs space" "Suc p < CPARSER_MAX_LINE_SIZE"
  obtains g where "cparser_fsm_input cs priv space f = Inr (g, [])" "is_machine m CPARSER_STATE_WHITESPACE ((b, w, Some n) # st) no_token (Suc p) g"
proof -
  let ?M = "machine (Some n) CPARSER_STATE_TOKEN st (b, w) p (int p - 1)"
  obtain k where k: "CPARSER_MAX_NUM_TOKENS - Suc (length st) = Suc k" using assms(5) by (cases "CPARSER_MAX_NUM_TOKENS - Suc (length st)") auto
  let ?t = "(typed_token b w)\<lparr>tk_parent := Some n, tk_node := Some m\<rparr>"
  let ?f = "(set_token (length st) ?t ?M)\<lparr>token_tos := Suc (length st)\<rparr>"
  have "cur_token ?f = tokens ?M ! Suc (length st)" using next_token [of ?M ?t] by simp
  also have "\<dots> = typed_token (- 1) []" using k by (simp add: machine_def nth_append token_new_typed)
  finally have c: "cur_token ?f = typed_token (- 1) []" .
  have s: "cparser_tok_space priv ?M = Inr (CPARSER_STATE_WHITESPACE, True, ?f\<lparr>cur_node := Some m\<rparr>)"
    using assms(2-5) c by (simp add: cparser_tok_space_def put_end Let_def)
  have "length st < CPARSER_MAX_NUM_TOKENS" using assms(5) by simp
  from s this have f: "forget (?f\<lparr>cur_node := Some m\<rparr>) = machine (Some m) CPARSER_STATE_TOKEN ((b, w, Some n) # st) no_token p (int p - 1)"
  proof (rule match_close)
    fix m' assume f: "forget (?f\<lparr>cur_node := Some m\<rparr>) = machine m' CPARSER_STATE_TOKEN ((b, w, Some n) # st) no_token p (int p - 1)"
    have "cur_node (forget (?f\<lparr>cur_node := Some m\<rparr>)) = Some m" by (simp only: forget_fields) simp
    then have "m' = Some m" unfolding f by simp
    then show ?thesis using f by simp
  qed simp
  let ?g = "(?f\<lparr>cur_node := Some m\<rparr>)\<lparr>fsm_state := CPARSER_STATE_WHITESPACE, current_pos := Suc p, last_good := int p\<rparr>"
  have "p < CPARSER_MAX_LINE_SIZE - 1" using assms(7) by simp
  then have "cparser_fsm_input cs priv space ?M = Inr (?g, [])"
    using s assms(6) by (simp add: input_space fsm_apply_def cparser_state_func_def Let_def)
  then obtain h where h: "cparser_fsm_input cs priv space f = Inr (h, [])" "forget h = forget ?g" "in_range h"
    using is_machine_input [OF assms(1)] by blast
  have "forget ?g = (forget (?f\<lparr>cur_node := Some m\<rparr>))\<lparr>fsm_state := CPARSER_STATE_WHITESPACE, current_pos := Suc p, last_good := int p\<rparr>"
    by (simp only: forget_updates)
  also have "\<dots> = machine (Some m) CPARSER_STATE_WHITESPACE ((b, w, Some n) # st) no_token (Suc p) (int p)"
    by (simp only: f machine_updates)
  finally have "is_machine m CPARSER_STATE_WHITESPACE ((b, w, Some n) # st) no_token (Suc p) h"
    using h(2,3) by (simp add: is_machine_def)
  then show ?thesis using that h(1) by blast
qed

text \<open>The words with a space behind each, from the start of a line.\<close>

definition line_of_words :: "bytes list \<Rightarrow> bytes" where
  "line_of_words ws = concat (map (\<lambda>w. w @ [space]) ws)"

definition stack_words :: "(int \<times> bytes \<times> 'g cparser_node option) list \<Rightarrow> bytes list" where
  "stack_words st = map (fst \<circ> snd) (rev st)"

lemma feed_words:
  assumes "leads priv n ws m" "is_machine n CPARSER_STATE_WHITESPACE st no_token p f"
    "length st + length ws < CPARSER_MAX_NUM_TOKENS" "\<forall>c\<in>set (line_of_words ws). \<not> erases cs c"
    "p + length (line_of_words ws) < CPARSER_MAX_LINE_SIZE"
  obtains g st' where "fsm_feed cs priv (line_of_words ws) f = Inr g"
    "is_machine m CPARSER_STATE_WHITESPACE st' no_token (p + length (line_of_words ws)) g"
    "stack_words st' = stack_words st @ ws"
  using assms
proof (induction arbitrary: st p f thesis rule: leads.induct)
  case (leads_here n)
  then show ?case by (simp add: line_of_words_def fsm_feed_def)
next
  case (leads_on n w num c ws m)
  have l: "line_of_words (w # ws) = w @ space # line_of_words ws" by (simp add: line_of_words_def)
  obtain g where g: "fsm_feed cs priv w f = Inr g" "is_machine n CPARSER_STATE_TOKEN st (int p, w) (p + length w) g"
    using feed_word [OF leads_on.prems(2) leads_on.hyps(1), of cs] leads_on.prems(4,5) l by auto
  obtain h where h: "cparser_fsm_input cs priv space g = Inr (h, [])"
    "is_machine c CPARSER_STATE_WHITESPACE ((int p, w, Some n) # st) no_token (Suc (p + length w)) h"
    using feed_space [OF g(2) leads_on.hyps(3,4,2), of cs] leads_on.hyps(1) leads_on.prems(3-5) l by (auto simp: typable_def)
  have "fsm_feed cs priv (line_of_words (w # ws)) f = fsm_feed cs priv (line_of_words ws) h"
    by (simp add: l feed_append g(1)) (simp add: fsm_feed_def h(1))
  moreover obtain k st' where "fsm_feed cs priv (line_of_words ws) h = Inr k"
    "is_machine m CPARSER_STATE_WHITESPACE st' no_token (Suc (p + length w) + length (line_of_words ws)) k"
    "stack_words st' = stack_words ((int p, w, Some n) # st) @ ws"
    using leads_on.IH [OF _ h(2)] leads_on.prems(3-5) l by auto
  ultimately show ?case using leads_on.prems(1) [of k st'] by (simp add: l stack_words_def add.assoc)
qed

lemma is_machine_reset: "is_machine root CPARSER_STATE_WHITESPACE [] no_token 0 (cparser_fsm_reset root f)"
  by (simp add: is_machine_def reset_machine CPARSER_MAX_NUM_TOKENS_def in_range_def) (simp add: machine_def CPARSER_MAX_NUM_TOKENS_def)

text \<open>Where the machine is after the words, the last one without a space behind it.\<close>

lemma at_words:
  assumes "leads priv root (ws @ [w]) m" "length ws + 1 < CPARSER_MAX_NUM_TOKENS"
    "fsm_at cs priv root (line_of_words ws @ w) f"
  obtains k b num st where "is_machine k CPARSER_STATE_TOKEN st (b, w) (length (line_of_words ws @ w)) f" "stack_words st = ws"
    "length st = length ws" "cparser_match priv w (Some k) = Inr (num, Some m, True)" "1 \<le> num" "length w < CPARSER_MAX_TOKEN_SIZE"
proof -
  obtain k num where k: "leads priv root ws k" "typable priv k w" "cparser_match priv w (Some k) = Inr (num, Some m, True)" "1 \<le> num"
    "length w < CPARSER_MAX_TOKEN_SIZE"
    using assms(1) by (rule leads_snoc)
  have p: "\<forall>c\<in>set (line_of_words ws @ w). \<not> erases cs c" "length (line_of_words ws) + length w < CPARSER_MAX_LINE_SIZE"
    using assms(3) by (auto simp: fsm_at_def)
  obtain g st where g: "fsm_feed cs priv (line_of_words ws) (cparser_fsm_reset root f) = Inr g"
    "is_machine k CPARSER_STATE_WHITESPACE st no_token (length (line_of_words ws)) g" "stack_words st = ws"
    using feed_words [OF k(1) is_machine_reset [of root f], of cs] assms(2) p by (auto simp: stack_words_def)
  obtain h where h: "fsm_feed cs priv w g = Inr h" "is_machine k CPARSER_STATE_TOKEN st (int (length (line_of_words ws)), w) (length (line_of_words ws) + length w) h"
    using feed_word [OF g(2) k(2), of cs] p by auto
  have "forget h = forget f"
    using assms(3) by (auto simp: fsm_at_def feed_append g(1) h(1))
  then have "is_machine k CPARSER_STATE_TOKEN st (int (length (line_of_words ws)), w) (length (line_of_words ws @ w)) f"
    using h(2) fsm_at_inv(2) [OF assms(3)] by (simp add: is_machine_def)
  moreover have "length st = length ws" using g(3) by (auto simp: stack_words_def)
  ultimately show ?thesis using that g(3) k(2-5) by (auto simp: typable_def)
qed

section \<open>Enter\<close>

text \<open>The string that a glue function reads from a token.\<close>

definition token_string :: "'g cparser_token \<Rightarrow> bytes" where
  "token_string t = c_string (tk_buf t)"

lemma token_string_node [simp]: "token_string (t\<lparr>tk_node := n\<rparr>) = token_string t"
  by (simp add: token_string_def)

lemma token_string_closed: "0 \<notin> set w \<Longrightarrow> token_string (closed_token (b, w, n)) = w"
  by (simp add: token_string_def closed_token_def typed_token_def c_string_text)

text \<open>The words on the stack.\<close>

lemma stack_strings:
  assumes "is_machine n s st t p f" "\<forall>w\<in>set (stack_words st). 0 \<notin> set w"
  shows "map token_string (take (length st) (tokens f)) = stack_words st" "map token_len (take (length st) (tokens f)) = map length (stack_words st)"
proof -
  have len: "length (tokens f) = CPARSER_MAX_NUM_TOKENS" using assms(1) by (simp add: is_machine_def in_range_def)
  have t: "take (length st) (tokens (forget f)) = map closed_token (rev st)"
    using assms(1) by (simp add: is_machine_def machine_def case_prod_unfold)
  have "map token_string (take (length st) (tokens f)) = map token_string (take (length st) (tokens (forget f)))"
    by (simp add: forget_def take_map comp_def)
  also have "\<dots> = map (fst \<circ> snd) (rev st)"
    unfolding t using assms(2) by (auto simp: stack_words_def token_string_closed)
  finally show "map token_string (take (length st) (tokens f)) = stack_words st" by (simp add: stack_words_def)
  have "map token_len (take (length st) (tokens f)) = map token_len (take (length st) (tokens (forget f)))"
    by (simp add: forget_def take_map comp_def)
  also have "\<dots> = map length (map (fst \<circ> snd) (rev st))"
    unfolding t by (auto simp: closed_token_def)
  finally show "map token_len (take (length st) (tokens f)) = map length (stack_words st)" by (simp add: stack_words_def)
qed

lemma is_machine_current:
  assumes "is_machine n s st (b, w) p f"
  shows "cur_node f = Some n" "fsm_state f = s" "token_text (cur_token f) = w" "token_tos f = length st"
proof -
  have f: "forget f = machine (Some n) s st (b, w) p (int p - 1)" and r: "in_range f" using assms by (auto simp: is_machine_def)
  show "cur_node f = Some n" "fsm_state f = s" "token_tos f = length st"
    using arg_cong [OF f, of cur_node] arg_cong [OF f, of fsm_state] arg_cong [OF f, of token_tos] by simp_all
  have "token_text (cur_token f) = token_text (cur_token (forget f))" using r by (simp add: cur_token_forget)
  then show "token_text (cur_token f) = w" by (simp add: f)
qed

text \<open>The parser typing a space: the line changes as it may, the machine takes the space.\<close>

lemma type_space:
  assumes "p_user p = None" "plain_char (p_chars p) space" "cparser_fsm_input (p_chars p) (p_privileged p) space (p_fsm p) = Inr (f, w)"
    and "lines_ok (p_chars p) (p_lines p)" "Suc (ln_last (this_line (p_lines p))) < CPARSER_MAX_LINE_SIZE"
  obtains l v where "type_char (\<lambda>c. cparser_input (Suc n) E c CPARSER_CHAR_REGULAR) space p = ok (p_write v ((p_set_line l p)\<lparr>p_fsm := f\<rparr>))"
    "lines_ok (p_chars p) (set_line l (p_lines p))"
proof -
  obtain a b where ab: "this_line (p_lines p) = line_of a b" "length a + length b < CPARSER_MAX_LINE_SIZE" "\<forall>c\<in>set (a @ b). plain_char (p_chars p) c"
    using this_line_good [OF assms(4)] by (rule good_line_cases)
  let ?l = "line_of (a @ [space]) b"
  obtain v where i: "cparser_line_insert space (this_line (p_lines p)) = (CPARSER_OK, ?l, v)"
    using insert_text [OF ab(2), of space] ab(3) by (auto simp: ab(1) plain_char_def)
  have "good_line (p_chars p) ?l" using ab assms(2,5) by (simp add: good_line_of)
  then have ok: "lines_ok (p_chars p) (set_line ?l (p_lines p))" using assms(4) set_line_ok by blast
  let ?q = "p_write v (p_set_line ?l p)"
  have u: "cparser_is_user_input p = Inr False" using assms(1) by (simp add: cparser_is_user_input_def)
  have e: "edit_key space CPARSER_CHAR_REGULAR p = Inr (Goes_on space ?q)"
    using assms(2) i by (simp add: edit_key_def Let_def plain_char_def)
  have "p_fsm_input space ?q = Inr (p_write w (?q\<lparr>p_fsm := f\<rparr>))"
    using assms(3) by (simp add: p_fsm_input_def)
  then have "cparser_input (Suc n) E space CPARSER_CHAR_REGULAR p = ok (CPARSER_OK, p_write w (?q\<lparr>p_fsm := f\<rparr>))"
    using assms(2) by (simp add: input_body_def u e act_on_def plain_char_def)
  then have "type_char (\<lambda>c. cparser_input (Suc n) E c CPARSER_CHAR_REGULAR) space p = ok (p_write (v @ w) ((p_set_line ?l p)\<lparr>p_fsm := f\<rparr>))"
    by (simp add: type_char_def) (simp add: p_write_def)
  then show ?thesis using ok by (rule that)
qed

text \<open>A node at the end of a command: its word is all there, and its end has a glue function.\<close>

definition command_end :: "bool \<Rightarrow> bytes \<Rightarrow> 'g cparser_node \<Rightarrow> 'g \<Rightarrow> bool" where
  "command_end priv w m g \<longleftrightarrow>
     (n_type m = CPARSER_NODE_STRING \<or> n_type m = CPARSER_NODE_KEYWORD \<and> n_param m = Text w) \<and>
     (case filter (is_end priv) (n_children m) of [] \<Rightarrow> False | e # _ \<Rightarrow> n_param e = Glue g)"

definition enter_ok :: "cparser_chars \<Rightarrow> bool" where
  "enter_ok cs \<longleftrightarrow> \<not> erases cs newline \<and> newline \<noteq> ch_complete cs \<and> newline \<noteq> ch_help cs \<and> plain_char cs space"

lemma complete_typed:
  "command_end priv w m g \<Longrightarrow> cparser_complete_fn E inp m w p = ok p"
  by (auto simp: command_end_def cparser_complete_fn_def cparser_complete_keyword_def param_text_def text_behind_def)

lemma command_end_node:
  assumes "command_end (p_privileged p) w m g" "cur_node (p_fsm p) = Some m"
  obtains e where "single_keywords (Suc n) inp p = ok p"
    "execute_node E p = rbind (glue_fn E g (p_write [newline] (p\<lparr>p_fsm := (p_fsm p)\<lparr>cur_node := Some e\<rparr>\<rparr>))) (\<lambda>(rc, p). command_done rc p)"
proof -
  obtain e es where e: "filter (is_end (p_privileged p)) (n_children m) = e # es" "n_param e = Glue g"
    using assms(1) by (auto simp: command_end_def split: list.splits)
  have c: "p_children p = Inr (n_children m)" by (simp add: p_children_def assms(2))
  obtain d ds where d: "n_children m = d # ds" using e(1) by (cases "n_children m") auto
  have "\<not> (n_type d = CPARSER_NODE_KEYWORD \<and> ds = [])"
  proof
    assume "n_type d = CPARSER_NODE_KEYWORD \<and> ds = []"
    then have "filter (is_end (p_privileged p)) (n_children m) = []" using d by (simp add: is_end_def)
    then show False using e(1) by simp
  qed
  then have "single_keywords (Suc n) inp p = ok p" using c d by auto
  moreover have "execute_node E p = rbind (glue_fn E g (p_write [newline] (p\<lparr>p_fsm := (p_fsm p)\<lparr>cur_node := Some e\<rparr>\<rparr>))) (\<lambda>(rc, p). command_done rc p)"
    by (simp add: execute_node_def c e call_glue_def)
  ultimately show ?thesis by (rule that)
qed

text \<open>What the glue function finds: the application as it was, the words of the line on the token stack.\<close>

definition called_with :: "('g, 'a) cparser \<Rightarrow> bytes list \<Rightarrow> ('g, 'a) cparser \<Rightarrow> bool" where
  "called_with p ws q \<longleftrightarrow> p_app q = p_app p \<and> p_user q = None \<and> p_levels q = p_levels p \<and> p_privileged q = p_privileged p \<and>
     p_chars q = p_chars p \<and> p_done q = p_done p \<and> lines_ok (p_chars q) (p_lines q) \<and>
     map token_string (take (length ws) (tokens (p_fsm q))) = ws \<and> map token_len (take (length ws) (tokens (p_fsm q))) = map length ws"

text \<open>The rest of the line goes into the machine without a fault when the whole line does.\<close>

lemma fsm_at_next:
  assumes "fsm_at cs priv root line f" "fsm_feed cs priv (line @ [c]) (cparser_fsm_reset root f0) = Inr g"
  shows "\<exists>h w. cparser_fsm_input cs priv c f = Inr (h, w)"
proof -
  obtain k where k: "fsm_feed cs priv line (cparser_fsm_reset root f) = Inr k" "forget k = forget f"
    using assms(1) by (auto simp: fsm_at_def)
  have "fsm_feed cs priv line (cparser_fsm_reset root f0) = Inr k" using k(1) fsm_reset_any [of root f f0] by simp
  then obtain h w where h: "cparser_fsm_input cs priv c k = Inr (h, w)"
    using assms(2) by (auto simp: feed_snoc rbind_eq_Inr)
  have "in_range k" using fsm_at_inv(2) [OF assms(1)] k(2) by (metis in_range_updates(6))
  then have "forgets (cparser_fsm_input cs priv c f) = Inr (forget h, w)"
    using input_forget [of k cs priv c] input_forget [OF fsm_at_inv(2) [OF assms(1)], of cs priv c] k(2) h by simp
  then show ?thesis by (cases "cparser_fsm_input cs priv c f") (auto simp: forgets_def)
qed

lemma feed_line_ok:
  assumes "m \<le> n" "n \<le> ln_last (this_line (p_lines p))" "lines_ok (p_chars p) (p_lines p)"
    and "fsm_at (p_chars p) (p_privileged p) (p_root p) (take m (ln_buf (this_line (p_lines p)))) (p_fsm p)"
    and "fsm_feed (p_chars p) (p_privileged p) (take n (ln_buf (this_line (p_lines p)))) (cparser_fsm_reset (p_root p) f0) = Inr g"
  shows "\<exists>q. feed_line m n p = Inr q"
  using assms(1,2,5)
proof (induction n arbitrary: g rule: dec_induct)
  case base
  then show ?case by (simp add: feed_line_def)
next
  case (step n)
  let ?l = "this_line (p_lines p)" and ?cs = "p_chars p"
  have good: "good_line ?cs ?l" using this_line_good [OF assms(3)] .
  have n: "n < length (ln_buf ?l)" "n < ln_last ?l" using good step.prems(1) by (auto simp: good_line_def line_ok_def)
  have t: "take (Suc n) (ln_buf ?l) = take n (ln_buf ?l) @ [ln_buf ?l ! n]" using n(1) by (rule take_Suc_conv_app_nth)
  obtain k where "fsm_feed ?cs (p_privileged p) (take n (ln_buf ?l)) (cparser_fsm_reset (p_root p) f0) = Inr k"
    using step.prems(2) by (auto simp: t feed_snoc rbind_eq_Inr)
  then obtain r where r: "feed_line m n p = Inr r" using step.IH step.prems(1) by auto
  have at: "fsm_at ?cs (p_privileged p) (p_root p) (take n (ln_buf ?l)) (p_fsm r)" "same_but_fsm p r"
    using feed_line_at [OF r step.hyps(1) _ assms(3,4)] step.prems(1) by auto
  note f = same_but_fsm_fields [OF at(2)]
  obtain h w where "cparser_fsm_input ?cs (p_privileged p) (ln_buf ?l ! n) (p_fsm r) = Inr (h, w)"
    using fsm_at_next [OF at(1)] step.prems(2) unfolding t by blast
  then show ?case
    using r step.hyps(1) n(2) by (simp add: feed_line_def rfold_append f cparser_line_char_def p_fsm_input_def)
qed

end
