(* ===== verification/CliEnter.thy ===== *)
theory CliEnter
  imports CliCommand
begin

lemma execute_matched:
  assumes "p_match p = Inr (num, Some m, True)" "1 \<le> num" "cparser_complete_fn E inp m (token_text (cur_token (p_fsm p))) p = ok p"
    and "fsm_state (p_fsm p) = CPARSER_STATE_TOKEN" "type_char inp space p = ok r"
  shows "cparser_execute_cmd E inp n p = bind (single_keywords n inp r) (\<lambda>p. Some (execute_node E p))"
  using assms(2-5) by (simp add: cparser_execute_cmd_def assms(1) del: single_keywords.simps)

text \<open>
  Enter executes what the line says, wherever the cursor is and however the line came about: when its words lead
  through the command tree to the end of a command, the glue function of that command is called once, with the words on
  the token stack and the application untouched; then the machine is reset and the next line is begun.
\<close>

lemma enter_executes:
  assumes "in_step p" "enter_ok (p_chars p)" "line_text (this_line (p_lines p)) = line_of_words ws @ w"
    and "leads (p_privileged p) (p_root p) (ws @ [w]) m" "command_end (p_privileged p) w m g"
    and "length ws + 1 < CPARSER_MAX_NUM_TOKENS" "length (line_of_words ws @ w) + 1 < CPARSER_MAX_LINE_SIZE"
  shows "\<exists>q. called_with p (ws @ [w]) q \<and>
    cparser_input (Suc (Suc (Suc n))) E newline CPARSER_CHAR_REGULAR p =
      bind (Some (rbind (glue_fn E g q) (\<lambda>(rc, r). command_done rc r))) (\<lambda>(rc, r). ok (rc, r\<lparr>p_lines := cparser_line_advance (p_lines r)\<rparr>))"
proof -
  let ?cs = "p_chars p" and ?l = "this_line (p_lines p)" and ?inp = "\<lambda>c. cparser_input (Suc (Suc n)) E c CPARSER_CHAR_REGULAR"
  have pu: "p_user p = None" and lo: "lines_ok ?cs (p_lines p)"
    and at0: "fsm_at ?cs (p_privileged p) (p_root p) (take (ln_current ?l) (ln_buf ?l)) (p_fsm p)"
    using assms(1) by (simp_all add: in_step_def before_cursor_def)
  have good: "good_line ?cs ?l" using this_line_good [OF lo] .
  have plain: "\<forall>c\<in>set (line_of_words ws @ w). plain_char ?cs c" using good assms(3) by (simp add: good_line_def)
  have whole: "take (ln_last ?l) (ln_buf ?l) = line_of_words ws @ w" using assms(3) by (simp add: line_text_def)
  have last: "ln_last ?l = length (line_of_words ws @ w)"
    using arg_cong [OF whole, of length] good by (simp add: good_line_def line_ok_def)
  have u: "cparser_is_user_input p = Inr False" by (simp add: pu cparser_is_user_input_def)
  obtain k num where k: "leads (p_privileged p) (p_root p) ws k" "typable (p_privileged p) k w"
    "cparser_match (p_privileged p) w (Some k) = Inr (num, Some m, True)" "1 \<le> num" "length w < CPARSER_MAX_TOKEN_SIZE"
    using assms(4) by (rule leads_snoc)
  have side: "length ([] :: (int \<times> bytes \<times> 'a cparser_node option) list) + length ws < CPARSER_MAX_NUM_TOKENS"
    "\<forall>c\<in>set (line_of_words ws). \<not> erases ?cs c" "0 + length (line_of_words ws) < CPARSER_MAX_LINE_SIZE"
    using assms(6,7) plain by (simp_all add: plain_char_def)
  obtain g1 st1 where g1: "fsm_feed ?cs (p_privileged p) (line_of_words ws) (cparser_fsm_reset (p_root p) (p_fsm p)) = Inr g1"
    "is_machine k CPARSER_STATE_WHITESPACE st1 no_token (0 + length (line_of_words ws)) g1"
    by (rule feed_words [OF k(1) is_machine_reset side])
  obtain g2 where g2: "fsm_feed ?cs (p_privileged p) w g1 = Inr g2"
    using feed_word [OF g1(2) k(2), of ?cs] assms(7) plain by (auto simp: plain_char_def)
  have full: "fsm_feed ?cs (p_privileged p) (take (ln_last ?l) (ln_buf ?l)) (cparser_fsm_reset (p_root p) (p_fsm p)) = Inr g2"
    by (simp add: whole feed_append g1(1) g2)
  have cl: "ln_current ?l \<le> ln_last ?l" using good by (simp add: good_line_def line_ok_def)
  obtain p1 where p1: "feed_line (ln_current ?l) (ln_last ?l) p = Inr p1"
    using feed_line_ok [OF cl order_refl lo at0 full] by blast
  have at1: "fsm_at ?cs (p_privileged p) (p_root p) (line_of_words ws @ w) (p_fsm p1)" "same_but_fsm p p1"
    using feed_line_at [OF p1 cl order_refl lo at0] by (simp_all add: whole)
  note f1 = same_but_fsm_fields [OF at1(2)]
  obtain j b num st where j: "is_machine j CPARSER_STATE_TOKEN st (b, w) (length (line_of_words ws @ w)) (p_fsm p1)" "stack_words st = ws"
    "length st = length ws" "cparser_match (p_privileged p) w (Some j) = Inr (num, Some m, True)" "1 \<le> num" "length w < CPARSER_MAX_TOKEN_SIZE"
    by (rule at_words [OF assms(4,6) at1(1)])
  note cur = is_machine_current [OF j(1)]
  have sp: "\<not> erases ?cs space" "plain_char ?cs space" using assms(2) by (simp_all add: enter_ok_def plain_char_def)
  obtain f2 where f2: "cparser_fsm_input ?cs (p_privileged p) space (p_fsm p1) = Inr (f2, [])"
    "is_machine m CPARSER_STATE_WHITESPACE ((b, w, Some j) # st) no_token (Suc (length (line_of_words ws @ w))) f2"
    using feed_space [OF j(1,4,5,6) _ sp(1)] j(3) assms(6,7) by auto
  have sd: "p_user p1 = None" "plain_char (p_chars p1) space" "cparser_fsm_input (p_chars p1) (p_privileged p1) space (p_fsm p1) = Inr (f2, [])"
    using pu sp(2) f2(1) by (simp_all add: f1)
  have sl: "lines_ok (p_chars p1) (p_lines p1)" "Suc (ln_last (this_line (p_lines p1))) < CPARSER_MAX_LINE_SIZE"
    using lo last assms(7) by (simp_all add: f1)
  obtain l2 v2 where t: "type_char ?inp space p1 = ok (p_write v2 ((p_set_line l2 p1)\<lparr>p_fsm := f2\<rparr>))"
    and l2: "lines_ok (p_chars p1) (set_line l2 (p_lines p1))"
    by (rule type_space [OF sd sl])
  let ?p2 = "p_write v2 ((p_set_line l2 p1)\<lparr>p_fsm := f2\<rparr>)"
  have c2: "cur_node (p_fsm ?p2) = Some m" using is_machine_current(1) [OF f2(2)] by simp
  have "command_end (p_privileged ?p2) w m g" using assms(5) by (simp add: f1)
  then obtain e where e: "single_keywords (Suc (Suc n)) ?inp ?p2 = ok ?p2"
    "execute_node E ?p2 = rbind (glue_fn E g (p_write [newline] (?p2\<lparr>p_fsm := (p_fsm ?p2)\<lparr>cur_node := Some e\<rparr>\<rparr>))) (\<lambda>(rc, p). command_done rc p)"
    using command_end_node [of ?p2 w m g "Suc n" ?inp E] c2 by blast
  let ?q = "p_write [newline] (?p2\<lparr>p_fsm := (p_fsm ?p2)\<lparr>cur_node := Some e\<rparr>\<rparr>)"
  have "p_match p1 = Inr (num, Some m, True)" by (simp add: p_match_def cur f1 j(4))
  then have "cparser_execute_cmd E ?inp (Suc (Suc n)) p1 = bind (single_keywords (Suc (Suc n)) ?inp ?p2) (\<lambda>p. Some (execute_node E p))"
    by (rule execute_matched [OF _ j(5) _ _ t]) (simp_all only: cur complete_typed [OF assms(5)])
  also have "\<dots> = Some (rbind (glue_fn E g ?q) (\<lambda>(rc, p). command_done rc p))"
    by (simp only: e bind_simps)
  finally have x: "cparser_execute_cmd E ?inp (Suc (Suc n)) p1 = Some (rbind (glue_fn E g ?q) (\<lambda>(rc, p). command_done rc p))" .
  have "edit_key newline CPARSER_CHAR_REGULAR p = Inr (Goes_on newline p1)"
    using assms(2) p1 by (simp add: edit_key_def Let_def enter_ok_def)
  then have "cparser_input (Suc (Suc (Suc n))) E newline CPARSER_CHAR_REGULAR p =
      bind (Some (rbind (glue_fn E g ?q) (\<lambda>(rc, r). command_done rc r))) (\<lambda>(rc, r). ok (rc, r\<lparr>p_lines := cparser_line_advance (p_lines r)\<rparr>))"
    using assms(2) x unfolding cparser_input.simps(2) [of "Suc (Suc n)"] input_body_def u
    by (simp add: act_on_def f1 enter_ok_def del: cparser_input.simps)
  moreover have "called_with p (ws @ [w]) ?q"
  proof -
    have ts: "tokens (p_fsm ?q) = tokens f2" by simp
    have sw: "stack_words ((b, w, Some j) # st) = ws @ [w]" using j(2) by (simp add: stack_words_def)
    have nz: "\<forall>v\<in>set (stack_words ((b, w, Some j) # st)). 0 \<notin> set v"
      unfolding sw using plain by (force simp: line_of_words_def plain_char_def)
    have len: "length ((b, w, Some j) # st) = length (ws @ [w])" using j(3) by simp
    have "map token_string (take (length (ws @ [w])) (tokens f2)) = ws @ [w]"
      "map token_len (take (length (ws @ [w])) (tokens f2)) = map length (ws @ [w])"
      using stack_strings [OF f2(2) nz] unfolding sw len by simp_all
    then show ?thesis using pu using l2 by (simp add: called_with_def f1) (simp add: p_set_line_def f1)
  qed
  ultimately show ?thesis by blast
qed

section \<open>The next line\<close>

lemma advance_ok:
  assumes "lines_ok cs ls"
  shows "lines_ok cs (cparser_line_advance ls)" "this_line (cparser_line_advance ls) = line_of [] []"
proof -
  define n where "n = (if CPARSER_MAX_LINES \<le> Suc (cur_line ls) then 0 else Suc (cur_line ls))"
  have n: "n < CPARSER_MAX_LINES" by (simp add: n_def CPARSER_MAX_LINES_def)
  let ?ls = "ls\<lparr>cur_line := n, max_line := (if max_line ls < n then n else max_line ls)\<rparr>"
  have "lines_ok cs ?ls" using assms n by (simp add: lines_ok_def)
  moreover have "good_line cs (line_of [] [])" by (simp add: good_line_of CPARSER_MAX_LINE_SIZE_def)
  moreover have "cparser_line_advance ls = set_line (line_of [] []) ?ls"
    by (simp add: cparser_line_advance_def Let_def line_reset_of n_def)
  ultimately show "lines_ok cs (cparser_line_advance ls)" "this_line (cparser_line_advance ls) = line_of [] []"
    using set_line_ok by auto
qed

text \<open>After a command the parser is in step, at the start of an empty line.\<close>

lemma after_command:
  assumes "p_user r = None" "lines_ok (p_chars r) (p_lines r)" "erases (p_chars r) backspace"
  obtains q where "command_done rc r = Inr (rc, q)" "in_step (q\<lparr>p_lines := cparser_line_advance (p_lines q)\<rparr>)"
    "p_app q = p_app r" "p_done q = p_done r" "p_levels q = p_levels r" "p_chars q = p_chars r" "lines_ok (p_chars q) (p_lines q)"
proof -
  let ?q = "cparser_print_prompt (finish_command rc r)"
  have f: "p_user (finish_command rc r) = None" "p_lines ?q = p_lines r" "p_chars ?q = p_chars r" "p_app ?q = p_app r"
    "p_done ?q = p_done r" "p_levels ?q = p_levels r" "p_privileged ?q = p_privileged r" "p_user ?q = None"
    "p_fsm ?q = cparser_fsm_reset (p_root r) (p_fsm r)"
    using assms(1) by (simp_all add: finish_command_def cparser_record_command_def p_fsm_reset_def cparser_print_prompt_def)
  have root: "p_root ?q = p_root r" using f(6) by (simp add: p_root_def)
  have "command_done rc r = Inr (rc, ?q)"
    using f(1) by (simp add: command_done_def Let_def cparser_is_user_input_def)
  moreover have "in_step (?q\<lparr>p_lines := cparser_line_advance (p_lines ?q)\<rparr>)"
    using advance_ok [OF assms(2)] assms(3) f root by (simp add: in_step_def fsm_at_reset)
  moreover have "lines_ok (p_chars ?q) (p_lines ?q)" using assms(2) f by simp
  ultimately show ?thesis using that f by blast
qed

end
