(* ===== verification/Console.thy ===== *)
theory Console
  imports CliEnter Threaded Keys Daemon
begin

text \<open>
  The interactive client \<open>src/src/ddclient.c\<close>: its commands, the command tree with its glue functions that
  \<open>mk_parser.py\<close> generated from them (\<open>src/src/cli_parser/cparser_tree.c\<close>), its callbacks, and \<open>main\<close>.
\<close>

section \<open>State\<close>

text \<open>
  The global variable \<open>client\<close>, None for NULL, and what its structure has beyond that of the theory Client: the name of
  the key file and the keys as they were read. The actions print where the parser writes.
\<close>

record console =
  con_client :: "dd_handle option"
  con_keyfile :: bytes
  con_keys :: dd_keys_t

datatype command =
    Show_subscriptions
  | Show_status
  | Show_keys
  | Subscribe_topic_scope
  | No_subscribe_topic_scope
  | Publish_topic_message
  | Notify_destination_message
  | Quit
  | Help

type_synonym cli = "(command, console) cparser"
type_synonym action = "cli \<Rightarrow> (cparser_result \<times> cli) res"

text \<open>What the commands need from elsewhere: the externals of the client and the hexadecimal text of libsodium.\<close>

record con_env =
  con_ext :: ext
  con_hex :: "bytes \<Rightarrow> bytes"

definition the_client :: "cli \<Rightarrow> dd_handle res" where
  "the_client p = (case con_client (p_app p) of None \<Rightarrow> Inl Null_deref | Some h \<Rightarrow> Inr h)"

definition set_client :: "dd_handle option \<Rightarrow> cli \<Rightarrow> cli" where
  "set_client h p = p\<lparr>p_app := (p_app p)\<lparr>con_client := h\<rparr>\<rparr>"

text \<open>\<open>%d\<close>\<close>

definition printf_d :: "int \<Rightarrow> bytes" where
  "printf_d i = (if i < 0 then 45 # decimal (nat (- i)) else decimal (nat i))"

definition quoted :: "string \<Rightarrow> bytes" where
  "quoted s = 39 # ascii s @ [39]"

section \<open>Commands\<close>

text \<open>
  The state of the client through the pointer: before the thread has set the structure up and when there are no keys it is
  as \<open>dd_new\<close> left it.
\<close>

definition dd_get_state :: "dd_handle \<Rightarrow> dd_state res" where
  "dd_get_state h =
     (case h of Freed \<Rightarrow> Inl Use_after_free | Running self \<Rightarrow> Inr (c_state self) | _ \<Rightarrow> Inr DD_STATE_UNREG)"

text \<open>The list of subscriptions is gone through from its cursor, which the client's own loops share.\<close>

definition subscription_line :: "ddtopic \<Rightarrow> bytes" where
  "subscription_line item =
     ascii ''Topic: '' @ c_string (topic item) @ ascii '' Scope: '' @ c_string (topic_scope item) @ ascii '' Active: '' @
     printf_d (sint (active item)) @ [newline]"

definition cparser_cmd_show_subscriptions :: action where
  "cparser_cmd_show_subscriptions p =
     rbind (the_client (p_write (ascii ''List of subscriptions:'' @ [newline]) p)) (\<lambda>h.
     case h of
       Freed \<Rightarrow> Inl Use_after_free
     | Running self \<Rightarrow>
         rbind (zlistx_loop (\<lambda>item w. Inr (item, w @ subscription_line item)) (c_sublist self)
           (ascii ''List of subscriptions:'' @ [newline])) (\<lambda>(l, w).
         Inr (CPARSER_OK, set_client (Some (Running (self\<lparr>c_sublist := l\<rparr>))) (p_write w p)))
     | _ \<Rightarrow> Inl Uninit_read)"

definition cparser_cmd_show_status :: action where
  "cparser_cmd_show_status p =
     rbind (the_client p) (\<lambda>h.
     rbind (dd_get_state h) (\<lambda>s.
     Inr (CPARSER_OK, p_write (
       if s = DD_STATE_UNREG then ascii ''DoubleDecker client: UNREGISTRED'' @ [newline]
       else if s = DD_STATE_REGISTERED then ascii ''DoubleDecker client: REGISTRED'' @ [newline]
       else if s = DD_STATE_CHALLENGED then ascii ''DoubleDecker client: AUTHENTICATING'' @ [newline]
       else ascii ''DoubleDecker client: UNKNOWN!'' @ [newline]) p)))"

text \<open>The 32 bytes of a key as text, in a buffer of its own.\<close>

definition key_hex :: "con_env \<Rightarrow> bytes option \<Rightarrow> bytes res" where
  "key_hex C k = (case k of None \<Rightarrow> Inl Null_deref | Some k \<Rightarrow> if length k < 32 then Inl Out_of_bounds else Inr (con_hex C (take 32 k)))"

definition dd_get_privkey :: "con_env \<Rightarrow> dd_keys_t \<Rightarrow> bytes res" where "dd_get_privkey C ks = key_hex C (kt_privkey ks)"
definition dd_get_pubkey :: "con_env \<Rightarrow> dd_keys_t \<Rightarrow> bytes res" where "dd_get_pubkey C ks = key_hex C (kt_pubkey ks)"
definition dd_get_publickey :: "con_env \<Rightarrow> dd_keys_t \<Rightarrow> bytes res" where "dd_get_publickey C ks = key_hex C (kt_publicpubkey ks)"

text \<open>The buffers that a function allocated and has not freed, by the names of the variables that point to them.\<close>

definition free_buf :: "string \<Rightarrow> string list \<Rightarrow> string list res" where
  "free_buf v live = (if v \<in> set live then Inr (remove1 v live) else Inl Use_after_free)"

definition client_key_struct :: "dd_handle \<Rightarrow> console \<Rightarrow> dd_keys_t res" where
  "client_key_struct h con =
     (case h of Starting \<Rightarrow> Inl Uninit_read | Freed \<Rightarrow> Inl Use_after_free | No_keys \<Rightarrow> Inl Null_deref | Running self \<Rightarrow> Inr (con_keys con))"

definition cparser_cmd_show_keys :: "con_env \<Rightarrow> action" where
  "cparser_cmd_show_keys C p =
     rbind (the_client p) (\<lambda>h.
     rbind (client_key_struct h (p_app p)) (\<lambda>ks.
     let p = p_write (ascii ''Keys read from: '' @ con_keyfile (p_app p) @ [newline]) p in
     rbind (dd_get_privkey C ks) (\<lambda>privkey.
     let p = p_write (ascii ''Private key: '' @ [9] @ privkey @ [newline]) p; live = [''privkey''] in
     rbind (free_buf ''privkey'' live) (\<lambda>live.
     rbind (dd_get_pubkey C ks) (\<lambda>pubkey.
     let p = p_write (ascii ''Public key: '' @ [9] @ pubkey @ [newline]) p; live = ''pubkey'' # live in
     rbind (free_buf ''pubkey'' live) (\<lambda>live.
     rbind (dd_get_publickey C ks) (\<lambda>publickey.
     let p = p_write (ascii ''Pub public key: '' @ [9] @ publickey @ [newline]) p; live = ''publickey'' # live in
     rbind (free_buf ''pubkey'' live) (\<lambda>live.
     Inr (CPARSER_OK, p)))))))))"

text \<open>A call on the client, its result not looked at.\<close>

definition con_call :: "con_env \<Rightarrow> user_call \<Rightarrow> action" where
  "con_call C u p =
     rbind (the_client p) (\<lambda>h.
     rbind (handle_call (con_ext C) u h) (\<lambda>h.
     Inr (CPARSER_OK, set_client (Some h) p)))"

text \<open>Commands with two arguments; without one there is a message.\<close>

definition with_arguments :: "bytes option \<Rightarrow> bytes option \<Rightarrow> bytes \<Rightarrow> (bytes \<Rightarrow> bytes \<Rightarrow> action) \<Rightarrow> action" where
  "with_arguments a b msg f p =
     (case a of None \<Rightarrow> Inr (CPARSER_NOT_OK, p_write msg p)
      | Some a \<Rightarrow> (case b of None \<Rightarrow> Inr (CPARSER_NOT_OK, p_write msg p) | Some b \<Rightarrow> f a b p))"

definition cparser_cmd_subscribe_topic_scope :: "con_env \<Rightarrow> bytes option \<Rightarrow> bytes option \<Rightarrow> action" where
  "cparser_cmd_subscribe_topic_scope C topic_ptr scope_ptr =
     with_arguments topic_ptr scope_ptr
       (ascii ''error: subscribe '' @ quoted ''topic'' @ ascii '' '' @ quoted ''ALL/REGION/CLUSTER/NODE/NOSCOPE, 1/2/3'' @ [newline])
       (\<lambda>t s. con_call C (U_subscribe t s))"

definition cparser_cmd_no_subscribe_topic_scope :: "con_env \<Rightarrow> bytes option \<Rightarrow> bytes option \<Rightarrow> action" where
  "cparser_cmd_no_subscribe_topic_scope C topic_ptr scope_ptr =
     with_arguments topic_ptr scope_ptr
       (ascii ''error: no subscribe '' @ quoted ''topic'' @ ascii '' '' @ quoted ''ALL/REGION/CLUSTER/NODE/NOSCOPE, 1/2/3'' @ [newline])
       (\<lambda>t s. con_call C (U_unsubscribe t s))"

definition cparser_cmd_publish_topic_message :: "con_env \<Rightarrow> bytes option \<Rightarrow> bytes option \<Rightarrow> action" where
  "cparser_cmd_publish_topic_message C topic_ptr message_ptr =
     with_arguments topic_ptr message_ptr (ascii ''error: publish '' @ quoted ''topic'' @ ascii '' '' @ quoted ''message'' @ [newline])
       (\<lambda>t m. con_call C (U_publish t m))"

definition cparser_cmd_notify_destination_message :: "con_env \<Rightarrow> bytes option \<Rightarrow> bytes option \<Rightarrow> action" where
  "cparser_cmd_notify_destination_message C destination_ptr message_ptr =
     with_arguments destination_ptr message_ptr (ascii ''error: notify '' @ quoted ''destination'' @ ascii '' '' @ quoted ''message'' @ [newline])
       (\<lambda>d m. con_call C (U_notify d m))"

text \<open>
  \<open>dd_destroy\<close> through the pointer. It starts with the socket when the client is not registered, and without keys it comes
  to the list of subscriptions that was not made.
\<close>

definition handle_destroy :: "dd_handle option \<Rightarrow> unit res" where
  "handle_destroy h =
     (case h of
        None \<Rightarrow> Inr ()
      | Some Freed \<Rightarrow> Inl Use_after_free
      | Some (Running self) \<Rightarrow> rbind (dd_destroy self) (\<lambda>_. Inr ())
      | _ \<Rightarrow> Inl Uninit_read)"

definition cparser_cmd_quit :: action where
  "cparser_cmd_quit p = rbind (handle_destroy (con_client (p_app p))) (\<lambda>_. Inr (CPARSER_OK, cparser_quit (set_client None p)))"

definition cparser_cmd_help :: action where
  "cparser_cmd_help p = cparser_help_cmd None p"

section \<open>Glue functions\<close>

text \<open>A string argument: the buffer of a token on the stack. The result is asserted, and that of the action not returned.\<close>

definition string_argument :: "nat \<Rightarrow> cli \<Rightarrow> bytes option res" where
  "string_argument i p =
     (let t = tokens (p_fsm p) ! i in
      case cparser_get_string (token_len t) (token_string t) of (rc, s) \<Rightarrow> if rc = CPARSER_OK then Inr s else Inl Assert_fail)"

definition glue_result :: "(cparser_result \<times> cli) res \<Rightarrow> (cparser_result \<times> cli) res" where
  "glue_result m = rbind m (\<lambda>(rc, p). Inr (CPARSER_OK, p))"

definition two_arguments :: "nat \<Rightarrow> (bytes option \<Rightarrow> bytes option \<Rightarrow> action) \<Rightarrow> action" where
  "two_arguments i cmd p =
     rbind (string_argument i p) (\<lambda>a. rbind (string_argument (Suc i) p) (\<lambda>b. glue_result (cmd a b p)))"

definition cparser_glue_show_subscriptions :: action where
  "cparser_glue_show_subscriptions p = glue_result (cparser_cmd_show_subscriptions p)"

definition cparser_glue_show_status :: action where
  "cparser_glue_show_status p = glue_result (cparser_cmd_show_status p)"

definition cparser_glue_show_keys :: "con_env \<Rightarrow> action" where
  "cparser_glue_show_keys C p = glue_result (cparser_cmd_show_keys C p)"

definition cparser_glue_subscribe_topic_scope :: "con_env \<Rightarrow> action" where
  "cparser_glue_subscribe_topic_scope C = two_arguments 1 (cparser_cmd_subscribe_topic_scope C)"

definition cparser_glue_no_subscribe_topic_scope :: "con_env \<Rightarrow> action" where
  "cparser_glue_no_subscribe_topic_scope C = two_arguments 2 (cparser_cmd_no_subscribe_topic_scope C)"

definition cparser_glue_publish_topic_message :: "con_env \<Rightarrow> action" where
  "cparser_glue_publish_topic_message C = two_arguments 1 (cparser_cmd_publish_topic_message C)"

definition cparser_glue_notify_destination_message :: "con_env \<Rightarrow> action" where
  "cparser_glue_notify_destination_message C = two_arguments 1 (cparser_cmd_notify_destination_message C)"

definition cparser_glue_quit :: action where
  "cparser_glue_quit p = glue_result (cparser_cmd_quit p)"

definition cparser_glue_help :: action where
  "cparser_glue_help p = glue_result (cparser_cmd_help p)"

definition glue :: "con_env \<Rightarrow> command \<Rightarrow> action" where
  "glue C g =
     (case g of
        Show_subscriptions \<Rightarrow> cparser_glue_show_subscriptions
      | Show_status \<Rightarrow> cparser_glue_show_status
      | Show_keys \<Rightarrow> cparser_glue_show_keys C
      | Subscribe_topic_scope \<Rightarrow> cparser_glue_subscribe_topic_scope C
      | No_subscribe_topic_scope \<Rightarrow> cparser_glue_no_subscribe_topic_scope C
      | Publish_topic_message \<Rightarrow> cparser_glue_publish_topic_message C
      | Notify_destination_message \<Rightarrow> cparser_glue_notify_destination_message C
      | Quit \<Rightarrow> cparser_glue_quit
      | Help \<Rightarrow> cparser_glue_help)"

text \<open>No action of the client asks for input; files are not completed.\<close>

definition cli_env :: "con_env \<Rightarrow> (command, console) cparser_env" where
  "cli_env C = \<lparr>glue_fn = glue C, input_cb = (\<lambda>g s p. Inl Null_deref), glob = (\<lambda>s. None)\<rparr>"

section \<open>The command tree\<close>

definition eol_node :: "command \<Rightarrow> string \<Rightarrow> command cparser_node" where
  "eol_node g desc = Node CPARSER_NODE_END 0 (Glue g) (Some (ascii desc)) []"

definition keyword_node :: "string \<Rightarrow> command cparser_node list \<Rightarrow> command cparser_node" where
  "keyword_node k ns = Node CPARSER_NODE_KEYWORD 0 (Text (ascii k)) None ns"

definition string_node :: "string \<Rightarrow> command cparser_node \<Rightarrow> command cparser_node" where
  "string_node name n = Node CPARSER_NODE_STRING 0 (Text (ascii name)) None [n]"

definition cparser_node_help :: "command cparser_node" where
  "cparser_node_help = keyword_node ''help'' [eol_node Help ''Get some help'']"

definition cparser_node_quit :: "command cparser_node" where
  "cparser_node_quit = keyword_node ''quit'' [eol_node Quit ''Stop the client'']"

definition cparser_node_notify :: "command cparser_node" where
  "cparser_node_notify = keyword_node ''notify'' [string_node ''<STRING:destination>'' (string_node ''<STRING:message>''
     (eol_node Notify_destination_message ''Send message to destination ''))]"

definition cparser_node_publish :: "command cparser_node" where
  "cparser_node_publish = keyword_node ''publish'' [string_node ''<STRING:topic>'' (string_node ''<STRING:message>''
     (eol_node Publish_topic_message ''Publish a message on topic''))]"

definition cparser_node_no :: "command cparser_node" where
  "cparser_node_no = keyword_node ''no'' [keyword_node ''subscribe'' [string_node ''<STRING:topic>''
     (string_node ''<STRING:scope>'' (eol_node No_subscribe_topic_scope ''Unsubscribe to topic/scope''))]]"

definition cparser_node_subscribe :: "command cparser_node" where
  "cparser_node_subscribe = keyword_node ''subscribe'' [string_node ''<STRING:topic>''
     (string_node ''<STRING:scope>'' (eol_node Subscribe_topic_scope ''Subscribe to topic/scope''))]"

definition cparser_node_show :: "command cparser_node" where
  "cparser_node_show = keyword_node ''show''
     [keyword_node ''subscriptions'' [eol_node Show_subscriptions ''Show all subscriptions''],
      keyword_node ''status'' [eol_node Show_status ''Show overall status''],
      keyword_node ''keys'' [eol_node Show_keys ''Show loaded keys'']]"

definition cparser_root :: "command cparser_node" where
  "cparser_root = Node CPARSER_NODE_ROOT 0 No_param (Some (ascii ''Root node of the parser tree''))
     [cparser_node_show, cparser_node_subscribe, cparser_node_no, cparser_node_publish, cparser_node_notify, cparser_node_quit,
      cparser_node_help]"

section \<open>Callbacks\<close>

text \<open>What the callbacks print. The data of a message is read as a string, in a buffer of its length.\<close>

definition data_string :: "bytes \<Rightarrow> bytes res" where
  "data_string d = (if 0 \<in> set d then Inr (c_string d) else Inl Out_of_bounds)"

definition on_event :: "bytes \<Rightarrow> cevent \<Rightarrow> bytes res" where
  "on_event endpoint e =
     (case e of
        On_reg \<Rightarrow> Inr (newline # ascii ''Registered with broker '' @ endpoint @ ascii ''!'' @ [newline])
      | On_discon \<Rightarrow> Inr (newline # ascii ''Got disconnected from broker '' @ endpoint @ ascii ''!'' @ [newline])
      | On_pub source t d \<Rightarrow>
          rbind (data_string d) (\<lambda>s. Inr (newline # ascii ''PUB S: '' @ source @ ascii '' T: '' @ t @ ascii '' L: '' @
            printf_d (int (length d)) @ ascii '' D: '' @ 39 # s @ [39]))
      | On_data source d \<Rightarrow>
          rbind (data_string d) (\<lambda>s. Inr (newline # ascii ''DATA S: '' @ source @ ascii '' L: '' @
            printf_d (int (length d)) @ ascii '' D: '' @ 39 # s @ [39]))
      | On_error code m \<Rightarrow>
          if code = DD_ERROR_NODST then rbind (deref_str m) (\<lambda>m. Inr (ascii ''Error - no destination: '' @ m @ [newline]))
          else if code = DD_ERROR_REGFAIL then rbind (deref_str m) (\<lambda>m. Inr (ascii ''Error - registration failed: '' @ m @ [newline]))
          else if code = DD_ERROR_VERSION then rbind (deref_str m) (\<lambda>m. Inr (ascii ''Error - version: '' @ m @ [newline]))
          else Inr (ascii ''Error - unknown error!'' @ [newline])
      | _ \<Rightarrow> Inr [])"

section \<open>The program\<close>

record console_opts =
  o_keyfile :: "bytes option"
  o_connect_to :: "bytes option"
  o_client_name :: "bytes option"
  o_logfile :: "bytes option"
  o_syslog :: bool
  o_loglevel :: bytes

text \<open>One option as \<open>getopt\<close> gives it; any other character ends the program.\<close>

definition console_opt :: "char \<times> bytes \<Rightarrow> console_opts \<Rightarrow> console_opts res" where
  "console_opt = (\<lambda>(c, optarg) opt.
     if c = CHR ''k'' then Inr (opt\<lparr>o_keyfile := Some optarg\<rparr>)
     else if c = CHR ''d'' then Inr (opt\<lparr>o_connect_to := Some optarg\<rparr>)
     else if c = CHR ''n'' then Inr (opt\<lparr>o_client_name := Some optarg\<rparr>)
     else if c = CHR ''S'' then Inr (opt\<lparr>o_syslog := True\<rparr>)
     else if c = CHR ''L'' then Inr (opt\<lparr>o_logfile := Some optarg\<rparr>)
     else if c = CHR ''l'' then Inr (opt\<lparr>o_loglevel := optarg\<rparr>)
     else Inl Proc_exit)"

definition dd_set_loglevel :: "bytes \<Rightarrow> dd_loglevel \<Rightarrow> int \<times> dd_loglevel" where
  "dd_set_loglevel logstr loglevel =
     (if logstr = ascii ''e'' then (0, DD_LOG_ERROR)
      else if logstr = ascii ''w'' then (0, DD_LOG_WARNING)
      else if logstr = ascii ''n'' then (0, DD_LOG_NOTICE)
      else if logstr = ascii ''i'' then (0, DD_LOG_INFO)
      else if logstr = ascii ''d'' then (0, DD_LOG_DEBUG)
      else if logstr = ascii ''q'' then (0, DD_LOG_NONE)
      else (- 1, loglevel))"

text \<open>\<open>sprintf(&parser.cfg.prompt[0], "%s>> ", client_name)\<close>, into 16 bytes.\<close>

definition console_prompt :: "bytes \<Rightarrow> bytes res" where
  "console_prompt name =
     (let s = name @ ascii ''>> '' in if length s < CPARSER_MAX_PROMPT then Inr s else Inl Out_of_bounds)"

definition console_chars :: cparser_chars where
  "console_chars = \<lparr>ch_complete = 9, ch_erase = backspace, ch_del = 127, ch_help = 63\<rparr>"

text \<open>
  \<open>main\<close> up to \<open>cparser_run\<close>, with the log level. The client's thread runs from \<open>dd_new\<close> on; the parser that the program
  starts with has the pointer to a client that may not be set up.
\<close>

definition console_parser :: "console_opts \<Rightarrow> dd_keys_t \<Rightarrow> (cli \<times> dd_loglevel) res" where
  "console_parser opt ks =
     (case (o_client_name opt, o_keyfile opt, o_connect_to opt) of
       (Some name, Some keyfile, Some connect_to) \<Rightarrow>
         rbind (console_prompt name) (\<lambda>prompt.
         case cparser_init console_chars (Some cparser_root) prompt \<lparr>con_client = Some dd_new, con_keyfile = keyfile, con_keys = ks\<rparr> of
           None \<Rightarrow> Inl Proc_exit
         | Some p \<Rightarrow> Inr (p, snd (dd_set_loglevel (o_loglevel opt) DD_LOG_NOTICE)))
     | _ \<Rightarrow> Inl Proc_exit)"

definition console_main :: "(char \<times> bytes) list \<Rightarrow> dd_keys_t \<Rightarrow> (cli \<times> dd_loglevel) res" where
  "console_main opts ks =
     rbind (rfold console_opt opts \<lparr>o_keyfile = None, o_connect_to = None, o_client_name = None, o_logfile = None, o_syslog = False,
       o_loglevel = ascii ''n''\<rparr>) (\<lambda>opt. console_parser opt ks)"

end
