(* ===== verification/CliTyping.thy ===== *)
theory CliTyping
  imports CliEnter
begin

text \<open>
  Typing a line on the terminal: the characters that come from the keyboard are put on the line and into the machine one
  after the other, when the whole line goes into the machine without a fault. And the lines of words that do.
\<close>

section \<open>Lines of words\<close>

lemma words_machine:
  assumes "leads priv root ws k" "typable priv k w" "length ws < CPARSER_MAX_NUM_TOKENS"
    "\<forall>c\<in>set (line_of_words ws @ w). \<not> erases cs c" "length (line_of_words ws @ w) < CPARSER_MAX_LINE_SIZE"
  obtains g b st where "fsm_feed cs priv (line_of_words ws @ w) (cparser_fsm_reset root f) = Inr g"
    "is_machine k CPARSER_STATE_TOKEN st (b, w) (length (line_of_words ws @ w)) g" "stack_words st = ws"
proof -
  have s: "length ([] :: (int \<times> bytes \<times> 'a cparser_node option) list) + length ws < CPARSER_MAX_NUM_TOKENS"
    "\<forall>c\<in>set (line_of_words ws). \<not> erases cs c" "0 + length (line_of_words ws) < CPARSER_MAX_LINE_SIZE"
    using assms by simp_all
  obtain g st where g: "fsm_feed cs priv (line_of_words ws) (cparser_fsm_reset root f) = Inr g"
    "is_machine k CPARSER_STATE_WHITESPACE st no_token (0 + length (line_of_words ws)) g" "stack_words st = stack_words ([] :: (int \<times> bytes \<times> 'a cparser_node option) list) @ ws"
    by (rule feed_words [OF assms(1) is_machine_reset [of root f] s])
  have t: "\<forall>c\<in>set w. \<not> erases cs c" "0 + length (line_of_words ws) + length w < CPARSER_MAX_LINE_SIZE" using assms by simp_all
  obtain h where "fsm_feed cs priv w g = Inr h"
    "is_machine k CPARSER_STATE_TOKEN st (int (0 + length (line_of_words ws)), w) (0 + length (line_of_words ws) + length w) h"
    by (rule feed_word [OF g(2) assms(2) t])
  with g that show ?thesis by (simp add: feed_append stack_words_def)
qed

definition parser_with :: "cparser_chars \<Rightarrow> bool \<Rightarrow> 'g cparser_node \<Rightarrow> bytes \<Rightarrow> 'a \<Rightarrow> bytes \<Rightarrow> 'g cparser_fsm \<Rightarrow> ('g, 'a) cparser" where
  "parser_with cs priv root prompt app line f =
     \<lparr>p_chars = cs, p_levels = [(root, prompt)], p_fsm = f, p_privileged = priv, p_lines = set_line (line_of line []) lines_new,
       p_done = False, p_user = None, p_last = None, p_out = [], p_app = app\<rparr>"

lemma parser_with_line:
  assumes "length line < CPARSER_MAX_LINE_SIZE" "\<forall>c\<in>set line. plain_char cs c"
  shows "lines_ok cs (p_lines (parser_with cs priv root prompt app line f))"
    "this_line (p_lines (parser_with cs priv root prompt app line f)) = line_of line []"
proof -
  have "lines_ok cs lines_new"
    by (auto simp: lines_ok_def lines_new_def CPARSER_MAX_LINES_def line_reset_of good_line_of CPARSER_MAX_LINE_SIZE_def)
  moreover have "good_line cs (line_of line [])" using assms by (simp add: good_line_of)
  ultimately show "lines_ok cs (p_lines (parser_with cs priv root prompt app line f))"
    "this_line (p_lines (parser_with cs priv root prompt app line f)) = line_of line []"
    by (simp_all add: parser_with_def set_line_ok)
qed

lemma parser_with_fields [simp]:
  "p_chars (parser_with cs priv root prompt app line f) = cs" "p_root (parser_with cs priv root prompt app line f) = root"
  "p_privileged (parser_with cs priv root prompt app line f) = priv" "p_fsm (parser_with cs priv root prompt app line f) = f"
  "p_user (parser_with cs priv root prompt app line f) = None" "p_app (parser_with cs priv root prompt app line f) = app"
  "p_done (parser_with cs priv root prompt app line f) = False"
  by (simp_all add: parser_with_def p_root_def)

lemma parser_with_in_step:
  assumes "length line < CPARSER_MAX_LINE_SIZE" "\<forall>c\<in>set line. plain_char cs c" "erases cs backspace"
    and "fsm_feed cs priv line (cparser_fsm_reset root f0) = Inr f"
  shows "in_step (parser_with cs priv root prompt app line f)"
proof -
  have "fsm_at cs priv root line f"
    using assms by (auto simp: fsm_at_def plain_char_def fsm_reset_any [of root f f0])
  then show ?thesis using parser_with_line [OF assms(1,2), of priv root prompt app f] assms(3) by (simp add: in_step_def)
qed

section \<open>One key after the other\<close>

text \<open>Characters that the terminal delivers as they are.\<close>

definition key_char :: "cparser_chars \<Rightarrow> u8 \<Rightarrow> bool" where
  "key_char cs c \<longleftrightarrow> plain_char cs c \<and> 32 \<le> c \<and> c \<le> 126"

lemma getch_key: "key_char cs c \<Longrightarrow> cparser_unix_getch cs (c # s) = (c, CPARSER_CHAR_REGULAR, s)"
proof -
  assume c: "key_char cs c"
  then have "regular_char cs c" by (auto simp: key_char_def regular_char_def word_le_nat_alt word_less_nat_alt word_unat_eq_iff)
  moreover have "c \<noteq> 27" "c \<noteq> CTRL_P" "c \<noteq> CTRL_N" "c \<noteq> CTRL_A" "c \<noteq> CTRL_E"
    using c by (auto simp: key_char_def CTRL_P_def CTRL_N_def CTRL_A_def CTRL_E_def word_le_nat_alt)
  ultimately show ?thesis by (simp add: cparser_unix_getch_def)
qed

text \<open>What typing leaves alone.\<close>

definition same_app :: "('g, 'a) cparser \<Rightarrow> ('g, 'a) cparser \<Rightarrow> bool" where
  "same_app p q \<longleftrightarrow> p_chars q = p_chars p \<and> p_levels q = p_levels p \<and> p_privileged q = p_privileged p \<and> p_app q = p_app p \<and>
     p_done q = p_done p"

lemma same_app_refl: "same_app p p" by (simp add: same_app_def)

lemma same_app_root: "same_app p q \<Longrightarrow> p_root q = p_root p" by (simp add: same_app_def p_root_def)

lemma same_app_trans: "same_app p q \<Longrightarrow> same_app q r \<Longrightarrow> same_app p r" by (simp add: same_app_def)

lemma type_key:
  assumes "in_step p" "this_line (p_lines p) = line_of a []" "plain_char (p_chars p) c" "Suc (length a) < CPARSER_MAX_LINE_SIZE"
    and "fsm_feed (p_chars p) (p_privileged p) (a @ [c]) (cparser_fsm_reset (p_root p) f0) = Inr g"
  obtains q where "cparser_input (Suc n) E c CPARSER_CHAR_REGULAR p = ok (CPARSER_OK, q)" "in_step q"
    "this_line (p_lines q) = line_of (a @ [c]) []" "same_app p q"
proof -
  have at: "fsm_at (p_chars p) (p_privileged p) (p_root p) a (p_fsm p)" using assms(1,2) by (simp add: in_step_def)
  obtain h w where h: "cparser_fsm_input (p_chars p) (p_privileged p) c (p_fsm p) = Inr (h, w)" using fsm_at_next [OF at assms(5)] by blast
  let ?q = "p_write [c] (p_set_line (line_of (a @ [c]) []) p)"
  have i: "cparser_line_insert c (line_of a []) = (CPARSER_OK, line_of (a @ [c]) [], [c])"
    using insert_text [of a "[]" c] assms(3,4) by (simp add: plain_char_def)
  have u: "cparser_is_user_input p = Inr False" using assms(1) by (simp add: in_step_def cparser_is_user_input_def)
  have e: "edit_key c CPARSER_CHAR_REGULAR p = Inr (Goes_on c ?q)"
    using assms(3) by (simp add: edit_key_def Let_def plain_char_def assms(2) i)
  let ?r = "p_write w (?q\<lparr>p_fsm := h\<rparr>)"
  have r: "p_fsm_input c ?q = Inr ?r" using h by (simp add: p_fsm_input_def)
  have "cparser_input (Suc n) E c CPARSER_CHAR_REGULAR p = ok (CPARSER_OK, ?r)"
    using assms(3) r by (simp add: input_body_def u e act_on_def plain_char_def)
  moreover have "in_step ?r" using typed_in_step [OF assms(1,3,2) _ r] assms(4) by simp
  moreover have "this_line (p_lines ?r) = line_of (a @ [c]) []"
    using assms(1) set_line_this [of "p_chars p" "p_lines p"] by (auto simp: in_step_def)
  moreover have "same_app p ?r" by (simp add: same_app_def) (simp add: p_set_line_def)
  ultimately show ?thesis by (rule that)
qed

lemma type_line:
  assumes "in_step p" "this_line (p_lines p) = line_of a []" "\<forall>c\<in>set w. key_char (p_chars p) c" "length (a @ w) < CPARSER_MAX_LINE_SIZE"
    and "fsm_feed (p_chars p) (p_privileged p) (a @ w) (cparser_fsm_reset (p_root p) f0) = Inr g" "\<not> p_done p"
  obtains q where "cparser_loop (length w + n) (Suc m) E (w @ rest) p = cparser_loop n (Suc m) E rest q" "in_step q"
    "this_line (p_lines q) = line_of (a @ w) []" "same_app p q"
  using assms
proof (induction w arbitrary: a p thesis)
  case Nil
  then show ?case using same_app_refl by auto
next
  case (Cons c w)
  have k: "key_char (p_chars p) c" "plain_char (p_chars p) c" using Cons.prems(4) by (simp_all add: key_char_def)
  have "fsm_feed (p_chars p) (p_privileged p) ((a @ [c]) @ w) (cparser_fsm_reset (p_root p) f0) = Inr g" using Cons.prems(6) by simp
  then obtain g' where g': "fsm_feed (p_chars p) (p_privileged p) (a @ [c]) (cparser_fsm_reset (p_root p) f0) = Inr g'"
    unfolding feed_append [of _ _ "a @ [c]"] by (auto simp: rbind_eq_Inr)
  have la: "Suc (length a) < CPARSER_MAX_LINE_SIZE" using Cons.prems(5) by simp
  obtain q where q: "cparser_input (Suc m) E c CPARSER_CHAR_REGULAR p = ok (CPARSER_OK, q)" "in_step q"
    "this_line (p_lines q) = line_of (a @ [c]) []" "same_app p q"
    by (rule type_key [OF Cons.prems(2,3) k(2) la g'])
  have l: "cparser_loop (length (c # w) + n) (Suc m) E ((c # w) @ rest) p = cparser_loop (length w + n) (Suc m) E (w @ rest) q"
    using q(1) Cons.prems(7) getch_key [OF k(1)] by (simp del: cparser_input.simps)
  have f: "p_chars q = p_chars p" "p_privileged q = p_privileged p" "p_root q = p_root p" "p_done q = p_done p"
    using q(4) same_app_root [OF q(4)] by (simp_all add: same_app_def)
  show ?case
  proof (rule Cons.IH [OF _ q(2,3)])
    fix r assume r: "cparser_loop (length w + n) (Suc m) E (w @ rest) q = cparser_loop n (Suc m) E rest r" "in_step r"
      "this_line (p_lines r) = line_of ((a @ [c]) @ w) []" "same_app q r"
    show thesis by (rule Cons.prems(1)) (use l r same_app_trans [OF q(4)] in simp_all)
  qed (use Cons.prems(4-7) f in simp_all)
qed

end
