(* ===== verification/ConsoleProps.thy ===== *)
theory ConsoleProps
  imports Console CliTyping Network KeyFiles
begin

text \<open>
  What the commands of the interactive client do: the calls that a typed line makes, from the keys on the terminal to the
  message on the socket; what \<open>show keys\<close> and the callbacks do with their buffers.
\<close>

section \<open>The lines that make calls\<close>

fun call_words :: "user_call \<Rightarrow> bytes list" where
  "call_words (U_subscribe t s) = [ascii ''subscribe'', t, s]"
| "call_words (U_unsubscribe t s) = [ascii ''no'', ascii ''subscribe'', t, s]"
| "call_words (U_publish t m) = [ascii ''publish'', t, m]"
| "call_words (U_notify d m) = [ascii ''notify'', d, m]"

fun call_command :: "user_call \<Rightarrow> command" where
  "call_command (U_subscribe t s) = Subscribe_topic_scope"
| "call_command (U_unsubscribe t s) = No_subscribe_topic_scope"
| "call_command (U_publish t m) = Publish_topic_message"
| "call_command (U_notify d m) = Notify_destination_message"

definition call_line :: "user_call \<Rightarrow> bytes" where
  "call_line u = line_of_words (butlast (call_words u)) @ last (call_words u)"

text \<open>What can be typed as one word.\<close>

definition word_ok :: "bytes \<Rightarrow> bool" where
  "word_ok w \<longleftrightarrow> w \<noteq> [] \<and> length w < CPARSER_MAX_TOKEN_SIZE \<and> space \<notin> set w"

fun call_ok :: "user_call \<Rightarrow> bool" where
  "call_ok (U_subscribe t s) \<longleftrightarrow> word_ok t \<and> word_ok s"
| "call_ok (U_unsubscribe t s) \<longleftrightarrow> word_ok t \<and> word_ok s"
| "call_ok (U_publish t m) \<longleftrightarrow> word_ok t \<and> word_ok m"
| "call_ok (U_notify d m) \<longleftrightarrow> word_ok d \<and> word_ok m"

section \<open>Through the tree\<close>

lemma string_match: "cparser_match priv w (Some (Node t f q d [string_node nm n])) = Inr (1, Some (string_node nm n), True)"
  by (simp add: cparser_match_def match_child_def string_node_def node_usable_def cparser_match_fn_def cparser_match_string_def)

lemma string_typable:
  "w \<noteq> [] \<Longrightarrow> length w \<le> CPARSER_MAX_TOKEN_SIZE \<Longrightarrow> space \<notin> set w \<Longrightarrow> typable priv (Node t f q d [string_node nm n]) w"
  unfolding typable_def string_match by auto

lemma string_leads: "word_ok w \<Longrightarrow> leads priv (Node t f q d [string_node nm n]) [w] (string_node nm n)"
  by (rule leads_on [OF string_typable _ string_match]) (auto simp: word_ok_def intro: leads_here)

lemma two_strings_lead:
  assumes "word_ok v" "word_ok w"
  shows "leads priv (keyword_node k [string_node a (string_node b n)]) [v, w] (string_node b n)"
proof -
  have "leads priv (string_node a (string_node b n)) [w] (string_node b n)"
    unfolding string_node_def [of a] using string_leads [OF assms(2)] .
  then show ?thesis
    using leads_append [of priv _ "[v]" "string_node a (string_node b n)" "[w]"] string_leads [OF assms(1)]
    by (simp add: keyword_node_def)
qed

text \<open>Keywords among the children of a node.\<close>

abbreviation kw_node :: "bytes \<Rightarrow> command cparser_node list \<Rightarrow> command cparser_node" where
  "kw_node k ns \<equiv> Node CPARSER_NODE_KEYWORD 0 (Text k) None ns"

abbreviation kw_nodes :: "(bytes \<times> command cparser_node list) list \<Rightarrow> command cparser_node list" where
  "kw_nodes ks \<equiv> map (\<lambda>(k, ns). kw_node k ns) ks"

lemma keyword_match:
  assumes "0 \<notin> set k" "0 \<notin> set u"
  shows "cparser_match_fn u (kw_node k ns) = Inr (if prefix u k then (CPARSER_OK, u = k) else (CPARSER_NOT_OK, False))"
proof -
  have "prefix u k \<Longrightarrow> length u \<le> length k" by (rule prefix_length_le)
  moreover have "prefix u k \<Longrightarrow> (length u = length k) = (u = k)" by (auto simp: prefix_def)
  ultimately show ?thesis
    using strncmp_prefix [OF assms(2,1)] by (auto simp: cparser_match_fn_def cparser_match_keyword_def param_text_def)
qed

lemma keywords_match_num:
  assumes "\<forall>(k, ns)\<in>set ks. 0 \<notin> set k" "0 \<notin> set u"
  shows "\<exists>num c b. rfold (match_child priv u) (kw_nodes ks) (n, m, d) = Inr (num, c, b) \<and> n \<le> num \<and>
    ((\<exists>(k, ns)\<in>set ks. prefix u k) \<longrightarrow> n < num)"
  using assms(1)
proof (induction ks arbitrary: n m d)
  case (Cons x ks)
  obtain k ns where x: "x = (k, ns)" by (cases x)
  have us: "node_usable priv (kw_node k ns)" by (simp add: node_usable_def)
  obtain n' m' d' where s: "match_child priv u (kw_node k ns) (n, m, d) = Inr (n', m', d')" "n \<le> n'" "prefix u k \<Longrightarrow> n < n'"
  proof -
    have "0 \<notin> set k" using Cons.prems x by simp
    from keyword_match [OF this assms(2), of ns] us that show thesis
      by (cases "prefix u k"; cases "m = None \<or> \<not> d \<and> u = k") (simp_all add: match_child_def)
  qed
  have "\<forall>(k, ns)\<in>set ks. 0 \<notin> set k" using Cons.prems by simp
  from Cons.IH [OF this, of n' m' d'] obtain num c b where
    "rfold (match_child priv u) (kw_nodes ks) (n', m', d') = Inr (num, c, b)" "n' \<le> num" "(\<exists>(k, ns)\<in>set ks. prefix u k) \<longrightarrow> n' < num" by blast
  with s show ?case by (intro exI [of _ num] exI [of _ c] exI [of _ b]) (auto simp: x)
qed simp

lemma keyword_typable:
  assumes "(k, ns) \<in> set ks" "\<forall>(k, ns)\<in>set ks. 0 \<notin> set k" "word_ok k"
  shows "typable priv (Node t f q d (kw_nodes ks)) k"
proof -
  have "\<exists>num m c. cparser_match priv v (Some (Node t f q d (kw_nodes ks))) = Inr (num, m, c) \<and> num \<noteq> 0" if p: "prefix v k" for v
  proof -
    have "0 \<notin> set v" using p assms(1,2) by (auto simp: prefix_def)
    from keywords_match_num [OF assms(2) this, of priv 0 None False] show ?thesis
      using p assms(1) by (fastforce simp: cparser_match_def)
  qed
  then show ?thesis using assms(3) by (auto simp: typable_def word_ok_def)
qed

lemma keyword_leads:
  assumes "(k, ns) \<in> set ks" "\<forall>(k, ns)\<in>set ks. 0 \<notin> set k" "word_ok k"
    and "cparser_match priv k (Some (Node t f q d (kw_nodes ks))) = Inr (num, Some m, True)" "1 \<le> num"
  shows "leads priv (Node t f q d (kw_nodes ks)) [k] m"
  by (rule leads_on [OF keyword_typable [OF assms(1-3)] _ assms(4,5) leads_here]) (use assms(3) in \<open>simp add: word_ok_def\<close>)

lemma root_keywords:
  "cparser_root = Node CPARSER_NODE_ROOT 0 No_param (Some (ascii ''Root node of the parser tree''))
     (kw_nodes [(ascii ''show'', n_children cparser_node_show), (ascii ''subscribe'', n_children cparser_node_subscribe),
       (ascii ''no'', n_children cparser_node_no), (ascii ''publish'', n_children cparser_node_publish),
       (ascii ''notify'', n_children cparser_node_notify), (ascii ''quit'', n_children cparser_node_quit),
       (ascii ''help'', n_children cparser_node_help)])"
  by (simp add: cparser_root_def cparser_node_show_def cparser_node_subscribe_def cparser_node_no_def cparser_node_publish_def
    cparser_node_notify_def cparser_node_quit_def cparser_node_help_def keyword_node_def del: ascii_eq)

lemma no_keywords:
  "cparser_node_no = Node CPARSER_NODE_KEYWORD 0 (Text (ascii ''no'')) None
     (kw_nodes [(ascii ''subscribe'', [string_node ''<STRING:topic>''
       (string_node ''<STRING:scope>'' (eol_node No_subscribe_topic_scope ''Unsubscribe to topic/scope''))])])"
  by (simp add: cparser_node_no_def keyword_node_def del: ascii_eq)

lemma keyword_bytes: "0 \<notin> set (ascii ''show'')" "0 \<notin> set (ascii ''subscribe'')" "0 \<notin> set (ascii ''no'')" "0 \<notin> set (ascii ''publish'')"
    "0 \<notin> set (ascii ''notify'')" "0 \<notin> set (ascii ''quit'')" "0 \<notin> set (ascii ''help'')"
  by (simp_all add: ascii_def)

lemma keyword_words: "word_ok (ascii ''subscribe'')" "word_ok (ascii ''publish'')" "word_ok (ascii ''notify'')" "word_ok (ascii ''no'')"
  by (simp_all add: word_ok_def CPARSER_MAX_TOKEN_SIZE_def ascii_def)

lemmas keyword_matching = cparser_match_def match_child_def node_usable_def keyword_match keyword_bytes

lemma subscribe_leads: "leads priv cparser_root [ascii ''subscribe''] cparser_node_subscribe"
  unfolding root_keywords
  by (rule keyword_leads [where num = "Suc 0" and ns = "n_children cparser_node_subscribe"], simp, simp add: keyword_bytes, rule keyword_words,
    simp add: keyword_matching ascii_def cparser_node_subscribe_def keyword_node_def, simp)

lemma publish_leads: "leads priv cparser_root [ascii ''publish''] cparser_node_publish"
  unfolding root_keywords
  by (rule keyword_leads [where num = "Suc 0" and ns = "n_children cparser_node_publish"], simp, simp add: keyword_bytes, rule keyword_words,
    simp add: keyword_matching ascii_def cparser_node_publish_def keyword_node_def, simp)

lemma notify_leads: "leads priv cparser_root [ascii ''notify''] cparser_node_notify"
  unfolding root_keywords
  by (rule keyword_leads [where num = "Suc 0" and ns = "n_children cparser_node_notify"], simp, simp add: keyword_bytes, rule keyword_words,
    simp add: keyword_matching ascii_def cparser_node_notify_def keyword_node_def, simp)

lemma no_leads: "leads priv cparser_root [ascii ''no''] cparser_node_no"
  unfolding root_keywords
  by (rule keyword_leads [where num = "Suc (Suc 0)" and ns = "n_children cparser_node_no"], simp, simp add: keyword_bytes, rule keyword_words,
    simp add: keyword_matching ascii_def cparser_node_no_def keyword_node_def, simp)

lemma no_subscribe_leads:
  "leads priv cparser_node_no [ascii ''subscribe''] (keyword_node ''subscribe'' [string_node ''<STRING:topic>''
     (string_node ''<STRING:scope>'' (eol_node No_subscribe_topic_scope ''Unsubscribe to topic/scope''))])"
  unfolding no_keywords
  by (rule keyword_leads [where num = "Suc 0"], simp, simp add: keyword_bytes, rule keyword_words,
    simp add: keyword_matching keyword_node_def del: ascii_eq, simp)

lemma end_of_command: "command_end priv w (string_node nm (eol_node g d)) g"
  by (simp add: command_end_def string_node_def eol_node_def is_end_def node_usable_def)

lemma call_leads:
  assumes "call_ok u"
  obtains m where "leads priv cparser_root (butlast (call_words u) @ [last (call_words u)]) m"
    "command_end priv (last (call_words u)) m (call_command u)"
proof -
  have "\<exists>m. leads priv cparser_root (call_words u) m \<and> command_end priv (last (call_words u)) m (call_command u)"
  proof (cases u)
    case (U_subscribe t s)
    then show ?thesis
      using leads_append [OF subscribe_leads, of priv "[t, s]"] two_strings_lead [of t s] assms end_of_command
      by (fastforce simp: cparser_node_subscribe_def)
  next
    case (U_unsubscribe t s)
    then show ?thesis
      using leads_append [OF leads_append [OF no_leads no_subscribe_leads], of priv "[t, s]"] two_strings_lead [of t s] assms end_of_command
      by fastforce
  next
    case (U_publish t s)
    then show ?thesis
      using leads_append [OF publish_leads, of priv "[t, s]"] two_strings_lead [of t s] assms end_of_command
      by (fastforce simp: cparser_node_publish_def)
  next
    case (U_notify t s)
    then show ?thesis
      using leads_append [OF notify_leads, of priv "[t, s]"] two_strings_lead [of t s] assms end_of_command
      by (fastforce simp: cparser_node_notify_def)
  qed
  moreover have "call_words u \<noteq> []" by (cases u) auto
  ultimately show ?thesis using that by auto
qed

section \<open>The glue function\<close>

lemma string_argument_at:
  assumes "map token_string (take n (tokens (p_fsm p))) = ws" "map token_len (take n (tokens (p_fsm p))) = map length ws"
    "i < length ws" "ws ! i \<noteq> []"
  shows "string_argument i p = Inr (Some (ws ! i))"
proof -
  have i: "i < n" "i < length (tokens (p_fsm p))" using assms(3) arg_cong [OF assms(1), of length] by auto
  then have "token_string (tokens (p_fsm p) ! i) = ws ! i" "token_len (tokens (p_fsm p) ! i) = length (ws ! i)"
    using arg_cong [OF assms(1), of "\<lambda>l. l ! i"] arg_cong [OF assms(2), of "\<lambda>l. l ! i"] assms(3) by auto
  then show ?thesis using assms(4) by (simp add: string_argument_def cparser_get_string_def)
qed

lemma glue_call:
  assumes "called_with p (call_words u) q" "call_ok u" "con_client (p_app p) = Some (Running self)" "user_call (con_ext C) u self = Inr self'"
  shows "glue C (call_command u) q = Inr (CPARSER_OK, set_client (Some (Running self')) q)"
proof -
  note a = string_argument_at [where ws = "call_words u"]
  have t: "map token_string (take (length (call_words u)) (tokens (p_fsm q))) = call_words u"
    "map token_len (take (length (call_words u)) (tokens (p_fsm q))) = map length (call_words u)" "p_app q = p_app p"
    using assms(1) by (simp_all add: called_with_def)
  have c: "con_call C u q = Inr (CPARSER_OK, set_client (Some (Running self')) q)"
    using assms(3,4) t(3) by (simp add: con_call_def the_client_def handle_call_def)
  note defs = glue_def two_arguments_def with_arguments_def glue_result_def word_ok_def
  show ?thesis
  proof (cases u)
    case (U_subscribe x y)
    have "string_argument 1 q = Inr (Some x)" "string_argument 2 q = Inr (Some y)"
      using a [OF t(1,2), of 1] a [OF t(1,2), of 2] assms(2) by (simp_all add: U_subscribe word_ok_def)
    then show ?thesis using c
      by (simp add: U_subscribe defs cparser_glue_subscribe_topic_scope_def cparser_cmd_subscribe_topic_scope_def numeral_2_eq_2)
  next
    case (U_unsubscribe x y)
    have "string_argument 2 q = Inr (Some x)" "string_argument 3 q = Inr (Some y)"
      using a [OF t(1,2), of 2] a [OF t(1,2), of 3] assms(2) by (simp_all add: U_unsubscribe word_ok_def)
    then show ?thesis using c
      by (simp add: U_unsubscribe defs cparser_glue_no_subscribe_topic_scope_def cparser_cmd_no_subscribe_topic_scope_def)
  next
    case (U_publish x y)
    have "string_argument 1 q = Inr (Some x)" "string_argument 2 q = Inr (Some y)"
      using a [OF t(1,2), of 1] a [OF t(1,2), of 2] assms(2) by (simp_all add: U_publish word_ok_def)
    then show ?thesis using c
      by (simp add: U_publish defs cparser_glue_publish_topic_message_def cparser_cmd_publish_topic_message_def numeral_2_eq_2)
  next
    case (U_notify x y)
    have "string_argument 1 q = Inr (Some x)" "string_argument 2 q = Inr (Some y)"
      using a [OF t(1,2), of 1] a [OF t(1,2), of 2] assms(2) by (simp_all add: U_notify word_ok_def)
    then show ?thesis using c
      by (simp add: U_notify defs cparser_glue_notify_destination_message_def cparser_cmd_notify_destination_message_def numeral_2_eq_2)
  qed
qed

text \<open>The parser of the client, with a line that was typed.\<close>

definition at_prompt :: "cli \<Rightarrow> dd \<Rightarrow> bool" where
  "at_prompt p self \<longleftrightarrow> in_step p \<and> p_chars p = console_chars \<and> p_root p = cparser_root \<and> con_client (p_app p) = Some (Running self)"

lemma console_enter_ok: "enter_ok console_chars"
  by code_simp

lemma user_call_returns:
  assumes "c_ok X self" "c_running self"
  shows "\<exists>self'. user_call X u self = Inr self' \<and> c_ok X self'"
proof -
  have sock: "c_socket self" "c_state self = DD_STATE_REGISTERED \<Longrightarrow> c_cookie self \<noteq> None"
    "zl_cursor (c_sublist self) \<le> length (zl_items (c_sublist self))"
    using assms by (auto simp: c_ok_def)
  have add: "\<exists>l. sublist_add (c_sublist self) t s a = Inr l" for t s a
    using zlistx_loop_visit [OF sock(3), of "\<lambda>x found. if topic x = t \<and> topic_scope x = s then (x\<lparr>active := a\<rparr>, True) else (x, found)" False]
    by (auto simp: sublist_add_def case_prod_unfold if_distrib cong: if_cong)
  have "is_ok (user_call X u self)"
  proof (cases u)
    case (U_subscribe t s)
    then show ?thesis using sock add [of t "scope_alias s" 0]
      by (auto simp: user_call_def dd_subscribe_def initialised_def c_send_def Let_def)
  qed (use sock in \<open>auto simp: user_call_def dd_unsubscribe_def dd_publish_def dd_notify_def encrypt_next_def initialised_def c_send_def Let_def\<close>)
  then show ?thesis using user_call_keeps [OF assms(1), of u] by (auto simp: is_ok_iff defined_def)
qed

lemma user_call_running: "user_call X u self = Inr s \<Longrightarrow> c_running s = c_running self"
  by (cases u) (auto simp: user_call_def dd_subscribe_def dd_unsubscribe_def dd_publish_def dd_notify_def encrypt_next_def
    c_send_def c_emit_def initialised_def rbind_eq_Inr Let_def split: if_splits option.splits)

lemma call_enter:
  assumes "at_prompt p self" "line_text (this_line (p_lines p)) = call_line u" "call_ok u" "length (call_line u) + 1 < CPARSER_MAX_LINE_SIZE"
    and "user_call (con_ext C) u self = Inr self'"
  shows "\<exists>q. cparser_input (Suc (Suc (Suc n))) (cli_env C) newline CPARSER_CHAR_REGULAR p = ok (CPARSER_OK, q) \<and>
    at_prompt q self' \<and> this_line (p_lines q) = line_of [] [] \<and> p_done q = p_done p"
proof -
  have p: "in_step p" "p_chars p = console_chars" "p_root p = cparser_root" "con_client (p_app p) = Some (Running self)"
    using assms(1) by (simp_all add: at_prompt_def)
  obtain m where m: "leads (p_privileged p) (p_root p) (butlast (call_words u) @ [last (call_words u)]) m"
    "command_end (p_privileged p) (last (call_words u)) m (call_command u)"
    using call_leads [OF assms(3)] p(3) by metis
  have w: "butlast (call_words u) @ [last (call_words u)] = call_words u" "length (butlast (call_words u)) + 1 < CPARSER_MAX_NUM_TOKENS"
    by (cases u; simp add: CPARSER_MAX_NUM_TOKENS_def)+
  have e: "enter_ok (p_chars p)" using p(2) console_enter_ok by simp
  obtain q where q: "called_with p (call_words u) q"
    "cparser_input (Suc (Suc (Suc n))) (cli_env C) newline CPARSER_CHAR_REGULAR p =
      bind (Some (rbind (glue_fn (cli_env C) (call_command u) q) (\<lambda>(rc, r). command_done rc r))) (\<lambda>(rc, r). ok (rc, r\<lparr>p_lines := cparser_line_advance (p_lines r)\<rparr>))"
    using enter_executes [OF p(1) e assms(2) [unfolded call_line_def] m w(2) assms(4) [unfolded call_line_def], of n "cli_env C"]
    unfolding w(1) by blast
  let ?r = "set_client (Some (Running self')) q"
  have g: "glue_fn (cli_env C) (call_command u) q = Inr (CPARSER_OK, ?r)"
    using glue_call [OF q(1) assms(3) p(4) assms(5)] by (simp add: cli_env_def)
  have r: "p_user ?r = None" "lines_ok (p_chars ?r) (p_lines ?r)" "erases (p_chars ?r) backspace" "p_chars ?r = p_chars p"
    "p_levels ?r = p_levels p" "p_done ?r = p_done p"
    using q(1) p(1) by (auto simp: called_with_def set_client_def in_step_def)
  obtain s where s: "command_done CPARSER_OK ?r = Inr (CPARSER_OK, s)" "in_step (s\<lparr>p_lines := cparser_line_advance (p_lines s)\<rparr>)"
    "p_app s = p_app ?r" "p_done s = p_done ?r" "p_levels s = p_levels ?r" "p_chars s = p_chars ?r" "lines_ok (p_chars s) (p_lines s)"
    by (rule after_command [OF r(1-3)])
  let ?s = "s\<lparr>p_lines := cparser_line_advance (p_lines s)\<rparr>"
  have "at_prompt ?s self'"
    using s r p by (simp add: at_prompt_def set_client_def p_root_def)
  moreover have "this_line (p_lines ?s) = line_of [] []" using advance_ok(2) [OF s(7)] by simp
  ultimately show ?thesis using q(2) g s r by (intro exI [of _ ?s]) simp
qed

text \<open>The client at an empty prompt, with its loop running.\<close>

definition ready :: "cli \<Rightarrow> dd \<Rightarrow> bool" where
  "ready p self \<longleftrightarrow> at_prompt p self \<and> this_line (p_lines p) = line_of [] [] \<and> \<not> p_done p"

text \<open>The program comes to such a prompt, once the thread has set the client up.\<close>

lemma console_starts:
  assumes "console_main opts ks = Inr (p, level)"
  shows "ready (set_client (Some (Running self)) ((cparser_print_prompt p)\<lparr>p_done := False\<rparr>)) self"
proof -
  obtain prompt app where p: "cparser_init console_chars (Some cparser_root) prompt app = Some p"
  proof -
    obtain opt where "console_parser opt ks = Inr (p, level)" using assms by (auto simp: console_main_def rbind_eq_Inr)
    then show thesis
      by (cases "o_client_name opt"; cases "o_keyfile opt"; cases "o_connect_to opt")
        (auto simp: console_parser_def rbind_eq_Inr split: option.split_asm intro: that)
  qed
  have l: "lines_ok console_chars lines_new" "this_line lines_new = line_of [] []"
    by (auto simp: lines_ok_def lines_new_def CPARSER_MAX_LINES_def line_reset_of good_line_of CPARSER_MAX_LINE_SIZE_def this_line_def)
  have f: "p_chars p = console_chars" "p_levels p = [(cparser_root, snprintf CPARSER_MAX_PROMPT prompt)]" "p_lines p = lines_new" "p_user p = None"
    "\<exists>f. p_fsm p = cparser_fsm_reset cparser_root f"
    using p by (auto simp: cparser_init_def split: if_splits)
  have e: "erases console_chars backspace" by (simp add: erases_def console_chars_def)
  let ?q = "set_client (Some (Running self)) ((cparser_print_prompt p)\<lparr>p_done := False\<rparr>)"
  have "p_root ?q = cparser_root" "p_chars ?q = console_chars" "p_lines ?q = lines_new" "p_user ?q = None" "\<not> p_done ?q"
    "p_fsm ?q = p_fsm p" "con_client (p_app ?q) = Some (Running self)"
    using f by (simp_all add: set_client_def cparser_print_prompt_def p_root_def)
  then show ?thesis using f(5) l e by (auto simp: ready_def at_prompt_def in_step_def fsm_at_reset)
qed

lemma call_line_read:
  assumes "call_ok u" "\<forall>b\<in>set (call_line u). plain_char console_chars b" "length (call_line u) < CPARSER_MAX_LINE_SIZE"
  obtains g where "fsm_feed console_chars priv (call_line u) (cparser_fsm_reset cparser_root f0) = Inr g"
proof -
  let ?ws = "butlast (call_words u)" and ?w = "last (call_words u)"
  obtain m where m: "leads priv cparser_root (?ws @ [?w]) m" "command_end priv ?w m (call_command u)"
    using call_leads [OF assms(1)] by metis
  obtain k num where k: "leads priv cparser_root ?ws k" "typable priv k ?w" "cparser_match priv ?w (Some k) = Inr (num, Some m, True)"
    "1 \<le> num" "length ?w < CPARSER_MAX_TOKEN_SIZE"
    using m(1) by (rule leads_snoc)
  have n: "length ?ws < CPARSER_MAX_NUM_TOKENS" by (cases u) (simp_all add: CPARSER_MAX_NUM_TOKENS_def)
  have e: "\<forall>c\<in>set (line_of_words ?ws @ ?w). \<not> erases console_chars c" using assms(2) by (simp add: call_line_def plain_char_def)
  obtain g b st where "fsm_feed console_chars priv (line_of_words ?ws @ ?w) (cparser_fsm_reset cparser_root f0) = Inr g"
    by (rule words_machine [OF k(1,2) n e]) (use assms(3) in \<open>simp_all add: call_line_def\<close>)
  then show ?thesis using that by (simp add: call_line_def)
qed

text \<open>Every such line can be there: a parser whose machine has read it.\<close>

lemma call_line_typed:
  assumes "call_ok u" "\<forall>b\<in>set (call_line u). plain_char console_chars b" "length (call_line u) < CPARSER_MAX_LINE_SIZE"
  obtains p where "at_prompt p self" "line_text (this_line (p_lines p)) = call_line u" "p_done p = False"
    "con_keys (p_app p) = ks"
proof -
  obtain g where g: "fsm_feed console_chars False (call_line u) (cparser_fsm_reset cparser_root f0) = Inr g"
    by (rule call_line_read [OF assms])
  let ?p = "parser_with console_chars False cparser_root (ascii ''c>> '') \<lparr>con_client = Some (Running self), con_keyfile = [], con_keys = ks\<rparr>
    (call_line u) g"
  have bs: "erases console_chars backspace" by (simp add: erases_def console_chars_def)
  have "in_step ?p" by (rule parser_with_in_step [OF assms(3,2) bs g])
  moreover have "this_line (p_lines ?p) = line_of (call_line u) []" by (rule parser_with_line(2) [OF assms(3,2)])
  ultimately show ?thesis using that [of ?p] by (simp add: at_prompt_def)
qed

definition ex_env :: con_env where
  "ex_env = \<lparr>con_ext = ex_ext, con_hex = (\<lambda>b. ascii ''00'')\<rparr>"

lemma ex_call_line: "call_line (U_publish [116] [104, 105]) = ascii ''publish t hi''" "call_line (U_notify [121] [104, 105]) = ascii ''notify y hi''"
  by (simp_all add: call_line_def line_of_words_def ascii_def)

lemma ex_call_ok: "call_ok (U_publish [116] [104, 105])" "call_ok (U_notify [121] [104, 105])"
  by (simp_all add: word_ok_def CPARSER_MAX_TOKEN_SIZE_def)

lemma ex_lines: "length (ascii ''publish t hi'') + 1 < CPARSER_MAX_LINE_SIZE" "\<forall>b\<in>set (ascii ''publish t hi''). plain_char console_chars b"
  "length (ascii ''notify y hi'') + 1 < CPARSER_MAX_LINE_SIZE" "\<forall>b\<in>set (ascii ''notify y hi''). plain_char console_chars b"
  by (simp_all add: CPARSER_MAX_LINE_SIZE_def plain_char_def erases_def console_chars_def ascii_def)

section \<open>What the commands do\<close>

text \<open>
  C10. A command typed at the prompt does what it says: when the line reads \<open>publish\<close>, \<open>notify\<close>, \<open>subscribe\<close> or
  \<open>no subscribe\<close> with two words behind, whatever was edited to get there, Enter makes exactly that call on the client
  with exactly these words; it does not fault, and the prompt is ready for the next line.
\<close>

theorem typed_call:
  assumes "at_prompt p self" "line_text (this_line (p_lines p)) = call_line u" "call_ok u" "length (call_line u) + 1 < CPARSER_MAX_LINE_SIZE"
    and "c_ok (con_ext C) self" "c_running self"
  shows "\<exists>q self'. user_call (con_ext C) u self = Inr self' \<and>
    cparser_input (Suc (Suc (Suc n))) (cli_env C) newline CPARSER_CHAR_REGULAR p = ok (CPARSER_OK, q) \<and>
    at_prompt q self' \<and> this_line (p_lines q) = line_of [] [] \<and> p_done q = p_done p \<and>
    c_ok (con_ext C) self' \<and> c_running self'"
proof -
  obtain self' where self': "user_call (con_ext C) u self = Inr self'" "c_ok (con_ext C) self'"
    using user_call_returns [OF assms(5,6)] by blast
  then show ?thesis using call_enter [OF assms(1-4) self'(1)] user_call_running assms(6) by blast
qed

lemma typed_call_witness:
  "\<exists>p q self'. line_text (this_line (p_lines p)) = ascii ''publish t hi'' \<and> user_call ex_ext (U_publish [116] [104, 105]) ex_client0 = Inr self' \<and>
    cparser_input 3 (cli_env ex_env) newline CPARSER_CHAR_REGULAR p = ok (CPARSER_OK, q) \<and> at_prompt q self'"
proof -
  obtain p where p: "at_prompt p ex_client0" "line_text (this_line (p_lines p)) = call_line (U_publish [116] [104, 105])"
    by (rule call_line_typed [OF ex_call_ok(1), where self = ex_client0]) (use ex_lines in \<open>simp_all add: ex_call_line\<close>)
  have c: "c_ok (con_ext ex_env) ex_client0" "c_running ex_client0"
    using c_ok_start [OF ex_client_starts] by (simp_all add: ex_env_def ex_client0_def dd_actor_def ex_ext_def c_timer_def c_emit_def)
  have "\<exists>q self'. user_call (con_ext ex_env) (U_publish [116] [104, 105]) ex_client0 = Inr self' \<and>
    cparser_input (Suc (Suc (Suc 0))) (cli_env ex_env) newline CPARSER_CHAR_REGULAR p = ok (CPARSER_OK, q) \<and> at_prompt q self'"
    using typed_call [OF p ex_call_ok(1) _ c, of 0] ex_lines by (simp only: ex_call_line) blast
  then show ?thesis using p(2) by (auto simp: numeral_3_eq_3 ex_call_line ex_env_def)
qed

definition typable_call :: "user_call \<Rightarrow> bool" where
  "typable_call u \<longleftrightarrow> call_ok u \<and> (\<forall>b\<in>set (call_line u). key_char console_chars b) \<and> length (call_line u) + 1 < CPARSER_MAX_LINE_SIZE"

definition typed_lines :: "user_call list \<Rightarrow> bytes" where
  "typed_lines us = concat (map (\<lambda>u. call_line u @ [newline]) us)"

lemma typed_one:
  assumes "ready p self" "typable_call u" "c_ok (con_ext C) self" "c_running self"
  obtains q self' where "user_call (con_ext C) u self = Inr self'" "c_ok (con_ext C) self'" "c_running self'" "ready q self'"
    "cparser_loop (length (call_line u @ [newline]) + n) (Suc (Suc (Suc m))) (cli_env C) (call_line u @ newline # rest) p =
      cparser_loop n (Suc (Suc (Suc m))) (cli_env C) rest q"
proof -
  have p: "at_prompt p self" "in_step p" "p_chars p = console_chars" "p_root p = cparser_root" "this_line (p_lines p) = line_of [] []" "\<not> p_done p"
    using assms(1) by (simp_all add: ready_def at_prompt_def)
  have u: "call_ok u" "\<forall>b\<in>set (call_line u). key_char console_chars b" "length (call_line u) + 1 < CPARSER_MAX_LINE_SIZE"
    using assms(2) by (simp_all add: typable_call_def)
  obtain self' where self': "user_call (con_ext C) u self = Inr self'" "c_ok (con_ext C) self'"
    using user_call_returns [OF assms(3,4)] by blast
  have pl: "\<forall>b\<in>set (call_line u). plain_char console_chars b" "length (call_line u) < CPARSER_MAX_LINE_SIZE"
    using u(2,3) by (simp_all add: key_char_def)
  obtain g where g: "fsm_feed (p_chars p) (p_privileged p) ([] @ call_line u) (cparser_fsm_reset (p_root p) (p_fsm p)) = Inr g"
    using call_line_read [OF u(1) pl, of "p_privileged p" "p_fsm p"] by (auto simp: p(3,4))
  have kc: "\<forall>c\<in>set (call_line u). key_char (p_chars p) c" "length ([] @ call_line u) < CPARSER_MAX_LINE_SIZE"
    using u(2) pl(2) by (simp_all add: p(3))
  obtain r where r: "cparser_loop (length (call_line u) + Suc n) (Suc (Suc (Suc m))) (cli_env C) (call_line u @ newline # rest) p =
      cparser_loop (Suc n) (Suc (Suc (Suc m))) (cli_env C) (newline # rest) r" "in_step r"
    "this_line (p_lines r) = line_of ([] @ call_line u) []" "same_app p r"
    by (rule type_line [OF p(2,5) kc g p(6)])
  have rp: "at_prompt r self" using p(1) r(2,4) same_app_root [OF r(4)] by (simp add: at_prompt_def same_app_def)
  obtain q where q: "cparser_input (Suc (Suc (Suc m))) (cli_env C) newline CPARSER_CHAR_REGULAR r = ok (CPARSER_OK, q)"
    "at_prompt q self'" "this_line (p_lines q) = line_of [] []" "p_done q = p_done r"
    using call_enter [OF rp _ u(1,3) self'(1), of m] r(3) by auto
  have nl: "cparser_unix_getch console_chars (newline # rest) = (newline, CPARSER_CHAR_REGULAR, rest)"
    by (simp add: cparser_unix_getch_def regular_char_def CTRL_P_def CTRL_N_def CTRL_A_def CTRL_E_def)
  have rd: "\<not> p_done r" "p_chars r = console_chars" using r(4) p(3,6) by (simp_all add: same_app_def)
  have "cparser_loop (Suc n) (Suc (Suc (Suc m))) (cli_env C) (newline # rest) r = cparser_loop n (Suc (Suc (Suc m))) (cli_env C) rest q"
    using q(1) rd nl by (simp del: cparser_input.simps)
  then have l: "cparser_loop (length (call_line u @ [newline]) + n) (Suc (Suc (Suc m))) (cli_env C) (call_line u @ newline # rest) p =
      cparser_loop n (Suc (Suc (Suc m))) (cli_env C) rest q"
    using r(1) by simp
  have "ready q self'" using q rd by (simp add: ready_def)
  then show ?thesis using that [OF self' _ _ l] user_call_running [OF self'(1)] assms(4) by simp
qed

text \<open>
  C9. What is typed on the terminal is what the client does: the characters of any lines that subscribe, unsubscribe,
  publish or notify, read one after the other by the loop of the parser, make these calls on the client in this order,
  with the words as they were typed, and nothing else; the prompt is then ready for what follows.
\<close>

theorem typed_session:
  assumes "ready p self" "\<forall>u\<in>set us. typable_call u" "c_ok (con_ext C) self" "c_running self"
  shows "\<exists>q self'. rfold (user_call (con_ext C)) us self = Inr self' \<and> ready q self' \<and>
    cparser_loop (length (typed_lines us) + n) (Suc (Suc (Suc m))) (cli_env C) (typed_lines us @ rest) p =
      cparser_loop n (Suc (Suc (Suc m))) (cli_env C) rest q"
  using assms
proof (induction us arbitrary: p self)
  case Nil
  then show ?case by (auto simp: typed_lines_def)
next
  case (Cons u us)
  have t: "typable_call u" using Cons.prems(2) by simp
  obtain r s where r: "user_call (con_ext C) u self = Inr s" "c_ok (con_ext C) s" "c_running s" "ready r s"
    "cparser_loop (length (call_line u @ [newline]) + (length (typed_lines us) + n)) (Suc (Suc (Suc m))) (cli_env C)
        (call_line u @ newline # (typed_lines us @ rest)) p =
      cparser_loop (length (typed_lines us) + n) (Suc (Suc (Suc m))) (cli_env C) (typed_lines us @ rest) r"
    by (rule typed_one [OF Cons.prems(1) t Cons.prems(3,4)])
  have "typed_lines (u # us) = call_line u @ newline # typed_lines us" by (simp add: typed_lines_def)
  then show ?case using r(1,5) Cons.IH [OF r(4) _ r(2,3)] Cons.prems(2) by (simp add: add.assoc)
qed

lemma ex_console_starts:
  "console_main [(CHR ''n'', ascii ''c''), (CHR ''k'', ascii ''a-keys.json''), (CHR ''d'', ascii ''tcp://h:1001'')] ks =
    Inr (fst (projr (console_main [(CHR ''n'', ascii ''c''), (CHR ''k'', ascii ''a-keys.json''), (CHR ''d'', ascii ''tcp://h:1001'')] ks)), DD_LOG_NOTICE)"
  by (simp add: console_main_def console_parser_def console_opt_def console_prompt_def CPARSER_MAX_PROMPT_def cparser_init_def
    console_chars_def dd_set_loglevel_def Let_def del: ascii_eq)

lemma typed_session_witness:
  "\<exists>p q self'. rfold (user_call ex_ext) [U_publish [116] [104, 105], U_notify [121] [104, 105]] ex_client0 = Inr self' \<and> ready q self' \<and>
    cparser_loop 28 3 (cli_env ex_env) (ascii ''publish t hi'' @ [newline] @ ascii ''notify y hi'' @ [newline]) p =
      cparser_loop 3 3 (cli_env ex_env) [] q"
proof -
  let ?us = "[U_publish [116] [104, 105], U_notify [121] [104, 105]]"
  obtain p where rp: "ready p ex_client0" using console_starts [OF ex_console_starts] by blast
  have t: "\<forall>u\<in>set ?us. typable_call u"
    using ex_call_ok ex_lines by (simp add: typable_call_def ex_call_line key_char_def) (simp add: ascii_def)
  have c: "c_ok (con_ext ex_env) ex_client0" "c_running ex_client0"
    using c_ok_start [OF ex_client_starts] by (simp_all add: ex_env_def ex_client0_def dd_actor_def ex_ext_def c_timer_def c_emit_def)
  have l: "typed_lines ?us = ascii ''publish t hi'' @ [newline] @ ascii ''notify y hi'' @ [newline]" "length (typed_lines ?us) = 25"
    by (simp_all add: typed_lines_def ex_call_line)
  have num: "Suc (Suc (Suc 0)) = 3" "(25::nat) + 3 = 28" "con_ext ex_env = ex_ext" by (simp_all add: ex_env_def)
  from typed_session [OF rp t c, of 3 0 "[]"] show ?thesis
    unfolding l(2) num append_Nil2 unfolding l(1) by blast
qed

text \<open>
  \<open>show keys\<close> frees a buffer twice: with every key structure that could be read, the second call of \<open>free\<close> for the
  public key's text is for a buffer that is no longer there.
\<close>

theorem show_keys_frees_twice:
  assumes "con_client (p_app p) = Some (Running self)" "complete (con_keys (p_app p))"
  shows "cparser_glue_show_keys C p = Inl Use_after_free"
proof -
  obtain a b c where k: "kt_privkey (con_keys (p_app p)) = Some a" "kt_pubkey (con_keys (p_app p)) = Some b"
    "kt_publicpubkey (con_keys (p_app p)) = Some c" "length a = 32" "length b = 32" "length c = 32"
    using assms(2) by (auto simp: complete_def)
  then show ?thesis
    by (simp add: cparser_glue_show_keys_def glue_result_def cparser_cmd_show_keys_def the_client_def assms(1) client_key_struct_def
      dd_get_privkey_def dd_get_pubkey_def dd_get_publickey_def key_hex_def free_buf_def Let_def)
qed

lemma show_keys_frees_twice_witness:
  "\<exists>p. cparser_glue_show_keys ex_env p = Inl Use_after_free"
proof -
  let ?k = "Some (replicate 32 1)"
  let ?ks = "calloc_keys\<lparr>kt_publicpubkey := ?k, kt_ddpubkey := ?k, kt_privkey := ?k, kt_pubkey := ?k, kt_ddboxk := ?k, kt_custboxk := ?k, kt_pubboxk := ?k\<rparr>"
  let ?p = "fst (projr (console_main [(CHR ''n'', ascii ''c''), (CHR ''k'', ascii ''a-keys.json''), (CHR ''d'', ascii ''tcp://h:1001'')] ?ks))"
  let ?q = "set_client (Some (Running ex_client0)) (?p\<lparr>p_app := (p_app ?p)\<lparr>con_keys := ?ks\<rparr>\<rparr>)"
  have "complete ?ks" by (simp add: complete_def calloc_keys_def)
  then have "cparser_glue_show_keys ex_env ?q = Inl Use_after_free"
    by (intro show_keys_frees_twice) (simp_all add: set_client_def)
  then show ?thesis by blast
qed

text \<open>
  C23. A message typed at one console cannot be printed at another: the call sends the characters without an end, the
  receiver decrypts exactly these into a buffer of their length, and its callback reads on behind the buffer.
\<close>

theorem typed_message_overreads:
  assumes "at_prompt p self" "line_text (this_line (p_lines p)) = call_line (U_notify d m)" "call_ok (U_notify d m)"
    "length (call_line (U_notify d m)) + 1 < CPARSER_MAX_LINE_SIZE"
    and self: "c_state self = DD_STATE_REGISTERED" "c_cookie self = Some k" "c_socket self" "length (c_nonce self) = NONCEBYTES"
      "\<not> k_ispublic (c_keys self)" "\<not> is_public_name d"
    and c: "c_socket c" "k_clients (c_keys c) = []" "k_custboxk (c_keys c) = k_custboxk (c_keys self)" "same_box X (con_ext C)"
      "0 \<notin> set source" "\<not> is_public_name source"
  shows "\<exists>q self' cipher c'. cparser_input (Suc (Suc (Suc n))) (cli_env C) newline CPARSER_CHAR_REGULAR p = ok (CPARSER_OK, q) \<and>
    at_prompt q self' \<and> c_out self' = c_out self @ [CSend [le32 DD_VERSION, le32 DD_CMD_SEND, le64 k, d, cipher]] \<and>
    c_handle X (C_dealer (Some [le32 DD_VERSION, le32 DD_CMD_DATA, source, cipher])) c = Inr c' \<and>
    c_out c' = c_out c @ [On_data source m] \<and> on_event (c_endpoint c) (On_data source m) = Inl Out_of_bounds"
proof -
  define nn where "nn = nonce_increment (c_nonce self)"
  define cipher where "cipher = nn @ box_easy (con_ext C) (k_custboxk (c_keys self)) nn m"
  define self' where "self' = c_emit (CSend [le32 DD_VERSION, le32 DD_CMD_SEND, le64 k, d, cipher]) (self\<lparr>c_nonce := nn\<rparr>)"
  have u: "user_call (con_ext C) (U_notify d m) self = Inr self'"
    using self by (simp add: user_call_def dd_notify_def encrypt_next_def initialised_def c_send_def is_public_name_def Let_def
      nn_def cipher_def self'_def c_emit_def)
  have q: "\<exists>q. cparser_input (Suc (Suc (Suc n))) (cli_env C) newline CPARSER_CHAR_REGULAR p = ok (CPARSER_OK, q) \<and> at_prompt q self'"
    using call_enter [OF assms(1-4) u] by blast
  have "box_open X (k_custboxk (c_keys c)) nn (box_easy (con_ext C) (k_custboxk (c_keys self)) nn m) = Some m"
    using c(3,4) by (simp add: same_box_def)
  then obtain c' where c': "c_handle X (C_dealer (Some [le32 DD_VERSION, le32 DD_CMD_DATA, source, cipher])) c = Inr c'"
    "c_out c' = c_out c @ [On_data source m]"
    using data_reported [OF c(1,5,2,6)] self(4) unfolding cipher_def nn_def by (metis nonce_increment_length)
  have "\<forall>b\<in>set m. b \<noteq> 0"
  proof -
    have "good_line (p_chars p) (this_line (p_lines p))" using assms(1) this_line_good by (auto simp: at_prompt_def in_step_def)
    then have "\<forall>b\<in>set (call_line (U_notify d m)). b \<noteq> 0" using assms(2) by (simp add: good_line_def plain_char_def)
    then show ?thesis by (auto simp: call_line_def)
  qed
  then have "on_event (c_endpoint c) (On_data source m) = Inl Out_of_bounds" by (auto simp: on_event_def data_string_def)
  moreover have "c_out self' = c_out self @ [CSend [le32 DD_VERSION, le32 DD_CMD_SEND, le64 k, d, cipher]]"
    by (simp add: self'_def c_emit_def)
  ultimately show ?thesis using q c' by blast
qed

lemma typed_message_overreads_witness:
  "\<exists>p q (self' :: dd) cipher (c' :: dd). line_text (this_line (p_lines p)) = ascii ''notify y hi'' \<and>
    cparser_input 3 (cli_env ex_env) newline CPARSER_CHAR_REGULAR p = ok (CPARSER_OK, q) \<and>
    c_out self' = c_out (ex_registered ''x'') @ [CSend [le32 DD_VERSION, le32 DD_CMD_SEND, le64 7, [121], cipher]] \<and>
    c_out c' = c_out (ex_registered ''y'') @ [On_data (ascii ''x'') [104, 105]] \<and>
    on_event (c_endpoint (ex_registered ''y'')) (On_data (ascii ''x'') [104, 105]) = Inl Out_of_bounds"
proof -
  obtain p where p: "at_prompt p (ex_registered ''x'')" "line_text (this_line (p_lines p)) = call_line (U_notify [121] [104, 105])"
    by (rule call_line_typed [OF ex_call_ok(2), where self = "ex_registered ''x''"]) (use ex_lines in \<open>simp_all add: ex_call_line\<close>)
  have l: "length (call_line (U_notify [121] [104, 105])) + 1 < CPARSER_MAX_LINE_SIZE" using ex_lines by (simp add: ex_call_line)
  have k: "\<not> k_ispublic (c_keys (ex_registered ''x''))" "k_clients (c_keys (ex_registered ''y'')) = []"
    "k_custboxk (c_keys (ex_registered ''y'')) = k_custboxk (c_keys (ex_registered ''x''))" "same_box ex_ext (con_ext ex_env)"
    using ex_same_box by (simp_all add: ex_registered_fields ex_dd_keys_def ex_env_def)
  have n: "0 \<notin> set (ascii ''x'')" "\<not> is_public_name (ascii ''x'')" "\<not> is_public_name [121]"
    by (simp_all add: ascii_def is_public_name_def starts_with_def)
  from typed_message_overreads [OF p ex_call_ok(2) l ex_registered_fields(1,5,2,7) k(1) n(3) ex_registered_fields(2) k(2-4) n(1,2), of 0]
  obtain q and self' :: dd and cipher and c' :: dd where "cparser_input (Suc (Suc (Suc 0))) (cli_env ex_env) newline CPARSER_CHAR_REGULAR p = ok (CPARSER_OK, q)"
    "c_out self' = c_out (ex_registered ''x'') @ [CSend [le32 DD_VERSION, le32 DD_CMD_SEND, le64 7, [121], cipher]]"
    "c_out c' = c_out (ex_registered ''y'') @ [On_data (ascii ''x'') [104, 105]]"
    "on_event (c_endpoint (ex_registered ''y'')) (On_data (ascii ''x'') [104, 105]) = Inl Out_of_bounds"
    by blast
  then show ?thesis unfolding numeral_3_eq_3 using p(2) [unfolded ex_call_line] by blast
qed

end
