(* ===== verification/CliLimits.thy ===== *)
theory CliLimits
  imports CliTyping
begin

text \<open>
  The limits of the command line: what a word as long as a token's buffer does, what completion does on a full line, and
  what the loop does at the end of the input.
\<close>

section \<open>A word as long as the buffer\<close>

lemma is_machine_fault:
  assumes "is_machine n s st t p f" "cparser_fsm_input cs priv c (machine (Some n) s st t p (int p - 1)) = Inl e"
  shows "cparser_fsm_input cs priv c f = Inl e"
proof -
  have "forgets (cparser_fsm_input cs priv c f) = Inl e"
    using input_forget [of f cs priv c] assms by (simp add: is_machine_def forgets_def)
  then show ?thesis by (cases "cparser_fsm_input cs priv c f") (auto simp: forgets_def)
qed

text \<open>
  C24. The buffer of a token has no room for the end of the longest word: a word of 256 characters is taken into a token
  like any other, and the space that closes it is answered by a write behind the buffer.
\<close>

theorem long_word_overflows:
  assumes "leads priv root ws k" "typable priv k w" "length w = CPARSER_MAX_TOKEN_SIZE"
    and "cparser_match priv w (Some k) = Inr (num, m, True)" "1 \<le> num"
    and "length ws < CPARSER_MAX_NUM_TOKENS" "length (line_of_words ws @ w) < CPARSER_MAX_LINE_SIZE - 1"
    and "\<forall>c\<in>set (line_of_words ws @ w). \<not> erases cs c" "\<not> erases cs space"
  shows "\<exists>f. fsm_feed cs priv (line_of_words ws @ w) (cparser_fsm_reset root f0) = Inr f \<and>
    cparser_fsm_input cs priv space f = Inl Out_of_bounds"
proof -
  have l: "length (line_of_words ws @ w) < CPARSER_MAX_LINE_SIZE" using assms(7) by simp
  obtain g b st where g: "fsm_feed cs priv (line_of_words ws @ w) (cparser_fsm_reset root f0) = Inr g"
    "is_machine k CPARSER_STATE_TOKEN st (b, w) (length (line_of_words ws @ w)) g" "stack_words st = ws"
    by (rule words_machine [OF assms(1,2,6,8) l])
  have st: "length st < CPARSER_MAX_NUM_TOKENS" using g(3) assms(6) by (auto simp: stack_words_def)
  let ?p = "length (line_of_words ws @ w)"
  let ?M = "machine (Some k) CPARSER_STATE_TOKEN st (b, w) ?p (int ?p - 1)"
  have "token_put (length w) 0 ((typed_token b w)\<lparr>tk_parent := Some k, tk_node := m\<rparr>) = Inl Out_of_bounds"
    using assms(3) by (subst put_end) simp
  then have "cparser_tok_space priv ?M = Inl Out_of_bounds"
    using assms(4,5) st by (simp add: cparser_tok_space_def Let_def del: length_append)
  then have "cparser_fsm_input cs priv space ?M = Inl Out_of_bounds"
    using assms(7,9) by (simp add: input_space fsm_apply_def cparser_state_func_def del: length_append)
  then show ?thesis using g(1) is_machine_fault [OF g(2)] by blast
qed

section \<open>A full line\<close>

text \<open>
  The machine has no room for another character, and the word at the end of the line is all there.
\<close>

definition line_full :: "('g, 'a) cparser \<Rightarrow> bool" where
  "line_full p \<longleftrightarrow> p_user p = None \<and> plain_char (p_chars p) space \<and> current_pos (p_fsm p) \<ge> CPARSER_MAX_LINE_SIZE - 1 \<and>
     fsm_state (p_fsm p) = CPARSER_STATE_TOKEN \<and>
     (\<exists>m. p_match p = Inr (1, Some m, True) \<and>
        (n_type m = CPARSER_NODE_STRING \<or> n_type m = CPARSER_NODE_KEYWORD \<and> n_param m = Text (token_text (cur_token (p_fsm p)))))"

text \<open>Parsers that differ in their lines and their output only.\<close>

definition same_machine :: "('g, 'a) cparser \<Rightarrow> ('g, 'a) cparser \<Rightarrow> bool" where
  "same_machine p q \<longleftrightarrow> p_user q = p_user p \<and> p_chars q = p_chars p \<and> p_fsm q = p_fsm p \<and> p_privileged q = p_privileged p"

lemma full_same: "same_machine p q \<Longrightarrow> line_full p \<Longrightarrow> line_full q"
  by (simp add: line_full_def same_machine_def p_match_def)

lemma full_space:
  assumes "line_full p"
  shows "(\<exists>q. cparser_input n E space CPARSER_CHAR_REGULAR p = ok (CPARSER_OK, q) \<and> same_machine p q) \<or>
    cparser_input n E space CPARSER_CHAR_REGULAR p = None"
proof (cases n)
  case (Suc k)
  obtain rc l v where i: "cparser_line_insert space (this_line (p_lines p)) = (rc, l, v)"
    by (cases "cparser_line_insert space (this_line (p_lines p))")
  have u: "cparser_is_user_input p = Inr False" using assms by (simp add: line_full_def cparser_is_user_input_def)
  let ?q = "p_write v (p_set_line l p)"
  have e: "edit_key space CPARSER_CHAR_REGULAR p = Inr (Goes_on space ?q)"
    using assms i by (simp add: edit_key_def Let_def line_full_def plain_char_def)
  have "p_fsm_input space ?q = Inr (p_write [bell] (?q\<lparr>p_fsm := p_fsm p\<rparr>))"
    using assms by (simp add: p_fsm_input_def cparser_fsm_input_def line_full_def plain_char_def)
  then have "cparser_input n E space CPARSER_CHAR_REGULAR p = ok (CPARSER_OK, p_write [bell] (?q\<lparr>p_fsm := p_fsm p\<rparr>))"
    using assms by (simp add: Suc input_body_def u e act_on_def line_full_def plain_char_def)
  moreover have "same_machine p (p_write [bell] (?q\<lparr>p_fsm := p_fsm p\<rparr>))" by (simp add: same_machine_def)
  ultimately show ?thesis by blast
qed simp

lemma full_level:
  assumes "line_full p"
  shows "(\<exists>q. cparser_complete_one_level E (\<lambda>c. cparser_input n E c CPARSER_CHAR_REGULAR) p = ok (True, q) \<and> same_machine p q) \<or>
    cparser_complete_one_level E (\<lambda>c. cparser_input n E c CPARSER_CHAR_REGULAR) p = None"
proof -
  let ?inp = "\<lambda>c. cparser_input n E c CPARSER_CHAR_REGULAR"
  obtain m where m: "p_match p = Inr (1, Some m, True)" "fsm_state (p_fsm p) = CPARSER_STATE_TOKEN"
    "n_type m = CPARSER_NODE_STRING \<or> n_type m = CPARSER_NODE_KEYWORD \<and> n_param m = Text (token_text (cur_token (p_fsm p)))"
    using assms by (auto simp: line_full_def)
  have c: "cparser_complete_fn E ?inp m (token_text (cur_token (p_fsm p))) p = ok p"
    using m(3) by (auto simp: cparser_complete_fn_def cparser_complete_keyword_def param_text_def text_behind_def)
  have "cparser_complete_one_level E ?inp p = bind (type_char ?inp space p) (\<lambda>p. ok (True, p))"
    using m(1,2) c by (simp add: cparser_complete_one_level_def Let_def)
  then show ?thesis using full_space [OF assms, of n E] by (auto simp: type_char_def)
qed

lemma full_levels:
  assumes "line_full p"
  shows "complete_levels k E (\<lambda>c. cparser_input n E c CPARSER_CHAR_REGULAR) p = None"
  using assms
proof (induction k arbitrary: p)
  case (Suc k)
  from full_level [OF Suc.prems, of E n] Suc.IH full_same [OF _ Suc.prems] show ?case by auto
qed simp

text \<open>
  C25. Completion on a full line does not return: the machine refuses the space behind the complete word, and completion
  tries again for ever, whatever the fuel.
\<close>

theorem full_line_hangs:
  assumes "line_full p"
  shows "cparser_input n E (ch_complete (p_chars p)) CPARSER_CHAR_REGULAR p = None"
proof (cases n)
  case (Suc k)
  have u: "cparser_is_user_input p = Inr False" using assms by (simp add: line_full_def cparser_is_user_input_def)
  show ?thesis
    using full_levels [OF assms, of k E k]
    by (simp add: Suc input_body_def u edit_key_def Let_def act_on_def)
qed simp

section \<open>The end of the input\<close>

lemma key_at_end:
  assumes "p_user p = None"
  shows "cparser_input (Suc m) E c CPARSER_CHAR_UNKNOWN p = ok (CPARSER_NOT_OK, p_write [bell] p)"
  using assms by (simp add: input_body_def cparser_is_user_input_def edit_key_def Let_def)

text \<open>
  At the end of its input the loop does not end: the missing character counts as an unknown key, which rings the
  bell, and the loop goes on reading.
\<close>

theorem end_of_input_spins:
  assumes "\<not> p_done p" "p_user p = None"
  shows "cparser_loop n m E [] p = None \<and>
    cparser_loop (Suc n) (Suc m) E [] p = cparser_loop n (Suc m) E [] (p_write [bell] p)"
proof -
  have g: "cparser_unix_getch cs [] = (- 1, CPARSER_CHAR_UNKNOWN, [])" for cs by (simp add: cparser_unix_getch_def)
  have "cparser_loop n m E [] q = None" if "\<not> p_done q" "p_user q = None" for q
    using that
  proof (induction n arbitrary: q)
    case (Suc n)
    show ?case
    proof (cases m)
      case 0
      then show ?thesis using Suc.prems by (simp add: g)
    next
      case (Suc k)
      then show ?thesis using Suc.prems key_at_end [OF Suc.prems(2), of k E "- 1"] Suc.IH [of "p_write [bell] q"]
        by (simp add: g del: cparser_input.simps)
    qed
  qed simp
  then show ?thesis using assms key_at_end [OF assms(2), of m E "- 1"] by (simp add: g del: cparser_input.simps)
qed

end
