(* ===== verification/ConsoleExamples.thy ===== *)
theory ConsoleExamples
  imports ConsoleProps CliLimits
begin

text \<open>
  The theorems on the parser, applied to the command tree of the interactive client: lines that are typed, erased, too
  long for a token or for the machine, and the end of the input.
\<close>

section \<open>Lines with two long words\<close>

lemma publish_word:
  assumes "w \<noteq> []" "length w \<le> CPARSER_MAX_TOKEN_SIZE" "space \<notin> set w"
  obtains k nm n where "leads priv cparser_root [ascii ''publish''] k" "typable priv k w"
    "cparser_match priv w (Some k) = Inr (1, Some (string_node nm n), True)"
  using publish_leads [of priv] string_typable [OF assms] string_match
  unfolding cparser_node_publish_def keyword_node_def by metis

lemma letters_plain: "plain_char console_chars 97" "\<not> erases console_chars 97" "\<not> erases console_chars space" "plain_char console_chars space"
  by (simp_all add: plain_char_def erases_def console_chars_def)

lemma publish_plain: "\<forall>c\<in>set (ascii ''publish''). plain_char console_chars c"
  by (simp add: ascii_def plain_char_def erases_def console_chars_def)

lemma publish_line: "line_of_words [ascii ''publish''] = ascii ''publish'' @ [space]"
  by (simp add: line_of_words_def)

text \<open>A topic of 256 characters.\<close>

lemma long_word_overflows_witness:
  "\<forall>f0. \<exists>f. fsm_feed console_chars False (ascii ''publish '' @ replicate 256 97) (cparser_fsm_reset cparser_root f0) = Inr f \<and>
    cparser_fsm_input console_chars False space f = Inl Out_of_bounds"
proof -
  let ?w = "replicate 256 97 :: bytes"
  have w: "?w \<noteq> []" "length ?w \<le> CPARSER_MAX_TOKEN_SIZE" "space \<notin> set ?w" by (simp_all add: CPARSER_MAX_TOKEN_SIZE_def)
  obtain k nm n where k: "leads False cparser_root [ascii ''publish''] k" "typable False k ?w"
    "cparser_match False ?w (Some k) = Inr (1, Some (string_node nm n), True)"
    by (rule publish_word [OF w])
  have e: "\<forall>c\<in>set (line_of_words [ascii ''publish''] @ ?w). \<not> erases console_chars c"
    using publish_plain letters_plain by (auto simp: publish_line plain_char_def)
  have l: "length (line_of_words [ascii ''publish''] @ ?w) < CPARSER_MAX_LINE_SIZE - 1"
    "length [ascii ''publish''] < CPARSER_MAX_NUM_TOKENS" "length ?w = CPARSER_MAX_TOKEN_SIZE"
    by (simp_all add: publish_line CPARSER_MAX_LINE_SIZE_def CPARSER_MAX_NUM_TOKENS_def CPARSER_MAX_TOKEN_SIZE_def)
  have a: "line_of_words [ascii ''publish''] @ ?w = ascii ''publish '' @ ?w" by (simp add: publish_line) (simp add: ascii_def)
  from long_word_overflows [OF k(1,2) l(3) k(3) _ l(2,1) e letters_plain(3)] show ?thesis unfolding a by blast
qed

text \<open>A line of 382 characters: a topic of 200 and a message of 173.\<close>

lemma full_line_reached:
  "\<exists>p :: cli. line_full p \<and> in_step p \<and> p_root p = cparser_root \<and> p_chars p = console_chars \<and>
    line_text (this_line (p_lines p)) = ascii ''publish '' @ replicate 200 97 @ [space] @ replicate 173 97"
proof -
  let ?t = "replicate 200 97 :: bytes" and ?w = "replicate 173 97 :: bytes" and ?l = "ascii ''publish '' @ replicate 200 97 @ [space] @ replicate 173 97"
  have t: "word_ok ?t" "word_ok ?w" by (simp_all add: word_ok_def CPARSER_MAX_TOKEN_SIZE_def)
  define m where "m = string_node ''<STRING:message>'' (eol_node Publish_topic_message ''Publish a message on topic'')"
  define k where "k = string_node ''<STRING:topic>'' m"
  have pub: "cparser_node_publish = Node CPARSER_NODE_KEYWORD 0 (Text (ascii ''publish'')) None [k]"
    by (simp add: cparser_node_publish_def keyword_node_def k_def m_def)
  have "leads False cparser_node_publish [?t] k" unfolding pub k_def by (rule string_leads [OF t(1)])
  then have lead: "leads False cparser_root [ascii ''publish'', ?t] k"
    using leads_append [OF publish_leads, of False "[?t]" k] by simp
  have kw: "typable False k ?w" "cparser_match False ?w (Some k) = Inr (1, Some m, True)"
    using string_typable [of ?w] t(2) string_match unfolding k_def m_def string_node_def [of "''<STRING:topic>''"] word_ok_def by auto
  have l: "line_of_words [ascii ''publish'', ?t] @ ?w = ?l" "length ?l = 382"
    by (simp_all add: line_of_words_def) (simp add: ascii_def)
  have plain: "\<forall>c\<in>set ?l. plain_char console_chars c"
    by (simp add: ascii_def plain_char_def erases_def console_chars_def)
  have len: "length ?l < CPARSER_MAX_LINE_SIZE" using l(2) by (simp add: CPARSER_MAX_LINE_SIZE_def)
  have e: "\<forall>c\<in>set (line_of_words [ascii ''publish'', ?t] @ ?w). \<not> erases console_chars c"
    unfolding l(1) using plain by (simp add: plain_char_def)
  obtain g b st where g: "fsm_feed console_chars False (line_of_words [ascii ''publish'', ?t] @ ?w) (cparser_fsm_reset cparser_root f0) = Inr g"
    "is_machine k CPARSER_STATE_TOKEN st (b, ?w) (length (line_of_words [ascii ''publish'', ?t] @ ?w)) g"
    by (rule words_machine [OF lead kw(1) _ e]) (use len in \<open>simp_all only: l(1)\<close>, simp add: CPARSER_MAX_NUM_TOKENS_def)
  note c = is_machine_current [OF g(2)]
  let ?p = "parser_with console_chars False cparser_root (ascii ''c>> '') \<lparr>con_client = Some Starting, con_keyfile = [], con_keys = calloc_keys\<rparr> ?l g"
  have bs: "erases console_chars backspace" by (simp add: erases_def console_chars_def)
  have "in_step ?p" by (rule parser_with_in_step [OF len plain bs g(1) [unfolded l(1)]])
  moreover have "line_text (this_line (p_lines ?p)) = ?l" by (simp only: parser_with_line(2) [OF len plain] line_of_texts append_Nil2)
  moreover have "current_pos g = 382" using is_machine_pos [OF g(2)] by (simp only: l)
  then have "line_full ?p"
    using c(1-3) kw(2) letters_plain(4)
    by (simp add: line_full_def p_match_def CPARSER_MAX_LINE_SIZE_def) (simp add: m_def string_node_def)
  ultimately show ?thesis by (intro exI [of _ ?p]) simp
qed

lemma full_line_hangs_witness:
  "\<exists>p :: cli. in_step p \<and> line_text (this_line (p_lines p)) = ascii ''publish '' @ replicate 200 97 @ [space] @ replicate 173 97 \<and>
    (\<forall>n. cparser_input n (cli_env ex_env) 9 CPARSER_CHAR_REGULAR p = None)"
proof -
  obtain p :: cli where p: "line_full p" "in_step p" "p_chars p = console_chars"
    "line_text (this_line (p_lines p)) = ascii ''publish '' @ replicate 200 97 @ [space] @ replicate 173 97"
    using full_line_reached by blast
  have "ch_complete (p_chars p) = 9" using p(3) by (simp add: console_chars_def)
  then show ?thesis using full_line_hangs [OF p(1), of _ "cli_env ex_env"] p(2,4) by (intro exI [of _ p]) simp
qed

section \<open>A key, and its erasure\<close>

lemma ex_first_key:
  obtains g where "cparser_fsm_input console_chars False 112 (cparser_fsm_reset cparser_root f0) = Inr (g, [])"
proof -
  have "typable False cparser_root (ascii ''publish'')" using publish_leads [of False] by (auto elim: leads_Cons)
  moreover have "prefix [112] (ascii ''publish'')" by (simp add: ascii_def)
  ultimately show ?thesis
    using feed_first [OF is_machine_reset, of False cparser_root "ascii ''publish''" 112 console_chars f0] that
    by (auto simp: erases_def console_chars_def CPARSER_MAX_LINE_SIZE_def)
qed

lemma erase_undoes_witness:
  "\<forall>f0. \<exists>g h. cparser_fsm_input console_chars False 112 (cparser_fsm_reset cparser_root f0) = Inr (g, []) \<and>
    cparser_fsm_input console_chars False 127 g = Inr (h, []) \<and> forget h = forget (cparser_fsm_reset cparser_root f0)"
proof
  fix f0
  obtain g where g: "cparser_fsm_input console_chars False 112 (cparser_fsm_reset cparser_root f0) = Inr (g, [])" by (rule ex_first_key)
  have "fsm_feed console_chars False [] (cparser_fsm_reset cparser_root f0) = Inr (cparser_fsm_reset cparser_root f0)" by (simp add: fsm_feed_def)
  from erase_undoes [OF this _ _ g, of 127] g
  show "\<exists>g h. cparser_fsm_input console_chars False 112 (cparser_fsm_reset cparser_root f0) = Inr (g, []) \<and>
    cparser_fsm_input console_chars False 127 g = Inr (h, []) \<and> forget h = forget (cparser_fsm_reset cparser_root f0)" by (simp add: erases_def console_chars_def CPARSER_MAX_LINE_SIZE_def)
qed

lemma editing_in_step_witness:
  "\<exists>(p :: cli) q. p_root p = cparser_root \<and> cparser_input 1 (cli_env ex_env) 112 CPARSER_CHAR_REGULAR p = ok (CPARSER_OK, q) \<and> in_step q"
proof -
  obtain p where p: "ready p ex_client0" using console_starts [OF ex_console_starts] by blast
  then have c: "in_step p" "this_line (p_lines p) = line_of [] []" "p_chars p = console_chars" "p_root p = cparser_root"
    by (simp_all add: ready_def at_prompt_def)
  have e: "editing p 112 CPARSER_CHAR_REGULAR" "chars_ok (p_chars p)"
    using c by (simp_all add: editing_def plain_char_def erases_def console_chars_def chars_ok_def cparser_line_last_def CPARSER_MAX_LINE_SIZE_def)
  have pl: "\<forall>b\<in>set [112]. plain_char console_chars b" by (simp add: plain_char_def erases_def console_chars_def)
  have "typable (p_privileged p) cparser_root (ascii ''publish'')" using publish_leads by (auto elim: leads_Cons)
  moreover have "prefix [112] (ascii ''publish'')" by (simp add: ascii_def)
  ultimately obtain g where "cparser_fsm_input console_chars (p_privileged p) 112 (cparser_fsm_reset cparser_root (p_fsm p)) = Inr (g, [])"
    using feed_first [OF is_machine_reset, of "p_privileged p" cparser_root "ascii ''publish''" 112 console_chars "p_fsm p"]
    by (auto simp: erases_def console_chars_def CPARSER_MAX_LINE_SIZE_def)
  then have "fsm_feed (p_chars p) (p_privileged p) ([] @ [112]) (cparser_fsm_reset (p_root p) (p_fsm p)) = Inr g"
    using c by (simp add: fsm_feed_def)
  then obtain q where q: "cparser_input (Suc 0) (cli_env ex_env) 112 CPARSER_CHAR_REGULAR p = ok (CPARSER_OK, q)"
    using type_key [OF c(1,2), of 112 "p_fsm p" g 0 "cli_env ex_env"] pl c(3) by (auto simp: CPARSER_MAX_LINE_SIZE_def)
  from editing_in_step [OF c(1) e q] q c(4) show ?thesis by auto
qed

section \<open>No more input\<close>

lemma end_of_input_spins_witness:
  "\<exists>p :: cli. \<forall>n m. cparser_loop n m (cli_env ex_env) [] p = None"
proof -
  obtain p where p: "ready p ex_client0" using console_starts [OF ex_console_starts] by blast
  then have "\<not> p_done p" "p_user p = None" by (simp_all add: ready_def at_prompt_def in_step_def)
  then show ?thesis using end_of_input_spins [of p] by blast
qed

end
