(* ===== verification/Spec2Isabelle.thy ===== *)
theory Spec2Isabelle
  imports Base64 Timers Upstream BrokerPair PubSubProps Nonces Provision KeyGen Rest Daemon XXHash64 Murmur Threaded
    BrokerEnd CliDisplay CliValues ConsoleExamples
begin

text \<open>
  DoubleDecker is a hierarchical messaging system. Clients of several tenants connect to a broker, brokers connect to
  a broker above them, and messages travel point to point (SEND, FORWARD, DATA) or by publish and subscribe. This
  development models the C implementation under \<open>src/\<close>: the broker, the client library, the key files, the data
  structures they are built on, the programs around them that decide how a broker starts and which keys there are, and
  the interactive client with its command-line parser.

  The parts and how they interact.

  A client (\<open>client.c\<close>) sends ADDLCL with the hash of its tenant; the broker (\<open>broker.c\<close>) answers with a
  challenge, the tenant's cookie encrypted under the key that both sides computed from their key files (\<open>keys.c\<close>,
  over the base64 codec); the client sends the cookie back in CHALLOK and is entered in the tables (\<open>htable.c\<close>,
  keyed by \<open>xxhash.c\<close>). From then on its messages carry socket id and cookie, and the two together are looked up for
  every command. Subscriptions are kept in a patricia trie (\<open>trie.c\<close>) under tenant, topic and scope. A lower broker
  registers with a higher one in the same way, announces its clients, and the pairs of publish and subscribe sockets
  between the two carry publications. Timers age clients, lower brokers and the connection upwards.

  The interactive client (\<open>ddclient.c\<close>) reads keys from a terminal. The command-line parser (\<open>src/cli_parser\<close>) puts them
  on a line with a cursor and a history (\<open>cparser_line.c\<close>) and feeds them to a state machine that takes the line apart
  into tokens along a command tree (\<open>cparser_fsm.c\<close>, \<open>cparser_token.c\<close>); Enter executes the glue function at the end
  of a command (\<open>cparser.c\<close>, \<open>cparser_tree.c\<close>), which calls the client library with the words of the line.

  Conventions. A frame, a C string and a buffer are byte lists. Machine integers have their width (\<open>u8\<close>, \<open>u32\<close>,
  \<open>u64\<close>); \<open>int\<close> stands for the counters that cannot overflow within the bounds shown. A C function that can leave
  defined behaviour, fail an assertion or exit returns \<open>fault + 'a\<close>: a NULL dereference, a use after free, the read of
  something not set, an access out of bounds, a variadic call without one of its arguments, \<open>assert\<close>, \<open>exit\<close>. State is passed explicitly; what a component sends is
  appended to a log in its state. CZMQ, libsodium, liburcu, json-c, getopt and the file system are parameters (the
  records \<open>ext\<close>, \<open>keylib\<close>, \<open>keygenlib\<close>, \<open>restlib\<close>, \<open>host\<close>); what is assumed of them is a named
  hypothesis where it is used, such as \<open>same_box\<close> (what one side encrypts the other decrypts) or \<open>reads_back\<close>.

  The theories and the code they model.

  \<^item> \<open>DD_Prelude\<close>: faults, results, loops over lists that may fault, little-endian reads and writes, \<open>strchr\<close>,
    \<open>strtok\<close>, \<open>snprintf\<close>.
  \<^item> \<open>Stripes\<close>, \<open>XXHash\<close>, \<open>XXHash64\<close>, \<open>Murmur\<close> (\<open>src/hash\<close>): the hashes. The locale \<open>striped\<close> is what
    a hash has to show of its stripe, \<open>stream_hash\<close> the contract of a streaming hash; both are interpreted for XXH32
    and XXH64.
  \<^item> \<open>Base64\<close> (\<open>cencode.c\<close>, \<open>cdecode.c\<close>): the two coroutines as state machines.
  \<^item> \<open>Trie\<close>, \<open>TrieSpec\<close>, \<open>TrieOps\<close>, \<open>TopicIndex\<close> (\<open>trie.c\<close>): the nodes with their sparse and dense child
    arrays; what a node denotes, a map from strings to subscribed sockets; the operations against that denotation; and the
    locale \<open>topic_index\<close>, interpreted on the trie, from which lookups after any history follow.
  \<^item> \<open>Protocol\<close>, \<open>Tables\<close> (\<open>protocol.h\<close>, \<open>broker.h\<close>, \<open>htable.c\<close>): commands, the broker's state, the tables and
    their lookups, which compare as the code does (a prefix of the stored name among the nodes of one hash).
  \<^item> \<open>Broker\<close>, \<open>Routing\<close>, \<open>PubSub\<close>, \<open>BrokerLoop\<close>, \<open>Config\<close> (\<open>broker.c\<close>): one definition per handler;
    \<open>handle\<close> is one turn of the loop, \<open>broker_step\<close> and \<open>broker_run\<close> its runs, \<open>dd_broker_actor\<close> the start. \<open>BrokerEnd\<close>:
    the start in the thread of the caller, the command to stop, and the teardown.
  \<^item> \<open>Rest\<close>: the REST interface and the actor that serves it. \<open>Daemon\<close>: the program \<open>ddbroker.c\<close>.
  \<^item> \<open>SubList\<close>, \<open>Client\<close> (\<open>sublist.c\<close>, \<open>client.c\<close>): the subscription list with the cursor of \<open>zlistx_t\<close>, and
    the client as an actor; \<open>c_handle\<close> is one turn of its loop. \<open>Threaded\<close>: the client with callbacks, whose
    application calls it between the turns, and that it keeps the actor's invariant.
  \<^item> \<open>Keys\<close> (\<open>keys.c\<close>): \<open>dd_keys_new\<close> and \<open>read_ddbrokerkeys\<close> over the values of json-c. \<open>KeyGen\<close>
    (\<open>ddkeygen.c\<close>): the key generator.
  \<^item> \<open>CliLine\<close>, \<open>CliTokens\<close>, \<open>CliFsm\<close>, \<open>CliParser\<close>, \<open>CliApi\<close> (\<open>src/cli_parser\<close>): one theory per file, the last two
    for \<open>cparser.c\<close> and \<open>cparser_io_unix.c\<close>. The structure \<open>cparser_t\<close> is the record \<open>cparser\<close>, over the names of the
    glue functions and the state of the application; what is printed is appended to \<open>p_out\<close>.
  \<^item> \<open>Console\<close> (\<open>ddclient.c\<close>, \<open>cparser_tree.c\<close>): the commands of the interactive client, its tree, callbacks and start;
    the application of its parser holds the handle of \<open>Threaded\<close>.

  What the lemmas show.

  \<^item> \<open>TableLemmas\<close>, \<open>BrokerInv\<close>, \<open>BrokerAuth\<close>, \<open>Lookups\<close>: \<open>reg_inv\<close>, the invariant of the tables, and that every
    handler keeps it. The locales \<open>handler_invariant\<close> and \<open>table_invariant\<close> turn a property of the table operations
    into one of all handlers; they are interpreted for the registry, for the absence of newcomers, for silence and for
    the connection upwards. Only an authenticated CHALLOK admits a client or a broker.
  \<^item> \<open>RoutingProps\<close>: delivery within one broker, down and up; confinement of messages to their tenant; the error for an
    unknown destination. \<open>PubSubProps\<close>: scopes, the exact audience of a publication, subscription and delivery.
  \<^item> \<open>Timers\<close>, \<open>Upstream\<close>: the timeout checks exactly, removal of silent clients, and the connection upwards as a
    state machine that the loop refines.
  \<^item> \<open>ClientProps\<close>, \<open>Replay\<close>: the client's invariant, what it sends again after a registration.
  \<^item> \<open>Nonces\<close>, \<open>KeyFiles\<close>: the nonce as a counter; the lengths of keys, the fields of a file in any order, and that a
    client's file and the broker's fit together.
  \<^item> \<open>Network\<close>, \<open>BrokerPair\<close>, \<open>Provision\<close>: a broker with its clients, and two brokers, as one system. The handshake of a
    client is stated step by step, each step from any state the broker can be in: with the keys that the two files give,
    the answer of either side is the one the other takes, up to the entry in the tables, or the refusal of a name that is
    taken. The handshake of two brokers is one run of messages. A message notified by one client is reported by the other.
  \<^item> \<open>CliDisplay\<close>: the terminal shows the line. \<open>CliValues\<close>: the values that tokens are read as, and what matches.
    \<open>CliUndo\<close>, \<open>CliEdit\<close>: erasing undoes typing in the state machine, and therefore machine and line stay in step
    however a line is edited. \<open>CliCommand\<close>, \<open>CliEnter\<close>, \<open>CliTyping\<close>: lines whose words lead through a tree, what Enter
    executes, and lines typed key by key. \<open>CliLimits\<close>: words and lines that are too long, and the end of the input.
  \<^item> \<open>ConsoleProps\<close>: the lines typed at the interactive client are the calls on the client library, and what its
    commands and callbacks do with their buffers. \<open>ConsoleExamples\<close> applies the theorems on the parser to its tree.
  \<^item> \<open>Examples\<close>, \<open>Scenario\<close>: concrete brokers on which the witnesses evaluate the properties.

  Bounds and fuel. The loops of the broker, the client and the hashes are recursions with a measure (the bytes left, the
  items behind a cursor, the nodes of the trie). The command-line parser runs on fuel, since some of its loops do not end:
  \<open>cparser_input\<close> takes one unit for each call of itself from within completion, \<open>complete_levels\<close> and
  \<open>single_keywords\<close> one for each turn, and None stands for its exhaustion. For the lines of the properties three units
  are enough, as they show; that a loop does not return is that it is None for every fuel. \<open>cparser_loop\<close> takes one unit
  for each key read. Bounds in the properties are those of the code: buffers of 256, 200 and 128 bytes for names and
  scopes, 33 for a decoded key, 383 characters for a line, 256 for a token, 32 tokens, 16 bytes for a prompt, the \<open>u32\<close>
  counters of subscribers, 2 to the 64 bytes hashed, 35 bytes of a socket id shown in hexadecimal.

  Where the code does not do what it means to, the model follows the code, and either a property states the behaviour
  (subscriptions lost when a node of the trie changes its representation, a heartbeat timer that is never ended, an
  unsubscription that forgets others, generated keys that cannot be read, the private key on the REST socket,
  a token that overflows, a completion that does not return, a message or a request read beyond its end) or a
  property carries the hypothesis that avoids it.

  Not modelled. Of the command-line parser: \<open>cparser_load_cmd\<close>, which nothing calls, the contexts of the levels, its
  debugging output, the settings of the terminal, and the values of tokens that the C library reads (floating point
  numbers, addresses, files). \<open>ddperf.c\<close> and \<open>ddbug.c\<close> are benchmarks; \<open>broker_test.c\<close> and \<open>actor_test.c\<close> are tests.
  Of the broker: logging and printing, the release of the keys at exit, and the concurrency of the REST actor with the loop; the
  model serves a request between two turns. Of the client: the accessors, the logging
  setters, and calls of the application in the middle of a turn. The vector variant of \<open>nonce_increment\<close> (assembler) and the
  big-endian variants of the hashes are left out.
\<close>

end
